(* ===== verification/Prelude.thy ===== *)
theory Prelude
  imports Main "HOL-Library.Word"
begin

unbundle bit_operations_syntax

text \<open>
  Shared vocabulary of the development: widths of the machine integers, the error sum
  every fallible operation returns, decimal printing, runs of a state machine over a
  list of events, and the two locales that lift one-step facts to runs and to crash
  prefixes. Nothing here models a particular source file except the uses of the Rust
  standard library named beside each definition.
\<close>

named_theorems model_defs \<open>definitions unfolded by the component proofs\<close>
named_theorems step_facts \<open>one-step facts of the state machines\<close>

section \<open>Machine integers and time\<close>

type_synonym u8 = "8 word"
type_synonym u16 = "16 word"
type_synonym u32 = "32 word"
type_synonym u64 = "64 word"

text \<open>Points in time and spans of time, both in nanoseconds (\<open>Instant\<close>, \<open>Duration\<close>).\<close>

type_synonym instant = nat
type_synonym duration = nat

abbreviation nanos_per_sec :: nat where
  "nanos_per_sec \<equiv> 1000000000"

definition from_secs :: "nat \<Rightarrow> duration" where
  "from_secs n = n * nanos_per_sec"

definition as_secs :: "duration \<Rightarrow> nat" where
  "as_secs d = d div nanos_per_sec"

definition from_millis :: "nat \<Rightarrow> duration" where
  "from_millis n = n * 1000000"

definition as_millis :: "duration \<Rightarrow> nat" where
  "as_millis d = d div 1000000"

lemma as_secs_from_secs [simp]: "as_secs (from_secs n) = n"
  by (simp add: as_secs_def from_secs_def)

lemma as_millis_from_millis [simp]: "as_millis (from_millis n) = n"
  by (simp add: as_millis_def from_millis_def)

abbreviation u32_max :: nat where
  "u32_max \<equiv> 4294967295"

abbreviation u64_max :: nat where
  "u64_max \<equiv> 18446744073709551615"

text \<open>\<open>u32::saturating_add(1)\<close> and \<open>u64::saturating_add(1)\<close> on the value of the word.\<close>

definition sat_succ :: "nat \<Rightarrow> nat \<Rightarrow> nat" where
  "sat_succ hi n = (if n < hi then Suc n else hi)"

lemma sat_succ_le: "n \<le> hi \<Longrightarrow> sat_succ hi n \<le> hi"
  by (simp add: sat_succ_def)

lemma sat_succ_ge: "n \<le> hi \<Longrightarrow> n \<le> sat_succ hi n"
  by (simp add: sat_succ_def)

lemma sat_succ_gt [simp]: "n < hi \<Longrightarrow> sat_succ hi n = Suc n"
  by (simp add: sat_succ_def)

section \<open>Results\<close>

text \<open>\<open>Result<T, E>\<close> is \<open>'e + 'a\<close> with \<open>Err\<close> on the left; \<open>and_then\<close> is the question-mark operator.\<close>

type_synonym ('e, 'a) result = "'e + 'a"

abbreviation Err :: "'e \<Rightarrow> ('e, 'a) result" where "Err \<equiv> Inl"
abbreviation Ok :: "'a \<Rightarrow> ('e, 'a) result" where "Ok \<equiv> Inr"

fun and_then :: "('e, 'a) result \<Rightarrow> ('a \<Rightarrow> ('e, 'b) result) \<Rightarrow> ('e, 'b) result" where
  "and_then (Inl e) f = Inl e"
| "and_then (Inr a) f = f a"

fun map_err :: "('e \<Rightarrow> 'f) \<Rightarrow> ('e, 'a) result \<Rightarrow> ('f, 'a) result" where
  "map_err f (Inl e) = Inl (f e)"
| "map_err f (Inr a) = Inr a"

fun ok_or :: "'e \<Rightarrow> 'a option \<Rightarrow> ('e, 'a) result" where
  "ok_or e None = Inl e"
| "ok_or e (Some a) = Inr a"

lemma and_then_Ok_iff: "and_then r f = Inr b \<longleftrightarrow> (\<exists>a. r = Inr a \<and> f a = Inr b)"
  by (cases r) auto

lemma and_then_Err_iff: "and_then r f = Inl e \<longleftrightarrow> r = Inl e \<or> (\<exists>a. r = Inr a \<and> f a = Inl e)"
  by (cases r) auto

lemma ok_or_Ok_iff [simp]: "ok_or e x = Inr a \<longleftrightarrow> x = Some a"
  by (cases x) auto

lemma ok_or_Err_iff [simp]: "ok_or e x = Inl f \<longleftrightarrow> x = None \<and> f = e"
  by (cases x) auto

lemma map_err_Ok_iff [simp]: "map_err f r = Inr a \<longleftrightarrow> r = Inr a"
  by (cases r) auto

lemma map_err_Err_iff: "map_err f r = Inl e \<longleftrightarrow> (\<exists>e'. r = Inl e' \<and> e = f e')"
  by (cases r) auto

section \<open>Decimal text\<close>

text \<open>\<open>Display\<close> of an unsigned integer.\<close>

definition digit_char :: "nat \<Rightarrow> char" where
  "digit_char d = char_of (48 + d)"

fun show_nat :: "nat \<Rightarrow> string" where
  "show_nat n = (if n < 10 then [digit_char n] else show_nat (n div 10) @ [digit_char (n mod 10)])"

declare show_nat.simps [simp del]

definition is_digit :: "char \<Rightarrow> bool" where
  "is_digit c \<longleftrightarrow> 48 \<le> (of_char c :: nat) \<and> (of_char c :: nat) \<le> 57"

definition digit_val :: "char \<Rightarrow> nat" where
  "digit_val c = of_char c - 48"

lemma digit_char_digit: "d < 10 \<Longrightarrow> is_digit (digit_char d) \<and> digit_val (digit_char d) = d"
  by (simp add: digit_char_def is_digit_def digit_val_def of_char_of)

fun read_digits :: "nat \<Rightarrow> string \<Rightarrow> nat option" where
  "read_digits acc [] = Some acc"
| "read_digits acc (c # cs) = (if is_digit c then read_digits (10 * acc + digit_val c) cs else None)"

text \<open>
  \<open>str::parse\<close> for an unsigned integer of largest value \<open>hi\<close>: an optional leading plus,
  at least one digit, every character a digit, no overflow.
\<close>

definition parse_uint :: "nat \<Rightarrow> string \<Rightarrow> nat option" where
  "parse_uint hi s =
     (let t = (case s of c # cs \<Rightarrow> (if c = CHR ''+'' then cs else s) | [] \<Rightarrow> [])
      in if t = [] then None
         else case read_digits 0 t of None \<Rightarrow> None | Some n \<Rightarrow> if n \<le> hi then Some n else None)"

lemma show_nat_nonempty [simp]: "show_nat n \<noteq> []"
  by (subst show_nat.simps) simp

lemma show_nat_digits: "c \<in> set (show_nat n) \<Longrightarrow> is_digit c"
proof (induction n arbitrary: c rule: show_nat.induct)
  case (1 n)
  show ?case
  proof (cases "n < 10")
    case True
    with 1 show ?thesis by (simp add: show_nat.simps [of n] digit_char_digit)
  next
    case False
    with 1 show ?thesis by (auto simp: show_nat.simps [of n] digit_char_digit)
  qed
qed

lemma read_digits_snoc:
  "read_digits acc (cs @ [c]) =
     (case read_digits acc cs of None \<Rightarrow> None
      | Some n \<Rightarrow> if is_digit c then Some (10 * n + digit_val c) else None)"
  by (induction cs arbitrary: acc) auto

lemma read_show_nat: "read_digits 0 (show_nat n) = Some n"
proof (induction n rule: show_nat.induct)
  case (1 n)
  show ?case
  proof (cases "n < 10")
    case True
    then show ?thesis by (simp add: show_nat.simps [of n] digit_char_digit)
  next
    case False
    with 1 show ?thesis
      by (simp add: show_nat.simps [of n] read_digits_snoc digit_char_digit)
  qed
qed

lemma parse_show_nat: "n \<le> hi \<Longrightarrow> parse_uint hi (show_nat n) = Some n"
proof -
  assume n: "n \<le> hi"
  have "hd (show_nat n) \<noteq> CHR ''+''"
    using show_nat_digits [of "hd (show_nat n)" n] by (auto simp: is_digit_def)
  with n read_show_nat [of n] show ?thesis
    by (cases "show_nat n") (auto simp: parse_uint_def Let_def)
qed

lemma parse_uint_bound: "parse_uint hi s = Some n \<Longrightarrow> n \<le> hi"
  by (auto simp: parse_uint_def Let_def split: option.splits if_splits)

section \<open>Splitting text\<close>

text \<open>\<open>str::split\<close> at every occurrence of one character: always at least one piece.\<close>

fun split_on :: "char \<Rightarrow> string \<Rightarrow> string list" where
  "split_on d [] = [[]]"
| "split_on d (c # cs) =
     (if c = d then [] # split_on d cs
      else case split_on d cs of [] \<Rightarrow> [[c]] | p # ps \<Rightarrow> (c # p) # ps)"

fun join_with :: "char \<Rightarrow> string list \<Rightarrow> string" where
  "join_with d [] = []"
| "join_with d [p] = p"
| "join_with d (p # ps) = p @ d # join_with d ps"

lemma split_on_nonempty [simp]: "split_on d s \<noteq> []"
  by (induction s) (auto split: list.splits)

lemma join_split: "join_with d (split_on d s) = s"
proof (induction s)
  case Nil
  then show ?case by simp
next
  case (Cons c cs)
  obtain p ps where ps: "split_on d cs = p # ps"
    by (cases "split_on d cs") auto
  with Cons.IH show ?case
    by (cases ps) auto
qed

lemma split_on_pieces: "p \<in> set (split_on d s) \<Longrightarrow> d \<notin> set p"
proof (induction s arbitrary: p)
  case Nil
  then show ?case by simp
next
  case (Cons c cs)
  obtain q qs where qs: "split_on d cs = q # qs"
    by (cases "split_on d cs") auto
  with Cons show ?case by (auto split: if_splits)
qed

lemma split_on_no_sep: "d \<notin> set s \<Longrightarrow> split_on d s = [s]"
  by (induction s) auto

lemma split_on_append:
  "d \<notin> set p \<Longrightarrow> split_on d (p @ d # s) = p # split_on d s"
  by (induction p) auto

section \<open>Lines and fields\<close>

text \<open>\<open>char::is_whitespace\<close> on the ASCII range, and \<open>str::trim\<close>.\<close>

definition is_space :: "char \<Rightarrow> bool" where
  "is_space c \<longleftrightarrow> (let n = (of_char c :: nat) in (9 \<le> n \<and> n \<le> 13) \<or> n = 32)"

definition trim_start :: "string \<Rightarrow> string" where
  "trim_start s = dropWhile is_space s"

definition trim :: "string \<Rightarrow> string" where
  "trim s = rev (trim_start (rev (trim_start s)))"

abbreviation newline :: char where
  "newline \<equiv> CHR 0x0A"

text \<open>\<open>str::lines\<close>: no line after a final newline, a carriage return before a newline dropped.\<close>

definition strip_cr :: "string \<Rightarrow> string" where
  "strip_cr l = (if l \<noteq> [] \<and> last l = CHR 0x0D then butlast l else l)"

definition lines :: "string \<Rightarrow> string list" where
  "lines s = (let ps = split_on newline s
     in if last ps = [] then map strip_cr (butlast ps)
        else map strip_cr (butlast ps) @ [last ps])"

text \<open>\<open>str::split_once\<close> at a character.\<close>

fun split_once :: "char \<Rightarrow> string \<Rightarrow> (string \<times> string) option" where
  "split_once d [] = None"
| "split_once d (c # cs) = (if c = d then Some ([], cs)
     else map_option (\<lambda>(a, b). (c # a, b)) (split_once d cs))"

text \<open>\<open>Iterator::find_map\<close>.\<close>

fun find_map :: "('a \<Rightarrow> 'b option) \<Rightarrow> 'a list \<Rightarrow> 'b option" where
  "find_map f [] = None"
| "find_map f (x # xs) = (case f x of None \<Rightarrow> find_map f xs | Some y \<Rightarrow> Some y)"

lemma digit_not_space: "is_digit c \<Longrightarrow> \<not> is_space c"
  by (auto simp: is_digit_def is_space_def Let_def)

lemma trim_start_no_space: "(\<And>c. c \<in> set s \<Longrightarrow> \<not> is_space c) \<Longrightarrow> trim_start s = s"
  by (cases s) (auto simp: trim_start_def)

lemma trim_end_space:
  assumes "\<And>c. c \<in> set s \<Longrightarrow> \<not> is_space c" and "is_space w"
  shows "trim (s @ [w]) = s"
proof (cases s)
  case Nil
  with assms(2) show ?thesis by (simp add: trim_def trim_start_def)
next
  case (Cons c cs)
  with assms have "trim_start (s @ [w]) = s @ [w]" by (simp add: trim_start_def)
  moreover have "trim_start (rev s) = rev s" using assms(1) by (intro trim_start_no_space) simp
  ultimately show ?thesis using assms(2) by (simp add: trim_def trim_start_def)
qed

lemma newline_space [simp]: "is_space newline"
  by (simp add: is_space_def)

lemma trim_show_nat [simp]: "trim (show_nat n @ [newline]) = show_nat n"
  by (rule trim_end_space) (auto dest: show_nat_digits digit_not_space)

text \<open>What a program wrote line by line is read back line by line.\<close>

definition write_lines :: "string list \<Rightarrow> string" where
  "write_lines ls = concat (map (\<lambda>l. l @ [newline]) ls)"

definition plain_line :: "string \<Rightarrow> bool" where
  "plain_line l \<longleftrightarrow> newline \<notin> set l \<and> strip_cr l = l"

lemma split_written: "\<forall>l\<in>set ls. newline \<notin> set l \<Longrightarrow> split_on newline (write_lines ls) = ls @ [[]]"
  by (induction ls) (simp_all add: write_lines_def split_on_append)

lemma lines_written: "\<forall>l\<in>set ls. plain_line l \<Longrightarrow> lines (write_lines ls) = ls"
  by (simp add: lines_def split_written plain_line_def map_idI)

lemma show_nat_plain [simp]: "plain_line (show_nat n)"
proof -
  have "newline \<notin> set (show_nat n)" using show_nat_digits [of newline n] by (auto simp: is_digit_def)
  moreover have "last (show_nat n) \<noteq> CHR 0x0D"
    using show_nat_digits [of "last (show_nat n)" n] by (auto simp: is_digit_def)
  ultimately show ?thesis by (simp add: plain_line_def strip_cr_def)
qed

lemma trim_number [simp]: "trim (show_nat n) = show_nat n"
proof -
  have "trim_start (show_nat n) = show_nat n" "trim_start (rev (show_nat n)) = rev (show_nat n)"
    by (rule trim_start_no_space; auto dest: show_nat_digits digit_not_space)+
  then show ?thesis by (simp add: trim_def)
qed

text \<open>\<open>contains\<close> on texts.\<close>

definition text_contains :: "string \<Rightarrow> string \<Rightarrow> bool" where
  "text_contains t part \<longleftrightarrow> (\<exists>i\<in>{..length t}. take (length part) (drop i t) = part)"

section \<open>Runs of a state machine\<close>

text \<open>Feeding a list of events to a step function, and the outputs it produced, in order.\<close>

fun run :: "('s \<Rightarrow> 'e \<Rightarrow> 's \<times> 'a list) \<Rightarrow> 's \<Rightarrow> 'e list \<Rightarrow> 's \<times> 'a list" where
  "run f s [] = (s, [])"
| "run f s (e # es) =
     (let (s', out) = f s e; (s'', outs) = run f s' es in (s'', out @ outs))"

lemma fst_run_Cons [simp]: "fst (run f s (e # es)) = fst (run f (fst (f s e)) es)"
  by (simp add: case_prod_beta)

lemma snd_run_Cons [simp]:
  "snd (run f s (e # es)) = snd (f s e) @ snd (run f (fst (f s e)) es)"
  by (simp add: case_prod_beta)

lemma fst_run_append: "fst (run f s (xs @ ys)) = fst (run f (fst (run f s xs)) ys)"
  by (induction xs arbitrary: s) (simp_all del: run.simps(2))

lemma snd_run_append:
  "snd (run f s (xs @ ys)) = snd (run f s xs) @ snd (run f (fst (run f s xs)) ys)"
  by (induction xs arbitrary: s) (simp_all del: run.simps(2))

declare run.simps(2) [simp del]

text \<open>
  A state machine with an invariant and a set of outputs it may produce under it. The
  client of the interface is every statement about a whole run.
\<close>

locale guarded_machine =
  fixes step :: "'s \<Rightarrow> 'e \<Rightarrow> 's \<times> 'a list"
    and inv :: "'s \<Rightarrow> bool"
    and allowed :: "'a \<Rightarrow> bool"
  assumes step_inv: "inv s \<Longrightarrow> inv (fst (step s e))"
    and step_allowed: "inv s \<Longrightarrow> a \<in> set (snd (step s e)) \<Longrightarrow> allowed a"
begin

lemma run_inv: "inv s \<Longrightarrow> inv (fst (run step s es))"
  by (induction es arbitrary: s) (simp_all add: step_inv)

lemma run_allowed: "inv s \<Longrightarrow> a \<in> set (snd (run step s es)) \<Longrightarrow> allowed a"
proof (induction es arbitrary: s)
  case Nil
  then show ?case by simp
next
  case (Cons e es)
  then show ?case by (auto dest: step_allowed intro: step_inv)
qed

end

text \<open>
  A quantity that no step lowers: what a ladder, a serial or an allocator of fresh ids
  promises over a whole run.
\<close>

locale monotone_machine = guarded_machine step inv allowed
  for step :: "'s \<Rightarrow> 'e \<Rightarrow> 's \<times> 'a list" and inv and allowed +
  fixes level :: "'s \<Rightarrow> 'l::preorder"
  assumes step_level: "inv s \<Longrightarrow> level s \<le> level (fst (step s e))"
begin

lemma run_level: "inv s \<Longrightarrow> level s \<le> level (fst (run step s es))"
proof (induction es arbitrary: s)
  case Nil
  then show ?case by simp
next
  case (Cons e es)
  from Cons.prems have "level s \<le> level (fst (step s e))" by (rule step_level)
  also have "\<dots> \<le> level (fst (run step (fst (step s e)) es))"
    by (rule Cons.IH) (rule step_inv [OF Cons.prems])
  finally show ?case by simp
qed

end

section \<open>Crash prefixes\<close>

text \<open>
  A transaction is the list of durable writes it performs, in order; a power cut leaves
  some prefix of them on the disk. \<open>crash_points\<close> are all the states a cut can leave.
\<close>

definition apply_writes :: "('s \<Rightarrow> 'w \<Rightarrow> 's) \<Rightarrow> 's \<Rightarrow> 'w list \<Rightarrow> 's" where
  "apply_writes put s ws = foldl put s ws"

definition crash_points :: "('s \<Rightarrow> 'w \<Rightarrow> 's) \<Rightarrow> 's \<Rightarrow> 'w list \<Rightarrow> 's set" where
  "crash_points put s ws = (\<lambda>n. apply_writes put s (take n ws)) ` {..length ws}"

lemma apply_writes_Nil [simp]: "apply_writes put s [] = s"
  by (simp add: apply_writes_def)

lemma apply_writes_Cons [simp]: "apply_writes put s (w # ws) = apply_writes put (put s w) ws"
  by (simp add: apply_writes_def)

lemma apply_writes_append [simp]:
  "apply_writes put s (xs @ ys) = apply_writes put (apply_writes put s xs) ys"
  by (simp add: apply_writes_def)

lemma crash_point_take: "apply_writes put s (take n ws) \<in> crash_points put s ws"
  unfolding crash_points_def by (rule image_eqI [of _ _ "min n (length ws)"]) (simp_all add: min_def)

lemma crash_points_Nil [simp]: "crash_points put s [] = {s}"
  by (simp add: crash_points_def)

lemma crash_points_Cons: "crash_points put s (w # ws) = insert s (crash_points put (put s w) ws)"
proof -
  have "{..length (w # ws)} = insert 0 (Suc ` {..length ws})"
    by (simp only: length_Cons atMost_Suc_eq_insert_0)
  then show ?thesis by (simp add: crash_points_def image_image)
qed

lemma crash_points_append:
  "crash_points put s (xs @ ys) = crash_points put s xs \<union> crash_points put (apply_writes put s xs) ys"
proof (induction xs arbitrary: s)
  case Nil
  have "s \<in> crash_points put s ys" by (cases ys) (simp_all add: crash_points_Cons)
  then show ?case by auto
next
  case (Cons x xs)
  then show ?case by (simp add: crash_points_Cons)
qed

lemma crash_points_end: "apply_writes put s ws \<in> crash_points put s ws"
  by (auto simp: crash_points_def intro!: image_eqI [of _ _ "length ws"])

end
