(* ===== verification/Float32.thy ===== *)
theory Float32
  imports Complex_Main Prelude
begin

text \<open>
  The part of IEEE 754 single precision the compositor's damage check uses: finiteness,
  comparison, addition and conversion from \<open>u32\<close>, with rounding to nearest, ties to even. A
  finite number is its rational value (the two zeros compare equal, so they are one here).
  The lemmas bound the rounding error.
\<close>

datatype f32 = F32NaN | F32Inf bool | F32Fin rat

fun f32_is_finite :: "f32 \<Rightarrow> bool" where
  "f32_is_finite (F32Fin _) = True"
| "f32_is_finite _ = False"

text \<open>\<open>F32Inf True\<close> is the positive infinity. Every comparison with a NaN is false.\<close>

fun f32_le :: "f32 \<Rightarrow> f32 \<Rightarrow> bool" where
  "f32_le (F32Fin a) (F32Fin b) = (a \<le> b)"
| "f32_le (F32Inf p) (F32Inf q) = (p \<longrightarrow> q)"
| "f32_le (F32Inf p) (F32Fin _) = (\<not> p)"
| "f32_le (F32Fin _) (F32Inf q) = q"
| "f32_le _ _ = False"

text \<open>The integer nearest to \<open>x\<close>, the even one of two.\<close>

definition round_even :: "rat \<Rightarrow> int" where
  "round_even x =
     (let f = \<lfloor>x\<rfloor>; d = x - of_int f
      in if d < 1 / 2 then f else if 1 / 2 < d then f + 1 else if even f then f else f + 1)"

text \<open>
  The weight of the last place of the result: doubled from the least one, \<open>2 ^ -149\<close>, until
  24 bits suffice; 253 doublings reach the top binade.
\<close>

definition least_ulp :: rat where
  "least_ulp = 1 / 2 ^ 149"

fun ulp_search :: "nat \<Rightarrow> rat \<Rightarrow> rat \<Rightarrow> rat" where
  "ulp_search 0 x u = u"
| "ulp_search (Suc n) x u = (if x < 16777216 * u then u else ulp_search n x (2 * u))"

definition ulp :: "rat \<Rightarrow> rat" where
  "ulp x = ulp_search 253 \<bar>x\<bar> least_ulp"

definition f32_round :: "rat \<Rightarrow> f32" where
  "f32_round x = (let v = of_int (round_even (x / ulp x)) * ulp x
     in if 2 ^ 128 \<le> \<bar>v\<bar> then F32Inf (0 < v) else F32Fin v)"

fun f32_add :: "f32 \<Rightarrow> f32 \<Rightarrow> f32" where
  "f32_add (F32Fin a) (F32Fin b) = f32_round (a + b)"
| "f32_add (F32Inf p) (F32Inf q) = (if p = q then F32Inf p else F32NaN)"
| "f32_add (F32Inf p) (F32Fin _) = F32Inf p"
| "f32_add (F32Fin _) (F32Inf q) = F32Inf q"
| "f32_add _ _ = F32NaN"

definition f32_of_u32 :: "nat \<Rightarrow> f32" where
  "f32_of_u32 n = f32_round (of_nat n)"

abbreviation f32_zero :: f32 where
  "f32_zero \<equiv> F32Fin 0"

section \<open>Rounding error\<close>

lemma round_even_error: "\<bar>of_int (round_even x) - x\<bar> \<le> 1 / 2"
proof -
  have f: "of_int \<lfloor>x\<rfloor> \<le> x" "x < of_int \<lfloor>x\<rfloor> + 1" by linarith+
  show ?thesis unfolding round_even_def Let_def using f by (auto simp: abs_le_iff)
qed

lemma ulp_search_pos: "0 < u \<Longrightarrow> 0 < ulp_search n x u"
  by (induction n arbitrary: u) auto

lemma ulp_pos: "0 < ulp x"
  unfolding ulp_def by (rule ulp_search_pos) (simp add: least_ulp_def)

text \<open>Above the least place, the 24th bit is in use: the place is at most \<open>x / 2 ^ 23\<close>.\<close>

lemma ulp_search_small: "0 < u \<Longrightarrow> ulp_search n x u = u \<or> 8388608 * ulp_search n x u \<le> x"
proof (induction n arbitrary: u)
  case 0
  then show ?case by simp
next
  case (Suc n)
  show ?case
  proof (cases "x < 16777216 * u")
    case True
    then show ?thesis by simp
  next
    case False
    from Suc.IH [of "2 * u"] Suc.prems False show ?thesis by auto
  qed
qed

lemma ulp_small: "ulp x = least_ulp \<or> 8388608 * ulp x \<le> \<bar>x\<bar>"
  unfolding ulp_def by (rule ulp_search_small) (simp add: least_ulp_def)

lemma f32_round_error:
  assumes "f32_round x = F32Fin v"
  shows "\<bar>v - x\<bar> \<le> ulp x / 2"
proof -
  have v: "v = of_int (round_even (x / ulp x)) * ulp x"
    using assms by (auto simp: f32_round_def Let_def split: if_splits)
  have "\<bar>of_int (round_even (x / ulp x)) - x / ulp x\<bar> * ulp x \<le> 1 / 2 * ulp x"
    using round_even_error ulp_pos [of x] by (intro mult_right_mono) auto
  moreover have "\<bar>of_int (round_even (x / ulp x)) - x / ulp x\<bar> * ulp x = \<bar>v - x\<bar>"
  proof -
    have "(of_int (round_even (x / ulp x)) - x / ulp x) * ulp x = v - x"
      using ulp_pos [of x] unfolding v left_diff_distrib by simp
    then show ?thesis using ulp_pos [of x] by (metis abs_mult abs_of_pos)
  qed
  ultimately show ?thesis by simp
qed

end
