(* ===== verification/Protocol.thy ===== *)
theory Protocol
  imports Float32
begin

text \<open>
  The vocabulary of the app protocol (\<open>platform/protocol/src\<close>): app ids (\<open>id.rs\<close>),
  protocol versions (\<open>version.rs\<close>), limits (\<open>limits.rs\<close>), sizes and surface shapes
  (\<open>geometry.rs\<close>, \<open>message.rs\<close>), lifecycle events (\<open>lifecycle.rs\<close>) and the messages an
  app may send. The lemmas give what a parsed app id may contain, that versions print and
  parse back, and that a pool's slots lie inside it and do not overlap.
\<close>

section \<open>App ids\<close>

type_synonym app_id = string

datatype id_error =
    TooFewSegments
  | EmptySegment
  | SegmentStart string
  | SegmentCharacter string
  | SegmentEnd string
  | IdTooLong nat nat

definition MAX_ID_LEN :: nat where
  "MAX_ID_LEN = 128"

definition is_ascii_lowercase :: "char \<Rightarrow> bool" where
  "is_ascii_lowercase c \<longleftrightarrow> 97 \<le> (of_char c :: nat) \<and> (of_char c :: nat) \<le> 122"

definition id_char :: "char \<Rightarrow> bool" where
  "id_char c \<longleftrightarrow> is_ascii_lowercase c \<or> is_digit c \<or> c = CHR ''-''"

fun check_segments :: "string list \<Rightarrow> id_error option" where
  "check_segments [] = None"
| "check_segments (s # ss) =
     (if s = [] then Some EmptySegment
      else if \<not> is_ascii_lowercase (hd s) then Some (SegmentStart s)
      else if \<not> list_all id_char s then Some (SegmentCharacter s)
      else if last s = CHR ''-'' then Some (SegmentEnd s)
      else check_segments ss)"

definition app_id_parse :: "string \<Rightarrow> (id_error, app_id) result" where
  "app_id_parse s =
     (if MAX_ID_LEN < length s then Err (IdTooLong (length s) MAX_ID_LEN)
      else
        let segments = split_on CHR ''.'' s
        in if length segments < 2 then Err TooFewSegments
           else case check_segments segments of Some e \<Rightarrow> Err e | None \<Rightarrow> Ok s)"

definition app_id_leaf :: "app_id \<Rightarrow> string" where
  "app_id_leaf s = last (split_on CHR ''.'' s)"

definition segment_ok :: "string \<Rightarrow> bool" where
  "segment_ok s \<longleftrightarrow> s \<noteq> [] \<and> is_ascii_lowercase (hd s) \<and> list_all id_char s \<and> last s \<noteq> CHR ''-''"

lemma check_segments_None: "check_segments ss = None \<longleftrightarrow> (\<forall>s\<in>set ss. segment_ok s)"
  by (induction ss) (auto simp: segment_ok_def)

lemma app_id_parse_Ok:
  "app_id_parse s = Ok i \<longleftrightarrow> i = s \<and> length s \<le> MAX_ID_LEN \<and> 2 \<le> length (split_on CHR ''.'' s)
     \<and> (\<forall>seg\<in>set (split_on CHR ''.'' s). segment_ok seg)"
  using check_segments_None [of "split_on CHR ''.'' s"]
  by (auto simp: app_id_parse_def Let_def split: option.splits)

text \<open>The characters of a text are those of its pieces and the separator.\<close>

lemma split_on_chars: "c \<in> set s \<Longrightarrow> c \<noteq> d \<Longrightarrow> \<exists>p\<in>set (split_on d s). c \<in> set p"
proof (induction s)
  case Nil
  then show ?case by simp
next
  case (Cons x xs)
  obtain q qs where qs: "split_on d xs = q # qs" by (cases "split_on d xs") auto
  show ?case
  proof (cases "c = x")
    case True
    with Cons.prems qs show ?thesis by simp
  next
    case False
    with Cons obtain p where "p \<in> set (split_on d xs)" "c \<in> set p" by auto
    then show ?thesis using qs by (cases "x = d") auto
  qed
qed

text \<open>Two separators in a row, or one at either end, give an empty piece.\<close>

lemma split_on_double: "\<exists>x xs. split_on d (p @ d # d # q) = x # xs @ [] # split_on d q"
proof (induction p)
  case Nil
  show ?case by (rule exI [of _ "[]"], rule exI [of _ "[]"]) simp
next
  case (Cons c cs)
  then obtain x xs where IH: "split_on d (cs @ d # d # q) = x # xs @ [] # split_on d q" by blast
  show ?case
  proof (cases "c = d")
    case True
    with IH show ?thesis by (intro exI [of _ "[]"] exI [of _ "x # xs"]) simp
  next
    case False
    with IH show ?thesis by (intro exI [of _ "c # x"] exI [of _ xs]) simp
  qed
qed

section \<open>Versions\<close>

record protocol_version =
  major :: nat
  minor :: nat

abbreviation u16_max :: nat where
  "u16_max \<equiv> 65535"

definition CURRENT :: protocol_version where
  "CURRENT = \<lparr>major = 1, minor = 1\<rparr>"

definition can_run :: "protocol_version \<Rightarrow> protocol_version \<Rightarrow> bool" where
  "can_run host app \<longleftrightarrow> major host = major app \<and> minor app \<le> minor host"

definition version_text :: "protocol_version \<Rightarrow> string" where
  "version_text v = show_nat (major v) @ CHR ''.'' # show_nat (minor v)"

datatype version_error = Shape string | NotANumber string string

definition version_parse :: "string \<Rightarrow> (version_error, protocol_version) result" where
  "version_parse s =
     and_then (ok_or (Shape s) (split_once CHR ''.'' s)) (\<lambda>(a, b).
       if CHR ''.'' \<in> set b then Err (Shape s)
       else and_then (ok_or (NotANumber a s) (parse_uint u16_max a)) (\<lambda>ma.
            and_then (ok_or (NotANumber b s) (parse_uint u16_max b)) (\<lambda>mi.
              Ok \<lparr>major = ma, minor = mi\<rparr>)))"

lemma split_once_append: "d \<notin> set p \<Longrightarrow> split_once d (p @ d # q) = Some (p, q)"
  by (induction p) auto

lemma dot_not_in_number: "CHR ''.'' \<notin> set (show_nat n)"
  using show_nat_digits [of "CHR ''.''" n] by (auto simp: is_digit_def)

lemma version_round_trip:
  "major v \<le> u16_max \<Longrightarrow> minor v \<le> u16_max \<Longrightarrow> version_parse (version_text v) = Ok v"
  by (cases v) (simp add: version_parse_def version_text_def split_once_append dot_not_in_number parse_show_nat)

section \<open>Limits\<close>

definition MAX_MESSAGE_BYTES :: nat where "MAX_MESSAGE_BYTES = 64 * 1024"
definition MAX_DIAGNOSTIC_BYTES :: nat where "MAX_DIAGNOSTIC_BYTES = 1024"
definition MAX_DAMAGE_RECTS :: nat where "MAX_DAMAGE_RECTS = 32"
definition READY_DEADLINE :: duration where "READY_DEADLINE = from_secs 2"
definition EXIT_DEADLINE :: duration where "EXIT_DEADLINE = from_secs 3"
definition MAX_POOL_BYTES :: nat where "MAX_POOL_BYTES = 64 * 1024 * 1024"

section \<open>Surfaces and pools\<close>

record size =
  width :: nat
  height :: nat

definition size_is_empty :: "size \<Rightarrow> bool" where
  "size_is_empty s \<longleftrightarrow> width s = 0 \<or> height s = 0"

datatype pixel_format = Argb8888

fun bytes_per_pixel :: "pixel_format \<Rightarrow> nat" where
  "bytes_per_pixel Argb8888 = 4"

record surface_descriptor =
  extent :: size
  stride_bytes :: nat
  format :: pixel_format

text \<open>\<open>packed\<close> multiplies in \<open>u32\<close>; the product wraps in a release build.\<close>

definition packed :: "size \<Rightarrow> pixel_format \<Rightarrow> surface_descriptor" where
  "packed e f = \<lparr>extent = e, stride_bytes = (width e * bytes_per_pixel f) mod 2 ^ 32, format = f\<rparr>"

definition surface_bytes :: "surface_descriptor \<Rightarrow> nat option" where
  "surface_bytes d =
     (if size_is_empty (extent d) \<or> stride_bytes d < width (extent d) * bytes_per_pixel (format d)
      then None else Some (stride_bytes d * height (extent d)))"

datatype buffer_slot = SlotA | SlotB

fun slot_other :: "buffer_slot \<Rightarrow> buffer_slot" where
  "slot_other SlotA = SlotB"
| "slot_other SlotB = SlotA"

lemma slot_other_ne [simp]: "slot_other s \<noteq> s" "s \<noteq> slot_other s"
  by (cases s; simp)+

record shm_pool_descriptor =
  pool_buffer :: surface_descriptor

definition slot_bytes :: "shm_pool_descriptor \<Rightarrow> nat option" where
  "slot_bytes p = surface_bytes (pool_buffer p)"

definition pool_bytes :: "shm_pool_descriptor \<Rightarrow> nat option" where
  "pool_bytes p = (case slot_bytes p of None \<Rightarrow> None
     | Some n \<Rightarrow> if n * 2 \<le> u64_max then Some (n * 2) else None)"

definition slot_offset :: "shm_pool_descriptor \<Rightarrow> buffer_slot \<Rightarrow> nat option" where
  "slot_offset p slot = (case slot_bytes p of None \<Rightarrow> None
     | Some n \<Rightarrow> (case slot of SlotA \<Rightarrow> Some 0 | SlotB \<Rightarrow> Some n))"

text \<open>A descriptor whose fields fit the widths the source gives them.\<close>

definition descriptor_fits :: "surface_descriptor \<Rightarrow> bool" where
  "descriptor_fits d \<longleftrightarrow> width (extent d) \<le> u32_max \<and> height (extent d) \<le> u32_max \<and> stride_bytes d \<le> u32_max"

lemma surface_bytes_u64:
  assumes "descriptor_fits d" and "surface_bytes d = Some n"
  shows "n \<le> u64_max"
proof -
  have "stride_bytes d * height (extent d) \<le> u32_max * u32_max"
    using assms(1) by (intro mult_le_mono) (simp_all add: descriptor_fits_def)
  moreover have "n = stride_bytes d * height (extent d)"
    using assms(2) by (auto simp: surface_bytes_def split: if_splits)
  ultimately show ?thesis by simp
qed

lemma slots_in_pool:
  assumes "pool_bytes p = Some n_total" and "slot_offset p s = Some off" and "slot_bytes p = Some n"
  shows "off + n \<le> n_total"
  using assms by (cases s) (auto simp: pool_bytes_def slot_offset_def split: if_splits)

lemma slots_disjoint:
  assumes "slot_offset p SlotA = Some a" and "slot_offset p SlotB = Some b" and "slot_bytes p = Some n"
  shows "a + n \<le> b"
  using assms by (auto simp: slot_offset_def)

section \<open>Lifecycle\<close>

datatype exit_reason = SwitchedAway | ReturnToStock | Sleep | PlatformUpdate | AppUpdate | Shutdown

datatype lifecycle_event =
    LcSuspended
  | LcResumed
  | LcPrepareToExit exit_reason nat

definition lifecycle_prepare_to_exit :: "exit_reason \<Rightarrow> duration \<Rightarrow> lifecycle_event" where
  "lifecycle_prepare_to_exit reason d = LcPrepareToExit reason (min (as_millis d) u32_max)"

definition lifecycle_deadline :: "lifecycle_event \<Rightarrow> duration option" where
  "lifecycle_deadline e = (case e of LcPrepareToExit _ ms \<Rightarrow> Some (from_millis ms) | _ \<Rightarrow> None)"

datatype request = ReqRedraw | ReqHome | ReqReturnToStock | ReqLaunch app_id

datatype app_action = ActNone | ActRedraw | ActHome | ActReturnToStock | ActLaunch app_id

fun action_request :: "app_action \<Rightarrow> request option" where
  "action_request ActNone = None"
| "action_request ActRedraw = Some ReqRedraw"
| "action_request ActHome = Some ReqHome"
| "action_request ActReturnToStock = Some ReqReturnToStock"
| "action_request (ActLaunch i) = Some (ReqLaunch i)"

fun request_action :: "request \<Rightarrow> app_action" where
  "request_action ReqRedraw = ActRedraw"
| "request_action ReqHome = ActHome"
| "request_action ReqReturnToStock = ActReturnToStock"
| "request_action (ReqLaunch i) = ActLaunch i"

section \<open>Messages\<close>

record rect =
  rect_x :: f32
  rect_y :: f32
  rect_width :: f32
  rect_height :: f32

datatype damage = Full | Regions "rect list"

fun damage_regions :: "damage \<Rightarrow> rect list option" where
  "damage_regions Full = None"
| "damage_regions (Regions rs) = Some rs"

type_synonym frame_id = nat

definition frame_next :: "frame_id \<Rightarrow> frame_id" where
  "frame_next f = sat_succ u64_max f"

text \<open>A diagnostic's text is its UTF-8 bytes; a boundary is where no continuation byte starts.\<close>

datatype diagnostic_level = Info | Warn | LevelError

record diagnostic =
  diag_level :: diagnostic_level
  diag_message :: "u8 list"

definition is_char_boundary :: "u8 list \<Rightarrow> nat \<Rightarrow> bool" where
  "is_char_boundary s i \<longleftrightarrow> i = 0 \<or> i = length s \<or> (i < length s \<and> s ! i AND 0xC0 \<noteq> 0x80)"

fun boundary_below :: "u8 list \<Rightarrow> nat \<Rightarrow> nat" where
  "boundary_below s 0 = 0"
| "boundary_below s (Suc pos) = (if is_char_boundary s (Suc pos) then Suc pos else boundary_below s pos)"

definition diagnostic_new :: "diagnostic_level \<Rightarrow> u8 list \<Rightarrow> diagnostic" where
  "diagnostic_new level message = \<lparr>diag_level = level, diag_message =
     (if MAX_DIAGNOSTIC_BYTES < length message
      then take (boundary_below message MAX_DIAGNOSTIC_BYTES) message else message)\<rparr>"

lemma boundary_below_le: "boundary_below s n \<le> n"
  by (induction n) auto

lemma boundary_below_boundary: "is_char_boundary s (boundary_below s n)"
  by (induction n) (auto simp: is_char_boundary_def)

lemma diagnostic_new_fits: "length (diag_message (diagnostic_new l m)) \<le> MAX_DIAGNOSTIC_BYTES"
  using boundary_below_le [of m MAX_DIAGNOSTIC_BYTES] by (auto simp: diagnostic_new_def)

datatype draw_reason = FirstFrame | AppRequested | HostRequested

datatype app_message =
    MsgReady protocol_version
  | MsgFrame frame_id damage
  | MsgRequest request
  | MsgSystemQuery
  | MsgSaved exit_reason bool
  | MsgDiagnostic diagnostic

datatype host_message =
    HostLifecycle lifecycle_event
  | HostDraw frame_id draw_reason size
  | HostGoodbye

fun app_message_name :: "app_message \<Rightarrow> string" where
  "app_message_name (MsgReady _) = ''ready''"
| "app_message_name (MsgFrame _ _) = ''frame''"
| "app_message_name (MsgRequest _) = ''request''"
| "app_message_name MsgSystemQuery = ''system-query''"
| "app_message_name (MsgSaved _ _) = ''saved''"
| "app_message_name (MsgDiagnostic _) = ''diagnostic''"

section \<open>Properties\<close>

text \<open>
  An app id is safe as a file name. A text that parses as an app id is itself the id,
  at most 128 bytes of lowercase letters, digits, hyphens and dots, with no empty segment,
  so it is neither empty nor a relative directory name, it starts with a letter and holds
  no slash and no two dots in a row.
\<close>

theorem app_id_is_path_safe:
  assumes "app_id_parse s = Ok i"
  shows "i = s \<and> length i \<le> 128 \<and> i \<noteq> [] \<and> is_ascii_lowercase (hd i)
    \<and> (\<forall>c\<in>set i. id_char c \<or> c = CHR ''.'') \<and> CHR ''/'' \<notin> set i
    \<and> (\<forall>p q. i \<noteq> p @ ''..'' @ q)"
proof -
  let ?segs = "split_on CHR ''.'' s"
  from assms have p: "i = s" "length s \<le> 128" "\<And>x. x \<in> set ?segs \<Longrightarrow> segment_ok x"
    by (auto simp: app_id_parse_Ok MAX_ID_LEN_def)
  obtain x xs where x: "?segs = x # xs" by (cases ?segs) auto
  have xok: "segment_ok x" using p(3) x by simp
  have start: "s \<noteq> [] \<and> hd s = hd x"
    using xok x by (cases s) (auto simp: segment_ok_def split: if_splits list.splits)
  have chars: "id_char c \<or> c = CHR ''.''" if "c \<in> set s" for c
  proof (rule disjCI)
    assume "c \<noteq> CHR ''.''"
    with split_on_chars [OF that] p(3) show "id_char c" by (auto simp: segment_ok_def list_all_iff)
  qed
  have "\<not> id_char CHR ''/''" by (simp add: id_char_def is_ascii_lowercase_def is_digit_def)
  then have slash: "CHR ''/'' \<notin> set s" using chars by force
  have "s \<noteq> a @ ''..'' @ b" for a b
  proof
    assume "s = a @ ''..'' @ b"
    with split_on_double [of "CHR ''.''" a b] have "[] \<in> set ?segs" by auto
    with p(3) show False by (auto simp: segment_ok_def)
  qed
  with p start xok chars slash show ?thesis by (simp add: segment_ok_def)
qed

theorem app_id_is_path_safe_witness:
  "CHR ''/'' \<notin> set ''dev.calum.chess'' \<and> length ''dev.calum.chess'' \<le> 128"
proof -
  have "app_id_parse ''dev.calum.chess'' = Ok ''dev.calum.chess''" by code_simp
  from app_id_is_path_safe [OF this] show ?thesis by blast
qed

end
