(* ===== verification/Supervisor.thy ===== *)
theory Supervisor
  imports Protocol
begin

text \<open>
  The foreground state machine of the host (\<open>platform/host/src/state.rs\<close>). The machine
  is pure in the source too: an observation and the current time go in, the new machine
  and the list of side effects come out. Definitions follow the methods of \<open>Machine\<close>
  in the order the file has them; the lemmas give its invariant, that \<open>Failed\<close> is
  terminal, that nothing owns the panel without having been observed ready and on the
  panel, that every recovery tears the old session down first, and that restore attempts
  are bounded.
\<close>

section \<open>Data\<close>

datatype session_state = Stock | Switching | Home | App | Recovering | Failed

fun state_name :: "session_state \<Rightarrow> string" where
  "state_name Stock = ''stock''"
| "state_name Switching = ''switching''"
| "state_name Home = ''home''"
| "state_name App = ''app''"
| "state_name Recovering = ''recovering''"
| "state_name Failed = ''failed''"

fun owns_display :: "session_state \<Rightarrow> bool" where
  "owns_display Home = True"
| "owns_display App = True"
| "owns_display _ = False"

datatype foreground = FgStock | FgHome | FgApp app_id

fun arrived_state :: "foreground \<Rightarrow> session_state" where
  "arrived_state FgStock = Stock"
| "arrived_state FgHome = Home"
| "arrived_state (FgApp _) = App"

fun fg_label :: "foreground \<Rightarrow> string" where
  "fg_label FgStock = ''stock''"
| "fg_label FgHome = ''home''"
| "fg_label (FgApp a) = ''app:'' @ a"

datatype exit_kind = ExitClean | ExitError | ExitSignal | ForcedByDeadline

fun exit_is_failure :: "exit_kind \<Rightarrow> bool" where
  "exit_is_failure ExitClean = False"
| "exit_is_failure _ = True"

datatype event =
    SwitchRequested foreground
  | ProcessReady foreground
  | DisplayOwned foreground
  | DisplayReleased
  | StockRunning
  | SessionExited foreground exit_kind
  | ProgressStalled foreground duration
  | DisplayHostLost
  | RestoreFailed string
  | Tick

record escalation =
  grace :: duration
  force :: duration

datatype stop_reason = StopSwitching | Crashed | Hung | DisplayLost | SwitchTimedOut

fun stop_description :: "stop_reason \<Rightarrow> string" where
  "stop_description StopSwitching = ''switching foreground owner''"
| "stop_description Crashed = ''foreground session crashed''"
| "stop_description Hung = ''foreground session stopped making progress''"
| "stop_description DisplayLost = ''display host died under the session''"
| "stop_description SwitchTimedOut = ''switch did not complete inside its deadline''"

datatype diagnosis =
    StockUnavailable string nat
  | RepeatedSessionFailures nat duration

fun diagnosis_summary :: "diagnosis \<Rightarrow> string" where
  "diagnosis_summary (StockUnavailable last_reason attempts) =
     ''stock Xochitl could not be restored after '' @ show_nat attempts @ '' attempt(s): '' @ last_reason"
| "diagnosis_summary (RepeatedSessionFailures failures window) =
     ''the foreground session failed '' @ show_nat failures @ '' times within ''
       @ show_nat (as_secs window) @ ''s; not retrying''"

datatype action =
    StartForeground foreground instant
  | TerminateSession stop_reason escalation
  | ReleaseDisplay
  | RestoreStock nat instant
  | CaptureDiagnostics stop_reason
  | Halt diagnosis

record budget =
  b_switch :: duration
  b_graceful_stop :: duration
  b_force_stop :: duration
  b_restore :: duration
  b_progress_stall :: duration

definition default_budget :: budget where
  "default_budget = \<lparr>b_switch = from_secs 8, b_graceful_stop = from_secs 5,
     b_force_stop = from_secs 5, b_restore = from_secs 30, b_progress_stall = from_secs 6\<rparr>"

definition budget_escalation :: "budget \<Rightarrow> escalation" where
  "budget_escalation b = \<lparr>grace = b_graceful_stop b, force = b_force_stop b\<rparr>"

record failure_policy =
  p_restore_attempts :: nat
  p_session_failures :: nat
  p_failure_window :: duration

definition default_policy :: failure_policy where
  "default_policy = \<lparr>p_restore_attempts = 1, p_session_failures = 3,
     p_failure_window = from_secs 120\<rparr>"

record pending =
  pn_target :: foreground
  pn_deadline :: instant
  process_ready :: bool
  display_owned :: bool
  pn_stock_running :: bool
  display_released :: bool

definition new_pending :: "foreground \<Rightarrow> instant \<Rightarrow> pending" where
  "new_pending target deadline = \<lparr>pn_target = target, pn_deadline = deadline,
     process_ready = False, display_owned = False, pn_stock_running = False,
     display_released = False\<rparr>"

definition pending_arrived :: "pending \<Rightarrow> bool" where
  "pending_arrived p = (case pn_target p of
       FgStock \<Rightarrow> pn_stock_running p \<and> display_released p
     | _ \<Rightarrow> process_ready p \<and> display_owned p)"

record recovery =
  r_attempt :: nat
  r_deadline :: instant
  r_last_reason :: string

text \<open>
  \<open>Ledger::record\<close>: push, drop what fell out of the window, count. \<open>duration_since\<close>
  saturates at zero, as subtraction on \<open>nat\<close> does; the count saturates at \<open>u32::MAX\<close>.
\<close>

definition ledger_record :: "instant list \<Rightarrow> instant \<Rightarrow> duration \<Rightarrow> instant list \<times> nat" where
  "ledger_record failures t window =
     (let kept = filter (\<lambda>seen. t - seen \<le> window) (failures @ [t])
      in (kept, min (length kept) u32_max))"

record machine =
  m_state :: session_state
  m_foreground :: foreground
  m_budget :: budget
  m_policy :: failure_policy
  m_pending :: "pending option"
  m_recovery :: "recovery option"
  m_stopping :: "instant option"
  m_ledger :: "instant list"
  m_diagnosis :: "diagnosis option"

section \<open>The machine\<close>

definition new_machine :: "budget \<Rightarrow> failure_policy \<Rightarrow> machine" where
  "new_machine b p = \<lparr>m_state = Stock, m_foreground = FgStock, m_budget = b, m_policy = p,
     m_pending = None, m_recovery = None, m_stopping = None, m_ledger = [], m_diagnosis = None\<rparr>"

definition next_deadline :: "machine \<Rightarrow> instant option" where
  "next_deadline m =
     (let ds = List.map_filter id
        [map_option pn_deadline (m_pending m),
         map_option r_deadline (m_recovery m),
         map_option (\<lambda>since. since + b_graceful_stop (m_budget m) + b_force_stop (m_budget m))
           (m_stopping m)]
      in if ds = [] then None else Some (Min (set ds)))"

definition may_relaunch :: "machine \<Rightarrow> bool" where
  "may_relaunch m \<longleftrightarrow>
     (case m_diagnosis m of Some (RepeatedSessionFailures _ _) \<Rightarrow> False | _ \<Rightarrow> True)
     \<and> m_state m \<noteq> Failed"

definition begin_switch :: "machine \<Rightarrow> foreground \<Rightarrow> instant \<Rightarrow> machine \<times> action list" where
  "begin_switch m to now =
     (if m_state m = Recovering then (m, [])
      else if to \<noteq> FgStock \<and> \<not> may_relaunch m then (m, [])
      else if m_foreground m = to \<and> m_pending m = None then (m, [])
      else
        let deadline = now + b_switch (m_budget m);
            owns = owns_display (m_state m);
            stop = (if owns
              then [TerminateSession StopSwitching (budget_escalation (m_budget m))] else []);
            release = (if to = FgStock then [ReleaseDisplay] else [])
        in (m\<lparr>m_stopping := (if owns then Some now else m_stopping m),
              m_pending := Some (new_pending to deadline),
              m_state := Switching\<rparr>,
            stop @ release @ [StartForeground to deadline]))"

definition settle :: "machine \<Rightarrow> machine \<times> action list" where
  "settle m = (case m_pending m of
       None \<Rightarrow> (m, [])
     | Some p \<Rightarrow>
         if \<not> pending_arrived p then (m, [])
         else let st = arrived_state (pn_target p)
              in (m\<lparr>m_foreground := pn_target p, m_state := st, m_pending := None,
                    m_stopping := None,
                    m_ledger := (if st = Stock then [] else m_ledger m)\<rparr>, []))"

definition observe :: "machine \<Rightarrow> (pending \<Rightarrow> pending) \<Rightarrow> machine \<times> action list" where
  "observe m mark = (case m_pending m of
       None \<Rightarrow> (m, [])
     | Some p \<Rightarrow> settle (m\<lparr>m_pending := Some (mark p)\<rparr>))"

definition stock_running :: "machine \<Rightarrow> machine \<times> action list" where
  "stock_running m =
     (if m_state m = Recovering
      then (m\<lparr>m_recovery := None, m_stopping := None, m_pending := None,
              m_state := Stock, m_foreground := FgStock\<rparr>, [])
      else observe m (\<lambda>p. p\<lparr>pn_stock_running := True\<rparr>))"

definition enter_recovery :: "machine \<Rightarrow> stop_reason \<Rightarrow> instant \<Rightarrow> machine \<times> action list" where
  "enter_recovery m reason now =
     (if m_state m = Recovering then (m, [])
      else
        let deadline = now + b_restore (m_budget m)
        in (m\<lparr>m_state := Recovering, m_pending := None, m_stopping := None,
              m_recovery := Some \<lparr>r_attempt = 1, r_deadline = deadline, r_last_reason = []\<rparr>\<rparr>,
            [CaptureDiagnostics reason,
             TerminateSession reason (budget_escalation (m_budget m)),
             ReleaseDisplay,
             RestoreStock 1 deadline]))"

definition halt :: "machine \<Rightarrow> diagnosis \<Rightarrow> machine \<times> action list" where
  "halt m d = (m\<lparr>m_state := Failed, m_recovery := None, m_pending := None,
     m_stopping := None, m_diagnosis := Some d\<rparr>, [Halt d])"

definition session_exited :: "machine \<Rightarrow> foreground \<Rightarrow> exit_kind \<Rightarrow> instant \<Rightarrow> machine \<times> action list" where
  "session_exited m owner status now =
     (let ours = (m_foreground m = owner
                  \<or> (case m_pending m of None \<Rightarrow> False | Some p \<Rightarrow> pn_target p = owner))
      in if \<not> ours \<or> owner = FgStock then (m, [])
         else if \<not> exit_is_failure status then begin_switch m FgStock now
         else
           let (kept, failures) = ledger_record (m_ledger m) now (p_failure_window (m_policy m));
               exhausted = p_session_failures (m_policy m) \<le> failures;
               (m', actions) = enter_recovery (m\<lparr>m_ledger := kept\<rparr>) Crashed now
           in if exhausted
              then (m'\<lparr>m_diagnosis := Some (RepeatedSessionFailures failures
                         (p_failure_window (m_policy m)))\<rparr>,
                    actions @ [CaptureDiagnostics Crashed])
              else (m', actions))"

definition progress_stalled :: "machine \<Rightarrow> foreground \<Rightarrow> instant \<Rightarrow> machine \<times> action list" where
  "progress_stalled m owner now =
     (if m_foreground m \<noteq> owner \<or> \<not> owns_display (m_state m) then (m, [])
      else enter_recovery m Hung now)"

definition display_host_lost :: "machine \<Rightarrow> instant \<Rightarrow> machine \<times> action list" where
  "display_host_lost m now =
     (if m_state m = Stock \<or> m_state m = Failed then (m, []) else enter_recovery m DisplayLost now)"

definition restore_failed :: "machine \<Rightarrow> string \<Rightarrow> instant \<Rightarrow> machine \<times> action list" where
  "restore_failed m reason now =
     (let attempt = (case m_recovery m of None \<Rightarrow> 1 | Some r \<Rightarrow> r_attempt r)
      in if p_restore_attempts (m_policy m) \<le> attempt
         then halt m (StockUnavailable reason attempt)
         else
           let deadline = now + b_restore (m_budget m)
           in (m\<lparr>m_recovery := Some \<lparr>r_attempt = attempt + 1, r_deadline = deadline,
                                       r_last_reason = reason\<rparr>\<rparr>,
               [RestoreStock (attempt + 1) deadline]))"

definition tick :: "machine \<Rightarrow> instant \<Rightarrow> machine \<times> action list" where
  "tick m now =
     (if (case m_pending m of None \<Rightarrow> False | Some p \<Rightarrow> pn_deadline p \<le> now)
      then enter_recovery m SwitchTimedOut now
      else if (case m_recovery m of None \<Rightarrow> False | Some r \<Rightarrow> r_deadline r \<le> now)
      then restore_failed m
             (''stock did not come back inside '' @ show_nat (as_secs (b_restore (m_budget m))) @ ''s'')
             now
      else (m, []))"

fun dispatch :: "machine \<Rightarrow> event \<Rightarrow> instant \<Rightarrow> machine \<times> action list" where
  "dispatch m (SwitchRequested to) now = begin_switch m to now"
| "dispatch m (ProcessReady owner) now =
     observe m (\<lambda>p. if pn_target p = owner then p\<lparr>process_ready := True\<rparr> else p)"
| "dispatch m (DisplayOwned owner) now =
     observe m (\<lambda>p. if pn_target p = owner then p\<lparr>display_owned := True\<rparr> else p)"
| "dispatch m DisplayReleased now = observe m (\<lambda>p. p\<lparr>display_released := True\<rparr>)"
| "dispatch m StockRunning now = stock_running m"
| "dispatch m (SessionExited owner status) now = session_exited m owner status now"
| "dispatch m (ProgressStalled owner _) now = progress_stalled m owner now"
| "dispatch m DisplayHostLost now = display_host_lost m now"
| "dispatch m (RestoreFailed reason) now = restore_failed m reason now"
| "dispatch m Tick now = tick m now"

definition handle :: "machine \<Rightarrow> event \<Rightarrow> instant \<Rightarrow> machine \<times> action list" where
  "handle m e now = (if m_state m = Failed then (m, []) else dispatch m e now)"

definition operator_retry :: "machine \<Rightarrow> instant \<Rightarrow> machine \<times> action list" where
  "operator_retry m now =
     (let m' = m\<lparr>m_diagnosis := None, m_ledger := []\<rparr>
      in if m_state m = Failed then enter_recovery m' Crashed now else (m', []))"

text \<open>The runtime feeds the machine one timed observation after another.\<close>

definition hstep :: "machine \<Rightarrow> event \<times> instant \<Rightarrow> machine \<times> action list" where
  "hstep m te = handle m (fst te) (snd te)"

section \<open>The machine's invariant\<close>

text \<open>
  A switch is in flight exactly while the state is \<open>Switching\<close>; an arrived state names its
  owner; a recovery keeps its attempt inside the policy; a halted machine has a diagnosis.
\<close>

fun state_matches :: "session_state \<Rightarrow> foreground \<Rightarrow> bool" where
  "state_matches Stock fg = (fg = FgStock)"
| "state_matches Home fg = (fg = FgHome)"
| "state_matches App fg = (\<exists>a. fg = FgApp a)"
| "state_matches _ fg = True"

definition budget_spent :: "machine \<Rightarrow> bool" where
  "budget_spent m \<longleftrightarrow> (case m_diagnosis m of Some (RepeatedSessionFailures _ _) \<Rightarrow> True | _ \<Rightarrow> False)"

definition machine_inv :: "machine \<Rightarrow> bool" where
  "machine_inv m \<longleftrightarrow>
     state_matches (m_state m) (m_foreground m)
     \<and> (m_pending m \<noteq> None \<longleftrightarrow> m_state m = Switching)
     \<and> (m_stopping m \<noteq> None \<longrightarrow> m_state m = Switching)
     \<and> (m_state m = Recovering \<longrightarrow> m_recovery m \<noteq> None)
     \<and> (m_state m = Failed \<longrightarrow> m_recovery m = None \<and> m_diagnosis m \<noteq> None)
     \<and> (\<forall>r. m_recovery m = Some r \<longrightarrow>
           1 \<le> r_attempt r \<and> r_attempt r \<le> max 1 (p_restore_attempts (m_policy m))
           \<and> (m_state m = Recovering \<or> 2 \<le> r_attempt r))
     \<and> (budget_spent m \<longrightarrow> m_state m = Stock \<or> m_state m = Recovering \<or> m_state m = Failed)"

lemma arrived_state_matches [simp]: "state_matches (arrived_state fg) fg"
  by (cases fg) auto

lemma arrived_state_simps [simp]:
  "arrived_state fg \<noteq> Switching" "arrived_state fg \<noteq> Recovering" "arrived_state fg \<noteq> Failed"
  "arrived_state fg = Stock \<longleftrightarrow> fg = FgStock"
  by (cases fg; simp)+

lemma new_machine_inv: "machine_inv (new_machine b p)"
  by (simp add: machine_inv_def new_machine_def budget_spent_def)

lemma may_relaunch_spent: "may_relaunch m \<longleftrightarrow> \<not> budget_spent m \<and> m_state m \<noteq> Failed"
  by (auto simp: may_relaunch_def budget_spent_def split: option.splits diagnosis.splits)

lemma budget_spent_update [simp]:
  "budget_spent (m\<lparr>m_state := s\<rparr>) = budget_spent m"
  "budget_spent (m\<lparr>m_foreground := f\<rparr>) = budget_spent m"
  "budget_spent (m\<lparr>m_pending := p\<rparr>) = budget_spent m"
  "budget_spent (m\<lparr>m_recovery := r\<rparr>) = budget_spent m"
  "budget_spent (m\<lparr>m_stopping := t\<rparr>) = budget_spent m"
  "budget_spent (m\<lparr>m_ledger := l\<rparr>) = budget_spent m"
  by (simp_all add: budget_spent_def)

lemma begin_switch_inv:
  assumes inv: "machine_inv m" and nf: "m_state m \<noteq> Failed"
  shows "machine_inv (fst (begin_switch m to now))"
proof (cases "m_state m = Recovering \<or> (to \<noteq> FgStock \<and> \<not> may_relaunch m) \<or> (m_foreground m = to \<and> m_pending m = None)")
  case True
  with inv show ?thesis by (auto simp: begin_switch_def)
next
  case False
  then have s: "m_state m \<noteq> Recovering" "to \<noteq> FgStock \<longrightarrow> \<not> budget_spent m"
      "\<not> (m_foreground m = to \<and> m_pending m = None)" using nf by (auto simp: may_relaunch_spent)
  let ?m = "m\<lparr>m_stopping := (if owns_display (m_state m) then Some now else m_stopping m),
    m_pending := Some (new_pending to (now + b_switch (m_budget m))), m_state := Switching\<rparr>"
  have eq: "fst (begin_switch m to now) = ?m" using False by (auto simp: begin_switch_def Let_def)
  have "\<not> budget_spent m"
    using inv nf s by (cases "m_state m = Stock") (auto simp: machine_inv_def)
  with inv s(1) show ?thesis unfolding eq by (auto simp: machine_inv_def)
qed

lemma settle_inv: "machine_inv m \<Longrightarrow> machine_inv (fst (settle m))"
  by (auto simp: machine_inv_def settle_def Let_def split: option.splits)

lemma observe_inv:
  assumes "machine_inv m" and "\<And>p. pn_target (mark p) = pn_target p"
  shows "machine_inv (fst (observe m mark))"
proof (cases "m_pending m")
  case None
  with assms show ?thesis by (simp add: observe_def)
next
  case (Some p)
  with assms have "machine_inv (m\<lparr>m_pending := Some (mark p)\<rparr>)"
    by (auto simp: machine_inv_def)
  with Some show ?thesis by (simp add: observe_def settle_inv)
qed

lemma stock_running_inv:
  assumes inv: "machine_inv m"
  shows "machine_inv (fst (stock_running m))"
proof (cases "m_state m = Recovering")
  case True
  with inv show ?thesis by (auto simp: stock_running_def machine_inv_def)
next
  case False
  with inv show ?thesis by (simp add: stock_running_def observe_inv)
qed

lemma enter_recovery_inv:
  "machine_inv m \<Longrightarrow> m_state m \<noteq> Failed \<Longrightarrow> machine_inv (fst (enter_recovery m why now))"
  by (auto simp: machine_inv_def enter_recovery_def Let_def)

lemma halt_inv: "machine_inv (fst (halt m (StockUnavailable why n)))"
  by (simp add: machine_inv_def halt_def budget_spent_def)

lemma restore_failed_inv: "machine_inv m \<Longrightarrow> m_state m \<noteq> Failed \<Longrightarrow> machine_inv (fst (restore_failed m why now))"
proof -
  assume inv: "machine_inv m" and nf: "m_state m \<noteq> Failed"
  define a where "a = (case m_recovery m of None \<Rightarrow> 1 | Some r \<Rightarrow> r_attempt r)"
  have a: "1 \<le> a" using inv by (auto simp: a_def machine_inv_def split: option.splits)
  show ?thesis
  proof (cases "p_restore_attempts (m_policy m) \<le> a")
    case True
    then show ?thesis by (simp add: restore_failed_def a_def [symmetric] halt_inv)
  next
    case False
    with a inv nf show ?thesis
      by (auto simp: restore_failed_def a_def [symmetric] Let_def machine_inv_def)
  qed
qed

lemma session_exited_inv:
  assumes inv: "machine_inv m" and nf: "m_state m \<noteq> Failed"
  shows "machine_inv (fst (session_exited m owner status now))"
proof -
  have led: "machine_inv (m\<lparr>m_ledger := l\<rparr>)" for l
    using inv by (simp add: machine_inv_def)
  have rec: "machine_inv (fst (enter_recovery (m\<lparr>m_ledger := l\<rparr>) Crashed now))" for l
    using enter_recovery_inv [OF led] nf by simp
  have st: "m_state (fst (enter_recovery (m\<lparr>m_ledger := l\<rparr>) Crashed now)) = Recovering" for l
    by (simp add: enter_recovery_def Let_def)
  have spent: "machine_inv (fst (enter_recovery (m\<lparr>m_ledger := l\<rparr>) Crashed now)
        \<lparr>m_diagnosis := Some (RepeatedSessionFailures n w)\<rparr>)" for l n w
    using rec [of l] st [of l] by (auto simp: machine_inv_def)
  show ?thesis
    using inv nf rec spent begin_switch_inv [OF inv nf]
    by (auto simp: session_exited_def Let_def split: prod.splits)
       (metis fst_conv)+
qed

lemma tick_inv: "machine_inv m \<Longrightarrow> m_state m \<noteq> Failed \<Longrightarrow> machine_inv (fst (tick m now))"
  by (auto simp: tick_def intro: enter_recovery_inv restore_failed_inv)

lemma dispatch_inv: "machine_inv m \<Longrightarrow> m_state m \<noteq> Failed \<Longrightarrow> machine_inv (fst (dispatch m e now))"
  by (cases e) (auto simp: progress_stalled_def display_host_lost_def
      intro: begin_switch_inv observe_inv stock_running_inv session_exited_inv enter_recovery_inv
        restore_failed_inv tick_inv)

lemma hstep_inv: "machine_inv m \<Longrightarrow> machine_inv (fst (hstep m te))"
  by (auto simp: hstep_def handle_def dispatch_inv)

interpretation host: guarded_machine hstep machine_inv "\<lambda>_. True"
  by unfold_locales (simp_all add: hstep_inv)

section \<open>Failed and the spent budget are traps\<close>

lemma failed_stays: "m_state m = Failed \<Longrightarrow> run hstep m es = (m, [])"
  by (induction es) (simp_all add: run.simps hstep_def handle_def)

text \<open>The actions the machine may still emit once the failure budget is spent.\<close>

fun quiet_action :: "action \<Rightarrow> bool" where
  "quiet_action (StartForeground _ _) = False"
| "quiet_action _ = True"

definition quiet_inv :: "machine \<Rightarrow> bool" where
  "quiet_inv m \<longleftrightarrow> machine_inv m \<and> \<not> may_relaunch m"

lemma halt_quiet: "\<not> may_relaunch (fst (halt m d))"
  by (simp add: halt_def may_relaunch_def)

lemma restore_failed_quiet: "\<not> may_relaunch m \<Longrightarrow> \<not> may_relaunch (fst (restore_failed m why now))"
  by (auto simp: restore_failed_def Let_def halt_def may_relaunch_spent split: if_splits)

lemma enter_recovery_quiet: "budget_spent m \<Longrightarrow> \<not> may_relaunch (fst (enter_recovery m why now))"
  by (simp add: enter_recovery_def Let_def may_relaunch_spent)

lemma begin_switch_quiet: "budget_spent m \<Longrightarrow> \<not> may_relaunch (fst (begin_switch m to now))"
  by (simp add: begin_switch_def Let_def may_relaunch_spent)

lemma settle_quiet: "budget_spent m \<Longrightarrow> \<not> may_relaunch (fst (settle m))"
  by (simp add: settle_def Let_def may_relaunch_spent split: option.splits)

lemma observe_quiet: "budget_spent m \<Longrightarrow> \<not> may_relaunch (fst (observe m mark))"
proof (cases "m_pending m")
  case (Some p)
  assume "budget_spent m"
  then have "budget_spent (m\<lparr>m_pending := Some (mark p)\<rparr>)" by simp
  from settle_quiet [OF this] Some show ?thesis by (simp add: observe_def)
qed (simp add: observe_def may_relaunch_spent)

lemma stock_running_quiet: "budget_spent m \<Longrightarrow> \<not> may_relaunch (fst (stock_running m))"
  using observe_quiet [of m "\<lambda>p. p\<lparr>pn_stock_running := True\<rparr>"]
  by (auto simp: stock_running_def may_relaunch_spent)

lemma session_exited_quiet: "budget_spent m \<Longrightarrow> \<not> may_relaunch (fst (session_exited m owner status now))"
proof -
  assume spent: "budget_spent m"
  have rec: "\<not> may_relaunch (fst (enter_recovery (m\<lparr>m_ledger := l\<rparr>) Crashed now))" for l
    using spent by (simp add: enter_recovery_quiet)
  have "\<not> may_relaunch (m'\<lparr>m_diagnosis := Some (RepeatedSessionFailures n w)\<rparr>)" for m' n w
    by (simp add: may_relaunch_def)
  with rec begin_switch_quiet [OF spent] show ?thesis
    using spent by (auto simp: session_exited_def Let_def may_relaunch_spent split: prod.splits)
       (metis fst_conv)+
qed

lemma dispatch_quiet:
  assumes spent: "budget_spent m"
  shows "\<not> may_relaunch (fst (dispatch m e now))"
proof -
  from spent have nr: "\<not> may_relaunch m" by (simp add: may_relaunch_spent)
  then show ?thesis
    by (cases e) (simp_all add: progress_stalled_def display_host_lost_def tick_def spent
      session_exited_quiet stock_running_quiet observe_quiet begin_switch_quiet
      enter_recovery_quiet restore_failed_quiet)
qed

lemma quiet_step: "quiet_inv m \<Longrightarrow> quiet_inv (fst (hstep m te))"
  using hstep_inv [of m te] dispatch_quiet [of m "fst te" "snd te"]
  by (auto simp: quiet_inv_def hstep_def handle_def may_relaunch_spent)

lemma snd_observe [simp]: "snd (observe m mark) = []"
  by (simp add: observe_def settle_def Let_def split: option.splits)

lemma snd_stock_running [simp]: "snd (stock_running m) = []"
  by (simp add: stock_running_def)

lemma quiet_enter_recovery: "a \<in> set (snd (enter_recovery m why now)) \<Longrightarrow> quiet_action a"
  by (auto simp: enter_recovery_def Let_def split: if_splits)

lemma quiet_restore_failed: "a \<in> set (snd (restore_failed m why now)) \<Longrightarrow> quiet_action a"
  by (auto simp: restore_failed_def halt_def Let_def split: if_splits)

lemma quiet_begin_switch: "quiet_inv m \<Longrightarrow> m_state m \<noteq> Failed \<Longrightarrow> snd (begin_switch m to now) = []"
  by (auto simp: begin_switch_def Let_def quiet_inv_def machine_inv_def may_relaunch_spent)

lemma quiet_session_exited:
  "quiet_inv m \<Longrightarrow> m_state m \<noteq> Failed \<Longrightarrow> a \<in> set (snd (session_exited m owner status now)) \<Longrightarrow> quiet_action a"
  using quiet_enter_recovery [of a "m\<lparr>m_ledger := fst (ledger_record (m_ledger m) now (p_failure_window (m_policy m)))\<rparr>" Crashed now]
  by (auto simp: session_exited_def Let_def case_prod_beta quiet_begin_switch split: if_splits)

lemma quiet_dispatch: "quiet_inv m \<Longrightarrow> m_state m \<noteq> Failed \<Longrightarrow> a \<in> set (snd (dispatch m e now)) \<Longrightarrow> quiet_action a"
  by (cases e) (auto simp: progress_stalled_def display_host_lost_def tick_def quiet_begin_switch split: if_splits
      intro: quiet_session_exited quiet_enter_recovery quiet_restore_failed)

interpretation spent: guarded_machine hstep quiet_inv quiet_action
proof unfold_locales
  show "quiet_inv m \<Longrightarrow> quiet_inv (fst (hstep m te))" for m te by (rule quiet_step)
  show "quiet_inv m \<Longrightarrow> a \<in> set (snd (hstep m te)) \<Longrightarrow> quiet_action a" for m te a
    by (auto simp: hstep_def handle_def split: if_splits dest: quiet_dispatch)
qed

section \<open>Arrival is observed\<close>

text \<open>A request for \<open>fg\<close>, and after it every observation of \<open>obs\<close>.\<close>

definition requested_then :: "(event \<times> instant) list \<Rightarrow> foreground \<Rightarrow> event set \<Rightarrow> bool" where
  "requested_then es fg obs \<longleftrightarrow>
     (\<exists>pre t post. es = pre @ (SwitchRequested fg, t) # post \<and> obs \<subseteq> fst ` set post)"

lemma requested_then_later: "requested_then es fg obs \<Longrightarrow> requested_then (es @ [e]) fg obs"
  unfolding requested_then_def by fastforce

lemma requested_then_weaken: "requested_then es fg obs \<Longrightarrow> obs' \<subseteq> obs \<Longrightarrow> requested_then es fg obs'"
  unfolding requested_then_def by blast

lemma requested_then_seen: "requested_then es fg obs \<Longrightarrow> requested_then (es @ [(ev, t)]) fg (insert ev obs)"
  unfolding requested_then_def by fastforce

lemma requested_then_new: "requested_then (es @ [(SwitchRequested fg, t)]) fg {}"
  unfolding requested_then_def by fastforce

definition pending_seen :: "pending \<Rightarrow> event set" where
  "pending_seen p = (if process_ready p then {ProcessReady (pn_target p)} else {})
     \<union> (if display_owned p then {DisplayOwned (pn_target p)} else {})"

lemma pending_seen_other [simp]:
  "pending_seen (p\<lparr>display_released := x\<rparr>) = pending_seen p"
  "pending_seen (p\<lparr>pn_stock_running := x\<rparr>) = pending_seen p"
  by (simp_all add: pending_seen_def)

definition witnessed :: "(event \<times> instant) list \<Rightarrow> machine \<Rightarrow> bool" where
  "witnessed es m \<longleftrightarrow>
     (m_foreground m \<noteq> FgStock \<longrightarrow>
        requested_then es (m_foreground m) {ProcessReady (m_foreground m), DisplayOwned (m_foreground m)})
     \<and> (\<forall>p. m_pending m = Some p \<longrightarrow> pn_target p \<noteq> FgStock \<longrightarrow>
           requested_then es (pn_target p) (pending_seen p))"

lemma witnessed_later: "witnessed es m \<Longrightarrow> witnessed (es @ [e]) m"
  by (auto simp: witnessed_def intro: requested_then_later)

lemma witnessed_forget:
  "witnessed es m \<Longrightarrow> m_foreground m' = m_foreground m \<Longrightarrow>
     m_pending m' = None \<or> m_pending m' = m_pending m \<Longrightarrow> witnessed es m'"
  by (auto simp: witnessed_def)

lemma witnessed_begin_switch:
  assumes "witnessed es m" and "to = FgStock \<or> requested_then es to {}"
  shows "witnessed es (fst (begin_switch m to now))"
  using assms by (auto simp: witnessed_def begin_switch_def Let_def new_pending_def pending_seen_def)

lemma witnessed_settle: "witnessed es m \<Longrightarrow> witnessed es (fst (settle m))"
  by (cases "m_pending m")
     (auto simp: witnessed_def settle_def Let_def pending_arrived_def pending_seen_def
        insert_commute split: foreground.splits)

lemma witnessed_observe:
  assumes w: "witnessed es m" and w': "witnessed es' m"
    and tgt: "\<And>p. pn_target (mark p) = pn_target p"
    and seen: "\<And>p. m_pending m = Some p \<Longrightarrow> pn_target p \<noteq> FgStock \<Longrightarrow>
                 requested_then es' (pn_target p) (pending_seen (mark p))"
  shows "witnessed es' (fst (observe m mark))"
proof (cases "m_pending m")
  case None
  with w' show ?thesis by (simp add: observe_def)
next
  case (Some p)
  from seen [OF Some] w' have "witnessed es' (m\<lparr>m_pending := Some (mark p)\<rparr>)"
    by (simp add: witnessed_def tgt)
  with Some show ?thesis by (simp add: observe_def witnessed_settle)
qed

lemma witnessed_enter_recovery: "witnessed es m \<Longrightarrow> witnessed es (fst (enter_recovery m why now))"
  by (erule witnessed_forget) (simp_all add: enter_recovery_def Let_def)

lemma witnessed_restore_failed: "witnessed es m \<Longrightarrow> witnessed es (fst (restore_failed m why now))"
  by (erule witnessed_forget) (simp_all add: restore_failed_def halt_def Let_def)

lemma witnessed_session_exited:
  assumes w: "witnessed es m"
  shows "witnessed es (fst (session_exited m owner status now))"
proof -
  have *: "witnessed es (fst (enter_recovery (m\<lparr>m_ledger := l\<rparr>) Crashed now))" for l
    by (rule witnessed_enter_recovery) (rule witnessed_forget [OF w]; simp)
  have "witnessed es (fst (enter_recovery (m\<lparr>m_ledger := l\<rparr>) Crashed now)\<lparr>m_diagnosis := d\<rparr>)" for l d
    by (rule witnessed_forget [OF * [of l]]) simp_all
  with * w show ?thesis
    by (simp add: session_exited_def Let_def case_prod_beta witnessed_begin_switch)
qed

lemma witnessed_dispatch:
  assumes w: "witnessed es m"
  shows "witnessed (es @ [(e, now)]) (fst (dispatch m e now))"
proof -
  let ?es = "es @ [(e, now)]"
  have w': "witnessed ?es m" using w by (rule witnessed_later)
  have pend: "requested_then es (pn_target p) (pending_seen p)"
    if "m_pending m = Some p" "pn_target p \<noteq> FgStock" for p
    using w that by (simp add: witnessed_def)
  have same: "requested_then ?es (pn_target p) (pending_seen p)"
    if "m_pending m = Some p" "pn_target p \<noteq> FgStock" for p
    using pend [OF that] by (rule requested_then_later)
  show ?thesis
  proof (cases e)
    case (ProcessReady owner)
    have "requested_then ?es (pn_target p) (pending_seen (if pn_target p = owner then p\<lparr>process_ready := True\<rparr> else p))"
      if p: "m_pending m = Some p" "pn_target p \<noteq> FgStock" for p
      using requested_then_seen [OF pend [OF p], of e now] same [OF p]
      by (auto simp: ProcessReady pending_seen_def elim: requested_then_weaken)
    then have "witnessed ?es (fst (observe m (\<lambda>p. if pn_target p = owner then p\<lparr>process_ready := True\<rparr> else p)))"
      by (intro witnessed_observe [OF w w']) simp_all
    with ProcessReady show ?thesis by simp
  next
    case (DisplayOwned owner)
    have "requested_then ?es (pn_target p) (pending_seen (if pn_target p = owner then p\<lparr>display_owned := True\<rparr> else p))"
      if p: "m_pending m = Some p" "pn_target p \<noteq> FgStock" for p
      using requested_then_seen [OF pend [OF p], of e now] same [OF p]
      by (auto simp: DisplayOwned pending_seen_def elim: requested_then_weaken)
    then have "witnessed ?es (fst (observe m (\<lambda>p. if pn_target p = owner then p\<lparr>display_owned := True\<rparr> else p)))"
      by (intro witnessed_observe [OF w w']) simp_all
    with DisplayOwned show ?thesis by simp
  next
    case DisplayReleased
    have "witnessed ?es (fst (observe m (\<lambda>p. p\<lparr>display_released := True\<rparr>)))"
      by (rule witnessed_observe [OF w w']) (use same in simp_all)
    with DisplayReleased show ?thesis by simp
  next
    case StockRunning
    have "witnessed ?es (fst (observe m (\<lambda>p. p\<lparr>pn_stock_running := True\<rparr>)))"
      by (rule witnessed_observe [OF w w']) (use same in simp_all)
    moreover have "witnessed ?es m'" if "m_foreground m' = FgStock" "m_pending m' = None" for m'
      using that by (simp add: witnessed_def)
    ultimately show ?thesis using StockRunning by (simp add: stock_running_def)
  next
    case (SwitchRequested to)
    then show ?thesis
      using witnessed_begin_switch [OF w', of to now] requested_then_new [of es to now] by simp
  next
    case (SessionExited owner status)
    with w' show ?thesis by (simp add: witnessed_session_exited)
  next
    case (ProgressStalled owner d)
    with w' show ?thesis by (simp add: progress_stalled_def witnessed_enter_recovery)
  next
    case DisplayHostLost
    with w' show ?thesis by (simp add: display_host_lost_def witnessed_enter_recovery)
  next
    case (RestoreFailed why)
    with w' show ?thesis by (simp add: witnessed_restore_failed)
  next
    case Tick
    with w' show ?thesis by (simp add: tick_def witnessed_enter_recovery witnessed_restore_failed)
  qed
qed

lemma run_witnessed: "witnessed es (fst (run hstep (new_machine b p) es))"
proof (induction es rule: rev_induct)
  case Nil
  show ?case by (simp add: witnessed_def new_machine_def)
next
  case (snoc te es)
  have *: "witnessed (es @ [te]) (fst (hstep m te))" if m: "witnessed es m" for m
    using witnessed_dispatch [OF m, of "fst te" "snd te"] witnessed_later [OF m, of te]
    by (cases te) (simp add: hstep_def handle_def)
  from * [OF snoc.IH] show ?case by (simp add: fst_run_append)
qed

section \<open>Recovery\<close>

text \<open>The four steps every recovery performs, in this order.\<close>

definition recovery_plan :: "machine \<Rightarrow> stop_reason \<Rightarrow> instant \<Rightarrow> action list" where
  "recovery_plan m reason deadline =
     [CaptureDiagnostics reason, TerminateSession reason (budget_escalation (m_budget m)),
      ReleaseDisplay, RestoreStock 1 deadline]"

lemma snd_enter_recovery:
  "snd (enter_recovery m why now) =
     (if m_state m = Recovering then [] else recovery_plan m why (now + b_restore (m_budget m)))"
  by (simp add: enter_recovery_def recovery_plan_def Let_def)

lemma begin_switch_no_restore: "RestoreStock n d \<notin> set (snd (begin_switch m to now))"
  by (simp add: begin_switch_def Let_def)

lemma recovery_plan_ledger [simp]: "recovery_plan (m\<lparr>m_ledger := l\<rparr>) = recovery_plan m"
  by (simp add: recovery_plan_def fun_eq_iff)

lemma restore_one_planned:
  assumes inv: "machine_inv m" and mem: "RestoreStock 1 d \<in> set (snd (dispatch m e now))"
  shows "\<exists>reason. take 4 (snd (dispatch m e now)) = recovery_plan m reason d \<and> m_state m \<noteq> Recovering"
proof -
  have enter: "\<exists>reason. take 4 (snd (enter_recovery m' why now) @ tl) = recovery_plan m' reason d \<and> m_state m' \<noteq> Recovering"
    if "RestoreStock 1 d \<in> set (snd (enter_recovery m' why now))" for m' why tl
    using that by (auto simp: snd_enter_recovery recovery_plan_def split: if_splits)
  have no: "RestoreStock 1 d \<notin> set (snd (restore_failed m why now))" for why
    using inv by (auto simp: restore_failed_def halt_def Let_def machine_inv_def split: option.splits)
  show ?thesis
  proof (cases e)
    case (SessionExited owner status)
    with mem enter [of "m\<lparr>m_ledger := fst (ledger_record (m_ledger m) now (p_failure_window (m_policy m)))\<rparr>" Crashed "[]"]
      enter [of "m\<lparr>m_ledger := fst (ledger_record (m_ledger m) now (p_failure_window (m_policy m)))\<rparr>" Crashed "[CaptureDiagnostics Crashed]"]
    show ?thesis
      by (auto simp: session_exited_def Let_def case_prod_beta begin_switch_no_restore split: if_splits)
  qed (use mem no enter [of m _ "[]"] in
        \<open>auto simp: begin_switch_no_restore progress_stalled_def display_host_lost_def tick_def split: if_splits\<close>)
qed

section \<open>A silent environment\<close>

text \<open>\<open>n\<close> deadlines checks, \<open>d\<close> apart, the first at \<open>t\<close>.\<close>

fun ticks :: "instant \<Rightarrow> duration \<Rightarrow> nat \<Rightarrow> (event \<times> instant) list" where
  "ticks t d 0 = []"
| "ticks t d (Suc n) = (Tick, t) # ticks (t + d) d n"

definition expired :: "machine \<Rightarrow> instant \<Rightarrow> bool" where
  "expired m t \<longleftrightarrow> (case m_pending m of Some p \<Rightarrow> pn_deadline p \<le> t
     | None \<Rightarrow> (case m_recovery m of Some r \<Rightarrow> r_deadline r \<le> t | None \<Rightarrow> False))"

lemma tick_recovering:
  assumes inv: "machine_inv m" and st: "m_state m = Recovering"
    and r: "m_recovery m = Some r" and late: "r_deadline r \<le> t"
  shows "p_restore_attempts (m_policy m) \<le> r_attempt r \<Longrightarrow> m_state (fst (hstep m (Tick, t))) = Failed"
    and "r_attempt r < p_restore_attempts (m_policy m) \<Longrightarrow>
      \<exists>m'. fst (hstep m (Tick, t)) = m' \<and> m_state m' = Recovering \<and> m_policy m' = m_policy m
        \<and> m_budget m' = m_budget m
        \<and> (\<exists>why. m_recovery m' = Some \<lparr>r_attempt = Suc (r_attempt r),
              r_deadline = t + b_restore (m_budget m), r_last_reason = why\<rparr>)"
proof -
  have "m_pending m = None" using inv st by (simp add: machine_inv_def)
  then have "hstep m (Tick, t) = restore_failed m
      (''stock did not come back inside '' @ show_nat (as_secs (b_restore (m_budget m))) @ ''s'') t"
    using st r late by (simp add: hstep_def handle_def tick_def)
  then show "p_restore_attempts (m_policy m) \<le> r_attempt r \<Longrightarrow> m_state (fst (hstep m (Tick, t))) = Failed"
    and "r_attempt r < p_restore_attempts (m_policy m) \<Longrightarrow>
      \<exists>m'. fst (hstep m (Tick, t)) = m' \<and> m_state m' = Recovering \<and> m_policy m' = m_policy m
        \<and> m_budget m' = m_budget m
        \<and> (\<exists>why. m_recovery m' = Some \<lparr>r_attempt = Suc (r_attempt r),
              r_deadline = t + b_restore (m_budget m), r_last_reason = why\<rparr>)"
    using st r by (simp_all add: restore_failed_def Let_def halt_def)
qed

lemma silent_recovery_fails:
  assumes "machine_inv m" and "m_state m = Recovering" and "m_recovery m = Some r"
    and "r_deadline r \<le> t" and "p_restore_attempts (m_policy m) \<le> r_attempt r + n"
  shows "m_state (fst (run hstep m (ticks t (b_restore (m_budget m)) (Suc n)))) = Failed"
  using assms
proof (induction n arbitrary: m r t)
  case 0
  then show ?case by (simp add: tick_recovering(1))
next
  case (Suc n)
  define m' where "m' = fst (hstep m (Tick, t))"
  show ?case
  proof (cases "p_restore_attempts (m_policy m) \<le> r_attempt r")
    case True
    then have "m_state m' = Failed" using Suc.prems by (simp add: m'_def tick_recovering(1))
    then show ?thesis by (simp add: m'_def [symmetric] failed_stays)
  next
    case False
    with tick_recovering(2) [OF Suc.prems(1-4)] obtain why where
      m': "m_state m' = Recovering" "m_policy m' = m_policy m" "m_budget m' = m_budget m"
        "m_recovery m' = Some \<lparr>r_attempt = Suc (r_attempt r),
              r_deadline = t + b_restore (m_budget m), r_last_reason = why\<rparr>"
      by (auto simp: m'_def)
    have "machine_inv m'" using Suc.prems(1) by (simp add: m'_def hstep_inv)
    from Suc.IH [OF this m'(1) m'(4), of "t + b_restore (m_budget m)"] m' Suc.prems(5)
    show ?thesis by (simp add: m'_def [symmetric])
  qed
qed

lemma silent_switch_recovers:
  assumes "machine_inv m" and "m_state m = Switching" and "expired m t"
  shows "\<exists>r. m_recovery (fst (hstep m (Tick, t))) = Some r \<and> r_attempt r = 1
      \<and> r_deadline r = t + b_restore (m_budget m)"
    and "m_state (fst (hstep m (Tick, t))) = Recovering"
    and "m_policy (fst (hstep m (Tick, t))) = m_policy m"
    and "m_budget (fst (hstep m (Tick, t))) = m_budget m"
  using assms by (auto simp: machine_inv_def expired_def hstep_def handle_def tick_def
      enter_recovery_def Let_def)

lemma silent_machine_fails:
  assumes inv: "machine_inv m" and st: "m_state m = Switching \<or> m_state m = Recovering"
    and late: "expired m t"
  shows "m_state (fst (run hstep m (ticks t (b_restore (m_budget m)) (2 + p_restore_attempts (m_policy m))))) = Failed"
proof (cases "m_state m = Recovering")
  case True
  with inv obtain r where r: "m_recovery m = Some r" by (auto simp: machine_inv_def)
  have "m_pending m = None" using inv True by (simp add: machine_inv_def)
  with late r have "r_deadline r \<le> t" by (simp add: expired_def)
  from silent_recovery_fails [OF inv True r this, of "Suc (p_restore_attempts (m_policy m))"]
  show ?thesis by simp
next
  case False
  with st have sw: "m_state m = Switching" by simp
  define m' where "m' = fst (hstep m (Tick, t))"
  from silent_switch_recovers [OF inv sw late] obtain r where
    m': "m_recovery m' = Some r" "r_deadline r = t + b_restore (m_budget m)" "m_state m' = Recovering"
      "m_policy m' = m_policy m" "m_budget m' = m_budget m" by (auto simp: m'_def)
  have "machine_inv m'" using inv by (simp add: m'_def hstep_inv)
  from silent_recovery_fails [OF this m'(3,1), of "t + b_restore (m_budget m)" "p_restore_attempts (m_policy m)"] m'
  show ?thesis by (simp add: m'_def [symmetric])
qed

section \<open>Properties\<close>

text \<open>Evaluating a short history by simplification.\<close>

lemmas machine_eval = run.simps hstep_def handle_def begin_switch_def settle_def observe_def stock_running_def
  enter_recovery_def halt_def session_exited_def progress_stalled_def display_host_lost_def restore_failed_def
  tick_def Let_def new_machine_def default_budget_def default_policy_def from_secs_def may_relaunch_def
  pending_arrived_def new_pending_def ledger_record_def

text \<open>
  C13. Starting is not arriving. If any history of observations fed to a fresh machine leaves
  a Paperclip owner (home or an app) as the confirmed foreground, then that history holds a
  switch request for exactly that owner, and after the request both a readiness report from
  it and the observation that it holds the display.
\<close>

theorem foreground_was_observed:
  assumes "m_foreground (fst (run hstep (new_machine b p) es)) = fg" and "fg \<noteq> FgStock"
  shows "\<exists>pre t post t1 t2. es = pre @ (SwitchRequested fg, t) # post
     \<and> (ProcessReady fg, t1) \<in> set post \<and> (DisplayOwned fg, t2) \<in> set post"
proof -
  from run_witnessed [of es b p] assms
  have "requested_then es fg {ProcessReady fg, DisplayOwned fg}" by (simp add: witnessed_def)
  then show ?thesis unfolding requested_then_def by fastforce
qed

definition home_history :: "(event \<times> instant) list" where
  "home_history = [(SwitchRequested FgHome, 0), (ProcessReady FgHome, 1), (DisplayOwned FgHome, 2)]"

theorem foreground_was_observed_witness:
  "m_foreground (fst (run hstep (new_machine default_budget default_policy) home_history)) = FgHome
   \<and> (\<exists>pre t post t1 t2. home_history = pre @ (SwitchRequested FgHome, t) # post
     \<and> (ProcessReady FgHome, t1) \<in> set post \<and> (DisplayOwned FgHome, t2) \<in> set post)"
proof -
  have "m_foreground (fst (run hstep (new_machine default_budget default_policy) home_history)) = FgHome"
    by (simp add: home_history_def machine_eval)
  with foreground_was_observed [OF this] show ?thesis by simp
qed

text \<open>
  C14. Failed is terminal. No observation moves a halted machine or makes it act, whatever
  comes and in whatever order; the one door out is the operator's retry, which starts a
  fresh, complete recovery and forgets the diagnosis and the failure history.
\<close>

theorem failed_is_terminal:
  assumes "m_state m = Failed"
  shows "run hstep m es = (m, [])
    \<and> snd (operator_retry m now) = recovery_plan m Crashed (now + b_restore (m_budget m))
    \<and> m_state (fst (operator_retry m now)) = Recovering
    \<and> m_diagnosis (fst (operator_retry m now)) = None \<and> m_ledger (fst (operator_retry m now)) = []"
  using assms by (simp add: failed_stays operator_retry_def Let_def snd_enter_recovery
      recovery_plan_def enter_recovery_def)

definition halted_example :: machine where
  "halted_example = fst (run hstep (new_machine default_budget default_policy)
     [(SwitchRequested FgHome, 0), (DisplayHostLost, 5), (RestoreFailed ''gone'', 7)])"

theorem failed_is_terminal_witness:
  "m_state halted_example = Failed \<and> run hstep halted_example [(StockRunning, 9)] = (halted_example, [])"
proof -
  have "m_state halted_example = Failed" by (simp add: halted_example_def machine_eval)
  with failed_is_terminal [OF this, of "[(StockRunning, 9)]" 0] show ?thesis by simp
qed

text \<open>
  The failure budget is enforced. Once a history has spent the budget of repeated
  failures, no continuation of it makes the machine start any foreground owner, and every
  continuation ends at stock, restoring stock, or halted.
\<close>

theorem spent_budget_never_relaunches:
  assumes "budget_spent (fst (run hstep (new_machine b p) es))"
  shows "StartForeground fg d \<notin> set (snd (run hstep (fst (run hstep (new_machine b p) es)) es'))
    \<and> m_state (fst (run hstep (new_machine b p) (es @ es'))) \<in> {Stock, Recovering, Failed}"
proof -
  let ?m = "fst (run hstep (new_machine b p) es)"
  have q: "quiet_inv ?m"
    using assms host.run_inv [OF new_machine_inv] by (simp add: quiet_inv_def may_relaunch_spent)
  have "quiet_inv (fst (run hstep (new_machine b p) (es @ es')))"
    by (simp add: fst_run_append spent.run_inv [OF q])
  moreover have "StartForeground fg d \<notin> set (snd (run hstep ?m es'))"
    using spent.run_allowed [OF q, of "StartForeground fg d"] by auto
  ultimately show ?thesis by (auto simp: quiet_inv_def machine_inv_def may_relaunch_spent)
qed

definition spent_history :: "(event \<times> instant) list" where
  "spent_history = concat (map (\<lambda>t. [(SwitchRequested FgHome, t), (SessionExited FgHome ExitSignal, t + 1),
     (StockRunning, t + 2)]) [0, 10, 20])"

theorem spent_budget_never_relaunches_witness:
  "StartForeground FgHome 99
     \<notin> set (snd (run hstep (fst (run hstep (new_machine default_budget default_policy) spent_history))
              [(SwitchRequested FgHome, 30)]))"
proof -
  have "budget_spent (fst (run hstep (new_machine default_budget default_policy) spent_history))"
    by (simp add: spent_history_def machine_eval budget_spent_def)
  from spent_budget_never_relaunches [OF this] show ?thesis by blast
qed

text \<open>
  Every recovery has the same shape and tears down first. Whenever a machine reached by
  any history asks for stock to be restored for the first time, the same list of actions
  starts with the capture of the diagnostics, then the termination of the session with the
  budget's escalation, then the release of the display, and only then the restore.
\<close>

theorem recovery_tears_down_first:
  assumes "RestoreStock 1 d \<in> set (snd (hstep (fst (run hstep (new_machine b p) es)) te))"
  shows "\<exists>reason. take 4 (snd (hstep (fst (run hstep (new_machine b p) es)) te)) =
    [CaptureDiagnostics reason,
     TerminateSession reason (budget_escalation (m_budget (fst (run hstep (new_machine b p) es)))),
     ReleaseDisplay, RestoreStock 1 d]"
proof -
  let ?m = "fst (run hstep (new_machine b p) es)"
  have "machine_inv ?m" by (rule host.run_inv [OF new_machine_inv])
  moreover have "snd (hstep ?m te) = snd (dispatch ?m (fst te) (snd te))"
    using assms by (auto simp: hstep_def handle_def split: if_splits)
  ultimately show ?thesis
    using restore_one_planned [of ?m d "fst te" "snd te"] assms by (auto simp: recovery_plan_def)
qed

theorem recovery_tears_down_first_witness:
  "\<exists>reason. take 4 (snd (hstep (fst (run hstep (new_machine default_budget default_policy) home_history))
       (SessionExited FgHome ExitSignal, 3))) =
    [CaptureDiagnostics reason,
     TerminateSession reason (budget_escalation (m_budget
       (fst (run hstep (new_machine default_budget default_policy) home_history)))),
     ReleaseDisplay, RestoreStock 1 30000000003]"
  by (rule recovery_tears_down_first) (simp add: home_history_def machine_eval)

text \<open>
  C15. No switch and no recovery waits for ever. In every machine reached by any history that
  is switching or recovering, an observation of time alone is enough: once the deadline has
  passed, deadline checks one restore budget apart bring it to \<open>Failed\<close> after at most two
  more than the policy's restore attempts.
\<close>

theorem silent_environment_halts:
  assumes "m = fst (run hstep (new_machine b p) es)"
    and "m_state m = Switching \<or> m_state m = Recovering" and "expired m t"
  shows "m_state (fst (run hstep m (ticks t (b_restore (m_budget m)) (2 + p_restore_attempts (m_policy m))))) = Failed"
proof -
  have "machine_inv m" unfolding assms(1) by (rule host.run_inv [OF new_machine_inv])
  then show ?thesis using assms(2,3) by (rule silent_machine_fails)
qed

theorem silent_environment_halts_witness:
  "m_state (fst (run hstep (fst (run hstep (new_machine default_budget default_policy) [(SwitchRequested FgHome, 0)]))
      (ticks 8000000000 (b_restore (m_budget (fst (run hstep (new_machine default_budget default_policy)
         [(SwitchRequested FgHome, 0)]))))
         (2 + p_restore_attempts (m_policy (fst (run hstep (new_machine default_budget default_policy)
         [(SwitchRequested FgHome, 0)]))))))) = Failed"
  by (rule silent_environment_halts [OF refl]) (simp_all add: machine_eval expired_def)

text \<open>
  C16. The state is never inconsistent. After any history a switch is in flight exactly in
  state \<open>Switching\<close>, and only there is a session being stopped; stock, home and app states name
  their owner; a recovering machine has a recovery and waits for its deadline; a halted machine
  keeps a diagnosis, no recovery and no deadline. A recovery never counts attempts beyond the
  policy, and one that is present outside \<open>Recovering\<close> was left by a restore that failed there
  (its attempt is at least the second, and its deadline is what the machine waits for); a
  policy of one attempt, which is the default, never leaves one.
\<close>

theorem machine_states_consistent:
  "let m = fst (run hstep (new_machine b p) es)
   in (m_state m = Switching) = (m_pending m \<noteq> None) \<and> state_matches (m_state m) (m_foreground m)
    \<and> (m_stopping m \<noteq> None \<longrightarrow> m_state m = Switching)
    \<and> (m_state m = Recovering \<longrightarrow> (\<exists>r. m_recovery m = Some r \<and> next_deadline m = Some (r_deadline r)))
    \<and> (m_state m = Failed \<longrightarrow> m_diagnosis m \<noteq> None \<and> m_recovery m = None \<and> next_deadline m = None)
    \<and> (m_state m \<in> {Stock, Home, App} \<longrightarrow> next_deadline m = map_option r_deadline (m_recovery m))
    \<and> (\<forall>r. m_recovery m = Some r \<longrightarrow> r_attempt r \<in> {1..max 1 (p_restore_attempts (m_policy m))}
         \<and> (m_state m = Recovering \<or> 2 \<le> r_attempt r))
    \<and> (p_restore_attempts (m_policy m) \<le> 1 \<longrightarrow> (m_recovery m \<noteq> None) = (m_state m = Recovering))"
proof -
  define m where "m = fst (run hstep (new_machine b p) es)"
  have inv: "machine_inv m" unfolding m_def by (rule host.run_inv [OF new_machine_inv])
  then have "\<forall>r. m_recovery m = Some r \<longrightarrow> r_attempt r \<in> {1..max 1 (p_restore_attempts (m_policy m))}
         \<and> (m_state m = Recovering \<or> 2 \<le> r_attempt r)"
    by (auto simp: machine_inv_def)
  moreover have "(m_recovery m \<noteq> None) = (m_state m = Recovering)" if "p_restore_attempts (m_policy m) \<le> 1"
  proof
    assume "m_recovery m \<noteq> None"
    then obtain r where r: "m_recovery m = Some r" by blast
    with inv have "r_attempt r \<le> max 1 (p_restore_attempts (m_policy m))" "m_state m = Recovering \<or> 2 \<le> r_attempt r"
      by (auto simp: machine_inv_def)
    with that show "m_state m = Recovering" by simp
  qed (use inv in \<open>simp add: machine_inv_def\<close>)
  moreover have "m_state m \<in> {Stock, Home, App} \<longrightarrow> next_deadline m = map_option r_deadline (m_recovery m)"
    using inv by (cases "m_recovery m") (auto simp: machine_inv_def next_deadline_def List.map_filter_def)
  moreover have "(m_state m = Switching) = (m_pending m \<noteq> None)" "state_matches (m_state m) (m_foreground m)"
    "m_stopping m \<noteq> None \<longrightarrow> m_state m = Switching"
    "m_state m = Recovering \<longrightarrow> (\<exists>r. m_recovery m = Some r \<and> next_deadline m = Some (r_deadline r))"
    "m_state m = Failed \<longrightarrow> m_diagnosis m \<noteq> None \<and> m_recovery m = None \<and> next_deadline m = None"
    using inv by (auto simp: machine_inv_def next_deadline_def List.map_filter_def)
  ultimately show ?thesis unfolding m_def [symmetric] Let_def by blast
qed

text \<open>A crash under the default policy, and a restore that fails while stock runs under a policy of three.\<close>

definition leftover_policy :: failure_policy where
  "leftover_policy = default_policy\<lparr>p_restore_attempts := 3\<rparr>"

theorem machine_states_consistent_witness:
  "let m = fst (run hstep (new_machine default_budget default_policy) [(SwitchRequested FgHome, 0), (ProcessReady FgHome, 1),
          (DisplayOwned FgHome, 2), (SessionExited FgHome ExitError, 3)]);
       k = fst (run hstep (new_machine default_budget leftover_policy) [(RestoreFailed ''late'', 0)])
   in m_state m = Recovering \<and> m_recovery m \<noteq> None \<and> next_deadline m \<noteq> None
    \<and> m_state k = Stock \<and> (\<exists>r. m_recovery k = Some r \<and> 2 \<le> r_attempt r \<and> next_deadline k = Some (r_deadline r))"
proof -
  let ?m = "fst (run hstep (new_machine default_budget default_policy) [(SwitchRequested FgHome, 0), (ProcessReady FgHome, 1),
          (DisplayOwned FgHome, 2), (SessionExited FgHome ExitError, 3)])"
  let ?k = "fst (run hstep (new_machine default_budget leftover_policy) [(RestoreFailed ''late'', 0)])"
  have "m_state ?m = Recovering" by (simp add: machine_eval)
  moreover have "m_state ?k = Stock" "m_recovery ?k \<noteq> None" by (simp_all add: machine_eval leftover_policy_def)
  ultimately show ?thesis
    using machine_states_consistent [of default_budget default_policy "[(SwitchRequested FgHome, 0), (ProcessReady FgHome, 1),
          (DisplayOwned FgHome, 2), (SessionExited FgHome ExitError, 3)]"]
      machine_states_consistent [of default_budget leftover_policy "[(RestoreFailed ''late'', 0)]"]
    unfolding Let_def by auto
qed

section \<open>A switch that supersedes a switch\<close>

text \<open>
  A request that arrives while a switch is in flight replaces the pending switch without a
  \<open>TerminateSession\<close>: the owner of the replaced switch, whose \<open>StartForeground\<close> was already
  emitted, is never told to stop by this step.
\<close>

lemma superseded_switch_not_terminated:
  assumes "m_state m = Switching"
  shows "TerminateSession why esc \<notin> set (snd (hstep m (SwitchRequested to, t)))"
  using assms by (simp add: hstep_def handle_def begin_switch_def Let_def)

end
