(* ===== verification/Readiness.thy ===== *)
theory Readiness
  imports Prelude
begin

text \<open>
  How the supervisor reports that it is up and that a session is alive: the readiness
  ladder (\<open>platform/host/src/readiness.rs\<close>) and the main-loop progress watch
  (\<open>platform/host/src/progress.rs\<close>). The ladder never goes down, its labels round trip, and
  a stall verdict is only given when no poll inside the reported span saw the loop advance.
\<close>

section \<open>The readiness ladder\<close>

datatype rung = Process | Control | ProtocolRung | DeviceAdapter | HomeRung | Ready

text \<open>Position in declaration order: the order the derived \<open>Ord\<close> gives.\<close>

fun rung_rank :: "rung \<Rightarrow> nat" where
  "rung_rank Process = 0"
| "rung_rank Control = 1"
| "rung_rank ProtocolRung = 2"
| "rung_rank DeviceAdapter = 3"
| "rung_rank HomeRung = 4"
| "rung_rank Ready = 5"

lemma rung_rank_inj [simp]: "rung_rank r = rung_rank s \<longleftrightarrow> r = s"
  by (cases r; cases s) auto

instantiation rung :: linorder
begin

definition less_eq_rung :: "rung \<Rightarrow> rung \<Rightarrow> bool" where
  "less_eq_rung r s \<longleftrightarrow> rung_rank r \<le> rung_rank s"

definition less_rung :: "rung \<Rightarrow> rung \<Rightarrow> bool" where
  "less_rung r s \<longleftrightarrow> rung_rank r < rung_rank s"

instance
  by standard (auto simp: less_eq_rung_def less_rung_def)

end

definition LADDER :: "rung list" where
  "LADDER = [Process, Control, ProtocolRung, DeviceAdapter, HomeRung, Ready]"

fun rung_label :: "rung \<Rightarrow> string" where
  "rung_label Process = ''process''"
| "rung_label Control = ''control''"
| "rung_label ProtocolRung = ''protocol''"
| "rung_label DeviceAdapter = ''device-adapter''"
| "rung_label HomeRung = ''home''"
| "rung_label Ready = ''ready''"

definition rung_next :: "rung \<Rightarrow> rung option" where
  "rung_next r = (case find (\<lambda>s. r < s) LADDER of
     None \<Rightarrow> None | Some s \<Rightarrow> if r \<noteq> Ready then Some s else None)"

datatype unknown_rung = UnknownRung string

definition rung_from_str :: "string \<Rightarrow> (unknown_rung, rung) result" where
  "rung_from_str t = ok_or (UnknownRung t) (find (\<lambda>r. rung_label r = t) LADDER)"

record ladder =
  l_reached :: rung

definition ladder_new :: ladder where
  "ladder_new = \<lparr>l_reached = Process\<rparr>"

definition reached :: "ladder \<Rightarrow> rung \<Rightarrow> ladder" where
  "reached l r = (if l_reached l < r then l\<lparr>l_reached := r\<rparr> else l)"

definition highest :: "ladder \<Rightarrow> rung" where
  "highest l = l_reached l"

definition at_least :: "ladder \<Rightarrow> rung \<Rightarrow> bool" where
  "at_least l r \<longleftrightarrow> r \<le> l_reached l"

text \<open>A ladder as a machine over the rungs reported to it; it emits nothing.\<close>

definition ladder_step :: "ladder \<Rightarrow> rung \<Rightarrow> ladder \<times> unit list" where
  "ladder_step l r = (reached l r, [])"

interpretation ladder: monotone_machine ladder_step "\<lambda>_. True" "\<lambda>_. True" highest
  by unfold_locales (auto simp: ladder_step_def reached_def highest_def)

lemma rung_from_label: "rung_from_str (rung_label r) = Ok r"
  by (cases r) (simp_all add: rung_from_str_def LADDER_def)

lemma rung_from_str_Ok: "rung_from_str t = Ok r \<longleftrightarrow> t = rung_label r"
  by (auto simp: rung_from_label) (auto simp: rung_from_str_def find_Some_iff)

lemma rung_next_rank: "rung_next r = Some s \<longleftrightarrow> rung_rank s = Suc (rung_rank r)"
  by (cases r; cases s) (simp_all add: rung_next_def LADDER_def less_rung_def)

lemma reached_highest: "highest (reached l r) = max (highest l) r"
  by (simp add: highest_def reached_def max_def less_rung_def less_eq_rung_def)

lemma run_highest: "highest (fst (run ladder_step l rs)) = foldl max (highest l) rs"
  by (induction rs arbitrary: l) (simp_all add: ladder_step_def reached_highest)

section \<open>The progress watch\<close>

record tick =
  t_count :: nat
  t_at :: instant

datatype progress = Advancing tick | Quiet duration | Stalled duration

datatype progress_error = Malformed string

record progress_watch =
  w_last :: "tick option"
  w_last_change :: "instant option"

definition watch_new :: progress_watch where
  "watch_new = \<lparr>w_last = None, w_last_change = None\<rparr>"

text \<open>\<open>str::split_whitespace\<close>: maximal runs of characters that are not whitespace.\<close>

fun split_whitespace :: "string \<Rightarrow> string list" where
  "split_whitespace [] = []"
| "split_whitespace (c # cs) =
     (if is_space c then split_whitespace cs
      else if cs = [] \<or> is_space (hd cs) then [c] # split_whitespace cs
      else case split_whitespace cs of [] \<Rightarrow> [[c]] | w # ws \<Rightarrow> (c # w) # ws)"

text \<open>\<open>ProgressWatch::read\<close>: the argument is the file's text, \<open>None\<close> when it cannot be read.\<close>

definition watch_read :: "string option \<Rightarrow> (progress_error, tick option) result" where
  "watch_read raw = (case raw of
     None \<Rightarrow> Ok None
   | Some text \<Rightarrow>
       (case split_whitespace text of
          [] \<Rightarrow> Err (Malformed ''empty'')
        | f # rest \<Rightarrow>
            (case parse_uint u64_max f of
               None \<Rightarrow> Err (Malformed ''first field is not a counter'')
             | Some count \<Rightarrow>
                 (case rest of
                    [] \<Rightarrow> Err (Malformed ''no timestamp'')
                  | g # _ \<Rightarrow>
                      (case parse_uint u64_max g of
                         None \<Rightarrow> Err (Malformed ''second field is not a timestamp'')
                       | Some ms \<Rightarrow> Ok (Some \<lparr>t_count = count, t_at = from_millis ms\<rparr>))))))"

text \<open>The line \<open>MainLoopProgress::tick\<close> publishes.\<close>

definition tick_line :: "tick \<Rightarrow> string" where
  "tick_line t = show_nat (t_count t) @ '' '' @ show_nat (as_millis (t_at t)) @ [newline]"

definition quiet_or_stalled :: "progress_watch \<Rightarrow> tick option \<Rightarrow> instant \<Rightarrow> duration
    \<Rightarrow> progress_watch \<times> progress" where
  "quiet_or_stalled w observed now stall =
     (let since = (case w_last_change w of None \<Rightarrow> now | Some t \<Rightarrow> t);
          stalled_for = now - since
      in (\<lparr>w_last = (if observed \<noteq> None then observed else w_last w),
           w_last_change = (if w_last_change w = None then Some now else w_last_change w)\<rparr>,
          if stall \<le> stalled_for then Stalled stalled_for else Quiet stalled_for))"

definition poll :: "progress_watch \<Rightarrow> string option \<Rightarrow> instant \<Rightarrow> duration
    \<Rightarrow> progress_watch \<times> (progress_error, progress) result" where
  "poll w raw now stall = (case watch_read raw of
     Inl e \<Rightarrow> (w, Err e)
   | Inr observed \<Rightarrow>
       (let advance = (\<lambda>new. (\<lparr>w_last = Some new, w_last_change = Some now\<rparr>, Ok (Advancing new)))
        in case (observed, w_last w) of
          (Some new, Some old) \<Rightarrow>
            if t_count old < t_count new then advance new
            else map_prod id Ok (quiet_or_stalled w observed now stall)
        | (Some new, None) \<Rightarrow> advance new
        | _ \<Rightarrow> map_prod id Ok (quiet_or_stalled w observed now stall)))"

text \<open>Polling over time: each event is the file's text and the time of the poll.\<close>

definition poll_step :: "duration \<Rightarrow> progress_watch \<Rightarrow> string option \<times> instant
    \<Rightarrow> progress_watch \<times> (instant \<times> (progress_error, progress) result) list" where
  "poll_step stall w e = (let (w', r) = poll w (fst e) (snd e) stall in (w', [(snd e, r)]))"

lemma poll_step_simps [simp]:
  "fst (poll_step stall w e) = fst (poll w (fst e) (snd e) stall)"
  "snd (poll_step stall w e) = [(snd e, snd (poll w (fst e) (snd e) stall))]"
  by (simp_all add: poll_step_def case_prod_beta)

lemma quiet_not_advancing [simp]:
  "snd (quiet_or_stalled w ob now stall) \<noteq> Advancing t"
  by (simp add: quiet_or_stalled_def Let_def)

text \<open>What a poll does to the time of the last change, and when it calls a stall.\<close>

lemma poll_advancing:
  "poll w raw now stall = (w', Inr (Advancing t)) \<Longrightarrow> w_last_change w' = Some now"
  by (auto simp: poll_def quiet_or_stalled_def Let_def split: sum.splits option.splits if_splits)

lemma poll_last_change:
  "poll w raw now stall = (w', r) \<Longrightarrow> w_last_change w' = w_last_change w \<or> w_last_change w' = Some now"
  by (auto simp: poll_def quiet_or_stalled_def Let_def split: sum.splits option.splits if_splits)

lemma poll_stalled:
  "poll w raw now stall = (w', Inr (Stalled d)) \<Longrightarrow>
     stall \<le> d \<and> d = now - (case w_last_change w of None \<Rightarrow> now | Some t \<Rightarrow> t)"
  by (auto simp: poll_def quiet_or_stalled_def Let_def split: sum.splits option.splits if_splits)

definition advances :: "(instant \<times> (progress_error, progress) result) list \<Rightarrow> instant set" where
  "advances outs = {t. \<exists>tk. (t, Inr (Advancing tk)) \<in> set outs}"

lemma advances_simps [simp]:
  "advances [] = {}"
  "advances (xs @ ys) = advances xs \<union> advances ys"
  by (auto simp: advances_def)

definition watch_inv :: "progress_watch \<Rightarrow> (instant \<times> (progress_error, progress) result) list \<Rightarrow> bool" where
  "watch_inv w outs \<longleftrightarrow> (case w_last_change w of None \<Rightarrow> advances outs = {}
     | Some c \<Rightarrow> \<forall>t\<in>advances outs. t \<le> c)"

lemma poll_watch_inv:
  assumes inv: "watch_inv w outs" and times: "\<forall>t\<in>advances outs. t \<le> now"
    and p: "poll w raw now stall = (w', r)"
  shows "watch_inv w' (outs @ [(now, r)])"
proof (cases "\<exists>tk. r = Inr (Advancing tk)")
  case True
  with poll_advancing p have "w_last_change w' = Some now" by blast
  with True times show ?thesis by (auto simp: watch_inv_def advances_def)
next
  case False
  then have "advances (outs @ [(now, r)]) = advances outs" by (auto simp: advances_def)
  with inv times poll_last_change [OF p] show ?thesis
    by (auto simp: watch_inv_def split: option.splits)
qed

lemma run_poll_times: "map fst (snd (run (poll_step stall) w ps)) = map snd ps"
  by (induction ps arbitrary: w) simp_all

lemma run_watch_inv:
  assumes "sorted (map snd ps)"
  shows "watch_inv (fst (run (poll_step stall) watch_new ps)) (snd (run (poll_step stall) watch_new ps))"
  using assms
proof (induction ps rule: rev_induct)
  case Nil
  show ?case by (simp add: watch_inv_def watch_new_def)
next
  case (snoc e ps)
  let ?w = "fst (run (poll_step stall) watch_new ps)" and ?outs = "snd (run (poll_step stall) watch_new ps)"
  have sorted: "sorted (map snd ps)" and le: "\<forall>t\<in>set (map snd ps). t \<le> snd e"
    using snoc.prems by (auto simp: sorted_append)
  have "fst ` set ?outs = snd ` set ps"
    using arg_cong [OF run_poll_times [of stall watch_new ps], of set] by simp
  then have "\<forall>t\<in>advances ?outs. t \<le> snd e" using le by (force simp: advances_def)
  from poll_watch_inv [OF snoc.IH [OF sorted] this prod.collapse [symmetric], of "fst e" stall]
  show ?case
    by (simp add: fst_run_append snd_run_append)
qed

lemma run_snoc_out:
  assumes "snd (run (poll_step stall) w ps) = outs @ [out]"
  shows "\<exists>ps' e. ps = ps' @ [e] \<and> snd (run (poll_step stall) w ps') = outs
     \<and> out = (snd e, snd (poll (fst (run (poll_step stall) w ps')) (fst e) (snd e) stall))"
proof (cases ps rule: rev_cases)
  case Nil
  with assms show ?thesis by simp
next
  case (snoc ps' e)
  with assms show ?thesis
    by (simp add: snd_run_append)
qed

section \<open>Published ticks read back\<close>

lemma split_whitespace_word:
  assumes "w \<noteq> []" and "\<And>c. c \<in> set w \<Longrightarrow> \<not> is_space c" and "rest = [] \<or> is_space (hd rest)"
  shows "split_whitespace (w @ rest) = w # split_whitespace rest"
  using assms
proof (induction w)
  case Nil
  then show ?case by simp
next
  case (Cons c cs)
  then show ?case by (cases "cs = []") (auto simp: hd_append)
qed

lemma is_space_blank [simp]: "is_space CHR '' ''"
  by (simp add: is_space_def)

lemma show_nat_not_space: "c \<in> set (show_nat n) \<Longrightarrow> \<not> is_space c"
  by (blast dest: show_nat_digits digit_not_space)

lemma split_tick_line: "split_whitespace (tick_line t) = [show_nat (t_count t), show_nat (as_millis (t_at t))]"
  by (simp add: tick_line_def split_whitespace_word show_nat_not_space)

section \<open>Properties\<close>

text \<open>
  A stall verdict is sound. Poll a fresh watch any number of times, at times that do not
  go back, with any file contents: when the last poll says \<open>Stalled d\<close>, then \<open>d\<close> is at least
  the stall budget and every earlier poll that saw the counter advance is at least \<open>d\<close> old.
\<close>

theorem stalled_means_no_advance:
  assumes "sorted (map snd ps)"
    and "snd (run (poll_step stall) watch_new ps) = outs @ [(now, Ok (Stalled d))]"
  shows "stall \<le> d \<and> (\<forall>t tk. (t, Ok (Advancing tk)) \<in> set outs \<longrightarrow> t + d \<le> now)"
proof -
  from run_snoc_out [OF assms(2)] obtain ps' raw where
    ps: "ps = ps' @ [(raw, now)]" and outs: "snd (run (poll_step stall) watch_new ps') = outs"
    and out: "Ok (Stalled d) = snd (poll (fst (run (poll_step stall) watch_new ps')) raw now stall)"
    by (metis prod.collapse prod.inject)
  let ?w = "fst (run (poll_step stall) watch_new ps')"
  have s: "sorted (map snd ps')" and le: "\<forall>t\<in>set (map snd ps'). t \<le> now"
    using assms(1) by (auto simp: ps sorted_append)
  have inv: "watch_inv ?w outs" using run_watch_inv [OF s, of stall] outs by simp
  have times: "fst ` set outs = snd ` set ps'"
    using arg_cong [OF run_poll_times [of stall watch_new ps'], of set] outs by simp
  obtain w' where "poll ?w raw now stall = (w', Inr (Stalled d))" using out by (metis prod.collapse)
  from poll_stalled [OF this] have d: "stall \<le> d"
    "d = now - (case w_last_change ?w of None \<Rightarrow> now | Some t \<Rightarrow> t)" by simp_all
  have "t + d \<le> now" if "(t, Inr (Advancing tk)) \<in> set outs" for t tk
  proof -
    have "t \<in> advances outs" using that by (auto simp: advances_def)
    moreover have "t \<le> now" using that times le by force
    ultimately show ?thesis using inv d(2) by (auto simp: watch_inv_def split: option.splits)
  qed
  with d(1) show ?thesis by blast
qed

theorem stalled_means_no_advance_witness:
  "snd (run (poll_step 2) watch_new [(Some ''7 0'', 1), (None, 3)])
     = [(1, Ok (Advancing \<lparr>t_count = 7, t_at = 0\<rparr>)), (3, Ok (Stalled 2))]
   \<and> 1 + 2 \<le> (3 :: nat)"
proof -
  have polled: "snd (run (poll_step 2) watch_new [(Some ''7 0'', 1), (None, 3)])
     = [(1, Ok (Advancing \<lparr>t_count = 7, t_at = 0\<rparr>))] @ [(3, Ok (Stalled 2))]"
    by (simp add: run.simps poll_step_def poll_def watch_read_def watch_new_def quiet_or_stalled_def Let_def
        parse_uint_def is_digit_def digit_val_def is_space_def from_millis_def)
  from stalled_means_no_advance [OF _ polled] polled show ?thesis by auto
qed

text \<open>
  A published tick reads back. For every tick a session can publish (a counter and a
  millisecond timestamp of 64 bits), the watch's reader recovers exactly that tick from the
  line the session wrote.
\<close>

theorem tick_round_trip:
  assumes "count \<le> u64_max" and "ms \<le> u64_max"
  shows "watch_read (Some (tick_line \<lparr>t_count = count, t_at = from_millis ms\<rparr>))
    = Ok (Some \<lparr>t_count = count, t_at = from_millis ms\<rparr>)"
  using assms by (simp add: watch_read_def split_tick_line parse_show_nat)

theorem tick_round_trip_witness:
  "watch_read (Some (tick_line \<lparr>t_count = 41, t_at = from_millis 1700000000000\<rparr>))
    = Ok (Some \<lparr>t_count = 41, t_at = from_millis 1700000000000\<rparr>)"
  by (rule tick_round_trip) simp_all

text \<open>
  The ladder reports the highest rung ever reached and its labels are exact. Whatever
  rungs are reported in whatever order, the recorded rung is their maximum, and the text
  the updater reads parses back to it, while any other text is an error.
\<close>

theorem ladder_reports_maximum:
  "highest (fst (run ladder_step ladder_new rs)) = foldl max Process rs
   \<and> rung_from_str (rung_label (highest (fst (run ladder_step ladder_new rs)))) = Ok (foldl max Process rs)
   \<and> (rung_from_str t = Err (UnknownRung t)) = (t \<notin> rung_label ` UNIV)"
proof -
  have h: "highest (fst (run ladder_step ladder_new rs)) = foldl max Process rs"
    by (simp add: run_highest) (simp add: ladder_new_def highest_def)
  moreover have "rung_from_str t = Err (UnknownRung t) \<longleftrightarrow> t \<notin> rung_label ` UNIV"
    using rung_from_str_Ok [of t] by (cases "rung_from_str t")
      (auto simp: rung_from_str_def rung_from_label)
  ultimately show ?thesis by (simp add: rung_from_label)
qed

end
