(* ===== verification/Boot.thy ===== *)
theory Boot
  imports Prelude
begin

text \<open>
  The boot path: the durable attempt counter (\<open>platform/boot/src/counter.rs\<close>), the disable
  marker (\<open>autostart.rs\<close>), the decision (\<open>policy.rs\<close>), the launcher binary that
  acts on it (\<open>bin/paperclip-launcher.rs\<close>) and the operator's \<open>paperctl autostart\<close>
  commands (\<open>tools/paperctl/src/device.rs\<close>). The disk is the text of two files. What the
  world does to a boot (writes that fail, a power cut, what the supervisor's status file
  says at each poll) is an input. The lemmas show that boots which do not reach Home are
  counted before they can wedge the machine, that at most three of them are ever tried, and
  that the marker then stops every later boot.
\<close>

section \<open>The durable state\<close>

record boot_disk =
  attempts_file :: "string option"
  marker_file :: "string option"

datatype boot_error = CorruptCounter string | StoreFailed string

record boot_counter =
  attempts :: nat

definition MAX_BOOT_ATTEMPTS :: nat where
  "MAX_BOOT_ATTEMPTS = 3"

definition counter_read :: "boot_disk \<Rightarrow> (boot_error, boot_counter) result" where
  "counter_read d = (case attempts_file d of
     None \<Rightarrow> Ok \<lparr>attempts = 0\<rparr>
   | Some text \<Rightarrow> (case parse_uint u32_max (trim text) of
       None \<Rightarrow> Err (CorruptCounter text)
     | Some n \<Rightarrow> Ok \<lparr>attempts = n\<rparr>))"

definition exhausted :: "boot_counter \<Rightarrow> bool" where
  "exhausted c \<longleftrightarrow> MAX_BOOT_ATTEMPTS \<le> attempts c"

text \<open>\<open>ok\<close> is whether the atomic write reached the disk; a failed one leaves the file as it was.\<close>

definition counter_write :: "bool \<Rightarrow> boot_disk \<Rightarrow> boot_counter \<Rightarrow> (boot_error, boot_disk) result" where
  "counter_write ok d c =
     (if ok then Ok (d\<lparr>attempts_file := Some (show_nat (attempts c) @ [newline])\<rparr>)
      else Err (StoreFailed ''boot/attempts''))"

definition record_attempt :: "bool \<Rightarrow> boot_disk \<Rightarrow> (boot_error, boot_disk \<times> boot_counter) result" where
  "record_attempt ok d = and_then (counter_read d) (\<lambda>current.
     let nxt = \<lparr>attempts = (attempts current + 1) mod 2 ^ 32\<rparr>
     in and_then (counter_write ok d nxt) (\<lambda>d'. Ok (d', nxt)))"

definition mark_good :: "bool \<Rightarrow> boot_disk \<Rightarrow> (boot_error, boot_disk) result" where
  "mark_good ok d = counter_write ok d \<lparr>attempts = 0\<rparr>"

definition is_disabled :: "boot_disk \<Rightarrow> bool" where
  "is_disabled d \<longleftrightarrow> marker_file d \<noteq> None"

definition disable :: "bool \<Rightarrow> boot_disk \<Rightarrow> string \<Rightarrow> (boot_error, boot_disk) result" where
  "disable ok d reason =
     (if ok then Ok (d\<lparr>marker_file := Some (reason @ [newline])\<rparr>)
      else Err (StoreFailed ''autostart-disabled''))"

definition enable :: "boot_disk \<Rightarrow> boot_disk" where
  "enable d = d\<lparr>marker_file := None\<rparr>"

definition disabled_reason :: "boot_disk \<Rightarrow> string option" where
  "disabled_reason d = map_option trim (marker_file d)"

section \<open>The decision\<close>

datatype skip_reason = Disabled | AttemptsExhausted nat

datatype decision = Launch | Skip skip_reason

fun skip_describe :: "skip_reason \<Rightarrow> string" where
  "skip_describe Disabled = ''autostart is disabled''"
| "skip_describe (AttemptsExhausted n) = show_nat n
     @ '' consecutive boot attempt(s) failed to reach Home; autostart refuses to try again until it is reset''"

definition decide :: "boot_counter \<Rightarrow> bool \<Rightarrow> decision" where
  "decide c disabled =
     (if disabled then Skip Disabled
      else if exhausted c then Skip (AttemptsExhausted (attempts c))
      else Launch)"

section \<open>Watching for Home\<close>

definition status_field :: "string \<Rightarrow> string \<Rightarrow> string option" where
  "status_field status key = find_map (\<lambda>line. case split_once CHR ''='' line of
       None \<Rightarrow> None
     | Some (name, v) \<Rightarrow> if trim name = key then Some (trim v) else None) (lines status)"

abbreviation unwrap_or_default :: "string option \<Rightarrow> string" where
  "unwrap_or_default x \<equiv> (case x of None \<Rightarrow> [] | Some s \<Rightarrow> s)"

datatype home_verdict = ReachedHome | ReachedOther string string

text \<open>
  One pass of the loop: the status file if it could be read, whether the supervisor is
  alive, the time since the start, and the status file as it reads at the deadline.
\<close>

record status_poll =
  sp_status :: "string option"
  sp_alive :: bool
  sp_elapsed :: duration
  sp_status_late :: "string option"

definition BOOT_GRADE_BUDGET :: duration where
  "BOOT_GRADE_BUDGET = from_secs 45"

definition POLL_INTERVAL :: duration where
  "POLL_INTERVAL = from_millis 500"

definition poll_verdict :: "status_poll \<Rightarrow> home_verdict option" where
  "poll_verdict p =
     (let after_status =
        (if \<not> sp_alive p \<and> from_secs 2 < sp_elapsed p
         then Some (ReachedOther ''absent'' ''the supervisor exited before reaching Home'')
         else if BOOT_GRADE_BUDGET \<le> sp_elapsed p
         then Some (ReachedOther
                (case status_field (unwrap_or_default (sp_status_late p)) ''state'' of
                   None \<Rightarrow> ''unknown'' | Some s \<Rightarrow> s)
                ''deadline of 45s expired before Home arrived'')
         else None)
      in case sp_status p of
           None \<Rightarrow> after_status
         | Some status \<Rightarrow>
             (let state = unwrap_or_default (status_field status ''state'')
              in if state = ''home'' then Some ReachedHome
                 else if state = ''failed'' \<or> state = ''recovering''
                 then Some (ReachedOther state (unwrap_or_default (status_field status ''diagnosis'')))
                 else after_status))"

text \<open>\<open>None\<close> when the polls given run out before a verdict.\<close>

definition watch_for_home :: "status_poll list \<Rightarrow> home_verdict option" where
  "watch_for_home ps = find_map poll_verdict ps"

section \<open>One boot\<close>

text \<open>
  What the world does to one boot: whether each durable write lands, whether a step before
  the watch (config, app materialisation, units, bring-up, the request) fails, whether
  the power goes after the attempt was recorded, and the polls.
\<close>

record boot_world =
  w_marker_write :: bool
  w_record_write :: bool
  w_reset_write :: bool
  w_setup_error :: "string option"
  w_power_cut :: bool
  w_polls :: "status_poll list"

datatype boot_event =
    Skipped skip_reason
  | LaunchRecorded nat
  | HomeReached
  | HomeMissed string string
  | CutShort
  | StillWatching
  | LauncherFailed string

fun boot_error_text :: "boot_error \<Rightarrow> string" where
  "boot_error_text (CorruptCounter text) = ''not a boot counter (`'' @ text @ ''`)''"
| "boot_error_text (StoreFailed path) = path"

definition launch :: "boot_disk \<Rightarrow> boot_world \<Rightarrow> boot_disk \<times> boot_event list" where
  "launch d w = (case record_attempt (w_record_write w) d of
     Inl e \<Rightarrow> (d, [LauncherFailed (''recording the boot attempt: '' @ boot_error_text e)])
   | Inr (d', attempt) \<Rightarrow>
       (let started = LaunchRecorded (attempts attempt)
        in if w_power_cut w then (d', [started, CutShort])
           else case w_setup_error w of
             Some message \<Rightarrow> (d', [started, LauncherFailed message])
           | None \<Rightarrow>
               (case watch_for_home (w_polls w) of
                  None \<Rightarrow> (d', [started, StillWatching])
                | Some (ReachedOther state diagnosis) \<Rightarrow> (d', [started, HomeMissed state diagnosis])
                | Some ReachedHome \<Rightarrow>
                    (case mark_good (w_reset_write w) d' of
                       Inl e \<Rightarrow> (d', [started, LauncherFailed
                          (''resetting the boot counter: '' @ boot_error_text e)])
                     | Inr d'' \<Rightarrow> (d'', [started, HomeReached])))))"

definition boot :: "boot_disk \<Rightarrow> boot_world \<Rightarrow> boot_disk \<times> boot_event list" where
  "boot d w =
     (if is_disabled d then (d, [Skipped Disabled])
      else case counter_read d of
        Inl e \<Rightarrow> (d, [LauncherFailed (''reading the boot counter: '' @ boot_error_text e)])
      | Inr counter \<Rightarrow>
          (case decide counter False of
             Skip reason \<Rightarrow>
               (case reason of
                  AttemptsExhausted _ \<Rightarrow>
                    (case disable (w_marker_write w) d (skip_describe reason) of
                       Inl e \<Rightarrow> (d, [Skipped reason, LauncherFailed
                          (''recording why autostart stopped: '' @ boot_error_text e)])
                     | Inr d' \<Rightarrow> (d', [Skipped reason]))
                | Disabled \<Rightarrow> (d, [Skipped reason]))
           | Launch \<Rightarrow> launch d w))"

section \<open>The operator's commands\<close>

datatype autostart_command = CmdEnable | CmdDisable string | CmdReset

definition autostart :: "autostart_command \<Rightarrow> boot_disk \<Rightarrow> (boot_error, boot_disk) result" where
  "autostart c d = (case c of
     CmdEnable \<Rightarrow> Ok (enable d)
   | CmdDisable reason \<Rightarrow> disable True d reason
   | CmdReset \<Rightarrow> and_then (mark_good True d) (\<lambda>d'. Ok (enable d')))"

section \<open>Lemmas\<close>

lemma counter_read_written [simp]:
  "n \<le> u32_max \<Longrightarrow> counter_read (d\<lparr>attempts_file := Some (show_nat n @ [newline])\<rparr>) = Ok \<lparr>attempts = n\<rparr>"
  by (simp add: counter_read_def parse_show_nat)

lemma counter_read_marker [simp]: "counter_read (d\<lparr>marker_file := m\<rparr>) = counter_read d"
  by (simp add: counter_read_def)

lemma counter_read_bound: "counter_read d = Ok c \<Longrightarrow> attempts c \<le> u32_max"
  by (auto simp: counter_read_def dest: parse_uint_bound split: option.splits)

lemma record_attempt_Ok:
  "record_attempt ok d = Ok (d', c') \<longleftrightarrow>
     (\<exists>c. counter_read d = Ok c \<and> ok \<and> c' = \<lparr>attempts = (attempts c + 1) mod 2 ^ 32\<rparr>
        \<and> d' = d\<lparr>attempts_file := Some (show_nat (attempts c') @ [newline])\<rparr>)"
  by (auto simp: record_attempt_def counter_write_def and_then_Ok_iff Let_def split: if_splits)

text \<open>How many boots without Home the disk still allows.\<close>

definition allowance :: "boot_disk \<Rightarrow> nat" where
  "allowance d = (case counter_read d of Inl _ \<Rightarrow> 0 | Inr c \<Rightarrow> MAX_BOOT_ATTEMPTS - attempts c)"

fun is_launch :: "boot_event \<Rightarrow> bool" where
  "is_launch (LaunchRecorded _) = True"
| "is_launch _ = False"

text \<open>A launch is only ever made with fewer than three failures on record, and is recorded first.\<close>

lemma boot_launches:
  assumes "LaunchRecorded n \<in> set (snd (boot d w))"
  shows "\<exists>c. \<not> is_disabled d \<and> counter_read d = Ok c \<and> attempts c < MAX_BOOT_ATTEMPTS \<and> n = attempts c + 1
    \<and> boot d w = launch d w \<and> w_record_write w"
proof -
  have "\<exists>c. \<not> is_disabled d \<and> counter_read d = Ok c \<and> \<not> exhausted c \<and> boot d w = launch d w"
    using assms by (auto simp: boot_def decide_def split: if_splits sum.splits decision.splits skip_reason.splits)
  then obtain c where c: "\<not> is_disabled d" "counter_read d = Ok c" "\<not> exhausted c" "boot d w = launch d w"
    by blast
  then have lt: "attempts c < MAX_BOOT_ATTEMPTS" by (simp add: exhausted_def)
  then have small: "(attempts c + 1) mod 2 ^ 32 = attempts c + 1" by (simp add: MAX_BOOT_ATTEMPTS_def)
  have "n = attempts c + 1 \<and> w_record_write w"
    using assms c(2) small unfolding c(4) launch_def
    by (auto simp: record_attempt_Ok Let_def split: sum.splits if_splits option.splits home_verdict.splits)
  with c lt show ?thesis by blast
qed

text \<open>What a launch leaves behind.\<close>

lemma launch_cases:
  assumes c: "counter_read d = Ok c" and lt: "attempts c < MAX_BOOT_ATTEMPTS" and w: "w_record_write w"
  defines "d' \<equiv> d\<lparr>attempts_file := Some (show_nat (attempts c + 1) @ [newline])\<rparr>"
  shows "fst (launch d w) = d' \<and> HomeReached \<notin> set (snd (launch d w))
       \<or> fst (launch d w) = d'\<lparr>attempts_file := Some (show_nat 0 @ [newline])\<rparr>
           \<and> HomeReached \<in> set (snd (launch d w)) \<and> watch_for_home (w_polls w) = Some ReachedHome"
    and "filter is_launch (snd (launch d w)) = [LaunchRecorded (attempts c + 1)]"
proof -
  have "(attempts c + 1) mod 2 ^ 32 = attempts c + 1" using lt by (simp add: MAX_BOOT_ATTEMPTS_def)
  then have r: "record_attempt (w_record_write w) d = Ok (d', \<lparr>attempts = attempts c + 1\<rparr>)"
    using c w by (simp add: record_attempt_Ok d'_def)
  show "fst (launch d w) = d' \<and> HomeReached \<notin> set (snd (launch d w))
       \<or> fst (launch d w) = d'\<lparr>attempts_file := Some (show_nat 0 @ [newline])\<rparr>
           \<and> HomeReached \<in> set (snd (launch d w)) \<and> watch_for_home (w_polls w) = Some ReachedHome"
    and "filter is_launch (snd (launch d w)) = [LaunchRecorded (attempts c + 1)]"
    by (auto simp: launch_def r Let_def mark_good_def counter_write_def
        split: option.splits home_verdict.splits if_splits)
qed

text \<open>Without a launch the counter file is not touched.\<close>

lemma launch_not_recorded:
  "\<not> w_record_write w \<Longrightarrow> fst (launch d w) = d \<and> filter is_launch (snd (launch d w)) = []"
  by (auto simp: launch_def record_attempt_def counter_write_def split: sum.splits)
     (auto simp: and_then_Ok_iff)

lemma boot_no_launch:
  "filter is_launch (snd (boot d w)) = [] \<Longrightarrow> attempts_file (fst (boot d w)) = attempts_file d"
proof -
  assume none: "filter is_launch (snd (boot d w)) = []"
  have launch: "attempts_file (fst (launch d w)) = attempts_file d"
    if c: "counter_read d = Inr c" and ne: "\<not> exhausted c" and b: "boot d w = launch d w" for c
  proof (cases "w_record_write w")
    case True
    with launch_cases(2) [OF c _ True] ne none b show ?thesis by (simp add: exhausted_def)
  qed (simp add: launch_not_recorded)
  show ?thesis
  proof (cases "counter_read d")
    case (Inr c)
    with launch show ?thesis
      by (cases "exhausted c"; cases "is_disabled d"; cases "w_marker_write w")
         (simp_all add: boot_def decide_def disable_def)
  qed (simp add: boot_def)
qed

lemma allowance_step:
  assumes "HomeReached \<notin> set (snd (boot d w))"
  shows "length (filter is_launch (snd (boot d w))) + allowance (fst (boot d w)) \<le> allowance d"
proof (cases "filter is_launch (snd (boot d w)) = []")
  case True
  with boot_no_launch [OF True] show ?thesis by (simp add: allowance_def counter_read_def)
next
  case False
  then obtain e where e: "e \<in> set (snd (boot d w))" "is_launch e" unfolding filter_empty_conv by blast
  from e(2) obtain n where "e = LaunchRecorded n" by (cases e) auto
  with e(1) have "LaunchRecorded n \<in> set (snd (boot d w))" by simp
  from boot_launches [OF this] obtain c where c: "counter_read d = Ok c" "attempts c < MAX_BOOT_ATTEMPTS"
    "boot d w = launch d w" "w_record_write w" by blast
  then show ?thesis
    using launch_cases [OF c(1,2,4)] assms counter_read_bound [OF c(1)]
    by (auto simp: allowance_def MAX_BOOT_ATTEMPTS_def)
qed

lemma allowance_run:
  "HomeReached \<notin> set (snd (run boot d ws)) \<Longrightarrow>
     length (filter is_launch (snd (run boot d ws))) + allowance (fst (run boot d ws)) \<le> allowance d"
proof (induction ws arbitrary: d)
  case Nil
  then show ?case by simp
next
  case (Cons w ws)
  then have "length (filter is_launch (snd (boot d w))) + allowance (fst (boot d w)) \<le> allowance d"
    by (intro allowance_step) simp
  with Cons.IH [of "fst (boot d w)"] Cons.prems show ?case by simp
qed

lemma allowance_le: "allowance d \<le> 3"
  by (auto simp: allowance_def MAX_BOOT_ATTEMPTS_def split: sum.splits)

text \<open>A disabled device is left exactly as it is.\<close>

definition disabled_and :: "boot_disk \<Rightarrow> boot_disk \<Rightarrow> bool" where
  "disabled_and d0 d \<longleftrightarrow> is_disabled d \<and> d = d0"

interpretation disabled: guarded_machine boot "disabled_and d0" "\<lambda>e. e = Skipped Disabled" for d0
  by unfold_locales (auto simp: disabled_and_def boot_def)

lemma find_map_Some: "find_map f xs = Some y \<Longrightarrow> \<exists>x\<in>set xs. f x = Some y"
  by (induction xs) (auto split: option.splits)

lemma find_map_None: "find_map f xs = None \<longleftrightarrow> (\<forall>x\<in>set xs. f x = None)"
  by (induction xs) (auto split: option.splits)

lemma watch_home_status:
  assumes "watch_for_home ps = Some ReachedHome"
  shows "\<exists>p\<in>set ps. \<exists>status. sp_status p = Some status \<and> status_field status ''state'' = Some ''home''"
proof -
  from find_map_Some [OF assms [unfolded watch_for_home_def]]
  obtain p where p: "p \<in> set ps" "poll_verdict p = Some ReachedHome" by blast
  obtain status where st: "sp_status p = Some status"
    using p(2) by (cases "sp_status p") (simp_all add: poll_verdict_def Let_def split: if_splits)
  have "unwrap_or_default (status_field status ''state'') = ''home''"
    using p(2) st by (simp add: poll_verdict_def Let_def split: if_splits)
  then have "status_field status ''state'' = Some ''home''"
    by (cases "status_field status ''state''") simp_all
  with p(1) st show ?thesis by blast
qed

lemma verdict_at_deadline: "BOOT_GRADE_BUDGET \<le> sp_elapsed p \<Longrightarrow> poll_verdict p \<noteq> None"
  by (auto simp: poll_verdict_def Let_def split: option.splits)

section \<open>Properties\<close>

text \<open>
  C17. A device that never reaches Home is not tried for ever. Over any number of boots from
  any contents of the two files, whatever fails or loses power in each of them, if none of
  them reports Home then at most three of them launched Paperclip.
\<close>

theorem at_most_three_failed_launches:
  assumes "HomeReached \<notin> set (snd (run boot d ws))"
  shows "length (filter is_launch (snd (run boot d ws))) \<le> 3"
  using allowance_run [OF assms] allowance_le [of d] by simp

definition dead_world :: boot_world where
  "dead_world = \<lparr>w_marker_write = True, w_record_write = True, w_reset_write = True,
     w_setup_error = None, w_power_cut = True, w_polls = []\<rparr>"

lemmas boot_eval = run.simps boot_def launch_def record_attempt_def counter_read_def counter_write_def decide_def
  exhausted_def is_disabled_def disable_def dead_world_def MAX_BOOT_ATTEMPTS_def Let_def

theorem at_most_three_failed_launches_witness:
  "length (filter is_launch (snd (run boot \<lparr>attempts_file = None, marker_file = None\<rparr> [dead_world, dead_world]))) \<le> 3"
  by (rule at_most_three_failed_launches) (simp add: boot_eval parse_show_nat)

text \<open>
  A boot is counted before it can wedge the machine, and only Home uncounts it. A boot
  that launched leaves on the disk, even when the power goes or a later step fails, a
  counter one higher than it found; the one exception resets it to zero, and then some
  poll of the status file read \<open>state=home\<close>. Without a launch the counter is untouched.
\<close>

theorem launch_is_counted_first:
  "(\<forall>n. LaunchRecorded n \<in> set (snd (boot d w)) \<longrightarrow>
      (\<exists>c. counter_read d = Ok c \<and> n = attempts c + 1
         \<and> (counter_read (fst (boot d w)) = Ok \<lparr>attempts = n\<rparr>
            \<or> counter_read (fst (boot d w)) = Ok \<lparr>attempts = 0\<rparr>
              \<and> (\<exists>p\<in>set (w_polls w). \<exists>status. sp_status p = Some status
                   \<and> status_field status ''state'' = Some ''home''))))
   \<and> ((\<forall>n. LaunchRecorded n \<notin> set (snd (boot d w))) \<longrightarrow> counter_read (fst (boot d w)) = counter_read d)"
proof (intro conjI allI impI)
  fix n assume "LaunchRecorded n \<in> set (snd (boot d w))"
  from boot_launches [OF this] obtain c where c: "counter_read d = Ok c" "attempts c < MAX_BOOT_ATTEMPTS"
    "n = attempts c + 1" "boot d w = launch d w" "w_record_write w" by blast
  have n: "attempts c + 1 \<le> u32_max" using c(2) by (simp add: MAX_BOOT_ATTEMPTS_def)
  show "\<exists>c. counter_read d = Ok c \<and> n = attempts c + 1
         \<and> (counter_read (fst (boot d w)) = Ok \<lparr>attempts = n\<rparr>
            \<or> counter_read (fst (boot d w)) = Ok \<lparr>attempts = 0\<rparr>
              \<and> (\<exists>p\<in>set (w_polls w). \<exists>status. sp_status p = Some status
                   \<and> status_field status ''state'' = Some ''home''))"
    using launch_cases(1) [OF c(1,2,5)] watch_home_status [of "w_polls w"] c(1,3,4) n
    by (intro exI [of _ c]) auto
next
  assume "\<forall>n. LaunchRecorded n \<notin> set (snd (boot d w))"
  then have "filter is_launch (snd (boot d w)) = []"
    by (auto simp: filter_empty_conv elim: is_launch.elims(2))
  from boot_no_launch [OF this] show "counter_read (fst (boot d w)) = counter_read d"
    by (simp add: counter_read_def)
qed

theorem launch_is_counted_first_witness:
  "LaunchRecorded 1 \<in> set (snd (boot \<lparr>attempts_file = None, marker_file = None\<rparr> dead_world))
   \<and> counter_read (fst (boot \<lparr>attempts_file = None, marker_file = None\<rparr> dead_world)) = Ok \<lparr>attempts = 1\<rparr>"
proof -
  have l: "LaunchRecorded 1 \<in> set (snd (boot \<lparr>attempts_file = None, marker_file = None\<rparr> dead_world))"
    by (simp add: boot_eval)
  with launch_is_counted_first [of "\<lparr>attempts_file = None, marker_file = None\<rparr>" dead_world]
  show ?thesis by (auto simp: dead_world_def)
qed

text \<open>
  A spent boot budget becomes a disable marker, and the marker holds. From a readable
  counter at three or more on an enabled device, a boot whose marker write lands sets the
  marker without launching, and every later boot leaves the disk as it is and says only
  that autostart is disabled.
\<close>

theorem spent_boots_disable_for_good:
  assumes "counter_read d = Ok c" and "MAX_BOOT_ATTEMPTS \<le> attempts c"
    and "marker_file d = None" and "w_marker_write w"
  shows "snd (boot d w) = [Skipped (AttemptsExhausted (attempts c))]
    \<and> is_disabled (fst (boot d w))
    \<and> fst (run boot (fst (boot d w)) ws) = fst (boot d w)
    \<and> set (snd (run boot (fst (boot d w)) ws)) \<subseteq> {Skipped Disabled}"
proof -
  have b: "snd (boot d w) = [Skipped (AttemptsExhausted (attempts c))]" "is_disabled (fst (boot d w))"
    using assms by (simp_all add: boot_def decide_def exhausted_def is_disabled_def disable_def)
  then have i: "disabled_and (fst (boot d w)) (fst (boot d w))" by (simp add: disabled_and_def)
  from b disabled.run_inv [OF i, of ws] disabled.run_allowed [OF i, of _ ws] show ?thesis
    by (auto simp: disabled_and_def)
qed

theorem spent_boots_disable_for_good_witness:
  "set (snd (run boot (fst (boot \<lparr>attempts_file = Some ''3'', marker_file = None\<rparr> dead_world)) [dead_world]))
     \<subseteq> {Skipped Disabled}"
  using spent_boots_disable_for_good [of "\<lparr>attempts_file = Some ''3'', marker_file = None\<rparr>" "\<lparr>attempts = 3\<rparr>"
      dead_world "[dead_world]"]
  by (simp add: dead_world_def MAX_BOOT_ATTEMPTS_def counter_read_def parse_uint_def is_digit_def digit_val_def
      trim_def trim_start_def is_space_def)

text \<open>
  The launcher's watch returns. Polls at least the poll interval apart reach a verdict
  within ninety-one passes, whatever the status file says.
\<close>

theorem watch_for_home_returns:
  assumes "91 \<le> length ps" and "\<forall>i<length ps. i * POLL_INTERVAL \<le> sp_elapsed (ps ! i)"
  shows "watch_for_home ps \<noteq> None"
proof -
  have "90 * POLL_INTERVAL \<le> sp_elapsed (ps ! 90)" using assms by simp
  then have "BOOT_GRADE_BUDGET \<le> sp_elapsed (ps ! 90)"
    by (simp add: BOOT_GRADE_BUDGET_def POLL_INTERVAL_def from_secs_def from_millis_def)
  with verdict_at_deadline have "poll_verdict (ps ! 90) \<noteq> None" by blast
  with assms(1) show ?thesis by (auto simp: watch_for_home_def find_map_None)
qed

theorem watch_for_home_returns_witness:
  "watch_for_home (map (\<lambda>i. \<lparr>sp_status = None, sp_alive = True, sp_elapsed = i * POLL_INTERVAL,
      sp_status_late = None\<rparr>) [0..<91]) \<noteq> None"
  by (rule watch_for_home_returns) (simp, simp del: upt_Suc)

text \<open>
  Enabling autostart does not clear a spent boot budget. After the budget is spent,
  \<open>paperctl autostart enable\<close> removes the marker and nothing else, and the next boot skips
  and puts the marker back; \<open>paperctl autostart reset\<close> is the command after which a boot
  launches again.
\<close>

theorem enable_is_undone_by_the_next_boot:
  assumes "counter_read d = Ok c" and "MAX_BOOT_ATTEMPTS \<le> attempts c"
    and "w_marker_write w" and "w_record_write w"
  shows "(\<exists>d'. autostart CmdEnable d = Ok d' \<and> snd (boot d' w) = [Skipped (AttemptsExhausted (attempts c))]
          \<and> is_disabled (fst (boot d' w)))
    \<and> (\<exists>d'. autostart CmdReset d = Ok d' \<and> LaunchRecorded 1 \<in> set (snd (boot d' w)))"
proof
  show "\<exists>d'. autostart CmdEnable d = Ok d' \<and> snd (boot d' w) = [Skipped (AttemptsExhausted (attempts c))]
          \<and> is_disabled (fst (boot d' w))"
    using assms by (simp add: autostart_def enable_def boot_def is_disabled_def decide_def exhausted_def disable_def)
  let ?d = "d\<lparr>attempts_file := Some (show_nat 0 @ [newline]), marker_file := None\<rparr>"
  have r: "counter_read ?d = Ok \<lparr>attempts = 0\<rparr>" by (simp add: counter_read_def parse_show_nat)
  have "LaunchRecorded 1 \<in> set (snd (launch ?d w))"
    using launch_cases(2) [OF r _ assms(4)]
    by (auto simp: MAX_BOOT_ATTEMPTS_def filter_eq_Cons_iff)
  moreover have "boot ?d w = launch ?d w"
    using r by (simp add: boot_def is_disabled_def decide_def exhausted_def MAX_BOOT_ATTEMPTS_def)
  ultimately show "\<exists>d'. autostart CmdReset d = Ok d' \<and> LaunchRecorded 1 \<in> set (snd (boot d' w))"
    by (simp add: autostart_def mark_good_def counter_write_def enable_def)
qed

theorem enable_is_undone_by_the_next_boot_witness:
  "\<exists>d'. autostart CmdEnable \<lparr>attempts_file = Some ''3'', marker_file = Some ''x''\<rparr> = Ok d'
     \<and> snd (boot d' dead_world) = [Skipped (AttemptsExhausted 3)]"
  using enable_is_undone_by_the_next_boot [of "\<lparr>attempts_file = Some ''3'', marker_file = Some ''x''\<rparr>"
      "\<lparr>attempts = 3\<rparr>" dead_world]
  by (auto simp: dead_world_def MAX_BOOT_ATTEMPTS_def counter_read_def parse_uint_def is_digit_def digit_val_def
      trim_def trim_start_def is_space_def)

end
