(* ===== verification/SudokuTypes.thy ===== *)
theory SudokuTypes
  imports Prelude
begin

text \<open>
  Digits, cells and grids (\<open>apps/sudoku-rules/src/types.rs\<close>). A digit is its value, a cell
  its row and column, a grid the 81 optional digits in reading order; \<open>digit_ok\<close>,
  \<open>on_grid\<close> and \<open>grid_ok\<close> are what the private constructors guarantee. The lemmas tie the
  bitmask sweep of \<open>is_valid\<close> to the rule it stands for, that no two cells of a row, column
  or block hold the same digit, and show that the saved line of a grid parses back.
\<close>

section \<open>Digits\<close>

datatype digit = Digit (digit_value: nat)

definition ALL_DIGITS :: u16 where
  "ALL_DIGITS = 0b1111111110"

definition digit_new :: "nat \<Rightarrow> digit option" where
  "digit_new v = (if 1 \<le> v \<and> v \<le> 9 then Some (Digit v) else None)"

definition digits :: "digit list" where
  "digits = map Digit [1, 2, 3, 4, 5, 6, 7, 8, 9]"

definition digit_mask :: "digit \<Rightarrow> u16" where
  "digit_mask d = push_bit (digit_value d) 1"

definition digit_ok :: "digit \<Rightarrow> bool" where
  "digit_ok d \<longleftrightarrow> 1 \<le> digit_value d \<and> digit_value d \<le> 9"

lemma digit_new_ok: "digit_new v = Some d \<longleftrightarrow> digit_ok d \<and> digit_value d = v"
  by (cases d) (auto simp: digit_new_def digit_ok_def)

lemma digit_eq_iff: "d = e \<longleftrightarrow> digit_value d = digit_value e"
  by (cases d; cases e) simp

lemma upto_nine: "[1, 2, 3, 4, 5, 6, 7, 8, 9] = [1..<10::nat]"
  by (simp add: upt_rec)

lemma set_digits: "set digits = {d. digit_ok d}"
proof -
  have "set digits = Digit ` {1..<10}" unfolding digits_def upto_nine by simp
  also have "\<dots> = {d. digit_ok d}"
  proof (intro set_eqI iffI)
    fix d assume "d \<in> {d. digit_ok d}"
    then show "d \<in> Digit ` {1..<10}" by (cases d) (auto simp: digit_ok_def)
  qed (auto simp: digit_ok_def)
  finally show ?thesis .
qed

lemma distinct_digits [simp]: "distinct digits"
  by (simp add: digits_def)

lemma bit_digit_mask: "bit (digit_mask d) n \<longleftrightarrow> n = digit_value d \<and> n < 16"
  by (auto simp: digit_mask_def bit_simps)

lemma and_mask_eq_0: "digit_ok d \<Longrightarrow> w AND digit_mask d = 0 \<longleftrightarrow> \<not> bit w (digit_value d)"
  by (simp add: digit_mask_def push_bit_eq_mult and_exp_eq_0_iff_not_bit)

lemma bit_ALL_DIGITS: "bit ALL_DIGITS v \<longleftrightarrow> 1 \<le> v \<and> v \<le> 9"
proof (cases "v < 16")
  case True
  then have "v \<in> set [0..<16]" by simp
  moreover have "\<forall>v\<in>set [0..<16]. bit ALL_DIGITS v \<longleftrightarrow> 1 \<le> v \<and> v \<le> 9"
    by (simp add: upt_rec ALL_DIGITS_def)
  ultimately show ?thesis by blast
next
  case False
  then show ?thesis by (auto dest: bit_imp_le_length)
qed

section \<open>Cells\<close>

record cell =
  row :: nat
  column :: nat

definition on_grid :: "cell \<Rightarrow> bool" where
  "on_grid c \<longleftrightarrow> row c < 9 \<and> column c < 9"

definition cell_new :: "nat \<Rightarrow> nat \<Rightarrow> cell option" where
  "cell_new r c = (if r < 9 \<and> c < 9 then Some \<lparr>row = r, column = c\<rparr> else None)"

definition block :: "cell \<Rightarrow> nat" where
  "block c = (row c div 3) * 3 + column c div 3"

definition index :: "cell \<Rightarrow> nat" where
  "index c = row c * 9 + column c"

definition from_index :: "nat \<Rightarrow> cell option" where
  "from_index i = (if i < 81 then cell_new (i div 9) (i mod 9) else None)"

definition all_cells :: "cell list" where
  "all_cells = List.map_filter from_index [0..<81]"

definition sees :: "cell \<Rightarrow> cell \<Rightarrow> bool" where
  "sees c d \<longleftrightarrow> d \<noteq> c \<and> (row d = row c \<or> column d = column c \<or> block d = block c)"

definition peers :: "cell \<Rightarrow> cell list" where
  "peers c = filter (sees c) all_cells"

definition cell_name :: "cell \<Rightarrow> string" where
  "cell_name c = ''R'' @ show_nat (row c + 1) @ ''C'' @ show_nat (column c + 1)"

definition cell_at :: "nat \<Rightarrow> cell" where
  "cell_at i = \<lparr>row = i div 9, column = i mod 9\<rparr>"

lemma from_index_at: "i < 81 \<Longrightarrow> from_index i = Some (cell_at i)"
  by (simp add: from_index_def cell_new_def cell_at_def)

lemma all_cells_at: "all_cells = map cell_at [0..<81]"
proof -
  have "\<forall>i\<in>set is. i < 81 \<Longrightarrow> List.map_filter from_index is = map cell_at is" for "is"
    by (induction "is") (simp_all add: from_index_at)
  then show ?thesis by (simp add: all_cells_def)
qed

lemma index_cell_at [simp]: "index (cell_at i) = i"
  by (simp add: index_def cell_at_def)

lemma cell_at_index [simp]: "on_grid c \<Longrightarrow> cell_at (index c) = c"
  by (cases c) (simp add: index_def cell_at_def on_grid_def)

lemma index_less [simp]: "on_grid c \<Longrightarrow> index c < 81"
  by (simp add: index_def on_grid_def)

lemma cell_at_on_grid [simp]: "i < 81 \<Longrightarrow> on_grid (cell_at i)"
  by (simp add: cell_at_def on_grid_def)

lemma index_eq [simp]: "on_grid c \<Longrightarrow> on_grid d \<Longrightarrow> index c = index d \<longleftrightarrow> c = d"
  by (metis cell_at_index)

lemma set_all_cells [simp]: "c \<in> set all_cells \<longleftrightarrow> on_grid c"
proof
  assume "on_grid c"
  then have "c = cell_at (index c)" "index c < 81" by simp_all
  then show "c \<in> set all_cells" by (force simp: all_cells_at simp del: cell_at_index)
qed (auto simp: all_cells_at)

lemma distinct_all_cells [simp]: "distinct all_cells"
  by (simp add: all_cells_at distinct_map) (metis index_cell_at inj_onI)

lemma length_all_cells [simp]: "length all_cells = 81"
  by (simp add: all_cells_at)

lemma block_less [simp]: "on_grid c \<Longrightarrow> block c < 9"
proof -
  assume "on_grid c"
  then have "row c div 3 < 3" "column c div 3 < 3" by (simp_all add: on_grid_def less_mult_imp_div_less)
  then show ?thesis unfolding block_def by linarith
qed

lemma row_less [simp]: "on_grid c \<Longrightarrow> row c < 9"
  and column_less [simp]: "on_grid c \<Longrightarrow> column c < 9"
  by (simp_all add: on_grid_def)

lemma sees_sym: "sees c d \<longleftrightarrow> sees d c"
  by (auto simp: sees_def)

section \<open>Grids\<close>

type_synonym grid = "digit option list"

definition EMPTY :: grid where
  "EMPTY = replicate 81 None"

definition grid_get :: "grid \<Rightarrow> cell \<Rightarrow> digit option" where
  "grid_get g c = g ! index c"

definition grid_set :: "grid \<Rightarrow> cell \<Rightarrow> digit option \<Rightarrow> grid" where
  "grid_set g c d = g[index c := d]"

definition filled :: "grid \<Rightarrow> nat" where
  "filled g = length (filter (\<lambda>x. x \<noteq> None) g)"

definition is_complete :: "grid \<Rightarrow> bool" where
  "is_complete g \<longleftrightarrow> list_all (\<lambda>x. x \<noteq> None) g"

definition conflict :: "grid \<Rightarrow> cell \<Rightarrow> digit \<Rightarrow> cell option" where
  "conflict g c d = find (\<lambda>p. grid_get g p = Some d) (peers c)"

definition accepts :: "grid \<Rightarrow> cell \<Rightarrow> digit \<Rightarrow> bool" where
  "accepts g c d \<longleftrightarrow> conflict g c d = None"

text \<open>The digits used in each row, column and block, as masks.\<close>

record units =
  rows :: "u16 list"
  columns :: "u16 list"
  blocks :: "u16 list"

definition no_units :: units where
  "no_units = \<lparr>rows = replicate 9 0, columns = replicate 9 0, blocks = replicate 9 0\<rparr>"

definition used :: "'a units_scheme \<Rightarrow> cell \<Rightarrow> u16" where
  "used u c = (rows u ! row c OR columns u ! column c) OR blocks u ! block c"

definition mark :: "'a units_scheme \<Rightarrow> cell \<Rightarrow> u16 \<Rightarrow> 'a units_scheme" where
  "mark u c m = u\<lparr>rows := (rows u)[row c := rows u ! row c OR m],
     columns := (columns u)[column c := columns u ! column c OR m],
     blocks := (blocks u)[block c := blocks u ! block c OR m]\<rparr>"

fun valid_loop :: "grid \<Rightarrow> cell list \<Rightarrow> units \<Rightarrow> bool" where
  "valid_loop g [] u = True"
| "valid_loop g (c # cs) u = (case grid_get g c of
     None \<Rightarrow> valid_loop g cs u
   | Some d \<Rightarrow>
       (if rows u ! row c AND digit_mask d \<noteq> 0 then False
        else if columns u ! column c AND digit_mask d \<noteq> 0 then False
        else if blocks u ! block c AND digit_mask d \<noteq> 0 then False
        else valid_loop g cs (mark u c (digit_mask d))))"

definition is_valid :: "grid \<Rightarrow> bool" where
  "is_valid g = valid_loop g all_cells no_units"

definition is_solved :: "grid \<Rightarrow> bool" where
  "is_solved g \<longleftrightarrow> is_complete g \<and> is_valid g"

section \<open>The saved line\<close>

definition cell_char :: "digit option \<Rightarrow> char" where
  "cell_char x = (case x of Some d \<Rightarrow> char_of (48 + digit_value d) | None \<Rightarrow> CHR ''.'')"

definition to_line :: "grid \<Rightarrow> string" where
  "to_line g = map cell_char g"

fun parse_loop :: "nat \<Rightarrow> string \<Rightarrow> grid \<Rightarrow> nat \<Rightarrow> (grid \<times> nat) option" where
  "parse_loop i [] g seen = Some (g, seen)"
| "parse_loop i (ch # chs) g seen = (case from_index i of
     None \<Rightarrow> None
   | Some c \<Rightarrow>
       (if ch = CHR ''.'' \<or> ch = CHR ''0'' then parse_loop (i + 1) chs g (i + 1)
        else if 49 \<le> (of_char ch :: nat) \<and> (of_char ch :: nat) \<le> 57
        then parse_loop (i + 1) chs (grid_set g c (digit_new (of_char ch - 48))) (i + 1)
        else None))"

definition parse_line :: "string \<Rightarrow> grid option" where
  "parse_line text = (case parse_loop 0 text EMPTY 0 of
     None \<Rightarrow> None
   | Some (g, seen) \<Rightarrow> if seen = 81 then Some g else None)"

section \<open>Masks track what has been placed\<close>

text \<open>
  \<open>f\<close> gives each cell's digit, zero for none; \<open>S\<close> are the cells taken into account.
\<close>

definition tracks :: "'a units_scheme \<Rightarrow> (cell \<Rightarrow> nat) \<Rightarrow> cell set \<Rightarrow> bool" where
  "tracks u f S \<longleftrightarrow> length (rows u) = 9 \<and> length (columns u) = 9 \<and> length (blocks u) = 9
     \<and> (\<forall>r<9. \<forall>v. bit (rows u ! r) v \<longleftrightarrow> v \<noteq> 0 \<and> (\<exists>c\<in>S. row c = r \<and> f c = v))
     \<and> (\<forall>r<9. \<forall>v. bit (columns u ! r) v \<longleftrightarrow> v \<noteq> 0 \<and> (\<exists>c\<in>S. column c = r \<and> f c = v))
     \<and> (\<forall>r<9. \<forall>v. bit (blocks u ! r) v \<longleftrightarrow> v \<noteq> 0 \<and> (\<exists>c\<in>S. block c = r \<and> f c = v))"

definition no_clash :: "(cell \<Rightarrow> nat) \<Rightarrow> cell set \<Rightarrow> bool" where
  "no_clash f S \<longleftrightarrow> (\<forall>c\<in>S. \<forall>d\<in>S. sees c d \<longrightarrow> f c \<noteq> 0 \<longrightarrow> f c \<noteq> f d)"

lemma tracks_empty: "tracks no_units f {}"
  by (simp add: tracks_def no_units_def)

lemma tracks_used:
  assumes "tracks u f S" and "on_grid c" and "c \<notin> S"
  shows "bit (used u c) v \<longleftrightarrow> v \<noteq> 0 \<and> (\<exists>d\<in>S. sees c d \<and> f d = v)"
proof -
  have *: "bit (rows u ! row c) v \<longleftrightarrow> v \<noteq> 0 \<and> (\<exists>d\<in>S. row d = row c \<and> f d = v)"
    "bit (columns u ! column c) v \<longleftrightarrow> v \<noteq> 0 \<and> (\<exists>d\<in>S. column d = column c \<and> f d = v)"
    "bit (blocks u ! block c) v \<longleftrightarrow> v \<noteq> 0 \<and> (\<exists>d\<in>S. block d = block c \<and> f d = v)"
    using assms(1) row_less [OF assms(2)] column_less [OF assms(2)] block_less [OF assms(2)]
    unfolding tracks_def by simp_all
  have "d \<noteq> c" if "d \<in> S" for d using that assms(3) by blast
  then show ?thesis unfolding used_def bit_or_iff * sees_def by auto
qed

lemma tracks_skip: "tracks u f S \<Longrightarrow> f c = 0 \<Longrightarrow> tracks u f (insert c S)"
  unfolding tracks_def by auto

lemma tracks_cong:
  assumes "tracks u f S" and "\<And>c. c \<in> S \<Longrightarrow> f c = g c"
  shows "tracks u g S"
proof -
  have *: "(\<exists>c\<in>S. P c \<and> f c = v) \<longleftrightarrow> (\<exists>c\<in>S. P c \<and> g c = v)" for P v
    using assms(2) by auto
  show ?thesis using assms(1) by (simp add: tracks_def *)
qed

lemma tracks_drop:
  assumes "tracks u f S" and "f c = 0"
  shows "tracks u f (S - {c})"
proof -
  have *: "v \<noteq> 0 \<and> (\<exists>d\<in>S - {c}. P d \<and> f d = v) \<longleftrightarrow> v \<noteq> 0 \<and> (\<exists>d\<in>S. P d \<and> f d = v)" for P v
    using assms(2) by auto
  show ?thesis using assms(1) unfolding tracks_def * .
qed

lemma tracks_mark:
  assumes "tracks u f S" and "on_grid c" and "f c = v" and "v \<noteq> 0" and "v < 16"
  shows "tracks (mark u c (push_bit v 1)) f (insert c S)"
proof -
  define m :: u16 where "m = push_bit v 1"
  have *: "bit m n \<longleftrightarrow> n = v" for n
    using assms(5) unfolding m_def by (auto simp: bit_simps)
  have len: "length (rows u) = 9" "length (columns u) = 9" "length (blocks u) = 9"
    using assms(1) by (simp_all add: tracks_def)
  have "bit (rows (mark u c m) ! r) n \<longleftrightarrow> bit (rows u ! r) n \<or> (r = row c \<and> n = v)"
    and "bit (columns (mark u c m) ! r) n \<longleftrightarrow> bit (columns u ! r) n \<or> (r = column c \<and> n = v)"
    and "bit (blocks (mark u c m) ! r) n \<longleftrightarrow> bit (blocks u ! r) n \<or> (r = block c \<and> n = v)"
    if "r < 9" for r n
    using that assms(2) len by (auto simp: mark_def nth_list_update bit_or_iff *)
  moreover have "length (rows (mark u c m)) = 9" "length (columns (mark u c m)) = 9" "length (blocks (mark u c m)) = 9"
    using len by (simp_all add: mark_def)
  ultimately show ?thesis using assms(1,3,4) unfolding m_def [symmetric] tracks_def by auto
qed

section \<open>The sweep decides the rule\<close>

definition val :: "grid \<Rightarrow> cell \<Rightarrow> nat" where
  "val g c = (case grid_get g c of None \<Rightarrow> 0 | Some d \<Rightarrow> digit_value d)"

definition grid_ok :: "grid \<Rightarrow> bool" where
  "grid_ok g \<longleftrightarrow> length g = 81 \<and> (\<forall>d. Some d \<in> set g \<longrightarrow> digit_ok d)"

text \<open>The rule: no two cells that see each other hold the same digit.\<close>

definition rule_kept :: "grid \<Rightarrow> bool" where
  "rule_kept g \<longleftrightarrow> (\<forall>c d x. on_grid c \<longrightarrow> on_grid d \<longrightarrow> sees c d \<longrightarrow>
     grid_get g c = Some x \<longrightarrow> grid_get g d \<noteq> Some x)"

lemma grid_get_ok: "grid_ok g \<Longrightarrow> on_grid c \<Longrightarrow> grid_get g c = Some d \<Longrightarrow> digit_ok d"
  unfolding grid_ok_def grid_get_def by (metis index_less nth_mem)

lemma val_le: "grid_ok g \<Longrightarrow> on_grid c \<Longrightarrow> val g c \<le> 9"
  using grid_get_ok [of g c] by (auto simp: val_def digit_ok_def split: option.splits)

lemma val_eq_0: "grid_ok g \<Longrightarrow> on_grid c \<Longrightarrow> val g c = 0 \<longleftrightarrow> grid_get g c = None"
  using grid_get_ok [of g c] by (auto simp: val_def digit_ok_def split: option.splits)

lemma val_eq_iff:
  assumes "grid_ok g" "grid_ok h" "on_grid c" "on_grid d"
  shows "val g c = val h d \<longleftrightarrow> grid_get g c = grid_get h d"
proof (cases "grid_get g c")
  case None
  then show ?thesis using val_eq_0 [OF assms(2,4)] by (auto simp: val_def [of g])
next
  case (Some x)
  then have "digit_ok x" using grid_get_ok assms(1,3) by blast
  with Some show ?thesis
    by (cases "grid_get h d") (auto simp: val_def digit_ok_def digit_eq_iff [symmetric])
qed

lemma rule_kept_val:
  assumes "grid_ok g"
  shows "rule_kept g \<longleftrightarrow> no_clash (val g) {c. on_grid c}"
proof -
  have "(\<forall>x. grid_get g c = Some x \<longrightarrow> grid_get g d \<noteq> Some x) \<longleftrightarrow> (val g c \<noteq> 0 \<longrightarrow> val g c \<noteq> val g d)"
    if "on_grid c" "on_grid d" for c d
    using that by (cases "grid_get g c") (auto simp: val_eq_0 [OF assms] val_eq_iff [OF assms assms])
  then show ?thesis unfolding rule_kept_def no_clash_def by blast
qed

lemma no_clash_insert:
  assumes "c \<notin> S"
  shows "no_clash f (insert c S) \<longleftrightarrow> no_clash f S \<and> (f c \<noteq> 0 \<longrightarrow> \<not> (\<exists>d\<in>S. sees c d \<and> f d = f c))"
proof -
  have "\<not> sees c c" by (simp add: sees_def)
  then have "no_clash f (insert c S) \<longleftrightarrow> no_clash f S
      \<and> (\<forall>d\<in>S. sees c d \<longrightarrow> (f c \<noteq> 0 \<longrightarrow> f c \<noteq> f d) \<and> (f d \<noteq> 0 \<longrightarrow> f d \<noteq> f c))"
    unfolding no_clash_def using sees_sym by (simp add: ball_conj_distrib) blast
  also have "(\<forall>d\<in>S. sees c d \<longrightarrow> (f c \<noteq> 0 \<longrightarrow> f c \<noteq> f d) \<and> (f d \<noteq> 0 \<longrightarrow> f d \<noteq> f c))
      \<longleftrightarrow> (f c \<noteq> 0 \<longrightarrow> \<not> (\<exists>d\<in>S. sees c d \<and> f d = f c))" by (auto; metis)
  finally show ?thesis .
qed

lemma no_clash_cong: "(\<And>c. c \<in> S \<Longrightarrow> f c = g c) \<Longrightarrow> no_clash f S \<longleftrightarrow> no_clash g S"
  by (simp add: no_clash_def)

lemma no_clash_subset: "no_clash f S \<Longrightarrow> T \<subseteq> S \<Longrightarrow> no_clash f T"
  unfolding no_clash_def by blast

lemma valid_loop_correct:
  assumes "grid_ok g" and "distinct cs" and "\<forall>c\<in>set cs. on_grid c" and "set cs \<inter> S = {}"
    and "tracks u (val g) S" and "no_clash (val g) S"
  shows "valid_loop g cs u \<longleftrightarrow> no_clash (val g) (S \<union> set cs)"
  using assms(2-)
proof (induction cs arbitrary: u S)
  case Nil
  then show ?case by simp
next
  case (Cons c cs)
  then have c: "on_grid c" "c \<notin> S" by auto
  have set: "S \<union> set (c # cs) = insert c S \<union> set cs" by auto
  show ?case
  proof (cases "grid_get g c")
    case None
    then have z: "val g c = 0" by (simp add: val_def)
    have "valid_loop g cs u \<longleftrightarrow> no_clash (val g) (insert c S \<union> set cs)"
      using Cons.prems c z by (intro Cons.IH) (auto simp: tracks_skip no_clash_insert)
    with None set show ?thesis by simp
  next
    case (Some d)
    then have v: "val g c = digit_value d" by (simp add: val_def)
    have d: "digit_ok d" using grid_get_ok [OF assms(1) c(1) Some] .
    then have nz: "val g c \<noteq> 0" "digit_value d < 16" using v by (simp_all add: digit_ok_def)
    have used: "bit (used u c) (digit_value d) \<longleftrightarrow> (\<exists>x\<in>S. sees c x \<and> val g x = val g c)"
      using tracks_used [OF Cons.prems(4) c] v nz by auto
    have split: "valid_loop g (c # cs) u \<longleftrightarrow>
        \<not> bit (used u c) (digit_value d) \<and> valid_loop g cs (mark u c (digit_mask d))"
      using d by (auto simp: Some and_mask_eq_0 used_def bit_or_iff)
    show ?thesis
    proof (cases "bit (used u c) (digit_value d)")
      case True
      then have "\<not> no_clash (val g) (insert c S)" using used nz c by (simp add: no_clash_insert)
      then have "\<not> no_clash (val g) (insert c S \<union> set cs)"
        using no_clash_subset by blast
      with True split set show ?thesis by simp
    next
      case False
      then have ok: "no_clash (val g) (insert c S)"
        using used c Cons.prems(5) by (simp add: no_clash_insert)
      have "tracks (mark u c (digit_mask d)) (val g) (insert c S)"
        unfolding digit_mask_def using tracks_mark [OF Cons.prems(4) c(1) v] nz v by simp
      then have "valid_loop g cs (mark u c (digit_mask d)) \<longleftrightarrow> no_clash (val g) (insert c S \<union> set cs)"
        using Cons.prems ok by (intro Cons.IH) auto
      with False split set show ?thesis by simp
    qed
  qed
qed

lemma is_valid_rule: "grid_ok g \<Longrightarrow> is_valid g \<longleftrightarrow> rule_kept g"
proof -
  assume g: "grid_ok g"
  have "valid_loop g all_cells no_units \<longleftrightarrow> no_clash (val g) ({} \<union> set all_cells)"
    by (rule valid_loop_correct [OF g]) (auto simp: tracks_empty no_clash_def)
  moreover have "{} \<union> set all_cells = {c. on_grid c}" by auto
  ultimately show ?thesis using g by (simp add: is_valid_def rule_kept_val)
qed

section \<open>Grids as maps\<close>

lemma grid_get_set:
  "length g = 81 \<Longrightarrow> on_grid c \<Longrightarrow> on_grid d \<Longrightarrow> grid_get (grid_set g c x) d = (if d = c then x else grid_get g d)"
  by (auto simp: grid_get_def grid_set_def nth_list_update)

lemma length_grid_set [simp]: "length (grid_set g c x) = length g"
  by (simp add: grid_set_def)

lemma grid_ok_set: "grid_ok g \<Longrightarrow> (\<And>d. x = Some d \<Longrightarrow> digit_ok d) \<Longrightarrow> grid_ok (grid_set g c x)"
  using set_update_subset_insert [of g "index c" x] by (auto simp: grid_ok_def grid_set_def)

lemma grid_eqI:
  assumes "length g = 81" and "length h = 81" and "\<And>c. on_grid c \<Longrightarrow> grid_get g c = grid_get h c"
  shows "g = h"
  using assms by (intro nth_equalityI) (metis cell_at_on_grid grid_get_def index_cell_at)+

lemma grid_set_same: "grid_set g c (grid_get g c) = g"
  by (simp add: grid_set_def grid_get_def)

lemma grid_set_set [simp]: "grid_set (grid_set g c x) c y = grid_set g c y"
  by (simp add: grid_set_def)

lemma grid_ok_EMPTY [simp]: "grid_ok EMPTY"
  by (simp add: grid_ok_def EMPTY_def)

lemma is_complete_get: "length g = 81 \<Longrightarrow> is_complete g \<longleftrightarrow> (\<forall>c. on_grid c \<longrightarrow> grid_get g c \<noteq> None)"
  unfolding is_complete_def list_all_length grid_get_def
  by (metis cell_at_on_grid index_cell_at index_less)

lemma set_peers: "p \<in> set (peers c) \<longleftrightarrow> on_grid p \<and> sees c p"
  by (auto simp: peers_def)

lemma conflict_None: "conflict g c d = None \<longleftrightarrow> (\<forall>p. on_grid p \<longrightarrow> sees c p \<longrightarrow> grid_get g p \<noteq> Some d)"
  unfolding conflict_def find_None_iff using set_peers by auto

lemma conflict_Some: "conflict g c d = Some p \<Longrightarrow> on_grid p \<and> sees c p \<and> grid_get g p = Some d"
  unfolding conflict_def find_Some_iff using set_peers [of _ c] by (metis nth_mem)

lemma rule_kept_set:
  assumes "grid_ok g" and "rule_kept g" and "on_grid c" and "conflict g c d = None"
  shows "rule_kept (grid_set g c (Some d))"
proof -
  have free: "grid_get g p \<noteq> Some d" if "on_grid p" "sees c p \<or> sees p c" for p
    using assms(4) that sees_sym unfolding conflict_None by blast
  have len: "length g = 81" using assms(1) by (simp add: grid_ok_def)
  show ?thesis
    unfolding rule_kept_def
  proof (intro allI impI)
    fix a b x
    assume a: "on_grid a" and b: "on_grid b" and s: "sees a b" and x: "grid_get (grid_set g c (Some d)) a = Some x"
    have ne: "a \<noteq> b" using s by (auto simp: sees_def)
    have "grid_get g a = Some x \<longrightarrow> grid_get g b \<noteq> Some x"
      using assms(2) a b s unfolding rule_kept_def by blast
    with free [OF a] free [OF b] s x ne show "grid_get (grid_set g c (Some d)) b \<noteq> Some x"
      by (simp add: grid_get_set len assms(3) a b split: if_splits) blast+
  qed
qed

lemma rule_kept_clear:
  assumes "grid_ok g" and "rule_kept g" and "on_grid c"
  shows "rule_kept (grid_set g c None)"
  using assms by (auto simp: rule_kept_def grid_get_set grid_ok_def)

section \<open>The saved line parses back\<close>

definition parse_char :: "char \<Rightarrow> digit option option" where
  "parse_char ch = (if ch = CHR ''.'' \<or> ch = CHR ''0'' then Some None
     else if 49 \<le> (of_char ch :: nat) \<and> (of_char ch :: nat) \<le> 57 then Some (digit_new (of_char ch - 48)) else None)"

lemma parse_char_cell_char: "(\<And>d. x = Some d \<Longrightarrow> digit_ok d) \<Longrightarrow> parse_char (cell_char x) = Some x"
proof (cases x)
  case None
  then show ?thesis by (simp add: parse_char_def cell_char_def)
next
  case (Some d)
  assume "\<And>d. x = Some d \<Longrightarrow> digit_ok d"
  with Some have d: "digit_ok d" by simp
  then have n: "(of_char (cell_char x) :: nat) = 48 + digit_value d"
    using Some by (simp add: cell_char_def of_char_of digit_ok_def)
  have "cell_char x \<noteq> CHR ''.''" "cell_char x \<noteq> CHR ''0''"
    using n d by (auto simp: digit_ok_def)
  with n d Some show ?thesis by (simp add: parse_char_def digit_ok_def digit_new_def)
qed

lemma parse_char_ok: "parse_char ch = Some (Some d) \<Longrightarrow> digit_ok d"
  by (auto simp: parse_char_def digit_new_ok split: if_splits)

lemma cell_char_parse: "parse_char ch = Some x \<Longrightarrow> cell_char x = (if ch = CHR ''0'' then CHR ''.'' else ch)"
  by (auto simp: parse_char_def cell_char_def digit_new_def split: if_splits option.splits)

lemma parse_loop_Cons:
  "parse_loop i (ch # chs) g seen = (case from_index i of
     None \<Rightarrow> None
   | Some c \<Rightarrow> (case parse_char ch of None \<Rightarrow> None
       | Some x \<Rightarrow> parse_loop (i + 1) chs (if x = None then g else grid_set g c x) (i + 1)))"
proof -
  consider "ch = CHR ''.'' \<or> ch = CHR ''0''"
    | "\<not> (ch = CHR ''.'' \<or> ch = CHR ''0'')" "49 \<le> (of_char ch :: nat)" "(of_char ch :: nat) \<le> 57"
    | "\<not> (ch = CHR ''.'' \<or> ch = CHR ''0'')" "\<not> (49 \<le> (of_char ch :: nat) \<and> (of_char ch :: nat) \<le> 57)"
    by blast
  then show ?thesis
  proof cases
    case 1
    then show ?thesis by (auto simp: parse_char_def split: option.split)
  next
    case 2
    from 2(2,3) have "1 \<le> (of_char ch :: nat) - 48" "(of_char ch :: nat) - 48 \<le> 9" by linarith+
    then have "\<exists>d. digit_new (of_char ch - 48) = Some d" by (simp add: digit_new_def)
    with 2 show ?thesis by (auto simp: parse_char_def split: option.split)
  next
    case 3
    then have "parse_char ch = None" unfolding parse_char_def by (simp only: if_False)
    moreover from 3 have "parse_loop i (ch # chs) g seen = None"
      unfolding parse_loop.simps by (cases "from_index i") (simp_all only: option.case if_False)
    ultimately show ?thesis by (simp split: option.split del: parse_loop.simps)
  qed
qed

lemma parse_loop_prefix:
  "length pre + length chs + k = 81 \<Longrightarrow>
   parse_loop (length pre) chs (pre @ replicate (length chs + k) None) seen =
     (if \<exists>ch\<in>set chs. parse_char ch = None then None
      else Some (pre @ map (the \<circ> parse_char) chs @ replicate k None,
                 if chs = [] then seen else length pre + length chs))"
proof (induction chs arbitrary: pre seen)
  case Nil
  then show ?case by simp
next
  case (Cons ch chs)
  let ?g = "pre @ replicate (length (ch # chs) + k) None"
  have i: "from_index (length pre) = Some (cell_at (length pre))" using Cons.prems by (simp add: from_index_at)
  have set: "grid_set ?g (cell_at (length pre)) x = (pre @ [x]) @ replicate (length chs + k) None" for x
    by (simp add: grid_set_def list_update_append)
  have same: "?g = (pre @ [None]) @ replicate (length chs + k) None" by simp
  have IH: "parse_loop (length pre + 1) chs ((pre @ [x]) @ replicate (length chs + k) None) (length pre + 1) =
     (if \<exists>ch\<in>set chs. parse_char ch = None then None
      else Some ((pre @ [x]) @ map (the \<circ> parse_char) chs @ replicate k None, length pre + length (ch # chs)))" for x
    using Cons.IH [of "pre @ [x]" "length pre + 1"] Cons.prems by simp
  show ?case
  proof (cases "parse_char ch")
    case None
    then show ?thesis by (simp add: parse_loop_Cons i del: parse_loop.simps)
  next
    case (Some x)
    have "parse_loop (length pre) (ch # chs) ?g seen =
        parse_loop (length pre + 1) chs (if x = None then ?g else grid_set ?g (cell_at (length pre)) x) (length pre + 1)"
      by (simp only: parse_loop_Cons i Some option.case)
    also have "(if x = None then ?g else grid_set ?g (cell_at (length pre)) x) = (pre @ [x]) @ replicate (length chs + k) None"
      by (simp only: set) simp
    finally show ?thesis using Some by (simp only: IH) simp
  qed
qed

lemma parse_loop_long: "81 < i + length chs \<Longrightarrow> i \<le> 81 \<Longrightarrow> parse_loop i chs g seen = None"
proof (induction chs arbitrary: i g seen)
  case Nil
  then show ?case by simp
next
  case (Cons ch chs)
  show ?case
  proof (cases "i = 81")
    case True
    then show ?thesis by (simp add: from_index_def)
  next
    case False
    then have "i < 81" using Cons.prems by simp
    then show ?thesis using Cons by (simp add: from_index_at)
  qed
qed

lemma parse_line_iff:
  "parse_line text = Some g \<longleftrightarrow> length text = 81 \<and> (\<forall>ch\<in>set text. parse_char ch \<noteq> None)
     \<and> g = map (the \<circ> parse_char) text"
proof (cases "81 < length text")
  case True
  then show ?thesis by (simp add: parse_line_def parse_loop_long)
next
  case False
  then have "parse_loop 0 text EMPTY 0 =
     (if \<exists>ch\<in>set text. parse_char ch = None then None
      else Some (map (the \<circ> parse_char) text @ replicate (81 - length text) None, length text))"
    using parse_loop_prefix [of "[]" "text" "81 - length text" 0] by (simp add: EMPTY_def)
  then show ?thesis by (auto simp: parse_line_def)
qed

lemma parse_line_ok: "parse_line text = Some g \<Longrightarrow> grid_ok g"
proof -
  assume "parse_line text = Some g"
  then have len: "length text = 81" and all: "\<forall>ch\<in>set text. parse_char ch \<noteq> None"
    and g: "g = map (the \<circ> parse_char) text" unfolding parse_line_iff by blast+
  have "digit_ok d" if d: "Some d \<in> set g" for d
  proof -
    from d obtain ch where "ch \<in> set text" "Some d = the (parse_char ch)" unfolding g by auto
    with all have "parse_char ch = Some (Some d)" by force
    then show ?thesis by (rule parse_char_ok)
  qed
  with len g show ?thesis by (simp add: grid_ok_def)
qed

lemma parse_to_line: "grid_ok g \<Longrightarrow> parse_line (to_line g) = Some g"
proof -
  assume g: "grid_ok g"
  have "parse_char (cell_char x) = Some x" if "x \<in> set g" for x
    using g that by (intro parse_char_cell_char) (auto simp: grid_ok_def)
  then show ?thesis using g by (auto simp: parse_line_iff to_line_def grid_ok_def map_idI)
qed

section \<open>Properties\<close>

text \<open>
  The mask sweep decides the Sudoku rule. For every grid, \<open>is_valid\<close> holds exactly when
  no two different cells in one row, column or block hold the same digit, and the digit a
  caller asks to place is refused exactly when some such cell holds it, which is then the
  cell named.
\<close>

theorem is_valid_iff_rule:
  assumes "grid_ok g"
  shows "is_valid g = (\<forall>a b x. on_grid a \<longrightarrow> on_grid b \<longrightarrow> sees a b \<longrightarrow>
           grid_get g a = Some x \<longrightarrow> grid_get g b \<noteq> Some x)
    \<and> (case conflict g c d of
         None \<Rightarrow> accepts g c d \<and> (\<forall>p. on_grid p \<longrightarrow> sees c p \<longrightarrow> grid_get g p \<noteq> Some d)
       | Some p \<Rightarrow> \<not> accepts g c d \<and> on_grid p \<and> sees c p \<and> grid_get g p = Some d)"
  using is_valid_rule [OF assms] conflict_None [of g c d] conflict_Some [of g c d]
  by (cases "conflict g c d") (simp_all add: rule_kept_def accepts_def)

theorem is_valid_iff_rule_witness:
  "is_valid EMPTY = (\<forall>a b x. on_grid a \<longrightarrow> on_grid b \<longrightarrow> sees a b \<longrightarrow>
       grid_get EMPTY a = Some x \<longrightarrow> grid_get EMPTY b \<noteq> Some x)"
  using is_valid_iff_rule [OF grid_ok_EMPTY] by blast

text \<open>
  A saved grid line reads back, and nothing else is read as a grid. Printing a grid and
  parsing the line gives the grid, and any text that parses is exactly 81 characters, gives
  a well-formed grid, and is that grid's printed line up to the spelling of an empty cell.
\<close>

theorem grid_line_round_trip:
  "(grid_ok g \<longrightarrow> parse_line (to_line g) = Some g)
   \<and> (parse_line line = Some h \<longrightarrow> grid_ok h \<and> length line = 81
        \<and> to_line h = map (\<lambda>ch. if ch = CHR ''0'' then CHR ''.'' else ch) line)"
proof (intro conjI impI)
  assume p: "parse_line line = Some h"
  show "grid_ok h" by (rule parse_line_ok [OF p])
  show "length line = 81" using p by (simp add: parse_line_iff)
  have "cell_char (the (parse_char ch)) = (if ch = CHR ''0'' then CHR ''.'' else ch)" if "ch \<in> set line" for ch
    using p that cell_char_parse [of ch] unfolding parse_line_iff by (metis option.collapse)
  then show "to_line h = map (\<lambda>ch. if ch = CHR ''0'' then CHR ''.'' else ch) line"
    using p by (simp add: parse_line_iff to_line_def)
qed (rule parse_to_line)

theorem grid_line_round_trip_witness:
  "parse_line (to_line EMPTY) = Some EMPTY"
  using grid_line_round_trip [of EMPTY] by simp

end
