(* ===== verification/SudokuRng.thy ===== *)
theory SudokuRng
  imports Prelude "HOL-Library.Multiset"
begin

text \<open>
  The generator's stream (\<open>apps/sudoku-rules/src/rng.rs\<close>): SplitMix64 on wrapping 64-bit
  words, the multiply-shift draw below a bound, and the Fisher-Yates shuffle. A draw stays
  below its bound, a shuffle is a permutation, and a stream does not repeat a state before
  it has been through all of them.
\<close>

record rng =
  r_state :: u64

definition rng_new :: "u64 \<Rightarrow> rng" where
  "rng_new seed = \<lparr>r_state = seed\<rparr>"

definition gamma :: u64 where
  "gamma = 0x9E3779B97F4A7C15"

definition next_u64 :: "rng \<Rightarrow> rng \<times> u64" where
  "next_u64 r =
     (let s = r_state r + gamma;
          z1 = (s XOR drop_bit 30 s) * 0xBF58476D1CE4E5B9;
          z2 = (z1 XOR drop_bit 27 z1) * 0x94D049BB133111EB
      in (r\<lparr>r_state := s\<rparr>, z2 XOR drop_bit 31 z2))"

text \<open>The product is below \<open>2 ^ 128\<close>, as the source's \<open>u128\<close> holds it.\<close>

definition below :: "rng \<Rightarrow> nat \<Rightarrow> rng \<times> nat" where
  "below r bound =
     (if bound = 0 then (r, 0)
      else let (r', w) = next_u64 r in (r', drop_bit 64 (unat w * bound)))"

definition swap_items :: "'a list \<Rightarrow> nat \<Rightarrow> nat \<Rightarrow> 'a list" where
  "swap_items xs i j = xs[i := xs ! j, j := xs ! i]"

fun shuffle_loop :: "rng \<Rightarrow> 'a list \<Rightarrow> nat \<Rightarrow> rng \<times> 'a list" where
  "shuffle_loop r xs 0 = (r, xs)"
| "shuffle_loop r xs (Suc i) =
     (let (r', other) = below r (Suc i + 1) in shuffle_loop r' (swap_items xs (Suc i) other) i)"

definition shuffle :: "rng \<Rightarrow> 'a list \<Rightarrow> rng \<times> 'a list" where
  "shuffle r xs = shuffle_loop r xs (length xs - 1)"

lemma below_less: "0 < bound \<Longrightarrow> snd (below r bound) < bound"
proof -
  assume b: "0 < bound"
  obtain r' w where n: "next_u64 r = (r', w)" by (cases "next_u64 r")
  have "unat w < 2 ^ 64" using unsigned_less [of w] by simp
  then have "unat w * bound < bound * 2 ^ 64" using b by (simp add: mult.commute)
  then have "unat w * bound div 2 ^ 64 < bound" by (rule less_mult_imp_div_less)
  with b n show ?thesis by (simp add: below_def drop_bit_eq_div)
qed

lemma mset_swap_items: "i < length xs \<Longrightarrow> j < length xs \<Longrightarrow> mset (swap_items xs i j) = mset xs"
  by (simp add: swap_items_def mset_swap)

lemma shuffle_loop_mset: "i < length xs \<Longrightarrow> mset (snd (shuffle_loop r xs i)) = mset xs"
proof (induction i arbitrary: r xs)
  case 0
  then show ?case by simp
next
  case (Suc i)
  obtain r' other where b: "below r (Suc i + 1) = (r', other)" by (cases "below r (Suc i + 1)")
  with below_less [of "Suc i + 1" r] have "other < length xs" using Suc.prems by simp
  with Suc.prems have "mset (swap_items xs (Suc i) other) = mset xs" by (simp add: mset_swap_items)
  moreover have "i < length (swap_items xs (Suc i) other)" using Suc.prems by (simp add: swap_items_def)
  ultimately show ?case using Suc.IH [of "swap_items xs (Suc i) other" r'] b by (simp add: case_prod_beta)
qed

lemma shuffle_mset: "mset (snd (shuffle r xs)) = mset xs"
  by (cases xs) (simp_all add: shuffle_def shuffle_loop_mset)

lemma shuffle_set [simp]: "set (snd (shuffle r xs)) = set xs"
  using shuffle_mset [of r xs] by (rule mset_eq_setD)

lemma shuffle_distinct [simp]: "distinct (snd (shuffle r xs)) \<longleftrightarrow> distinct xs"
  using shuffle_mset [of r xs] by (metis mset_eq_imp_distinct_iff)

text \<open>The stream as a machine that is asked for draws.\<close>

definition draw :: "rng \<Rightarrow> unit \<Rightarrow> rng \<times> u64 list" where
  "draw r e = (let (r', w) = next_u64 r in (r', [w]))"

lemma draw_state [simp]: "r_state (fst (draw r e)) = r_state r + gamma"
  by (simp add: draw_def next_u64_def Let_def)

lemma run_draw_state: "r_state (fst (run draw r es)) = r_state r + of_nat (length es) * gamma"
  by (induction es arbitrary: r) (simp_all add: algebra_simps)

lemma gamma_inverse: "gamma * 0xF1DE83E19937733D = 1"
  by (simp add: gamma_def)

section \<open>Properties\<close>

text \<open>
  The shuffle permutes and the stream has full period. A shuffled list holds the items
  it was given, each as often; a draw below a bound is below it; and two histories of one
  stream that are at the same state differ in length by a multiple of \<open>2 ^ 64\<close>.
\<close>

theorem shuffle_permutes_and_full_period:
  "mset (snd (shuffle r xs)) = mset xs
   \<and> (0 < bound \<longrightarrow> snd (below r bound) < bound)
   \<and> (r_state (fst (run draw r es)) = r_state (fst (run draw r es'))
        \<longrightarrow> length es mod 2 ^ 64 = length es' mod 2 ^ 64)"
proof (intro conjI impI)
  assume "r_state (fst (run draw r es)) = r_state (fst (run draw r es'))"
  then have "of_nat (length es) * gamma = of_nat (length es') * gamma"
    by (simp add: run_draw_state)
  then have "of_nat (length es) * gamma * 0xF1DE83E19937733D = of_nat (length es') * gamma * 0xF1DE83E19937733D"
    by (rule arg_cong)
  then have "(of_nat (length es) :: u64) = of_nat (length es')"
    unfolding mult.assoc gamma_inverse by (simp only: mult_1_right)
  then show "length es mod 2 ^ 64 = length es' mod 2 ^ 64"
    by (simp add: word_of_nat_eq_iff take_bit_eq_mod)
qed (simp_all add: shuffle_mset below_less)

theorem shuffle_permutes_and_full_period_witness:
  "mset (snd (shuffle (rng_new 7) [1, 2, 2, 3 :: nat])) = {#1, 2, 2, 3#} \<and> snd (below (rng_new 7) 5) < 5"
  using shuffle_permutes_and_full_period [of "rng_new 7" "[1, 2, 2, 3 :: nat]" 5] by simp

end
