(* ===== verification/SudokuSolve.thy ===== *)
theory SudokuSolve
  imports SudokuTypes SudokuRng
begin

text \<open>
  The backtracking search (\<open>apps/sudoku-rules/src/solve.rs\<close>). The mutable search state is
  threaded through: placing, recursing and lifting again return the state they leave. The
  recursion is as deep as there are empty cells, so 82 units of fuel are enough for any
  grid; that is proved, and the fuel-less entry points never see it run out. The lemmas
  show that lifting restores the state, that \<open>solutions\<close> counts the completions of the
  grid up to its limit, and that \<open>solve\<close> returns one exactly when there is one.
\<close>

section \<open>The search state\<close>

record search = units +
  s_values :: "nat list"

definition search_new :: search where
  "search_new = \<lparr>rows = replicate 9 0, columns = replicate 9 0, blocks = replicate 9 0,
     s_values = replicate 81 0\<rparr>"

definition place :: "search \<Rightarrow> cell \<Rightarrow> nat \<Rightarrow> search" where
  "place s c v = (mark s c (push_bit v 1))\<lparr>s_values := (s_values s)[index c := v]\<rparr>"

definition lift :: "search \<Rightarrow> cell \<Rightarrow> nat \<Rightarrow> search" where
  "lift s c v =
     (let m = NOT (push_bit v (1 :: u16))
      in s\<lparr>s_values := (s_values s)[index c := 0],
           rows := (rows s)[row c := rows s ! row c AND m],
           columns := (columns s)[column c := columns s ! column c AND m],
           blocks := (blocks s)[block c := blocks s ! block c AND m]\<rparr>)"

fun load_loop :: "grid \<Rightarrow> cell list \<Rightarrow> search \<Rightarrow> search option" where
  "load_loop g [] s = Some s"
| "load_loop g (c # cs) s = (case grid_get g c of
     None \<Rightarrow> load_loop g cs s
   | Some d \<Rightarrow> if used s c AND digit_mask d \<noteq> 0 then None
               else load_loop g cs (place s c (digit_value d)))"

definition load :: "grid \<Rightarrow> search option" where
  "load g = load_loop g all_cells search_new"

definition search_grid :: "search \<Rightarrow> grid" where
  "search_grid s = foldl (\<lambda>g c. grid_set g c (digit_new (s_values s ! index c))) EMPTY all_cells"

section \<open>The most constrained cell\<close>

definition count_ones :: "u16 \<Rightarrow> nat" where
  "count_ones w = length (filter (bit w) [0..<16])"

definition candidates :: "search \<Rightarrow> cell \<Rightarrow> u16" where
  "candidates s c = ALL_DIGITS AND NOT (used s c)"

fun mc_loop :: "search \<Rightarrow> cell list \<Rightarrow> (cell \<times> u16 \<times> nat) option \<Rightarrow> (cell \<times> u16) option" where
  "mc_loop s [] best = map_option (\<lambda>(c, m, _). (c, m)) best"
| "mc_loop s (c # cs) best =
     (if s_values s ! index c \<noteq> 0 then mc_loop s cs best
      else
        let cand = candidates s c; n = count_ones cand
        in if n = 0 then Some (c, 0)
           else
             let best' = (case best of None \<Rightarrow> Some (c, cand, n)
                 | Some (_, _, fewest) \<Rightarrow> if n < fewest then Some (c, cand, n) else best)
             in if n = 1 then map_option (\<lambda>(c, m, _). (c, m)) best'
                else mc_loop s cs best')"

definition most_constrained :: "search \<Rightarrow> (cell \<times> u16) option" where
  "most_constrained s = mc_loop s all_cells None"

section \<open>Counting and filling\<close>

text \<open>The digit loop of \<open>Search::count\<close>; \<open>rec\<close> is the recursive call.\<close>

fun count_loop :: "(search \<Rightarrow> nat \<Rightarrow> (search \<times> nat) option) \<Rightarrow> nat \<Rightarrow> cell \<Rightarrow> u16 \<Rightarrow> digit list
    \<Rightarrow> search \<Rightarrow> nat \<Rightarrow> (search \<times> nat) option" where
  "count_loop rec limit c cand [] s found = Some (s, found)"
| "count_loop rec limit c cand (d # ds) s found =
     (if cand AND digit_mask d = 0 then count_loop rec limit c cand ds s found
      else case rec (place s c (digit_value d)) found of
        None \<Rightarrow> None
      | Some (s', found') \<Rightarrow>
          let s'' = lift s' c (digit_value d)
          in if limit \<le> found' then Some (s'', found')
             else count_loop rec limit c cand ds s'' found')"

fun count_solutions :: "nat \<Rightarrow> nat \<Rightarrow> search \<Rightarrow> nat \<Rightarrow> (search \<times> nat) option" where
  "count_solutions 0 limit s found = None"
| "count_solutions (Suc fuel) limit s found =
     (if limit \<le> found then Some (s, found)
      else case most_constrained s of
        None \<Rightarrow> Some (s, found + 1)
      | Some (c, cand) \<Rightarrow> count_loop (count_solutions fuel limit) limit c cand digits s found)"

text \<open>The digit loop of \<open>Search::fill\<close>.\<close>

fun fill_loop :: "(search \<Rightarrow> rng option \<Rightarrow> (search \<times> rng option \<times> bool) option) \<Rightarrow> cell \<Rightarrow> digit list
    \<Rightarrow> search \<Rightarrow> rng option \<Rightarrow> (search \<times> rng option \<times> bool) option" where
  "fill_loop rec c [] s r = Some (s, r, False)"
| "fill_loop rec c (d # ds) s r =
     (case rec (place s c (digit_value d)) r of
        None \<Rightarrow> None
      | Some (s', r', won) \<Rightarrow>
          if won then Some (s', r', True)
          else fill_loop rec c ds (lift s' c (digit_value d)) r')"

fun fill :: "nat \<Rightarrow> search \<Rightarrow> rng option \<Rightarrow> (search \<times> rng option \<times> bool) option" where
  "fill 0 s r = None"
| "fill (Suc fuel) s r =
     (case most_constrained s of
        None \<Rightarrow> Some (s, r, True)
      | Some (c, cand) \<Rightarrow>
          let order = filter (\<lambda>d. cand AND digit_mask d \<noteq> 0) digits;
              (r', order') = (case r of None \<Rightarrow> (None, order)
                 | Some g \<Rightarrow> (let (g', xs) = shuffle g order in (Some g', xs)))
          in fill_loop (fill fuel) c order' s r')"

definition search_fuel :: nat where
  "search_fuel = 82"

definition solutions :: "grid \<Rightarrow> nat \<Rightarrow> nat" where
  "solutions g limit = (case load g of
     None \<Rightarrow> 0
   | Some s \<Rightarrow> (case count_solutions search_fuel limit s 0 of None \<Rightarrow> 0 | Some (_, found) \<Rightarrow> found))"

definition solve :: "grid \<Rightarrow> grid option" where
  "solve g = (case load g of
     None \<Rightarrow> None
   | Some s \<Rightarrow> (case fill search_fuel s None of
        Some (s', _, True) \<Rightarrow> Some (search_grid s') | _ \<Rightarrow> None))"

definition is_unique :: "grid \<Rightarrow> bool" where
  "is_unique g \<longleftrightarrow> solutions g 2 = 1"

text \<open>
  \<open>complete\<close>: on an empty grid. The fallbacks stand for the source's \<open>unreachable!\<close> and its
  debug assertion; a theorem below shows they are not taken.
\<close>

definition complete :: "rng \<Rightarrow> rng \<times> grid" where
  "complete r = (case load EMPTY of
     None \<Rightarrow> (r, EMPTY)
   | Some s \<Rightarrow> (case fill search_fuel s (Some r) of
        None \<Rightarrow> (r, EMPTY)
      | Some (s', r', _) \<Rightarrow> (case r' of None \<Rightarrow> r | Some g \<Rightarrow> g, search_grid s')))"

section \<open>Consistent states and the completions they leave\<close>

abbreviation cells_on_grid :: "cell set" where
  "cells_on_grid \<equiv> {c. on_grid c}"

definition cell_val :: "nat list \<Rightarrow> cell \<Rightarrow> nat" where
  "cell_val f c = f ! index c"

definition consistent :: "search \<Rightarrow> bool" where
  "consistent s \<longleftrightarrow> length (s_values s) = 81 \<and> (\<forall>v\<in>set (s_values s). v \<le> 9)
     \<and> tracks s (cell_val (s_values s)) cells_on_grid \<and> no_clash (cell_val (s_values s)) cells_on_grid"

definition completions :: "search \<Rightarrow> nat list set" where
  "completions s = {f. length f = 81 \<and> (\<forall>v\<in>set f. 1 \<le> v \<and> v \<le> 9) \<and> no_clash (cell_val f) cells_on_grid
     \<and> (\<forall>i<81. s_values s ! i \<noteq> 0 \<longrightarrow> f ! i = s_values s ! i)}"

definition empties :: "search \<Rightarrow> nat" where
  "empties s = card {i. i < 81 \<and> s_values s ! i = 0}"

lemma tracks_values [simp]: "tracks (s\<lparr>s_values := vs\<rparr>) f S = tracks s f S"
  by (simp add: tracks_def)

lemma used_values [simp]: "used (s\<lparr>s_values := vs\<rparr>) c = used s c"
  by (simp add: used_def)

lemma s_values_place [simp]: "s_values (place s c v) = (s_values s)[index c := v]"
  by (simp add: place_def)

lemma finite_completions [simp]: "finite (completions s)"
proof (rule finite_subset)
  show "completions s \<subseteq> {f. set f \<subseteq> {1..9} \<and> length f = 81}" by (auto simp: completions_def)
  show "finite {f. set f \<subseteq> {1..9 :: nat} \<and> length f = 81}" by (rule finite_lists_length_eq) simp
qed

lemma used_consistent:
  assumes "consistent s" and "on_grid c" and "cell_val (s_values s) c = 0"
  shows "bit (used s c) v \<longleftrightarrow> v \<noteq> 0 \<and> (\<exists>d. on_grid d \<and> sees c d \<and> cell_val (s_values s) d = v)"
proof -
  have "tracks s (cell_val (s_values s)) (cells_on_grid - {c})"
    using assms by (simp add: consistent_def tracks_drop)
  from tracks_used [OF this assms(2)] show ?thesis by (auto simp: sees_def)
qed

lemma bit_candidates: "bit (candidates s c) v \<longleftrightarrow> 1 \<le> v \<and> v \<le> 9 \<and> \<not> bit (used s c) v"
proof (cases "v < 16")
  case True
  then show ?thesis by (simp add: candidates_def bit_and_iff bit_not_iff bit_ALL_DIGITS)
next
  case False
  then show ?thesis by (auto dest: bit_imp_le_length)
qed

lemma place_consistent:
  assumes s: "consistent s" and c: "on_grid c" and z: "cell_val (s_values s) c = 0"
    and v: "bit (candidates s c) v"
  shows "consistent (place s c v)"
proof -
  let ?f = "cell_val (s_values s)" and ?g = "cell_val ((s_values s)[index c := v])"
  let ?S = "cells_on_grid - {c}"
  have len: "length (s_values s) = 81" using s by (simp add: consistent_def)
  have v19: "1 \<le> v" "v \<le> 9" and free: "\<not> bit (used s c) v" using v by (simp_all add: bit_candidates)
  have g: "?g d = (if d = c then v else ?f d)" if "on_grid d" for d
    using that c len by (auto simp: cell_val_def nth_list_update)
  have ins: "insert c ?S = cells_on_grid" using c by auto
  have "tracks s ?f ?S" using s z by (simp add: consistent_def tracks_drop)
  then have tg: "tracks s ?g ?S" by (rule tracks_cong) (simp add: g)
  have "tracks (mark s c (push_bit v 1)) ?g (insert c ?S)"
    by (rule tracks_mark [OF tg c]) (use g c v19 in auto)
  then have t: "tracks (mark s c (push_bit v 1)) ?g cells_on_grid" by (simp only: ins)
  have "no_clash ?f ?S" using s no_clash_subset [of ?f cells_on_grid ?S] by (auto simp: consistent_def)
  then have "no_clash ?g ?S" unfolding no_clash_def using g by auto
  moreover have "\<not> (\<exists>d\<in>?S. sees c d \<and> ?g d = ?g c)"
    using free used_consistent [OF s c z, of v] v19 g c by auto
  ultimately have "no_clash ?g (insert c ?S)"
    using no_clash_insert [of c ?S ?g] by blast
  then have "no_clash ?g cells_on_grid" by (simp only: ins)
  moreover have "\<forall>x\<in>set ((s_values s)[index c := v]). x \<le> 9"
    using s v19 set_update_subset_insert [of "s_values s" "index c" v] by (auto simp: consistent_def)
  ultimately show ?thesis using t len by (simp add: consistent_def place_def)
qed

lemma word_or_and_not:
  fixes w m :: "'a :: len word"
  shows "w AND m = 0 \<Longrightarrow> (w OR m) AND NOT m = w"
proof -
  assume z: "w AND m = 0"
  have "\<not> (bit w n \<and> bit m n)" for n
    using arg_cong [OF z, of "\<lambda>x. bit x n"] by (simp add: bit_and_iff)
  then show ?thesis by (intro bit_word_eqI) (auto simp: bit_or_iff bit_and_iff bit_not_iff)
qed

lemma bit_push_one: "v < 16 \<Longrightarrow> bit (push_bit v (1 :: u16)) n \<longleftrightarrow> n = v"
  by (auto simp: bit_simps)

lemma lift_place:
  assumes s: "consistent s" and c: "on_grid c" and z: "cell_val (s_values s) c = 0"
    and v: "bit (candidates s c) v"
  shows "lift (place s c v) c v = s"
proof -
  have v16: "v < 16" and free: "\<not> bit (used s c) v" using v by (simp_all add: bit_candidates)
  have w: "(w OR push_bit v 1) AND NOT (push_bit v 1) = w" if "\<not> bit w v" for w :: u16
  proof (rule word_or_and_not, rule bit_eqI)
    show "bit (w AND push_bit v 1) n = bit (0 :: u16) n" for n
      using that bit_push_one [OF v16, of n] by (auto simp: bit_and_iff)
  qed
  have len: "length (rows s) = 9" "length (columns s) = 9" "length (blocks s) = 9" "length (s_values s) = 81"
    using s by (simp_all add: consistent_def tracks_def)
  have "s_values s ! index c = 0" using z by (simp add: cell_val_def)
  then have "(s_values s)[index c := 0] = s_values s" by (metis list_update_id)
  then show ?thesis
    using free w c len by (simp add: lift_def place_def mark_def used_def bit_or_iff Let_def)
qed

section \<open>The next cell\<close>

lemma count_ones_0: "count_ones w = 0 \<longleftrightarrow> w = 0"
proof
  assume "count_ones w = 0"
  then have "\<forall>n<16. \<not> bit w n" by (auto simp: count_ones_def filter_empty_conv)
  then show "w = 0" by (intro bit_word_eqI) simp
qed (simp add: count_ones_def)

text \<open>The best cell so far once \<open>c\<close> has been looked at.\<close>

definition better :: "search \<Rightarrow> cell \<Rightarrow> (cell \<times> u16 \<times> nat) option \<Rightarrow> (cell \<times> u16 \<times> nat) option" where
  "better s c best = (let cand = candidates s c; n = count_ones cand
     in case best of None \<Rightarrow> Some (c, cand, n)
        | Some (_, _, fewest) \<Rightarrow> if n < fewest then Some (c, cand, n) else best)"

lemma better_cases: "better s c best = best \<and> best \<noteq> None
    \<or> better s c best = Some (c, candidates s c, count_ones (candidates s c))"
  by (auto simp: better_def Let_def split: option.splits)

lemma mc_loop_step:
  "mc_loop s (c # cs) best =
     (if s_values s ! index c \<noteq> 0 then mc_loop s cs best
      else if candidates s c = 0 then Some (c, candidates s c)
      else if count_ones (candidates s c) = 1 then map_option (\<lambda>(c, m, _). (c, m)) (better s c best)
      else mc_loop s cs (better s c best))"
  by (simp only: mc_loop.simps Let_def better_def count_ones_0 split: if_split) simp

declare mc_loop.simps(2) [simp del]

lemma mc_loop_None: "mc_loop s cs best = None \<Longrightarrow> best = None \<and> (\<forall>c\<in>set cs. s_values s ! index c \<noteq> 0)"
proof (induction cs arbitrary: best)
  case Nil
  then show ?case by simp
next
  case (Cons c cs)
  have "better s c best \<noteq> None" using better_cases [of s c best] by auto
  with Cons.prems Cons.IH [of "better s c best"] Cons.IH [of best] show ?case
    by (auto simp: mc_loop_step split: if_splits)
qed

lemma mc_loop_Some:
  "mc_loop s cs best = Some (c, m) \<Longrightarrow>
     (c \<in> set cs \<and> s_values s ! index c = 0 \<and> m = candidates s c) \<or> (\<exists>n. best = Some (c, m, n))"
proof (induction cs arbitrary: best)
  case Nil
  then show ?case by auto
next
  case (Cons c' cs)
  consider "mc_loop s cs best = Some (c, m)"
    | "s_values s ! index c' = 0" "c = c'" "m = candidates s c'"
    | "s_values s ! index c' = 0" "\<exists>n. better s c' best = Some (c, m, n)"
    | "s_values s ! index c' = 0" "mc_loop s cs (better s c' best) = Some (c, m)"
    using Cons.prems unfolding mc_loop_step by (auto split: if_splits)
  then show ?case
  proof cases
    case 1
    with Cons.IH [of best] show ?thesis by auto
  next
    case 2
    then show ?thesis by simp
  next
    case 3
    then show ?thesis using better_cases [of s c' best] by auto
  next
    case 4
    then show ?thesis using Cons.IH [of "better s c' best"] better_cases [of s c' best] by auto
  qed
qed

lemma most_constrained_None: "most_constrained s = None \<Longrightarrow> on_grid c \<Longrightarrow> s_values s ! index c \<noteq> 0"
  unfolding most_constrained_def using mc_loop_None set_all_cells by blast

lemma most_constrained_Some:
  "most_constrained s = Some (c, m) \<Longrightarrow> on_grid c \<and> s_values s ! index c = 0 \<and> m = candidates s c"
  unfolding most_constrained_def using mc_loop_Some by fastforce

section \<open>Completions split over the candidates of a cell\<close>

lemma completions_full:
  assumes s: "consistent s" and full: "\<And>c. on_grid c \<Longrightarrow> s_values s ! index c \<noteq> 0"
  shows "completions s = {s_values s}"
proof -
  have nz: "s_values s ! i \<noteq> 0" if "i < 81" for i
    using full [OF cell_at_on_grid [OF that]] by simp
  have len: "length (s_values s) = 81" using s by (simp add: consistent_def)
  have "s_values s \<in> completions s"
    using s nz len by (auto simp: completions_def consistent_def in_set_conv_nth Suc_le_eq)
  moreover have "f = s_values s" if "f \<in> completions s" for f
    using that nz len by (intro nth_equalityI) (auto simp: completions_def)
  ultimately show ?thesis by blast
qed

lemma completions_place:
  assumes s: "consistent s" and c: "on_grid c" and z: "s_values s ! index c = 0" and v: "v \<noteq> 0"
  shows "completions (place s c v) = {f \<in> completions s. f ! index c = v}"
proof -
  have len: "length (s_values s) = 81" using s by (simp add: consistent_def)
  have "(\<forall>i<81. (s_values s)[index c := v] ! i \<noteq> 0 \<longrightarrow> f ! i = (s_values s)[index c := v] ! i)
      \<longleftrightarrow> (\<forall>i<81. s_values s ! i \<noteq> 0 \<longrightarrow> f ! i = s_values s ! i) \<and> f ! index c = v"
    for f
  proof -
    have "(s_values s)[index c := v] ! i = (if i = index c then v else s_values s ! i)" if "i < 81" for i
      using that len by (simp add: nth_list_update)
    then show ?thesis using z v index_less [OF c] by (metis (no_types, lifting))
  qed
  then show ?thesis by (auto simp: completions_def)
qed

lemma completion_candidate:
  assumes s: "consistent s" and c: "on_grid c" and z: "s_values s ! index c = 0" and f: "f \<in> completions s"
  shows "bit (candidates s c) (f ! index c)"
proof -
  have "1 \<le> f ! index c \<and> f ! index c \<le> 9"
    using f index_less [OF c] by (auto simp: completions_def)
  moreover have "\<not> bit (used s c) (f ! index c)"
  proof
    assume "bit (used s c) (f ! index c)"
    then obtain d where d: "on_grid d" "sees c d" "s_values s ! index d = f ! index c" "f ! index c \<noteq> 0"
      using used_consistent [OF s c] z by (auto simp: cell_val_def)
    then have "f ! index d = f ! index c" using f index_less [OF d(1)] by (auto simp: completions_def)
    moreover have "f ! index c \<noteq> f ! index d"
      using f c d unfolding completions_def no_clash_def cell_val_def by blast
    ultimately show False by simp
  qed
  ultimately show ?thesis by (simp add: bit_candidates)
qed

text \<open>How many completions give the cell one of the digits listed.\<close>

definition completions_with :: "search \<Rightarrow> cell \<Rightarrow> digit list \<Rightarrow> nat" where
  "completions_with s c ds = card {f \<in> completions s. f ! index c \<in> digit_value ` set ds}"

lemma completions_with_Nil [simp]: "completions_with s c [] = 0"
  by (simp add: completions_with_def)

lemma completions_with_digits:
  "on_grid c \<Longrightarrow> completions_with s c digits = card (completions s)"
proof -
  assume c: "on_grid c"
  have "f ! index c \<in> digit_value ` set digits" if "f \<in> completions s" for f
  proof -
    have "1 \<le> f ! index c \<and> f ! index c \<le> 9"
      using that index_less [OF c] by (auto simp: completions_def)
    then have "Digit (f ! index c) \<in> set digits" by (simp add: set_digits digit_ok_def)
    then show ?thesis by force
  qed
  then have "{f \<in> completions s. f ! index c \<in> digit_value ` set digits} = completions s" by blast
  then show ?thesis by (simp add: completions_with_def)
qed

lemma completions_with_Cons:
  assumes s: "consistent s" and c: "on_grid c" and z: "s_values s ! index c = 0"
    and d: "d \<notin> set ds" and ok: "digit_ok d"
  shows "completions_with s c (d # ds) =
    (if bit (candidates s c) (digit_value d) then card (completions (place s c (digit_value d))) else 0)
      + completions_with s c ds"
proof -
  let ?A = "{f \<in> completions s. f ! index c = digit_value d}"
  let ?B = "{f \<in> completions s. f ! index c \<in> digit_value ` set ds}"
  have fresh: "digit_value d \<notin> digit_value ` set ds" using d by (auto simp: digit_eq_iff [symmetric])
  have "?A \<inter> ?B = {}"
  proof (rule equals0I)
    fix f assume "f \<in> ?A \<inter> ?B"
    then have "digit_value d \<in> digit_value ` set ds" by (metis (mono_tags, lifting) IntE mem_Collect_eq)
    with fresh show False by blast
  qed
  moreover have "{f \<in> completions s. f ! index c \<in> digit_value ` set (d # ds)} = ?A \<union> ?B" by auto
  ultimately have "completions_with s c (d # ds) = card ?A + completions_with s c ds"
    by (simp add: completions_with_def card_Un_disjoint)
  moreover have "?A = (if bit (candidates s c) (digit_value d) then completions (place s c (digit_value d)) else {})"
  proof (cases "bit (candidates s c) (digit_value d)")
    case True
    with completions_place [OF s c z, of "digit_value d"] ok show ?thesis by (simp add: digit_ok_def)
  next
    case False
    then have "f ! index c \<noteq> digit_value d" if "f \<in> completions s" for f
      using completion_candidate [OF s c z that] by auto
    with False show ?thesis by auto
  qed
  ultimately show ?thesis by simp
qed

lemma empties_place:
  assumes "consistent s" and c: "on_grid c" and z: "s_values s ! index c = 0" and "v \<noteq> 0"
  shows "Suc (empties (place s c v)) = empties s"
proof -
  let ?E = "{i. i < 81 \<and> s_values s ! i = 0}"
  have len: "length (s_values s) = 81" using assms(1) by (simp add: consistent_def)
  have eq: "{i. i < 81 \<and> (s_values s)[index c := v] ! i = 0} = ?E - {index c}"
    using len assms(4) index_less [OF c] by (auto simp: nth_list_update)
  have "index c \<in> ?E" using z index_less [OF c] by simp
  from card_Suc_Diff1 [OF _ this] show ?thesis unfolding empties_def s_values_place eq by simp
qed

section \<open>Counting is exact\<close>

definition tally :: "nat \<Rightarrow> nat \<Rightarrow> nat \<Rightarrow> nat" where
  "tally limit found n = (if limit \<le> found then found else min limit (found + n))"

lemma tally_below: "found < limit \<Longrightarrow> tally limit found n = min limit (found + n)"
  by (simp add: tally_def)

lemma count_loop_correct:
  assumes s: "consistent s" and c: "on_grid c" and z: "s_values s ! index c = 0"
    and rec: "\<And>v found. bit (candidates s c) v \<Longrightarrow> found < limit \<Longrightarrow>
        rec (place s c v) found = Some (place s c v, tally limit found (card (completions (place s c v))))"
    and "found < limit" and "distinct ds" and "\<forall>d\<in>set ds. digit_ok d"
  shows "count_loop rec limit c (candidates s c) ds s found = Some (s, min limit (found + completions_with s c ds))"
  using assms(5-)
proof (induction ds arbitrary: found)
  case Nil
  then show ?case by simp
next
  case (Cons d ds)
  have d: "digit_ok d" "d \<notin> set ds" using Cons.prems by simp_all
  note split = completions_with_Cons [OF s c z d(2,1)]
  show ?case
  proof (cases "bit (candidates s c) (digit_value d)")
    case False
    with split Cons d show ?thesis by (simp add: and_mask_eq_0)
  next
    case True
    let ?n = "card (completions (place s c (digit_value d)))"
    have l: "lift (place s c (digit_value d)) c (digit_value d) = s"
      by (rule lift_place [OF s c _ True]) (simp add: cell_val_def z)
    have r: "rec (place s c (digit_value d)) found = Some (place s c (digit_value d), min limit (found + ?n))"
      using rec [OF True Cons.prems(1)] Cons.prems(1) by (simp add: tally_below)
    show ?thesis
    proof (cases "limit \<le> found + ?n")
      case True': True
      then show ?thesis using True d split r l by (simp add: and_mask_eq_0 min_def)
    next
      case False
      then have "count_loop rec limit c (candidates s c) ds s (found + ?n)
          = Some (s, min limit (found + ?n + completions_with s c ds))"
        using Cons.prems by (intro Cons.IH) auto
      with True d split r l False show ?thesis by (simp add: and_mask_eq_0 add.assoc)
    qed
  qed
qed

lemma count_solutions_correct:
  "consistent s \<Longrightarrow> empties s < fuel \<Longrightarrow>
     count_solutions fuel limit s found = Some (s, tally limit found (card (completions s)))"
proof (induction fuel arbitrary: s found)
  case 0
  then show ?case by simp
next
  case (Suc fuel)
  show ?case
  proof (cases "limit \<le> found")
    case True
    then show ?thesis by (simp add: tally_def)
  next
    case False
    show ?thesis
    proof (cases "most_constrained s")
      case None
      then have "completions s = {s_values s}"
        using completions_full [OF Suc.prems(1)] most_constrained_None by blast
      with None False show ?thesis by (simp add: tally_def)
    next
      case (Some cm)
      then obtain c where c: "on_grid c" "s_values s ! index c = 0" "cm = (c, candidates s c)"
        using most_constrained_Some by (cases cm) blast
      have rec: "count_solutions fuel limit (place s c v) found
          = Some (place s c v, tally limit found (card (completions (place s c v))))"
        if v: "bit (candidates s c) v" for v found
      proof (rule Suc.IH)
        show "consistent (place s c v)"
          by (rule place_consistent [OF Suc.prems(1) c(1) _ v]) (simp add: cell_val_def c)
        show "empties (place s c v) < fuel"
          using empties_place [OF Suc.prems(1) c(1,2), of v] v Suc.prems(2) by (simp add: bit_candidates)
      qed
      have "count_loop (count_solutions fuel limit) limit c (candidates s c) digits s found
          = Some (s, min limit (found + completions_with s c digits))"
        using False set_digits by (intro count_loop_correct [OF Suc.prems(1) c(1,2)] rec) auto
      with Some c False show ?thesis by (simp add: tally_def completions_with_digits)
    qed
  qed
qed

section \<open>Filling finds a completion\<close>

definition fills :: "search \<Rightarrow> search \<times> rng option \<times> bool \<Rightarrow> bool" where
  "fills s out = (case out of (s', r', won) \<Rightarrow>
     (if won then s_values s' \<in> completions s else s' = s \<and> completions s = {}))"

lemma fill_loop_correct:
  assumes s: "consistent s" and c: "on_grid c" and z: "s_values s ! index c = 0"
    and rec: "\<And>v r. bit (candidates s c) v \<Longrightarrow> \<exists>out. rec (place s c v) r = Some out \<and> fills (place s c v) out"
    and "\<forall>d\<in>set ds. bit (candidates s c) (digit_value d)"
  shows "\<exists>s' r' won. fill_loop rec c ds s r = Some (s', r', won) \<and>
    (if won then s_values s' \<in> completions s
     else s' = s \<and> (\<forall>f\<in>completions s. f ! index c \<notin> digit_value ` set ds))"
  using assms(5)
proof (induction ds arbitrary: r)
  case Nil
  show ?case by (rule exI [of _ s], rule exI [of _ r], rule exI [of _ False]) simp
next
  case (Cons d ds)
  let ?p = "place s c (digit_value d)"
  have b: "bit (candidates s c) (digit_value d)" using Cons.prems by simp
  have l: "lift ?p c (digit_value d) = s"
    by (rule lift_place [OF s c _ b]) (simp add: cell_val_def z)
  have nz: "digit_value d \<noteq> 0" using b by (simp add: bit_candidates)
  note sub = completions_place [OF s c z nz]
  obtain s' r' won where out: "rec ?p r = Some (s', r', won)" "fills ?p (s', r', won)"
    using rec [OF b, of r] by auto
  show ?case
  proof (cases won)
    case True
    with out sub show ?thesis by (auto simp: fills_def)
  next
    case False
    with out have "s' = ?p" "completions ?p = {}" by (simp_all add: fills_def)
    with False out l have "fill_loop rec c (d # ds) s r = fill_loop rec c ds s r'" by simp
    moreover have "f ! index c \<noteq> digit_value d" if "f \<in> completions s" for f
      using \<open>completions ?p = {}\<close> sub that by blast
    moreover obtain s2 r2 won2 where "fill_loop rec c ds s r' = Some (s2, r2, won2)"
      "if won2 then s_values s2 \<in> completions s
       else s2 = s \<and> (\<forall>f\<in>completions s. f ! index c \<notin> digit_value ` set ds)"
      using Cons.IH [of r'] Cons.prems by auto
    ultimately show ?thesis by (cases won2) auto
  qed
qed

lemma fill_correct:
  "consistent s \<Longrightarrow> empties s < fuel \<Longrightarrow> \<exists>out. fill fuel s r = Some out \<and> fills s out"
proof (induction fuel arbitrary: s r)
  case 0
  then show ?case by simp
next
  case (Suc fuel)
  show ?case
  proof (cases "most_constrained s")
    case None
    then have "completions s = {s_values s}"
      using completions_full [OF Suc.prems(1)] most_constrained_None by blast
    with None show ?thesis by (simp add: fills_def)
  next
    case (Some cm)
    then obtain c where c: "on_grid c" "s_values s ! index c = 0" "cm = (c, candidates s c)"
      using most_constrained_Some by (cases cm) blast
    have rec: "\<exists>out. fill fuel (place s c v) r = Some out \<and> fills (place s c v) out"
      if v: "bit (candidates s c) v" for v r
    proof (rule Suc.IH)
      show "consistent (place s c v)"
        by (rule place_consistent [OF Suc.prems(1) c(1) _ v]) (simp add: cell_val_def c)
      show "empties (place s c v) < fuel"
        using empties_place [OF Suc.prems(1) c(1,2), of v] v Suc.prems(2) by (simp add: bit_candidates)
    qed
    let ?order = "filter (\<lambda>d. candidates s c AND digit_mask d \<noteq> 0) digits"
    have order: "set ?order = {d. digit_ok d \<and> bit (candidates s c) (digit_value d)}"
      using set_digits by (auto simp: and_mask_eq_0)
    obtain r' order' where step: "fill (Suc fuel) s r = fill_loop (fill fuel) c order' s r'"
      and same: "set order' = set ?order"
      using Some c by (cases r) (auto simp: Let_def case_prod_beta)
    have bits: "\<forall>d\<in>set order'. bit (candidates s c) (digit_value d)" unfolding same order by blast
    obtain s2 r2 won2 where out: "fill_loop (fill fuel) c order' s r' = Some (s2, r2, won2)"
      "if won2 then s_values s2 \<in> completions s
       else s2 = s \<and> (\<forall>f\<in>completions s. f ! index c \<notin> digit_value ` set order')"
      using fill_loop_correct [OF Suc.prems(1) c(1,2), of "fill fuel" order' r', OF rec bits] by blast
    have "f ! index c \<in> digit_value ` set order'" if f: "f \<in> completions s" for f
    proof -
      have b: "bit (candidates s c) (f ! index c)"
        by (rule completion_candidate [OF Suc.prems(1) c(1,2) f])
      then have "Digit (f ! index c) \<in> set order'"
        unfolding same order by (simp add: bit_candidates digit_ok_def)
      then show ?thesis by force
    qed
    with out step show ?thesis by (cases won2) (auto simp: fills_def)
  qed
qed

section \<open>Loading\<close>

definition loaded :: "grid \<Rightarrow> cell set \<Rightarrow> search \<Rightarrow> bool" where
  "loaded g S s \<longleftrightarrow> length (s_values s) = 81 \<and> tracks s (val g) S \<and> no_clash (val g) S
     \<and> (\<forall>c. on_grid c \<longrightarrow> s_values s ! index c = (if c \<in> S then val g c else 0))"

lemma loaded_new: "loaded g {} search_new"
proof -
  have "tracks search_new (val g) {}" by (simp add: tracks_def search_new_def)
  then show ?thesis by (simp add: loaded_def search_new_def no_clash_def)
qed

lemma loaded_skip: "loaded g S s \<Longrightarrow> on_grid c \<Longrightarrow> c \<notin> S \<Longrightarrow> val g c = 0 \<Longrightarrow> loaded g (insert c S) s"
  by (auto simp: loaded_def tracks_skip no_clash_insert)

lemma loaded_place:
  assumes g: "grid_ok g" and l: "loaded g S s" and c: "on_grid c" "c \<notin> S" and d: "grid_get g c = Some d"
    and free: "\<not> bit (used s c) (digit_value d)"
  shows "loaded g (insert c S) (place s c (digit_value d))"
proof -
  have ok: "1 \<le> digit_value d" "digit_value d \<le> 9"
    using grid_get_ok [OF g c(1) d] by (simp_all add: digit_ok_def)
  have v: "val g c = digit_value d" using d by (simp add: val_def)
  have "tracks (mark s c (push_bit (digit_value d) 1)) (val g) (insert c S)"
    by (rule tracks_mark) (use l c v ok in \<open>auto simp: loaded_def\<close>)
  moreover have "no_clash (val g) (insert c S)"
    using l c free v ok tracks_used [of s "val g" S c "digit_value d"]
    by (auto simp: loaded_def no_clash_insert)
  ultimately show ?thesis
    using l c v by (auto simp: loaded_def place_def nth_list_update)
qed

lemma load_loop_correct:
  assumes g: "grid_ok g" and "distinct cs" and "\<forall>c\<in>set cs. on_grid c" and "set cs \<inter> S = {}"
    and "loaded g S s"
  shows "case load_loop g cs s of None \<Rightarrow> \<not> no_clash (val g) (S \<union> set cs)
    | Some s' \<Rightarrow> loaded g (S \<union> set cs) s'"
  using assms(2-)
proof (induction cs arbitrary: s S)
  case Nil
  then show ?case by simp
next
  case (Cons c cs)
  have c: "on_grid c" "c \<notin> S" using Cons.prems by auto
  have set: "S \<union> set (c # cs) = insert c S \<union> set cs" by auto
  show ?case
  proof (cases "grid_get g c")
    case None
    then have "loaded g (insert c S) s" using loaded_skip Cons.prems c by (simp add: val_def)
    with Cons.IH [of "insert c S" s] Cons.prems None c show ?thesis unfolding set by simp
  next
    case (Some d)
    have d: "digit_ok d" using grid_get_ok [OF g c(1) Some] .
    show ?thesis
    proof (cases "bit (used s c) (digit_value d)")
      case True
      have "tracks s (val g) S" using Cons.prems by (simp add: loaded_def)
      from True tracks_used [OF this c] have "\<exists>x\<in>S. sees c x \<and> val g x = val g c" "val g c \<noteq> 0"
        using Some by (auto simp: val_def)
      then have "\<not> no_clash (val g) (insert c S)" using c by (simp add: no_clash_insert)
      then have "\<not> no_clash (val g) (insert c S \<union> set cs)" using no_clash_subset by blast
      with True Some d show ?thesis unfolding set by (simp add: and_mask_eq_0)
    next
      case False
      from loaded_place [OF g _ c Some False] Cons.prems
      have "loaded g (insert c S) (place s c (digit_value d))" by blast
      with Cons.IH [of "insert c S" "place s c (digit_value d)"] Cons.prems Some d False c
      show ?thesis unfolding set by (simp add: and_mask_eq_0)
    qed
  qed
qed

lemma load_cases:
  assumes g: "grid_ok g"
  shows "case load g of None \<Rightarrow> \<not> rule_kept g | Some s \<Rightarrow> loaded g cells_on_grid s"
proof -
  have set: "{} \<union> set all_cells = cells_on_grid" by auto
  have "\<forall>c\<in>set all_cells. on_grid c" by simp
  from load_loop_correct [OF g distinct_all_cells this _ loaded_new, unfolded set] show ?thesis
    by (cases "load_loop g all_cells search_new") (simp_all add: load_def rule_kept_val [OF g])
qed

lemma loaded_consistent:
  assumes g: "grid_ok g" and l: "loaded g cells_on_grid s"
  shows "consistent s"
proof -
  have eq: "cell_val (s_values s) c = val g c" if "on_grid c" for c
    using l that by (simp add: loaded_def cell_val_def)
  have "tracks s (cell_val (s_values s)) cells_on_grid"
  proof (rule tracks_cong)
    show "tracks s (val g) cells_on_grid" using l by (simp add: loaded_def)
  qed (simp add: eq)
  moreover have "no_clash (cell_val (s_values s)) cells_on_grid"
    using l no_clash_cong [of cells_on_grid "cell_val (s_values s)" "val g"] by (simp add: loaded_def eq)
  moreover have "s_values s ! i \<le> 9" if "i < 81" for i
    using eq [OF cell_at_on_grid [OF that]] val_le [OF g cell_at_on_grid [OF that]] by (simp add: cell_val_def)
  ultimately show ?thesis using l by (auto simp: consistent_def loaded_def in_set_conv_nth)
qed

lemma empties_less: "empties s < search_fuel"
proof -
  have "empties s \<le> card {i. i < (81 :: nat)}" unfolding empties_def by (rule card_mono) auto
  then show ?thesis by (simp add: search_fuel_def)
qed

section \<open>Completions are the solutions of the grid\<close>

text \<open>The finished, legal grids that agree with \<open>g\<close> wherever it holds a digit.\<close>

definition solution_grids :: "grid \<Rightarrow> grid set" where
  "solution_grids g = {h. grid_ok h \<and> is_solved h \<and>
     (\<forall>c d. on_grid c \<longrightarrow> grid_get g c = Some d \<longrightarrow> grid_get h c = Some d)}"

definition as_grid :: "nat list \<Rightarrow> grid" where
  "as_grid f = map (\<lambda>v. Some (Digit v)) f"

lemma grid_get_as_grid: "length f = 81 \<Longrightarrow> on_grid c \<Longrightarrow> grid_get (as_grid f) c = Some (Digit (f ! index c))"
  by (simp add: as_grid_def grid_get_def)

lemma as_grid_solution:
  assumes g: "grid_ok g" and l: "loaded g cells_on_grid s" and f: "f \<in> completions s"
  shows "as_grid f \<in> solution_grids g"
proof -
  have len: "length f = 81" and range: "\<And>v. v \<in> set f \<Longrightarrow> 1 \<le> v \<and> v \<le> 9"
    and nc: "no_clash (cell_val f) cells_on_grid"
    and agree: "\<And>c. on_grid c \<Longrightarrow> s_values s ! index c \<noteq> 0 \<Longrightarrow> f ! index c = s_values s ! index c"
    using f by (auto simp: completions_def)
  have ok: "grid_ok (as_grid f)" using len range by (auto simp: grid_ok_def as_grid_def digit_ok_def)
  have "val (as_grid f) c = cell_val f c" if "on_grid c" for c
    using that len by (simp add: val_def grid_get_as_grid cell_val_def)
  then have "rule_kept (as_grid f)" using nc by (simp add: rule_kept_val [OF ok] no_clash_def)
  then have "is_solved (as_grid f)"
    using is_valid_rule [OF ok] len by (simp add: is_solved_def is_complete_get as_grid_def grid_get_def)
  moreover have "grid_get (as_grid f) c = Some d" if c: "on_grid c" and d: "grid_get g c = Some d" for c d
  proof -
    have "s_values s ! index c = digit_value d" using l c d by (simp add: loaded_def val_def)
    moreover have "digit_value d \<noteq> 0" using grid_get_ok [OF g c d] by (simp add: digit_ok_def)
    ultimately show ?thesis using agree [OF c] len c by (simp add: grid_get_as_grid)
  qed
  ultimately show ?thesis using ok by (simp add: solution_grids_def)
qed

lemma solution_as_grid:
  assumes g: "grid_ok g" and l: "loaded g cells_on_grid s" and h: "h \<in> solution_grids g"
  shows "h \<in> as_grid ` completions s"
proof
  let ?f = "map (\<lambda>i. val h (cell_at i)) [0..<81]"
  have hs: "grid_ok h" "is_solved h" and agree: "\<And>c d. on_grid c \<Longrightarrow> grid_get g c = Some d \<Longrightarrow> grid_get h c = Some d"
    using h by (auto simp: solution_grids_def)
  have len: "length h = 81" using hs(1) by (simp add: grid_ok_def)
  have full: "grid_get h c \<noteq> None" if "on_grid c" for c
    using hs(2) that is_complete_get [OF len] by (simp add: is_solved_def)
  have f: "?f ! index c = val h c" if "on_grid c" for c using that by simp
  show "h = as_grid ?f"
  proof (rule grid_eqI)
    show "grid_get h c = grid_get (as_grid ?f) c" if c: "on_grid c" for c
    proof -
      obtain x where x: "grid_get h c = Some x" using full [OF c] by blast
      then have "?f ! index c = digit_value x" using f [OF c] by (simp add: val_def)
      with x c show ?thesis by (simp add: grid_get_as_grid)
    qed
  qed (simp_all add: len as_grid_def)
  have "no_clash (val h) cells_on_grid"
    using hs is_valid_rule rule_kept_val by (simp add: is_solved_def)
  then have "no_clash (cell_val ?f) cells_on_grid"
    using no_clash_cong [of cells_on_grid "cell_val ?f" "val h"] by (simp add: cell_val_def)
  moreover have "1 \<le> val h (cell_at i) \<and> val h (cell_at i) \<le> 9" if "i < 81" for i
    using val_le [OF hs(1) cell_at_on_grid [OF that]] val_eq_0 [OF hs(1) cell_at_on_grid [OF that]]
      full [OF cell_at_on_grid [OF that]] by (simp add: Suc_le_eq)
  moreover have "?f ! i = s_values s ! i" if i: "i < 81" and nz: "s_values s ! i \<noteq> 0" for i
  proof -
    have c: "on_grid (cell_at i)" using i by simp
    have v: "s_values s ! i = val g (cell_at i)" using l c unfolding loaded_def by (metis index_cell_at mem_Collect_eq)
    with nz obtain d where "grid_get g (cell_at i) = Some d" by (cases "grid_get g (cell_at i)") (auto simp: val_def)
    then show ?thesis using agree [OF c] v i by (simp add: val_def)
  qed
  ultimately show "?f \<in> completions s" by (auto simp: completions_def)
qed

lemma solution_grids_image:
  assumes "grid_ok g" and "loaded g cells_on_grid s"
  shows "solution_grids g = as_grid ` completions s" and "card (solution_grids g) = card (completions s)"
proof -
  show eq: "solution_grids g = as_grid ` completions s"
    using as_grid_solution [OF assms] solution_as_grid [OF assms] by blast
  have "inj_on as_grid (completions s)"
    by (rule inj_onI) (simp add: as_grid_def inj_on_def map_inj_on)
  then show "card (solution_grids g) = card (completions s)" unfolding eq by (rule card_image)
qed

lemma no_solution_grids: "grid_ok g \<Longrightarrow> \<not> rule_kept g \<Longrightarrow> solution_grids g = {}"
  by (auto simp: solution_grids_def is_solved_def is_valid_rule rule_kept_def) blast

lemma search_grid_values:
  assumes "length (s_values s) = 81" and "\<And>c. on_grid c \<Longrightarrow> 1 \<le> s_values s ! index c \<and> s_values s ! index c \<le> 9"
  shows "search_grid s = as_grid (s_values s)"
proof -
  have "length g = 81 \<Longrightarrow> \<forall>c\<in>set cs. on_grid c \<Longrightarrow>
      length (foldl (\<lambda>g c. grid_set g c (digit_new (s_values s ! index c))) g cs) = 81
      \<and> (\<forall>c. on_grid c \<longrightarrow> grid_get (foldl (\<lambda>g c. grid_set g c (digit_new (s_values s ! index c))) g cs) c =
           (if c \<in> set cs then digit_new (s_values s ! index c) else grid_get g c))" for g cs
    by (induction cs arbitrary: g) (auto simp: grid_get_set)
  from this [of EMPTY all_cells] have "length (search_grid s) = 81"
    "\<And>c. on_grid c \<Longrightarrow> grid_get (search_grid s) c = digit_new (s_values s ! index c)"
    by (simp_all add: search_grid_def EMPTY_def)
  then show ?thesis
    using assms by (intro grid_eqI) (simp_all add: grid_get_as_grid digit_new_def, simp add: as_grid_def)
qed

lemma search_grid_completion: "s_values s' \<in> completions s \<Longrightarrow> search_grid s' = as_grid (s_values s')"
  by (rule search_grid_values) (auto simp: completions_def)

lemma solutions_count:
  assumes "grid_ok g"
  shows "solutions g limit = min limit (card (solution_grids g))"
proof (cases "load g")
  case None
  with load_cases [OF assms] have "solution_grids g = {}" by (simp add: no_solution_grids assms)
  with None show ?thesis by (simp add: solutions_def)
next
  case (Some s)
  with load_cases [OF assms] have l: "loaded g cells_on_grid s" by simp
  from count_solutions_correct [OF loaded_consistent [OF assms l] empties_less, of limit 0] Some
  show ?thesis by (simp add: solutions_def tally_def solution_grids_image(2) [OF assms l])
qed

lemma fill_solution:
  assumes g: "grid_ok g" and l: "loaded g cells_on_grid s"
  shows "\<exists>s' r' won. fill search_fuel s r = Some (s', r', won) \<and>
    (if won then search_grid s' \<in> solution_grids g else solution_grids g = {})"
proof -
  from fill_correct [OF loaded_consistent [OF g l] empties_less, of r]
  obtain s' r' won where out: "fill search_fuel s r = Some (s', r', won)" "fills s (s', r', won)" by auto
  have "search_grid s' \<in> solution_grids g" if won
  proof -
    have "s_values s' \<in> completions s" using out(2) that by (simp add: fills_def)
    with search_grid_completion [OF this] show ?thesis
      unfolding solution_grids_image(1) [OF g l] by simp
  qed
  moreover have "solution_grids g = {}" if "\<not> won"
    using out(2) that by (simp add: fills_def solution_grids_image(1) [OF g l])
  ultimately show ?thesis using out(1) by auto
qed

lemma solve_correct:
  assumes g: "grid_ok g"
  shows "case solve g of None \<Rightarrow> solution_grids g = {} | Some h \<Rightarrow> h \<in> solution_grids g"
proof (cases "load g")
  case None
  with load_cases [OF g] have "solution_grids g = {}" by (simp add: no_solution_grids g)
  with None show ?thesis by (simp add: solve_def)
next
  case (Some s)
  with load_cases [OF g] have "loaded g cells_on_grid s" by simp
  from fill_solution [OF g this, of None] Some show ?thesis
    by (auto simp: solve_def split: bool.splits if_splits)
qed

lemma finite_solution_grids: "grid_ok g \<Longrightarrow> finite (solution_grids g)"
proof -
  assume g: "grid_ok g"
  show ?thesis
  proof (cases "load g")
    case None
    with load_cases [OF g] show ?thesis by (simp add: no_solution_grids g)
  next
    case (Some s)
    with load_cases [OF g] have l: "loaded g cells_on_grid s" by simp
    show ?thesis unfolding solution_grids_image(1) [OF g l] by simp
  qed
qed

lemma unique_solution: "grid_ok g \<Longrightarrow> solutions g 2 = 1 \<longleftrightarrow> (\<exists>!h. h \<in> solution_grids g)"
proof -
  assume g: "grid_ok g"
  have "solutions g 2 = 1 \<longleftrightarrow> card (solution_grids g) = 1" by (simp add: solutions_count [OF g] min_def)
  also have "\<dots> \<longleftrightarrow> (\<exists>!h. h \<in> solution_grids g)"
    by (simp add: card_1_singleton_iff set_eq_iff) (metis (full_types))
  finally show ?thesis .
qed

section \<open>An empty grid completes\<close>

text \<open>One finished grid, each row a rotation of the digits.\<close>

definition model_grid :: grid where
  "model_grid = map (\<lambda>i. Some (Digit ((3 * (i div 9 mod 3) + i div 9 div 3 + i mod 9) mod 9 + 1))) [0..<81]"

lemma model_grid_solved: "model_grid \<in> solution_grids EMPTY"
proof -
  have ok: "grid_ok model_grid" by (auto simp: model_grid_def grid_ok_def digit_ok_def)
  have "is_solved model_grid" by code_simp
  with ok show ?thesis by (auto simp: solution_grids_def grid_get_def EMPTY_def)
qed

lemma complete_solved: "grid_ok (snd (complete r)) \<and> is_solved (snd (complete r))"
proof -
  have "rule_kept EMPTY" by (simp add: rule_kept_def grid_get_def EMPTY_def)
  with load_cases [OF grid_ok_EMPTY] obtain s where s: "load EMPTY = Some s" "loaded EMPTY cells_on_grid s"
    by (cases "load EMPTY") auto
  from fill_solution [OF grid_ok_EMPTY s(2), of "Some r"] obtain s' r' won where
    out: "fill search_fuel s (Some r) = Some (s', r', won)"
      "if won then search_grid s' \<in> solution_grids EMPTY else solution_grids EMPTY = {}" by blast
  with model_grid_solved have "search_grid s' \<in> solution_grids EMPTY" by (cases won) auto
  with s out show ?thesis by (simp add: complete_def solution_grids_def)
qed

section \<open>Properties\<close>

text \<open>
  C18. The solver counts exactly. For every grid and limit, \<open>solutions\<close> is the number of
  finished, legal grids that agree with the grid's digits, cut off at the limit; a grid is
  reported unique exactly when there is one such grid and no other.
\<close>

theorem solutions_counts_solutions:
  assumes "grid_ok g"
  shows "solutions g limit = min limit (card {h. grid_ok h \<and> is_solved h \<and>
      (\<forall>c d. on_grid c \<longrightarrow> grid_get g c = Some d \<longrightarrow> grid_get h c = Some d)})
    \<and> is_unique g = (\<exists>!h. grid_ok h \<and> is_solved h \<and>
      (\<forall>c d. on_grid c \<longrightarrow> grid_get g c = Some d \<longrightarrow> grid_get h c = Some d))"
  using solutions_count [OF assms, of limit] unique_solution [OF assms]
  by (simp add: is_unique_def solution_grids_def)

theorem solutions_counts_solutions_witness:
  "is_unique model_grid = (\<exists>!h. grid_ok h \<and> is_solved h \<and>
      (\<forall>c d. on_grid c \<longrightarrow> grid_get model_grid c = Some d \<longrightarrow> grid_get h c = Some d))"
  using solutions_counts_solutions [of model_grid 2] model_grid_solved by (simp add: solution_grids_def)

text \<open>
  Solving is sound and complete. \<open>solve\<close> returns a finished, legal grid that agrees with
  every digit it was given, or \<open>None\<close> exactly when there is none; completing the empty grid
  from any random stream always gives a finished, legal grid.
\<close>

theorem solve_sound_and_complete:
  assumes "grid_ok g"
  shows "(case solve g of
      None \<Rightarrow> \<not> (\<exists>h. grid_ok h \<and> is_solved h \<and>
                 (\<forall>c d. on_grid c \<longrightarrow> grid_get g c = Some d \<longrightarrow> grid_get h c = Some d))
    | Some h \<Rightarrow> grid_ok h \<and> is_solved h \<and>
                 (\<forall>c d. on_grid c \<longrightarrow> grid_get g c = Some d \<longrightarrow> grid_get h c = Some d))
    \<and> is_solved (snd (complete r))"
  using solve_correct [OF assms] complete_solved [of r]
  by (cases "solve g") (auto simp: solution_grids_def)

theorem solve_sound_and_complete_witness:
  "case solve EMPTY of None \<Rightarrow> False | Some h \<Rightarrow> grid_ok h \<and> is_solved h"
  using solve_sound_and_complete [OF grid_ok_EMPTY] model_grid_solved
  by (cases "solve EMPTY") (auto simp: solution_grids_def)

end
