(* ===== verification/SudokuPuzzle.thy ===== *)
theory SudokuPuzzle
  imports SudokuSolve
begin

text \<open>
  Generating a puzzle (\<open>apps/sudoku-rules/src/generate.rs\<close>), playing it (\<open>game.rs\<close>) and
  saving it (\<open>save.rs\<close>, without the TOML text and the file). A generated puzzle has exactly
  one solution, every sequence of moves keeps the givens and the rule, a finished board is
  the puzzle's solution, and a saved game is restored as it was.
\<close>

section \<open>Difficulty\<close>

datatype difficulty = Easy | Medium | Hard

definition difficulties :: "difficulty list" where
  "difficulties = [Easy, Medium, Hard]"

fun slug :: "difficulty \<Rightarrow> string" where
  "slug Easy = ''easy''"
| "slug Medium = ''medium''"
| "slug Hard = ''hard''"

definition difficulty_parse :: "string \<Rightarrow> difficulty option" where
  "difficulty_parse t = find (\<lambda>l. slug l = t) difficulties"

fun target_givens :: "difficulty \<Rightarrow> nat" where
  "target_givens Easy = 42"
| "target_givens Medium = 34"
| "target_givens Hard = 28"

fun next_difficulty :: "difficulty \<Rightarrow> difficulty" where
  "next_difficulty Easy = Medium"
| "next_difficulty Medium = Hard"
| "next_difficulty Hard = Easy"

section \<open>Puzzles\<close>

record puzzle =
  pz_givens :: grid
  pz_solution :: grid
  pz_difficulty :: difficulty

fun remove_loop :: "nat \<Rightarrow> cell list \<Rightarrow> grid \<Rightarrow> nat \<Rightarrow> grid" where
  "remove_loop target [] givens remaining = givens"
| "remove_loop target (c # cs) givens remaining =
     (if remaining \<le> target then givens
      else
        let removed = grid_get givens c; without = grid_set givens c None
        in if solutions without 2 = 1 then remove_loop target cs without (remaining - 1)
           else remove_loop target cs (grid_set without c removed) remaining)"

definition generate_with :: "difficulty \<Rightarrow> rng \<Rightarrow> rng \<times> puzzle" where
  "generate_with d r =
     (let (r1, solution) = complete r;
          (r2, order) = shuffle r1 all_cells
      in (r2, \<lparr>pz_givens = remove_loop (target_givens d) order solution (filled solution),
               pz_solution = solution, pz_difficulty = d\<rparr>))"

definition generate :: "difficulty \<Rightarrow> u64 \<Rightarrow> puzzle" where
  "generate d seed = snd (generate_with d (rng_new seed))"

definition is_given :: "puzzle \<Rightarrow> cell \<Rightarrow> bool" where
  "is_given p c \<longleftrightarrow> grid_get (pz_givens p) c \<noteq> None"

definition given_count :: "puzzle \<Rightarrow> nat" where
  "given_count p = filled (pz_givens p)"

text \<open>The first cell whose given the other grid does not hold: the loop both checks run.\<close>

definition first_mismatch :: "grid \<Rightarrow> grid \<Rightarrow> cell option" where
  "first_mismatch givens h = find (\<lambda>c. case grid_get givens c of None \<Rightarrow> False
     | Some x \<Rightarrow> grid_get h c \<noteq> Some x) all_cells"

definition from_parts :: "grid \<Rightarrow> grid \<Rightarrow> difficulty \<Rightarrow> (string, puzzle) result" where
  "from_parts givens solution d =
     (if \<not> is_solved solution then Err ''the stored solution is not a finished, legal grid''
      else case first_mismatch givens solution of
        Some c \<Rightarrow> Err (''the given at '' @ cell_name c @ '' does not match the stored solution'')
      | None \<Rightarrow> Ok \<lparr>pz_givens = givens, pz_solution = solution, pz_difficulty = d\<rparr>)"

section \<open>Games\<close>

record game =
  g_puzzle :: puzzle
  g_board :: grid
  g_rng :: rng
  g_revision :: nat

datatype move_error = Solved | Given | Conflict cell

definition game_start :: "difficulty \<Rightarrow> u64 \<Rightarrow> game" where
  "game_start d seed =
     (let (r, p) = generate_with d (rng_new seed)
      in \<lparr>g_puzzle = p, g_board = pz_givens p, g_rng = r, g_revision = 0\<rparr>)"

definition new_puzzle :: "game \<Rightarrow> difficulty \<Rightarrow> game" where
  "new_puzzle g d =
     (let (r, p) = generate_with d (g_rng g)
      in g\<lparr>g_puzzle := p, g_board := pz_givens p, g_rng := r, g_revision := g_revision g + 1\<rparr>)"

definition entered :: "game \<Rightarrow> nat" where
  "entered g = filled (g_board g) - given_count (g_puzzle g)"

definition remaining_cells :: "game \<Rightarrow> nat" where
  "remaining_cells g = 81 - filled (g_board g)"

definition game_solved :: "game \<Rightarrow> bool" where
  "game_solved g = is_solved (g_board g)"

text \<open>The mutation is the first component: an error leaves the board restored.\<close>

definition set_digit :: "game \<Rightarrow> cell \<Rightarrow> digit \<Rightarrow> game \<times> (move_error, unit) result" where
  "set_digit g c d =
     (if game_solved g then (g, Err Solved)
      else if is_given (g_puzzle g) c then (g, Err Given)
      else if grid_get (g_board g) c = Some d then (g, Ok ())
      else
        let previous = grid_get (g_board g) c;
            emptied = grid_set (g_board g) c None
        in case conflict emptied c d of
             Some p \<Rightarrow> (g\<lparr>g_board := grid_set emptied c previous\<rparr>, Err (Conflict p))
           | None \<Rightarrow> (g\<lparr>g_board := grid_set emptied c (Some d), g_revision := g_revision g + 1\<rparr>, Ok ()))"

definition clear_cell :: "game \<Rightarrow> cell \<Rightarrow> game \<times> (move_error, unit) result" where
  "clear_cell g c =
     (if game_solved g then (g, Err Solved)
      else if is_given (g_puzzle g) c then (g, Err Given)
      else if grid_get (g_board g) c = None then (g, Ok ())
      else (g\<lparr>g_board := grid_set (g_board g) c None, g_revision := g_revision g + 1\<rparr>, Ok ()))"

definition game_restore :: "puzzle \<Rightarrow> grid \<Rightarrow> u64 \<Rightarrow> game" where
  "game_restore p board stream =
     \<lparr>g_puzzle = p, g_board = board, g_rng = rng_new stream, g_revision = 0\<rparr>"

section \<open>The save format\<close>

record saved_puzzle =
  sv_difficulty :: string
  sv_stream :: u64
  sv_givens :: string
  sv_solution :: string
  sv_board :: string

definition saved_of :: "game \<Rightarrow> saved_puzzle" where
  "saved_of g = \<lparr>sv_difficulty = slug (pz_difficulty (g_puzzle g)), sv_stream = r_state (g_rng g),
     sv_givens = to_line (pz_givens (g_puzzle g)), sv_solution = to_line (pz_solution (g_puzzle g)),
     sv_board = to_line (g_board g)\<rparr>"

definition saved_grid :: "string \<Rightarrow> string \<Rightarrow> (string, grid) result" where
  "saved_grid line what = ok_or (''the '' @ what @ '' are not 81 valid cells'') (parse_line line)"

definition rebuild :: "saved_puzzle \<Rightarrow> (string, game) result" where
  "rebuild s =
     and_then (ok_or (''`'' @ sv_difficulty s @ ''` is not a difficulty'') (difficulty_parse (sv_difficulty s))) (\<lambda>d.
     and_then (saved_grid (sv_givens s) ''givens'') (\<lambda>givens.
     and_then (saved_grid (sv_solution s) ''solution'') (\<lambda>solution.
     and_then (saved_grid (sv_board s) ''board'') (\<lambda>board.
     and_then (from_parts givens solution d) (\<lambda>p.
       case first_mismatch givens board of
         Some c \<Rightarrow> Err (''the board does not hold the given at '' @ cell_name c)
       | None \<Rightarrow>
           if \<not> is_valid board then Err ''the board breaks a row, column or block constraint''
           else Ok (game_restore p board (sv_stream s)))))))"

section \<open>Agreement between grids\<close>

definition extends :: "grid \<Rightarrow> grid \<Rightarrow> bool" where
  "extends h g \<longleftrightarrow> (\<forall>c d. on_grid c \<longrightarrow> grid_get g c = Some d \<longrightarrow> grid_get h c = Some d)"

lemma solution_grids_extends: "h \<in> solution_grids g \<longleftrightarrow> grid_ok h \<and> is_solved h \<and> extends h g"
  by (simp add: solution_grids_def extends_def)

lemma extends_refl [simp]: "extends g g"
  by (simp add: extends_def)

lemma extends_trans: "extends a b \<Longrightarrow> extends b c \<Longrightarrow> extends a c"
  by (simp add: extends_def)

lemma extends_find:
  "first_mismatch g h = None \<longleftrightarrow> extends h g"
  by (auto simp: first_mismatch_def find_None_iff extends_def split: option.splits)

lemma extends_set:
  "length h = 81 \<Longrightarrow> on_grid c \<Longrightarrow> grid_get g c = None \<Longrightarrow> extends h g \<Longrightarrow> extends (grid_set h c x) g"
  by (auto simp: extends_def grid_get_set)

lemma extends_clear: "length g = 81 \<Longrightarrow> on_grid c \<Longrightarrow> extends g (grid_set g c None)"
  by (auto simp: extends_def grid_get_set split: if_splits)

lemma filled_card: "filled g = card {i. i < length g \<and> g ! i \<noteq> None}"
  by (simp add: filled_def length_filter_conv_card)

lemma filled_clear:
  assumes "length g = 81" and "on_grid c" and "grid_get g c \<noteq> None"
  shows "filled g = Suc (filled (grid_set g c None))"
proof -
  let ?A = "{i. i < length g \<and> g ! i \<noteq> None}"
  have "{i. i < length (grid_set g c None) \<and> grid_set g c None ! i \<noteq> None} = ?A - {index c}"
  proof (intro set_eqI)
    show "i \<in> {i. i < length (grid_set g c None) \<and> grid_set g c None ! i \<noteq> None} \<longleftrightarrow> i \<in> ?A - {index c}" for i
      using assms(1) index_less [OF assms(2)] by (cases "i = index c") (auto simp: grid_set_def)
  qed
  moreover have "index c \<in> ?A" using assms by (simp add: grid_get_def)
  ultimately show ?thesis unfolding filled_card
    using card_Suc_Diff1 [of ?A "index c"] by simp
qed

section \<open>Generation\<close>

text \<open>What the removal loop keeps: the givens agree with the solution and determine it.\<close>

definition clued :: "grid \<Rightarrow> grid \<Rightarrow> bool" where
  "clued solution givens \<longleftrightarrow> grid_ok givens \<and> extends solution givens
     \<and> solution_grids givens = {solution}"

lemma clued_solution: "grid_ok g \<Longrightarrow> is_solved g \<Longrightarrow> clued g g"
proof -
  assume g: "grid_ok g" and s: "is_solved g"
  have len: "length g = 81" using g by (simp add: grid_ok_def)
  have "h = g" if "h \<in> solution_grids g" for h
  proof (rule grid_eqI [OF _ len])
    show "length h = 81" using that by (simp add: solution_grids_def grid_ok_def)
    show "grid_get h c = grid_get g c" if c: "on_grid c" for c
      using \<open>h \<in> solution_grids g\<close> s c is_complete_get [OF len]
      by (auto simp: solution_grids_def is_solved_def)
  qed
  with g s show ?thesis by (auto simp: clued_def solution_grids_extends)
qed

lemma remove_loop_clued:
  assumes "clued solution givens" and "remaining = filled givens" and "target \<le> remaining"
    and "distinct cs" and "\<forall>c\<in>set cs. on_grid c \<and> grid_get givens c \<noteq> None"
  shows "clued solution (remove_loop target cs givens remaining)
    \<and> target \<le> filled (remove_loop target cs givens remaining)"
  using assms
proof (induction cs arbitrary: givens remaining)
  case Nil
  then show ?case by simp
next
  case (Cons c cs)
  have len: "length givens = 81" and ok: "grid_ok givens" and sol: "solution_grids givens = {solution}"
    and ext: "extends solution givens"
    using Cons.prems(1) by (simp_all add: clued_def grid_ok_def)
  have c: "on_grid c" "grid_get givens c \<noteq> None" using Cons.prems(5) by simp_all
  let ?w = "grid_set givens c None"
  show ?case
  proof (cases "remaining \<le> target")
    case True
    with Cons.prems show ?thesis by simp
  next
    case False
    show ?thesis
    proof (cases "solutions ?w 2 = 1")
      case True
      have w: "grid_ok ?w" using grid_ok_set [OF ok, of None c] by simp
      have "extends solution ?w" using ext extends_clear [OF len c(1)] extends_trans by blast
      moreover have "solution_grids ?w = {solution}"
      proof -
        have "solution \<in> solution_grids givens" by (simp add: sol)
        then have m: "solution \<in> solution_grids ?w" using calculation by (simp add: solution_grids_extends)
        have "\<exists>!h. h \<in> solution_grids ?w" by (rule iffD1 [OF unique_solution [OF w] True])
        with m show ?thesis by (auto elim: ex1E)
      qed
      ultimately have "clued solution ?w" using w by (simp add: clued_def)
      moreover have "remaining - 1 = filled ?w" "target \<le> remaining - 1"
        using filled_clear [OF len c] Cons.prems(2) False by simp_all
      moreover have "\<forall>x\<in>set cs. on_grid x \<and> grid_get ?w x \<noteq> None"
        using Cons.prems(4,5) len c by (auto simp: grid_get_set)
      ultimately show ?thesis using Cons.IH [of ?w "remaining - 1"] Cons.prems(4) False True
        by (simp add: Let_def)
    next
      case f: False
      have "grid_set ?w c (grid_get givens c) = givens" by (simp add: grid_set_same)
      with f False Cons.IH [of givens remaining] Cons.prems show ?thesis by (simp add: Let_def)
    qed
  qed
qed

lemma generate_with_clued:
  "clued (pz_solution (snd (generate_with d r))) (pz_givens (snd (generate_with d r)))
   \<and> target_givens d \<le> given_count (snd (generate_with d r))
   \<and> grid_ok (pz_solution (snd (generate_with d r))) \<and> is_solved (pz_solution (snd (generate_with d r)))
   \<and> pz_difficulty (snd (generate_with d r)) = d"
proof -
  obtain r1 sol where c: "complete r = (r1, sol)" by (cases "complete r")
  obtain r2 order where o: "shuffle r1 all_cells = (r2, order)" by (cases "shuffle r1 all_cells")
  have sol: "grid_ok sol" "is_solved sol" using complete_solved [of r] c by simp_all
  have len: "length sol = 81" using sol by (simp add: grid_ok_def)
  have full: "filter (\<lambda>x. x \<noteq> None) sol = sol"
    using sol(2) by (simp add: is_solved_def is_complete_def list_all_iff)
  have f: "filled sol = 81" using full len by (simp add: filled_def)
  have "set order = set all_cells" "distinct order"
    using shuffle_set [of r1 all_cells] shuffle_distinct [of r1 all_cells] by (simp_all add: o)
  moreover have "grid_get sol x \<noteq> None" if "on_grid x" for x
    using sol(2) that is_complete_get [OF len] by (simp add: is_solved_def)
  moreover have "target_givens d \<le> 81" by (cases d) simp_all
  ultimately show ?thesis
    using remove_loop_clued [OF clued_solution [OF sol] f [symmetric], of "target_givens d" order] sol
    by (simp add: generate_with_def c o given_count_def f)
qed

section \<open>Playing\<close>

text \<open>A board that extends the givens and keeps the rule; the puzzle under it is sound.\<close>

definition board_ok :: "game \<Rightarrow> bool" where
  "board_ok g \<longleftrightarrow> grid_ok (g_board g) \<and> rule_kept (g_board g) \<and> extends (g_board g) (pz_givens (g_puzzle g))
     \<and> grid_ok (pz_givens (g_puzzle g)) \<and> grid_ok (pz_solution (g_puzzle g))
     \<and> is_solved (pz_solution (g_puzzle g)) \<and> extends (pz_solution (g_puzzle g)) (pz_givens (g_puzzle g))"

definition game_inv :: "game \<Rightarrow> bool" where
  "game_inv g \<longleftrightarrow> board_ok g \<and> clued (pz_solution (g_puzzle g)) (pz_givens (g_puzzle g))"

datatype game_op = EnterDigit cell digit | ClearCell cell | NewPuzzle difficulty

definition op_ok :: "game_op \<Rightarrow> bool" where
  "op_ok e \<longleftrightarrow> (case e of EnterDigit c d \<Rightarrow> on_grid c \<and> digit_ok d | ClearCell c \<Rightarrow> on_grid c | NewPuzzle _ \<Rightarrow> True)"

text \<open>
  The game as a machine over taps. A \<open>Cell\<close> off the grid and a \<open>Digit\<close> out of range cannot
  be built in the source; such an operation is skipped here.
\<close>

definition game_step :: "game \<Rightarrow> game_op \<Rightarrow> game \<times> (move_error, unit) result list" where
  "game_step g e = (if \<not> op_ok e then (g, []) else case e of
     EnterDigit c d \<Rightarrow> (let (g', r) = set_digit g c d in (g', [r]))
   | ClearCell c \<Rightarrow> (let (g', r) = clear_cell g c in (g', [r]))
   | NewPuzzle d \<Rightarrow> (new_puzzle g d, []))"

lemma clued_rule_kept: "clued s g \<Longrightarrow> rule_kept g"
  unfolding clued_def using no_solution_grids by force

lemma board_ok_generated:
  assumes "generate_with d r = (r', p)"
  shows "clued (pz_solution p) (pz_givens p)"
    and "board_ok \<lparr>g_puzzle = p, g_board = pz_givens p, g_rng = r', g_revision = n\<rparr>"
  using generate_with_clued [of d r] clued_rule_kept assms
  by (auto simp: board_ok_def clued_def)

lemma game_start_inv: "game_inv (game_start d seed)"
  by (cases "generate_with d (rng_new seed)")
     (simp add: game_start_def game_inv_def board_ok_generated)

lemma new_puzzle_inv: "game_inv (new_puzzle g d)"
proof -
  obtain r p where e: "generate_with d (g_rng g) = (r, p)" by (cases "generate_with d (g_rng g)")
  have "new_puzzle g d = \<lparr>g_puzzle = p, g_board = pz_givens p, g_rng = r, g_revision = g_revision g + 1\<rparr>"
    by (simp add: new_puzzle_def e)
  then show ?thesis using board_ok_generated [OF e] by (simp add: game_inv_def)
qed

lemma not_given: "\<not> is_given p c \<longleftrightarrow> grid_get (pz_givens p) c = None"
  by (simp add: is_given_def)

lemma set_digit_board:
  assumes b: "board_ok g" and c: "on_grid c" and d: "digit_ok d"
  shows "board_ok (fst (set_digit g c d)) \<and> g_puzzle (fst (set_digit g c d)) = g_puzzle g"
proof -
  let ?e = "grid_set (g_board g) c None"
  have board: "grid_ok (g_board g)" "rule_kept (g_board g)" "extends (g_board g) (pz_givens (g_puzzle g))"
    and len: "length (g_board g) = 81" using b by (simp_all add: board_ok_def grid_ok_def)
  have e: "grid_ok ?e" "rule_kept ?e"
    using grid_ok_set [OF board(1), of None c] rule_kept_clear [OF board(1,2) c] by simp_all
  have put: "board_ok (g\<lparr>g_board := grid_set ?e c (Some d), g_revision := n\<rparr>)"
    if "grid_get (pz_givens (g_puzzle g)) c = None" "conflict ?e c d = None" for n
  proof -
    have "grid_ok (grid_set ?e c (Some d))" using d by (intro grid_ok_set e) simp
    moreover have "rule_kept (grid_set ?e c (Some d))" by (rule rule_kept_set [OF e c that(2)])
    moreover have "extends (grid_set ?e c (Some d)) (pz_givens (g_puzzle g))"
      using extends_set [OF len c that(1) board(3)] by simp
    ultimately show ?thesis using b by (simp add: board_ok_def)
  qed
  have undo: "g\<lparr>g_board := grid_set ?e c (grid_get (g_board g) c)\<rparr> = g"
    by (cases g) (simp add: grid_set_same)
  show ?thesis
    using b put undo by (auto simp: set_digit_def Let_def not_given split: option.splits)
qed

lemma clear_cell_board:
  assumes b: "board_ok g" and c: "on_grid c"
  shows "board_ok (fst (clear_cell g c)) \<and> g_puzzle (fst (clear_cell g c)) = g_puzzle g"
proof -
  have board: "grid_ok (g_board g)" "rule_kept (g_board g)" "extends (g_board g) (pz_givens (g_puzzle g))"
    and len: "length (g_board g) = 81" using b by (simp_all add: board_ok_def grid_ok_def)
  show ?thesis
    using b grid_ok_set [OF board(1), of None c] rule_kept_clear [OF board(1,2) c]
      extends_set [OF len c _ board(3), of None]
    by (simp add: clear_cell_def not_given board_ok_def)
qed

lemma game_step_inv: "game_inv g \<Longrightarrow> game_inv (fst (game_step g e))"
  using set_digit_board [of g] clear_cell_board [of g] new_puzzle_inv
  by (cases e) (auto simp: game_step_def op_ok_def game_inv_def case_prod_beta)

text \<open>The same machine with the weaker invariant a restored game starts from.\<close>

lemma game_step_board_ok: "board_ok g \<Longrightarrow> board_ok (fst (game_step g e))"
  using set_digit_board [of g] clear_cell_board [of g] new_puzzle_inv
  by (cases e) (auto simp: game_step_def op_ok_def game_inv_def case_prod_beta)

interpretation play: guarded_machine game_step game_inv "\<lambda>_. True"
  by unfold_locales (simp_all add: game_step_inv)

interpretation restored: guarded_machine game_step board_ok "\<lambda>_. True"
  by unfold_locales (simp_all add: game_step_board_ok)

lemma solved_board_is_solution: "game_inv g \<Longrightarrow> game_solved g \<Longrightarrow> g_board g = pz_solution (g_puzzle g)"
proof -
  assume "game_inv g" and "game_solved g"
  then have "g_board g \<in> solution_grids (pz_givens (g_puzzle g))"
    by (simp add: game_inv_def board_ok_def game_solved_def solution_grids_extends)
  with \<open>game_inv g\<close> show ?thesis by (simp add: game_inv_def clued_def)
qed

section \<open>Saving\<close>

lemma difficulty_parse_slug: "difficulty_parse (slug d) = Some d"
  by (cases d) (simp_all add: difficulty_parse_def difficulties_def)

lemma saved_grid_Ok: "saved_grid line what = Ok g \<longleftrightarrow> parse_line line = Some g"
  by (simp add: saved_grid_def)

lemma from_parts_Ok:
  "from_parts g s d = Ok p \<longleftrightarrow> is_solved s \<and> extends s g
     \<and> p = \<lparr>pz_givens = g, pz_solution = s, pz_difficulty = d\<rparr>"
  using extends_find [of g s] by (auto simp: from_parts_def split: option.splits)

lemma rebuild_Ok:
  "rebuild s = Ok g \<longleftrightarrow> (\<exists>d givens solution board.
     difficulty_parse (sv_difficulty s) = Some d \<and> parse_line (sv_givens s) = Some givens
     \<and> parse_line (sv_solution s) = Some solution \<and> parse_line (sv_board s) = Some board
     \<and> is_solved solution \<and> extends solution givens \<and> extends board givens \<and> is_valid board
     \<and> g = game_restore \<lparr>pz_givens = givens, pz_solution = solution, pz_difficulty = d\<rparr> board (sv_stream s))"
proof -
  have "(case first_mismatch givens board of
         Some c \<Rightarrow> Err (''the board does not hold the given at '' @ cell_name c)
       | None \<Rightarrow> if \<not> is_valid board then Err ''the board breaks a row, column or block constraint''
           else Ok (game_restore p board (sv_stream s))) = (Ok g :: (string, game) result)
     \<longleftrightarrow> extends board givens \<and> is_valid board \<and> g = game_restore p board (sv_stream s)" for givens board p
    using extends_find [of givens board] by (auto split: option.splits)
  then show ?thesis
    unfolding rebuild_def and_then_Ok_iff ok_or_Ok_iff saved_grid_Ok from_parts_Ok by blast
qed

lemma rebuild_saved:
  assumes "board_ok g"
  shows "rebuild (saved_of g) = Ok (g\<lparr>g_revision := 0\<rparr>)"
proof -
  have "g\<lparr>g_revision := 0\<rparr> = game_restore \<lparr>pz_givens = pz_givens (g_puzzle g), pz_solution = pz_solution (g_puzzle g),
      pz_difficulty = pz_difficulty (g_puzzle g)\<rparr> (g_board g) (r_state (g_rng g))"
    by (cases g) (simp add: game_restore_def rng_new_def)
  then show ?thesis
    unfolding rebuild_Ok
    using assms by (intro exI) (auto simp: saved_of_def difficulty_parse_slug parse_to_line board_ok_def is_valid_rule)
qed

lemma rebuild_board_ok: "rebuild s = Ok g \<Longrightarrow> board_ok g"
  unfolding rebuild_Ok
  by (auto simp: board_ok_def game_restore_def is_valid_rule parse_line_ok)

section \<open>Properties\<close>

text \<open>
  C19. A generated puzzle has exactly one solution. For every difficulty and seed the clues
  agree with a finished, legal grid, that grid is the only finished, legal grid they agree
  with, and at least the difficulty's target number of clues is left.
\<close>

theorem generated_puzzle_unique:
  "let p = generate d seed in
     is_solved (pz_solution p)
     \<and> (\<forall>h. (grid_ok h \<and> is_solved h \<and> (\<forall>c x. on_grid c \<longrightarrow> grid_get (pz_givens p) c = Some x
            \<longrightarrow> grid_get h c = Some x)) = (h = pz_solution p))
     \<and> target_givens d \<le> given_count p \<and> pz_difficulty p = d"
proof -
  have "h \<in> solution_grids (pz_givens (generate d seed)) \<longleftrightarrow> h = pz_solution (generate d seed)" for h
    using generate_with_clued [of d "rng_new seed"] by (auto simp: generate_def clued_def)
  then show ?thesis
    using generate_with_clued [of d "rng_new seed"] unfolding solution_grids_def
    by (simp add: generate_def Let_def)
qed

theorem generated_puzzle_unique_witness:
  "is_solved (pz_solution (generate Hard 7)) \<and> 28 \<le> given_count (generate Hard 7)"
  using generated_puzzle_unique [of Hard 7] by (simp add: Let_def)

text \<open>
  Play never leaves the rules. After any sequence of entries, clearings and new puzzles
  from a started game, no two cells that see each other hold the same digit, every given is
  still on the board, and a finished board is the puzzle's own solution.
\<close>

theorem play_keeps_the_rules:
  fixes d seed ops
  defines "g \<equiv> fst (run game_step (game_start d seed) ops)"
  shows "is_valid (g_board g)
    \<and> (\<forall>c x. on_grid c \<longrightarrow> grid_get (pz_givens (g_puzzle g)) c = Some x \<longrightarrow> grid_get (g_board g) c = Some x)
    \<and> (game_solved g \<longrightarrow> g_board g = pz_solution (g_puzzle g))"
proof -
  have inv: "game_inv g" unfolding g_def by (rule play.run_inv [OF game_start_inv])
  then show ?thesis
    using solved_board_is_solution [OF inv] by (auto simp: game_inv_def board_ok_def is_valid_rule extends_def)
qed

theorem play_keeps_the_rules_witness:
  "is_valid (g_board (fst (run game_step (game_start Easy 3) [EnterDigit (cell_at 4) (Digit 5), NewPuzzle Hard])))"
  using play_keeps_the_rules [of Easy 3 "[EnterDigit (cell_at 4) (Digit 5), NewPuzzle Hard]"] by blast

text \<open>
  An entry is refused for exactly the documented reasons, in their order, and a refusal
  changes nothing. A finished board refuses everything, a given refuses every digit, and a
  digit is refused when another cell of the row, column or block, which is the cell
  reported, holds it; otherwise the board changes in that one cell.
\<close>

theorem set_digit_outcome:
  assumes "grid_ok (g_board g)" and "on_grid c"
  shows "case set_digit g c d of
      (g', Inl Solved) \<Rightarrow> is_solved (g_board g) \<and> g' = g
    | (g', Inl Given) \<Rightarrow> \<not> is_solved (g_board g) \<and> is_given (g_puzzle g) c \<and> g' = g
    | (g', Inl (Conflict p)) \<Rightarrow> \<not> is_solved (g_board g) \<and> \<not> is_given (g_puzzle g) c \<and> g' = g
        \<and> on_grid p \<and> sees c p \<and> grid_get (g_board g) p = Some d
    | (g', Inr _) \<Rightarrow> \<not> is_solved (g_board g) \<and> \<not> is_given (g_puzzle g) c
        \<and> (if grid_get (g_board g) c = Some d then g' = g
           else (\<forall>p. on_grid p \<longrightarrow> sees c p \<longrightarrow> grid_get (g_board g) p \<noteq> Some d)
              \<and> g' = g\<lparr>g_board := grid_set (g_board g) c (Some d), g_revision := g_revision g + 1\<rparr>)"
proof -
  have len: "length (g_board g) = 81" using assms(1) by (simp add: grid_ok_def)
  have off: "grid_get (grid_set (g_board g) c None) p = grid_get (g_board g) p" if "on_grid p" "sees c p" for p
    using that by (auto simp: grid_get_set len assms(2) sees_def)
  have undo: "g\<lparr>g_board := grid_set (g_board g) c (grid_get (g_board g) c)\<rparr> = g"
    by (cases g) (simp add: grid_set_same)
  show ?thesis
    using off undo conflict_None [of "grid_set (g_board g) c None" c d]
      conflict_Some [of "grid_set (g_board g) c None" c d]
    by (auto simp: set_digit_def Let_def game_solved_def split: option.splits)
qed

theorem set_digit_outcome_witness:
  "case set_digit \<lparr>g_puzzle = \<lparr>pz_givens = EMPTY, pz_solution = model_grid, pz_difficulty = Easy\<rparr>,
      g_board = model_grid, g_rng = rng_new 0, g_revision = 0\<rparr> (cell_at 0) (Digit 1) of
     (g', Inl Solved) \<Rightarrow> g_revision g' = 0 | _ \<Rightarrow> False"
proof -
  have "grid_ok model_grid" "is_solved model_grid" using model_grid_solved by (simp_all add: solution_grids_def)
  then show ?thesis
    using set_digit_outcome [of "\<lparr>g_puzzle = \<lparr>pz_givens = EMPTY, pz_solution = model_grid, pz_difficulty = Easy\<rparr>,
      g_board = model_grid, g_rng = rng_new 0, g_revision = 0\<rparr>" "cell_at 0" "Digit 1"]
    by (simp add: set_digit_def game_solved_def)
qed

text \<open>
  A saved game is restored as it was, and only playable games are restored. For a game
  reached by any play, rebuilding the saved strings gives the same puzzle, board and stream
  with a fresh revision counter; and whatever strings a save file holds, a game that is
  rebuilt from them has a finished solution that agrees with the givens and a board that
  keeps the rule and holds every given.
\<close>

theorem save_round_trip:
  "rebuild (saved_of (fst (run game_step (game_start d seed) ops)))
     = Ok ((fst (run game_step (game_start d seed) ops))\<lparr>g_revision := 0\<rparr>)
   \<and> (\<forall>s g. rebuild s = Ok g \<longrightarrow> is_solved (pz_solution (g_puzzle g)) \<and> is_valid (g_board g)
        \<and> extends (pz_solution (g_puzzle g)) (pz_givens (g_puzzle g))
        \<and> extends (g_board g) (pz_givens (g_puzzle g)))"
proof -
  have "board_ok (fst (run game_step (game_start d seed) ops))"
    using play.run_inv [OF game_start_inv, of d seed ops] by (simp add: game_inv_def)
  from rebuild_saved [OF this] show ?thesis
    using rebuild_board_ok by (auto simp: board_ok_def is_valid_rule)
qed

theorem save_round_trip_witness:
  "rebuild (saved_of (fst (run game_step (game_start Medium 11) [ClearCell (cell_at 80)])))
     = Ok ((fst (run game_step (game_start Medium 11) [ClearCell (cell_at 80)]))\<lparr>g_revision := 0\<rparr>)"
  using save_round_trip by blast

end
