(* ===== verification/AppSession.thy ===== *)
theory AppSession
  imports Protocol
begin

text \<open>
  One app connection from the host's side (\<open>platform/protocol/src/session.rs\<close>): what the app
  may say in which state, and what the host may still build. Both directions are events of
  one machine here. The lemmas show that frames are requested one at a time with increasing
  ids and answered at most once, that the exit handshake happens at most once and a closed
  session stays silent, and what becomes of an answer that crosses a suspend.
\<close>

section \<open>State\<close>

datatype conn_state = Greeting | Running | Suspended | Exiting | Closed

datatype violation =
    BeforeReady string
  | AlreadyReady
  | UnsupportedProtocol protocol_version protocol_version
  | UnknownFrame frame_id
  | NoFrameOutstanding
  | TooMuchDamage nat nat
  | DiagnosticTooLong nat nat
  | SavedWithoutExit
  | SavedWrongReason exit_reason exit_reason
  | AfterExit string
  | AfterClose string
  | PanicExitingWithoutReason

datatype host_fault = WrongState conn_state | FrameOutstanding frame_id

record session =
  s_id :: nat
  s_host_protocol :: protocol_version
  s_app_protocol :: "protocol_version option"
  s_viewport :: size
  s_state :: conn_state
  s_next_frame :: frame_id
  s_outstanding :: "frame_id option"
  s_exiting :: "exit_reason option"

definition session_greeting :: "nat \<Rightarrow> protocol_version \<Rightarrow> size \<Rightarrow> session" where
  "session_greeting i host viewport = \<lparr>s_id = i, s_host_protocol = host, s_app_protocol = None,
     s_viewport = viewport, s_state = Greeting, s_next_frame = 0, s_outstanding = None,
     s_exiting = None\<rparr>"

section \<open>Messages from the app\<close>

definition check_running :: "session \<Rightarrow> app_message \<Rightarrow> (violation, session) result" where
  "check_running s m = (case m of
     MsgReady _ \<Rightarrow> Err AlreadyReady
   | MsgFrame frame damage \<Rightarrow> (case s_outstanding s of
       None \<Rightarrow> Err NoFrameOutstanding
     | Some outstanding \<Rightarrow>
         if frame \<noteq> outstanding then Err (UnknownFrame frame)
         else (case damage_regions damage of
             Some rs \<Rightarrow> if MAX_DAMAGE_RECTS < length rs then Err (TooMuchDamage (length rs) MAX_DAMAGE_RECTS)
                        else Ok (s\<lparr>s_outstanding := None\<rparr>)
           | None \<Rightarrow> Ok (s\<lparr>s_outstanding := None\<rparr>)))
   | MsgRequest _ \<Rightarrow> Ok s
   | MsgSystemQuery \<Rightarrow> Ok s
   | MsgSaved _ _ \<Rightarrow> Err SavedWithoutExit
   | MsgDiagnostic _ \<Rightarrow> Ok s)"

definition check_app_message :: "session \<Rightarrow> app_message \<Rightarrow> (violation, session) result" where
  "check_app_message s m =
     (let name = app_message_name m in
      if s_state s = Closed then Err (AfterClose name)
      else case m of
        MsgDiagnostic d \<Rightarrow>
          if MAX_DIAGNOSTIC_BYTES < length (diag_message d)
          then Err (DiagnosticTooLong (length (diag_message d)) MAX_DIAGNOSTIC_BYTES) else Ok s
      | _ \<Rightarrow>
        if s_state s = Greeting then
          (case m of
             MsgReady app \<Rightarrow>
               if \<not> can_run (s_host_protocol s) app then Err (UnsupportedProtocol app (s_host_protocol s))
               else Ok (s\<lparr>s_app_protocol := Some app, s_state := Running\<rparr>)
           | _ \<Rightarrow> Err (BeforeReady name))
        else if s_state s = Exiting then
          (case m of
             MsgSaved reason _ \<Rightarrow> (case s_exiting s of
                 None \<Rightarrow> Err PanicExitingWithoutReason
               | Some expected \<Rightarrow>
                   if reason \<noteq> expected then Err (SavedWrongReason expected reason)
                   else Ok (s\<lparr>s_state := Closed\<rparr>))
           | _ \<Rightarrow> Err (AfterExit name))
        else check_running s m)"

definition on_app_message :: "session \<Rightarrow> app_message \<Rightarrow> session \<times> (violation, unit) result" where
  "on_app_message s m = (case check_app_message s m of
     Inl v \<Rightarrow> (s\<lparr>s_state := Closed\<rparr>, Err v)
   | Inr s' \<Rightarrow> (s', Ok ()))"

section \<open>Messages from the host\<close>

definition session_draw :: "session \<Rightarrow> draw_reason \<Rightarrow> session \<times> (host_fault, host_message) result" where
  "session_draw s reason =
     (if s_state s \<noteq> Running then (s, Err (WrongState (s_state s)))
      else case s_outstanding s of
        Some f \<Rightarrow> (s, Err (FrameOutstanding f))
      | None \<Rightarrow>
          (let frame = s_next_frame s
           in (s\<lparr>s_next_frame := frame_next frame, s_outstanding := Some frame\<rparr>,
               Ok (HostDraw frame reason (s_viewport s)))))"

definition session_suspend :: "session \<Rightarrow> session \<times> host_message option" where
  "session_suspend s =
     (if s_state s \<noteq> Running then (s, None)
      else (s\<lparr>s_outstanding := None, s_state := Suspended\<rparr>, Some (HostLifecycle LcSuspended)))"

definition session_resume :: "session \<Rightarrow> session \<times> host_message option" where
  "session_resume s =
     (if s_state s \<noteq> Suspended then (s, None)
      else (s\<lparr>s_state := Running\<rparr>, Some (HostLifecycle LcResumed)))"

definition session_prepare_to_exit :: "session \<Rightarrow> exit_reason \<Rightarrow> duration \<Rightarrow> session \<times> host_message option" where
  "session_prepare_to_exit s reason deadline =
     (if s_state s \<noteq> Running \<and> s_state s \<noteq> Suspended then (s, None)
      else (s\<lparr>s_outstanding := None, s_state := Exiting, s_exiting := Some reason\<rparr>,
            Some (HostLifecycle (lifecycle_prepare_to_exit reason deadline))))"

definition session_close :: "session \<Rightarrow> session \<times> host_message option" where
  "session_close s =
     (if s_state s = Closed then (s, None) else (s\<lparr>s_state := Closed\<rparr>, Some HostGoodbye))"

section \<open>The connection as one machine\<close>

datatype session_event =
    FromApp app_message
  | DoDraw draw_reason
  | DoSuspend
  | DoResume
  | DoPrepareToExit exit_reason duration
  | DoClose

datatype session_out =
    Accepted app_message
  | Violated violation
  | Sent host_message
  | Faulted host_fault

definition sent :: "host_message option \<Rightarrow> session_out list" where
  "sent m = (case m of None \<Rightarrow> [] | Some h \<Rightarrow> [Sent h])"

definition session_step :: "session \<Rightarrow> session_event \<Rightarrow> session \<times> session_out list" where
  "session_step s e = (case e of
     FromApp m \<Rightarrow> (case on_app_message s m of
         (s', Inl v) \<Rightarrow> (s', [Violated v]) | (s', Inr _) \<Rightarrow> (s', [Accepted m]))
   | DoDraw r \<Rightarrow> (case session_draw s r of
         (s', Inl f) \<Rightarrow> (s', [Faulted f]) | (s', Inr h) \<Rightarrow> (s', [Sent h]))
   | DoSuspend \<Rightarrow> map_prod id sent (session_suspend s)
   | DoResume \<Rightarrow> map_prod id sent (session_resume s)
   | DoPrepareToExit r d \<Rightarrow> map_prod id sent (session_prepare_to_exit s r d)
   | DoClose \<Rightarrow> map_prod id sent (session_close s))"

section \<open>Lemmas\<close>

lemmas session_step_defs = session_step_def sent_def on_app_message_def check_app_message_def
  check_running_def session_draw_def session_suspend_def session_resume_def
  session_prepare_to_exit_def session_close_def Let_def

text \<open>How far the connection has come. No event takes it back.\<close>

fun conn_level :: "conn_state \<Rightarrow> nat" where
  "conn_level Greeting = 0"
| "conn_level Running = 1"
| "conn_level Suspended = 1"
| "conn_level Exiting = 2"
| "conn_level Closed = 3"

definition session_inv :: "session \<Rightarrow> bool" where
  "session_inv s \<longleftrightarrow> (s_outstanding s \<noteq> None \<longrightarrow> s_state s = Running \<or> s_state s = Closed)
     \<and> (s_state s = Exiting \<longrightarrow> s_exiting s \<noteq> None)"

lemma check_running_Ok:
  "check_running s m = Ok s' \<Longrightarrow> s' = s \<or> (\<exists>d. m = MsgFrame (the (s_outstanding s)) d
     \<and> s_outstanding s \<noteq> None \<and> s' = s\<lparr>s_outstanding := None\<rparr>)"
  by (cases m) (auto simp: check_running_def split: option.splits if_splits)

text \<open>What an accepted message can have been and done.\<close>

lemma check_app_message_Ok:
  assumes "check_app_message s m = Ok s'"
  shows "s_state s \<noteq> Closed \<and>
     (s' = s \<and> (\<forall>f d. m \<noteq> MsgFrame f d) \<and> (\<forall>r b. m \<noteq> MsgSaved r b)
    \<or> (\<exists>v. s_state s = Greeting \<and> m = MsgReady v \<and> can_run (s_host_protocol s) v
         \<and> s' = s\<lparr>s_app_protocol := Some v, s_state := Running\<rparr>)
    \<or> (\<exists>r b. s_state s = Exiting \<and> m = MsgSaved r b \<and> s_exiting s = Some r \<and> s' = s\<lparr>s_state := Closed\<rparr>)
    \<or> (\<exists>f d. (s_state s = Running \<or> s_state s = Suspended) \<and> m = MsgFrame f d \<and> s_outstanding s = Some f
         \<and> s' = s\<lparr>s_outstanding := None\<rparr>))"
  using assms
  by (cases "s_state s"; cases m)
     (auto simp: check_app_message_def check_running_def Let_def split: option.splits if_splits)

lemma on_app_message_cases:
  "(\<exists>v. on_app_message s m = (s\<lparr>s_state := Closed\<rparr>, Err v) \<and> check_app_message s m = Err v)
   \<or> (\<exists>s'. on_app_message s m = (s', Ok ()) \<and> check_app_message s m = Ok s')"
  by (cases "check_app_message s m") (simp_all add: on_app_message_def)

lemma session_step_app:
  "session_step s (FromApp m) =
     (case check_app_message s m of Inl v \<Rightarrow> (s\<lparr>s_state := Closed\<rparr>, [Violated v]) | Inr s' \<Rightarrow> (s', [Accepted m]))"
  by (simp add: session_step_def on_app_message_def split: sum.splits)

lemma session_step_inv: "session_inv s \<Longrightarrow> session_inv (fst (session_step s e))"
proof (cases e)
  case (FromApp m)
  assume "session_inv s"
  with FromApp show ?thesis
    by (cases "check_app_message s m")
       (auto simp: session_step_app session_inv_def dest!: check_app_message_Ok)
qed (auto simp: session_step_def session_draw_def session_suspend_def session_resume_def sent_def
      session_prepare_to_exit_def session_close_def session_inv_def Let_def split: option.splits)

lemma session_step_level: "conn_level (s_state s) \<le> conn_level (s_state (fst (session_step s e)))"
proof (cases e)
  case (FromApp m)
  then show ?thesis
    by (cases "check_app_message s m"; cases "s_state s")
       (auto simp: session_step_app dest!: check_app_message_Ok)
qed (auto simp: session_step_def session_draw_def session_suspend_def session_resume_def sent_def
      session_prepare_to_exit_def session_close_def Let_def split: option.splits; cases "s_state s"; simp)+

interpretation conn: monotone_machine session_step session_inv "\<lambda>_. True" "\<lambda>s. conn_level (s_state s)"
  by unfold_locales (simp_all add: session_step_inv session_step_level)

section \<open>The frames of a conversation\<close>

fun drawn_of :: "session_out \<Rightarrow> frame_id option" where
  "drawn_of (Sent (HostDraw f _ _)) = Some f"
| "drawn_of _ = None"

fun answered_of :: "session_out \<Rightarrow> frame_id option" where
  "answered_of (Accepted (MsgFrame f _)) = Some f"
| "answered_of _ = None"

definition drawn :: "session_out list \<Rightarrow> frame_id list" where
  "drawn outs = List.map_filter drawn_of outs"

definition answered :: "session_out list \<Rightarrow> frame_id list" where
  "answered outs = List.map_filter answered_of outs"

lemma drawn_simps [simp]:
  "drawn [] = []" "drawn (xs @ ys) = drawn xs @ drawn ys"
  "drawn [x] = (case drawn_of x of None \<Rightarrow> [] | Some f \<Rightarrow> [f])"
  by (simp_all add: drawn_def List.map_filter_def split: option.splits)

lemma answered_simps [simp]:
  "answered [] = []" "answered (xs @ ys) = answered xs @ answered ys"
  "answered [x] = (case answered_of x of None \<Rightarrow> [] | Some f \<Rightarrow> [f])"
  by (simp_all add: answered_def List.map_filter_def split: option.splits)

definition frames_inv :: "session_out list \<Rightarrow> session \<Rightarrow> bool" where
  "frames_inv outs s \<longleftrightarrow> s_next_frame s = length (drawn outs) \<and> drawn outs = [0..<length (drawn outs)]
     \<and> sorted_wrt (<) (answered outs) \<and> (\<forall>a\<in>set (answered outs). a < length (drawn outs))
     \<and> (\<forall>f. s_outstanding s = Some f \<longrightarrow> Suc f = length (drawn outs) \<and> (\<forall>a\<in>set (answered outs). a < f))"

text \<open>One step adds a draw, or an answer, or neither.\<close>

lemma session_step_frames:
  "(\<exists>r. e = DoDraw r \<and> s_outstanding s = None
        \<and> session_step s e = (s\<lparr>s_next_frame := frame_next (s_next_frame s), s_outstanding := Some (s_next_frame s)\<rparr>,
            [Sent (HostDraw (s_next_frame s) r (s_viewport s))]))
   \<or> (\<exists>f d. e = FromApp (MsgFrame f d) \<and> s_outstanding s = Some f
        \<and> session_step s e = (s\<lparr>s_outstanding := None\<rparr>, [Accepted (MsgFrame f d)]))
   \<or> (drawn (snd (session_step s e)) = [] \<and> answered (snd (session_step s e)) = []
        \<and> s_next_frame (fst (session_step s e)) = s_next_frame s
        \<and> (s_outstanding (fst (session_step s e)) = s_outstanding s \<or> s_outstanding (fst (session_step s e)) = None))"
proof (cases e)
  case (FromApp m)
  show ?thesis
  proof (cases "check_app_message s m")
    case (Inl v)
    then show ?thesis by (simp add: FromApp session_step_app)
  next
    case (Inr s')
    have st: "session_step s e = (s', [Accepted m])" by (simp add: FromApp session_step_app Inr)
    from check_app_message_Ok [OF Inr]
    have "(s' = s \<and> (\<forall>f d. m \<noteq> MsgFrame f d))
      \<or> (\<exists>v. m = MsgReady v \<and> s' = s\<lparr>s_app_protocol := Some v, s_state := Running\<rparr>)
      \<or> (\<exists>r b. m = MsgSaved r b \<and> s' = s\<lparr>s_state := Closed\<rparr>)
      \<or> (\<exists>f d. m = MsgFrame f d \<and> s_outstanding s = Some f \<and> s' = s\<lparr>s_outstanding := None\<rparr>)" by blast
    then show ?thesis
    proof (elim conjE disjE exE)
      assume "s' = s" "\<forall>f d. m \<noteq> MsgFrame f d"
      then show ?thesis unfolding st by (cases m) simp_all
    next
      fix f d
      assume m: "m = MsgFrame f d" and o: "s_outstanding s = Some f" and s': "s' = s\<lparr>s_outstanding := None\<rparr>"
      have "session_step s e = (s\<lparr>s_outstanding := None\<rparr>, [Accepted (MsgFrame f d)])" using st m s' by simp
      with o m FromApp show ?thesis by blast
    qed (unfold st, simp_all)
  qed
next
  case (DoDraw r)
  then show ?thesis
    by (cases "s_outstanding s") (auto simp: session_step_def session_draw_def Let_def)
qed (auto simp: session_step_def session_suspend_def session_resume_def sent_def
      session_prepare_to_exit_def session_close_def)

lemma frames_inv_step:
  assumes inv: "frames_inv outs s" and small: "length (drawn outs) < u64_max"
  shows "frames_inv (outs @ snd (session_step s e)) (fst (session_step s e))"
  using session_step_frames [of e s]
proof (elim disjE exE conjE)
  fix r
  assume n: "s_outstanding s = None"
    and st: "session_step s e = (s\<lparr>s_next_frame := frame_next (s_next_frame s), s_outstanding := Some (s_next_frame s)\<rparr>,
            [Sent (HostDraw (s_next_frame s) r (s_viewport s))])"
  have "s_next_frame s = length (drawn outs)" using inv by (simp add: frames_inv_def)
  with inv small show ?thesis unfolding st
    by (simp add: frames_inv_def frame_next_def) (metis less_SucI upt_Suc_append zero_le)
next
  fix f d
  assume "s_outstanding s = Some f"
    and st: "session_step s e = (s\<lparr>s_outstanding := None\<rparr>, [Accepted (MsgFrame f d)])"
  with inv show ?thesis unfolding st by (auto simp: frames_inv_def sorted_wrt_append)
next
  assume "drawn (snd (session_step s e)) = []" "answered (snd (session_step s e)) = []"
    "s_next_frame (fst (session_step s e)) = s_next_frame s"
    "s_outstanding (fst (session_step s e)) = s_outstanding s"
  with inv show ?thesis by (simp add: frames_inv_def)
next
  assume "drawn (snd (session_step s e)) = []" "answered (snd (session_step s e)) = []"
    "s_next_frame (fst (session_step s e)) = s_next_frame s"
    "s_outstanding (fst (session_step s e)) = None"
  with inv show ?thesis by (simp add: frames_inv_def)
qed

lemma session_step_drawn_le: "length (drawn (snd (session_step s e))) \<le> 1"
  using session_step_frames [of e s] by auto

lemma run_frames_inv:
  "length es \<le> u64_max \<Longrightarrow>
     frames_inv (snd (run session_step (session_greeting i h v) es)) (fst (run session_step (session_greeting i h v) es))
     \<and> length (drawn (snd (run session_step (session_greeting i h v) es))) \<le> length es"
proof (induction es rule: rev_induct)
  case Nil
  show ?case by (simp add: frames_inv_def session_greeting_def)
next
  case (snoc e es)
  let ?s = "fst (run session_step (session_greeting i h v) es)"
  let ?outs = "snd (run session_step (session_greeting i h v) es)"
  from snoc have "frames_inv ?outs ?s" "length (drawn ?outs) \<le> length es" by simp_all
  moreover from this(2) snoc.prems have "length (drawn ?outs) < u64_max" by simp
  ultimately show ?case
    using frames_inv_step [of ?outs ?s e] session_step_drawn_le [of ?s e]
    by (simp add: fst_run_append snd_run_append)
qed

text \<open>
  The contract a client of the panel sees: one frame at most is asked for at any time. A draw
  is allowed when none is outstanding, an answer only for the one that is, and a suspend or a
  prepare-to-exit gives it up.
\<close>

fun frame_step :: "frame_id option \<Rightarrow> session_out \<Rightarrow> frame_id option option" where
  "frame_step awaited (Sent (HostDraw f _ _)) = (if awaited = None then Some (Some f) else None)"
| "frame_step awaited (Accepted (MsgFrame f _)) = (if awaited = Some f then Some None else None)"
| "frame_step awaited (Sent (HostLifecycle LcSuspended)) = Some None"
| "frame_step awaited (Sent (HostLifecycle (LcPrepareToExit _ _))) = Some None"
| "frame_step awaited _ = Some awaited"

fun frame_trace :: "frame_id option \<Rightarrow> session_out list \<Rightarrow> frame_id option option" where
  "frame_trace awaited [] = Some awaited"
| "frame_trace awaited (x # xs) = Option.bind (frame_step awaited x) (\<lambda>later. frame_trace later xs)"

text \<open>What ends the wait for a frame.\<close>

fun settles :: "frame_id \<Rightarrow> session_out \<Rightarrow> bool" where
  "settles f (Accepted (MsgFrame g _)) = (g = f)"
| "settles f (Sent (HostLifecycle LcSuspended)) = True"
| "settles f (Sent (HostLifecycle (LcPrepareToExit _ _))) = True"
| "settles f _ = False"

lemma frame_trace_append: "frame_trace o1 (xs @ ys) = Option.bind (frame_trace o1 xs) (\<lambda>o2. frame_trace o2 ys)"
  by (induction xs arbitrary: o1) (auto split: Option.bind_split)

text \<open>Every step of a connection is a step of the contract, and what it awaits is what is outstanding.\<close>

lemma session_step_contract: "frame_trace (s_outstanding s) (snd (session_step s e)) = Some (s_outstanding (fst (session_step s e)))"
proof (cases e)
  case (FromApp m)
  show ?thesis
  proof (cases "check_app_message s m")
    case (Inr s')
    then show ?thesis
      using check_app_message_Ok [OF Inr] by (cases m) (auto simp: FromApp session_step_app)
  qed (simp add: FromApp session_step_app)
qed (auto simp: session_step_def session_draw_def session_suspend_def session_resume_def sent_def
      session_prepare_to_exit_def session_close_def lifecycle_prepare_to_exit_def Let_def split: option.splits)

lemma run_contract: "frame_trace (s_outstanding s) (snd (run session_step s es)) = Some (s_outstanding (fst (run session_step s es)))"
proof (induction es arbitrary: s)
  case (Cons e es)
  then show ?case by (simp add: frame_trace_append session_step_contract)
qed simp

lemma frame_step_waits: "frame_step (Some f) x = Some later \<Longrightarrow> \<not> settles f x \<Longrightarrow> later = Some f"
  by (cases "(Some f, x)" rule: frame_step.cases) (auto split: if_splits)

lemma settled_between:
  "frame_trace (Some f) (ys @ Sent (HostDraw g r v) # zs) \<noteq> None \<Longrightarrow> list_ex (settles f) ys"
proof (induction ys)
  case (Cons y ys)
  show ?case
  proof (cases "settles f y")
    case False
    from Cons.prems obtain later where "frame_step (Some f) y = Some later" by (cases "frame_step (Some f) y") auto
    with frame_step_waits [OF _ False] Cons show ?thesis by (auto dest: frame_step_waits [OF _ False])
  qed simp
qed simp

lemma draws_settled:
  assumes "frame_trace awaited (xs @ Sent (HostDraw f r v) # ys @ Sent (HostDraw g r' v') # zs) \<noteq> None"
  shows "list_ex (settles f) ys"
proof (rule settled_between)
  from assms show "frame_trace (Some f) (ys @ Sent (HostDraw g r' v') # zs) \<noteq> None"
    by (auto simp: frame_trace_append split: Option.bind_split_asm if_splits)
qed

section \<open>The exit handshake of a conversation\<close>

fun is_prepare :: "session_out \<Rightarrow> bool" where
  "is_prepare (Sent (HostLifecycle (LcPrepareToExit _ _))) = True"
| "is_prepare _ = False"

fun is_saved :: "session_out \<Rightarrow> bool" where
  "is_saved (Accepted (MsgSaved _ _)) = True"
| "is_saved _ = False"

fun speaks :: "session_out \<Rightarrow> bool" where
  "speaks (Accepted _) = True"
| "speaks (Sent _) = True"
| "speaks _ = False"

text \<open>Each kind of output is tied to the level the connection leaves.\<close>

lemma session_step_closed: "s_state s = Closed \<Longrightarrow> fst (session_step s e) = s \<and> \<not> list_ex speaks (snd (session_step s e))"
  by (cases e; cases s) (auto simp: session_step_defs)

lemma session_step_prepare:
  "length (filter is_prepare (snd (session_step s e))) + (if conn_level (s_state (fst (session_step s e))) \<le> 1 then 1 else 0)
     \<le> (if conn_level (s_state s) \<le> 1 then 1 else (0 :: nat))"
proof (cases e)
  case (FromApp m)
  then show ?thesis
    using session_step_level [of s e]
    by (cases "check_app_message s m") (auto simp: session_step_app)
qed (cases "s_state s"; auto simp: session_step_def session_draw_def session_suspend_def session_resume_def sent_def
      session_prepare_to_exit_def session_close_def lifecycle_prepare_to_exit_def Let_def split: option.splits)+

lemma session_step_saved:
  "length (filter is_saved (snd (session_step s e))) + (if conn_level (s_state (fst (session_step s e))) \<le> 2 then 1 else 0)
     \<le> (if conn_level (s_state s) \<le> 2 then 1 else (0 :: nat))"
proof (cases e)
  case (FromApp m)
  show ?thesis
  proof (cases "check_app_message s m")
    case (Inl v)
    then show ?thesis using FromApp by (simp add: session_step_app)
  next
    case (Inr s')
    have st: "session_step s e = (s', [Accepted m])" by (simp add: FromApp session_step_app Inr)
    show ?thesis
    proof (cases "is_saved (Accepted m)")
      case True
      then have "s_state s = Exiting \<and> s_state s' = Closed"
        using check_app_message_Ok [OF Inr] by (cases m) auto
      then show ?thesis unfolding st by simp
    next
      case False
      then show ?thesis using session_step_level [of s e] unfolding st by simp
    qed
  qed
qed (cases "s_state s"; auto simp: session_step_def session_draw_def session_suspend_def session_resume_def sent_def
      session_prepare_to_exit_def session_close_def Let_def split: option.splits)+

lemma run_counted:
  assumes step: "\<And>s e. length (filter P (snd (session_step s e))) + c (fst (session_step s e)) \<le> (c s :: nat)"
  shows "length (filter P (snd (run session_step s es))) + c (fst (run session_step s es)) \<le> c s"
proof (induction es arbitrary: s)
  case Nil
  then show ?case by simp
next
  case (Cons e es)
  from Cons.IH [of "fst (session_step s e)"] step [of s e] show ?case by simp
qed

lemma run_closed: "s_state s = Closed \<Longrightarrow> fst (run session_step s es) = s \<and> \<not> list_ex speaks (snd (run session_step s es))"
proof (induction es)
  case Nil
  then show ?case by simp
next
  case (Cons e es)
  with session_step_closed [of s e] show ?case by simp
qed

section \<open>Properties\<close>

text \<open>
  C20. Frames are asked for one at a time and answered at most once. In any conversation of
  less than \<open>2 ^ 64\<close> events from the greeting on, what is said is a run of the contract of
  \<open>frame_step\<close>, and the session remembers exactly what the contract awaits: a draw is sent only
  when no frame is outstanding, an answer is accepted only for the frame that is, and between
  two draws the first was answered or given up by a suspend or an exit. The draw requests
  carry the ids 0, 1, 2 and so on in order; the accepted answers are a strictly increasing
  selection of those ids; and an id is outstanding only when it is the last one drawn and not
  yet answered.
\<close>

theorem frames_one_at_a_time:
  fixes i host viewport es
  defines "final \<equiv> run session_step (session_greeting i host viewport) es"
  assumes "length es \<le> u64_max"
  shows "frame_trace None (snd final) = Some (s_outstanding (fst final))
    \<and> (\<forall>xs f r v ys g r' v' zs. snd final = xs @ Sent (HostDraw f r v) # ys @ Sent (HostDraw g r' v') # zs
          \<longrightarrow> list_ex (settles f) ys)
    \<and> drawn (snd final) = [0..<length (drawn (snd final))]
    \<and> sorted_wrt (<) (answered (snd final)) \<and> set (answered (snd final)) \<subseteq> set (drawn (snd final))
    \<and> (\<forall>f. s_outstanding (fst final) = Some f \<longrightarrow> f = last (drawn (snd final)) \<and> f \<notin> set (answered (snd final)))"
proof -
  have inv: "frames_inv (snd final) (fst final)"
    unfolding final_def using run_frames_inv [OF assms(2)] by blast
  have trace: "frame_trace None (snd final) = Some (s_outstanding (fst final))"
    unfolding final_def using run_contract [of "session_greeting i host viewport" es] by (simp add: session_greeting_def)
  have pair: "list_ex (settles f) ys" if "snd final = xs @ Sent (HostDraw f r v) # ys @ Sent (HostDraw g r' v') # zs"
    for xs f r v ys g r' v' zs
    by (rule draws_settled [of None xs f r v ys g r' v' zs]) (use trace in \<open>simp add: that\<close>)
  have d: "drawn (snd final) = [0..<length (drawn (snd final))]" using inv by (simp add: frames_inv_def)
  have set: "set (drawn (snd final)) = {..<length (drawn (snd final))}" by (subst d) auto
  have "f = last (drawn (snd final)) \<and> f \<notin> set (answered (snd final))" if "s_outstanding (fst final) = Some f" for f
  proof -
    from inv that have n: "length (drawn (snd final)) = Suc f" and a: "\<forall>a\<in>set (answered (snd final)). a < f"
      by (auto simp: frames_inv_def)
    have "last (drawn (snd final)) = f" by (subst d) (simp add: n)
    with a show ?thesis by auto
  qed
  with d set inv trace pair show ?thesis by (auto simp: frames_inv_def)
qed

text \<open>An answered frame, one that a suspend gives up, a draw too many, and one that is awaited.\<close>

definition sample_conversation :: "session_event list" where
  "sample_conversation = [FromApp (MsgReady CURRENT), DoDraw FirstFrame, FromApp (MsgFrame 0 Full), DoDraw AppRequested,
     DoSuspend, DoResume, DoDraw AppRequested, DoDraw AppRequested]"

theorem frames_one_at_a_time_witness:
  "drawn (snd (run session_step (session_greeting 7 CURRENT \<lparr>width = 10, height = 10\<rparr>) sample_conversation)) = [0, 1, 2]
   \<and> frame_trace None (snd (run session_step (session_greeting 7 CURRENT \<lparr>width = 10, height = 10\<rparr>) sample_conversation)) = Some (Some 2)
   \<and> last (snd (run session_step (session_greeting 7 CURRENT \<lparr>width = 10, height = 10\<rparr>) sample_conversation)) = Faulted (FrameOutstanding 2)"
proof -
  have "length sample_conversation \<le> u64_max" by (simp add: sample_conversation_def)
  from frames_one_at_a_time [OF this, of 7 CURRENT "\<lparr>width = 10, height = 10\<rparr>"] show ?thesis
    by (simp add: sample_conversation_def run.simps session_step_defs session_greeting_def can_run_def CURRENT_def
      frame_next_def drawn_def List.map_filter_def)
qed

text \<open>
  A conversation ends once. Whatever host and app do in whatever order, at most one
  prepare-to-exit is sent, at most one save is accepted, and after the session has closed,
  by a violation, a save or the host, no message is sent and none is accepted.
\<close>

theorem conversation_ends_once:
  "length (filter is_prepare (snd (run session_step s es))) \<le> 1
   \<and> length (filter is_saved (snd (run session_step s es))) \<le> 1
   \<and> (s_state (fst (run session_step s es)) = Closed \<longrightarrow>
        (\<forall>es'. fst (run session_step s (es @ es')) = fst (run session_step s es)
           \<and> filter speaks (snd (run session_step s (es @ es'))) = filter speaks (snd (run session_step s es))))
   \<and> (\<forall>m v. check_app_message s m = Err v \<longrightarrow> s_state (fst (session_step s (FromApp m))) = Closed)"
proof (intro conjI impI allI)
  show "length (filter is_prepare (snd (run session_step s es))) \<le> 1"
    using run_counted [where P = is_prepare and c = "\<lambda>s. if conn_level (s_state s) \<le> 1 then 1 else 0",
        OF session_step_prepare, of s es] by (simp split: if_splits)
  show "length (filter is_saved (snd (run session_step s es))) \<le> 1"
    using run_counted [where P = is_saved and c = "\<lambda>s. if conn_level (s_state s) \<le> 2 then 1 else 0",
        OF session_step_saved, of s es] by (simp split: if_splits)
next
  fix es' assume "s_state (fst (run session_step s es)) = Closed"
  from run_closed [OF this, of es']
  show "fst (run session_step s (es @ es')) = fst (run session_step s es)"
    and "filter speaks (snd (run session_step s (es @ es'))) = filter speaks (snd (run session_step s es))"
    by (simp_all add: fst_run_append snd_run_append list_ex_iff)
next
  fix m v assume "check_app_message s m = Err v"
  then show "s_state (fst (session_step s (FromApp m))) = Closed" by (simp add: session_step_app)
qed

theorem conversation_ends_once_witness:
  "filter speaks (snd (run session_step (session_greeting 7 CURRENT \<lparr>width = 1, height = 1\<rparr>)
       ([FromApp MsgSystemQuery] @ [FromApp (MsgReady CURRENT), DoClose]))) = []"
proof -
  let ?s = "session_greeting 7 CURRENT \<lparr>width = 1, height = 1\<rparr>"
  have c: "s_state (fst (run session_step ?s [FromApp MsgSystemQuery])) = Closed"
    by (simp add: run.simps session_step_defs session_greeting_def)
  have e: "filter speaks (snd (run session_step ?s [FromApp MsgSystemQuery])) = []"
    by (simp add: run.simps session_step_defs session_greeting_def)
  have "filter speaks (snd (run session_step ?s ([FromApp MsgSystemQuery] @ [FromApp (MsgReady CURRENT), DoClose])))
      = filter speaks (snd (run session_step ?s [FromApp MsgSystemQuery]))"
    using conversation_ends_once c by blast
  with e show ?thesis by simp
qed

text \<open>
  An answer that crosses a suspend ends the session. Suspending abandons the frame being
  drawn, so the app that answers exactly the frame it was asked for, with the message it
  would have sent a moment earlier, is closed for a violation; the same happens to the
  answer, or to any request, that crosses a prepare-to-exit.
\<close>

theorem answer_crossing_suspend_closes:
  assumes "s_state s = Running" and "s_outstanding s = Some f"
  shows "snd (run session_step s [DoSuspend, FromApp (MsgFrame f Full)])
      = [Sent (HostLifecycle LcSuspended), Violated NoFrameOutstanding]
    \<and> s_state (fst (run session_step s [DoSuspend, FromApp (MsgFrame f Full)])) = Closed
    \<and> snd (run session_step s [FromApp (MsgFrame f Full), DoSuspend])
      = [Accepted (MsgFrame f Full), Sent (HostLifecycle LcSuspended)]
    \<and> snd (run session_step s [DoPrepareToExit r d, FromApp (MsgFrame f Full)])
      = [Sent (HostLifecycle (lifecycle_prepare_to_exit r d)), Violated (AfterExit ''frame'')]
    \<and> snd (run session_step s [DoPrepareToExit r d, FromApp (MsgRequest ReqRedraw)])
      = [Sent (HostLifecycle (lifecycle_prepare_to_exit r d)), Violated (AfterExit ''request'')]"
  using assms by (simp add: run.simps session_step_defs)

theorem answer_crossing_suspend_closes_witness:
  "s_state (fst (run session_step
     (fst (run session_step (session_greeting 7 CURRENT \<lparr>width = 1, height = 1\<rparr>) [FromApp (MsgReady CURRENT), DoDraw FirstFrame]))
     [DoSuspend, FromApp (MsgFrame 0 Full)])) = Closed"
proof -
  let ?s = "fst (run session_step (session_greeting 7 CURRENT \<lparr>width = 1, height = 1\<rparr>) [FromApp (MsgReady CURRENT), DoDraw FirstFrame])"
  have "s_state ?s = Running" "s_outstanding ?s = Some 0"
    by (simp_all add: run.simps session_step_defs session_greeting_def can_run_def)
  from answer_crossing_suspend_closes [OF this] show ?thesis by blast
qed

end
