(* ===== verification/Codec.thy ===== *)
theory Codec
  imports Protocol
begin

text \<open>
  Framing (\<open>platform/protocol/src/codec.rs\<close>): a four-byte little-endian length and that many
  bytes of JSON. The JSON encoder and decoder are not under \<open>src/\<close>: they are the arguments
  \<open>enc\<close> and \<open>dec\<close>. A byte stream is the list of what its reads will give: bytes, an
  interruption, or a failure; at the end of the list it is at its end. The lemmas show that
  messages survive any fragmentation, that an oversized length is refused before any of its
  body is read, and that a cut stream never yields a message.
\<close>

section \<open>Streams\<close>

datatype chunk = Bytes "u8 list" | Interrupted | ReadFailed

datatype codec_error =
    CodecClosed
  | TooLarge nat nat
  | Truncated nat nat
  | Malformed
  | EncodeFailed
  | CodecIo

text \<open>\<open>read_exact_or_eof\<close>: \<open>n\<close> more bytes are wanted, \<open>acc\<close> have arrived.\<close>

fun read_exact :: "chunk list \<Rightarrow> nat \<Rightarrow> u8 list \<Rightarrow> (codec_error, u8 list) result \<times> chunk list" where
  "read_exact src 0 acc = (Ok acc, src)"
| "read_exact [] (Suc n) acc = (Ok acc, [])"
| "read_exact (Interrupted # src) (Suc n) acc = read_exact src (Suc n) acc"
| "read_exact (ReadFailed # src) (Suc n) acc = (Err CodecIo, src)"
| "read_exact (Bytes bs # src) (Suc n) acc =
     (if bs = [] then (Ok acc, src)
      else if length bs \<le> Suc n then read_exact src (Suc n - length bs) (acc @ bs)
      else (Ok (acc @ take (Suc n) bs), Bytes (drop (Suc n) bs) # src))"

section \<open>Frames\<close>

definition LENGTH_PREFIX_BYTES :: nat where
  "LENGTH_PREFIX_BYTES = 4"

definition to_le_bytes :: "nat \<Rightarrow> u8 list" where
  "to_le_bytes n = [word_of_nat n, word_of_nat (n div 256), word_of_nat (n div 65536),
     word_of_nat (n div 16777216)]"

fun from_le_bytes :: "u8 list \<Rightarrow> nat" where
  "from_le_bytes [] = 0"
| "from_le_bytes (b # bs) = unat b + 256 * from_le_bytes bs"

definition encode :: "('m \<Rightarrow> u8 list option) \<Rightarrow> 'm \<Rightarrow> (codec_error, u8 list) result" where
  "encode enc m = and_then (ok_or EncodeFailed (enc m)) (\<lambda>body.
     if MAX_MESSAGE_BYTES < length body then Err (TooLarge (length body) MAX_MESSAGE_BYTES) else Ok body)"

definition decode :: "(u8 list \<Rightarrow> 'm option) \<Rightarrow> u8 list \<Rightarrow> (codec_error, 'm) result" where
  "decode dec body = ok_or Malformed (dec body)"

text \<open>The bytes \<open>write_message\<close> hands to the writer in one piece.\<close>

definition write_message :: "('m \<Rightarrow> u8 list option) \<Rightarrow> 'm \<Rightarrow> (codec_error, u8 list) result" where
  "write_message enc m = and_then (encode enc m) (\<lambda>body. Ok (to_le_bytes (length body) @ body))"

definition read_message :: "(u8 list \<Rightarrow> 'm option) \<Rightarrow> chunk list \<Rightarrow> (codec_error, 'm) result \<times> chunk list" where
  "read_message dec src = (case read_exact src LENGTH_PREFIX_BYTES [] of
     (Inl e, src1) \<Rightarrow> (Err e, src1)
   | (Inr prefix, src1) \<Rightarrow>
       if length prefix = 0 then (Err CodecClosed, src1)
       else if length prefix < LENGTH_PREFIX_BYTES
       then (Err (Truncated (length prefix) LENGTH_PREFIX_BYTES), src1)
       else
         let len = from_le_bytes prefix
         in if MAX_MESSAGE_BYTES < len then (Err (TooLarge len MAX_MESSAGE_BYTES), src1)
            else (case read_exact src1 len [] of
                (Inl e, src2) \<Rightarrow> (Err e, src2)
              | (Inr body, src2) \<Rightarrow>
                  if length body < len then (Err (Truncated (length body) len), src2)
                  else (decode dec body, src2)))"

text \<open>A conversation: read until something other than a message comes back.\<close>

fun read_all :: "(u8 list \<Rightarrow> 'm option) \<Rightarrow> nat \<Rightarrow> chunk list \<Rightarrow> 'm list \<times> codec_error option" where
  "read_all dec 0 src = ([], None)"
| "read_all dec (Suc n) src = (case read_message dec src of
     (Inl e, _) \<Rightarrow> ([], Some e)
   | (Inr m, src') \<Rightarrow> (let (ms, e) = read_all dec n src' in (m # ms, e)))"

section \<open>Lemmas\<close>

lemma length_to_le_bytes [simp]: "length (to_le_bytes n) = 4"
  by (simp add: to_le_bytes_def)

lemma from_to_le_bytes: "n < 2 ^ 32 \<Longrightarrow> from_le_bytes (to_le_bytes n) = n"
proof -
  assume n: "n < 2 ^ 32"
  have "n div 16777216 < 256" using n by (simp add: less_mult_imp_div_less)
  then have "from_le_bytes (to_le_bytes n)
      = n mod 256 + 256 * (n div 256 mod 256 + 256 * (n div 65536 mod 256 + 256 * (n div 16777216)))"
    by (simp add: to_le_bytes_def unat_of_nat)
  also have "n div 65536 mod 256 + 256 * (n div 16777216) = n div 65536"
    using mod_mult_div_eq [of "n div 65536" 256] by (simp add: div_mult2_eq [symmetric])
  also have "n div 256 mod 256 + 256 * (n div 65536) = n div 256"
    using mod_mult_div_eq [of "n div 256" 256] by (simp add: div_mult2_eq [symmetric])
  also have "n mod 256 + 256 * (n div 256) = n" by simp
  finally show ?thesis .
qed

text \<open>What a stream still holds, and a stream whose reads neither fail nor pretend to end.\<close>

fun flat :: "chunk list \<Rightarrow> u8 list" where
  "flat [] = []"
| "flat (Bytes bs # src) = bs @ flat src"
| "flat (_ # src) = flat src"

definition clean :: "chunk list \<Rightarrow> bool" where
  "clean src \<longleftrightarrow> ReadFailed \<notin> set src \<and> Bytes [] \<notin> set src"

lemma read_exact_clean:
  "clean src \<Longrightarrow> \<exists>src'. read_exact src n acc = (Ok (acc @ take n (flat src)), src')
     \<and> clean src' \<and> flat src' = drop n (flat src)"
proof (induction src n acc rule: read_exact.induct)
  case (3 src n acc)
  then show ?case by (simp add: clean_def)
next
  case (5 bs src n acc)
  then have ne: "bs \<noteq> []" and c: "clean src" by (auto simp: clean_def)
  show ?case
  proof (cases "length bs \<le> Suc n")
    case True
    with 5(1) [OF ne True c] ne show ?thesis by (simp add: take_append drop_append)
  next
    case False
    with ne c show ?thesis by (auto simp: clean_def)
  qed
qed (simp_all add: clean_def)

lemma read_exact_length: "read_exact src n acc = (Ok bs, src') \<Longrightarrow> length bs \<le> length acc + n"
  by (induction src n acc rule: read_exact.induct) (auto split: if_splits)

lemma write_message_Ok:
  "write_message enc m = Ok frame \<longleftrightarrow>
     (\<exists>body. enc m = Some body \<and> length body \<le> MAX_MESSAGE_BYTES \<and> frame = to_le_bytes (length body) @ body)"
  by (cases "enc m") (auto simp: write_message_def encode_def)

lemma small_length: "length body \<le> MAX_MESSAGE_BYTES \<Longrightarrow> length body < 2 ^ 32"
  by (simp add: MAX_MESSAGE_BYTES_def)

lemma read_written:
  assumes "clean src" and "flat src = frame @ rest" and "write_message enc m = Ok frame"
    and "\<And>body. enc m = Some body \<Longrightarrow> dec body = Some m"
  shows "\<exists>src'. read_message dec src = (Ok m, src') \<and> clean src' \<and> flat src' = rest"
proof -
  from assms(3) obtain body where b: "enc m = Some body" "length body \<le> MAX_MESSAGE_BYTES"
    "frame = to_le_bytes (length body) @ body" by (auto simp: write_message_Ok)
  from read_exact_clean [OF assms(1), of 4 "[]"] obtain src1 where
    r1: "read_exact src 4 [] = (Ok (to_le_bytes (length body)), src1)" "clean src1" "flat src1 = body @ rest"
    by (auto simp: assms(2) b)
  from read_exact_clean [OF r1(2), of "length body" "[]"] obtain src2 where
    r2: "read_exact src1 (length body) [] = (Ok body, src2)" "clean src2" "flat src2 = rest"
    by (auto simp: r1)
  show ?thesis
    using r1 r2 b assms(4) from_to_le_bytes [OF small_length [OF b(2)]]
    by (simp add: read_message_def LENGTH_PREFIX_BYTES_def decode_def)
qed

lemma read_end: "clean src \<Longrightarrow> flat src = [] \<Longrightarrow> fst (read_message dec src) = Err CodecClosed"
  using read_exact_clean [of src 4 "[]"] by (auto simp: read_message_def LENGTH_PREFIX_BYTES_def)

section \<open>Properties\<close>

text \<open>
  C21. Messages survive any fragmentation. Write any messages one after another and let the
  transport deliver the bytes in pieces of any sizes, with any interruptions: reading gives
  the same messages in the same order, and after the last of them a clean close. Relied on:
  the JSON decoder reads back what the encoder wrote.
\<close>

theorem framing_round_trip:
  assumes json: "\<And>m body. enc m = Some body \<Longrightarrow> dec body = Some m"
    and "list_all2 (\<lambda>m frame. write_message enc m = Ok frame) ms frames"
    and "clean src" and "flat src = concat frames"
  shows "read_all dec (Suc (length ms)) src = (ms, Some CodecClosed)"
  using assms(2-)
proof (induction ms frames arbitrary: src rule: list_all2_induct)
  case Nil
  with read_end [of src dec] show ?case by (cases "read_message dec src") simp
next
  case (Cons m ms frame frames)
  from Cons.prems have "flat src = frame @ concat frames" by simp
  from read_written [where dec = dec, OF Cons.prems(1) this Cons.hyps(1) json] obtain src' where
    "read_message dec src = (Ok m, src')" "clean src'" "flat src' = concat frames" by blast
  with Cons.IH [of src'] show ?case by simp
qed

theorem framing_round_trip_witness:
  "read_all Some 3 [Bytes [2, 0], Interrupted, Bytes [0, 0, 7], Bytes [9, 0, 0, 0, 0]]
     = ([[7, 9], []], Some CodecClosed)"
proof -
  have frames: "list_all2 (\<lambda>m frame. write_message Some m = Ok frame) [[7, 9], []] [[2, 0, 0, 0, 7, 9], [0, 0, 0, 0 :: u8]]"
    by (simp add: write_message_def encode_def MAX_MESSAGE_BYTES_def to_le_bytes_def)
  have "read_all Some (Suc (length [[7, 9 :: u8], []])) [Bytes [2, 0], Interrupted, Bytes [0, 0, 7], Bytes [9, 0, 0, 0, 0]]
     = ([[7, 9], []], Some CodecClosed)"
    by (rule framing_round_trip [OF _ frames]) (simp_all add: clean_def)
  then show ?thesis by (simp add: numeral_eq_Suc)
qed

text \<open>
  A hostile or cut stream never becomes a message. A prefix that claims more than the
  limit is refused with nothing but the four bytes of the prefix taken from the stream; and
  when the stream ends inside a frame, the reader reports a truncation, or a clean close
  when not one byte of the frame arrived.
\<close>

theorem hostile_frames_refused:
  assumes "clean src"
  shows "(4 \<le> length (flat src) \<and> MAX_MESSAGE_BYTES < from_le_bytes (take 4 (flat src)) \<longrightarrow>
      (\<exists>src'. read_message dec src = (Err (TooLarge (from_le_bytes (take 4 (flat src))) MAX_MESSAGE_BYTES), src')
         \<and> flat src' = drop 4 (flat src)))
    \<and> (flat src = take k (to_le_bytes (length body) @ body) \<and> k < 4 + length body \<and> length body \<le> MAX_MESSAGE_BYTES
        \<longrightarrow> (\<exists>src'. read_message dec src =
             (Err (if k = 0 then CodecClosed else if k < 4 then Truncated k 4
                   else Truncated (k - 4) (length body)), src')))"
proof (intro conjI impI)
  from read_exact_clean [OF assms, of 4 "[]"] obtain src1 where
    r1: "read_exact src 4 [] = (Ok (take 4 (flat src)), src1)" "clean src1" "flat src1 = drop 4 (flat src)"
    by auto
  show "\<exists>src'. read_message dec src = (Err (TooLarge (from_le_bytes (take 4 (flat src))) MAX_MESSAGE_BYTES), src')
         \<and> flat src' = drop 4 (flat src)"
    if "4 \<le> length (flat src) \<and> MAX_MESSAGE_BYTES < from_le_bytes (take 4 (flat src))"
    using that r1 by (auto simp: read_message_def LENGTH_PREFIX_BYTES_def min_def Let_def)
  assume cut: "flat src = take k (to_le_bytes (length body) @ body) \<and> k < 4 + length body \<and> length body \<le> MAX_MESSAGE_BYTES"
  then have len: "from_le_bytes (to_le_bytes (length body)) = length body"
    by (intro from_to_le_bytes small_length) simp
  show "\<exists>src'. read_message dec src =
             (Err (if k = 0 then CodecClosed else if k < 4 then Truncated k 4
                   else Truncated (k - 4) (length body)), src')"
  proof (cases "k < 4")
    case True
    then have k: "length (flat src) = k" using cut by simp
    with True have "read_exact src 4 [] = (Ok (flat src), src1)" using r1(1) by simp
    with True k show ?thesis by (auto simp: read_message_def LENGTH_PREFIX_BYTES_def)
  next
    case False
    then have prefix: "take 4 (flat src) = to_le_bytes (length body)" and tail: "flat src1 = take (k - 4) body"
      using cut r1(3) by (simp_all add: min_def drop_take)
    have short: "k - 4 < length body" using conjunct1 [OF conjunct2 [OF cut]] False by linarith
    then have whole: "take (length body) (take (k - 4) body) = take (k - 4) body" by (simp add: min_def)
    from read_exact_clean [OF r1(2), of "length body" "[]"] obtain src2 where
      r2: "read_exact src1 (length body) [] = (Ok (take (k - 4) body), src2)"
      unfolding tail whole by auto
    with short False cut r1(1) r2 show ?thesis
      by (simp add: read_message_def LENGTH_PREFIX_BYTES_def prefix len)
  qed
qed

theorem hostile_frames_refused_witness:
  "\<exists>src'. read_message Some [Bytes [255, 255], Bytes [255, 255, 1]] =
     (Err (TooLarge 4294967295 MAX_MESSAGE_BYTES), src') \<and> flat src' = [1]"
  using hostile_frames_refused [of "[Bytes [255, 255], Bytes [255, 255, 1]]" Some]
  by (simp add: clean_def MAX_MESSAGE_BYTES_def)

end
