(* ===== verification/Compositor.thy ===== *)
theory Compositor
  imports Surface Codec
begin

text \<open>
  The compositor (\<open>platform/compositor/src/server.rs\<close>, with \<open>wire.rs\<close>,
  \<open>present.rs\<close>, \<open>sleep.rs\<close> and \<open>stopped.rs\<close>): connections, the handshake, frames
  reassembled from non-blocking reads, attach and commit, what the panel shows, and the lock
  screen. What the outside does is an argument: the record \<open>compositor_env\<close> holds the
  panel's size, whether the panel accepts the n-th picture, and the two JSON decoders, and
  each iteration is given what \<open>poll\<close> found ready and what every read returned. A step
  returns the new state and, in order, the events, the pictures drawn and the releases sent.
  The lemmas show the server's invariant, that serving one client leaves the others alone,
  that nothing is drawn while locked, and three ways in which the two-buffer cycle or the
  foreground gets stuck.
\<close>

section \<open>Messages\<close>

datatype client_role = RoleHome | RoleApp

record client_hello =
  hl_role :: client_role
  hl_label :: string
  hl_pool :: shm_pool_descriptor

datatype client_request = RequestAttach buffer_slot | RequestCommit damage

section \<open>State\<close>

text \<open>\<open>reader\<close> holds the bytes of \<open>FrameReader\<close> that no complete frame has taken yet.\<close>

record client =
  cl_role :: client_role
  cl_label :: string
  cl_surface :: surface
  cl_pool :: pool
  cl_buf :: "u8 list"

datatype foreground = FgNone | FgClient nat | FgStopped string

text \<open>
  Pending connections by descriptor, with the time they were accepted; clients by id. The
  counter of pictures drawn is the index into the panel's answers.
\<close>

record compositor =
  cp_pending :: "(nat \<times> instant) list"
  cp_clients :: "nat \<Rightarrow> client option"
  cp_home :: "nat option"
  cp_foreground :: foreground
  cp_next_id :: nat
  cp_locked :: bool
  cp_draws :: nat

definition compositor_bind :: compositor where
  "compositor_bind = \<lparr>cp_pending = [], cp_clients = (\<lambda>_. None), cp_home = None,
     cp_foreground = FgNone, cp_next_id = 0, cp_locked = False, cp_draws = 0\<rparr>"

record compositor_env =
  env_panel_size :: size
  env_draw :: "nat \<Rightarrow> bool"
  env_hello :: "u8 list \<Rightarrow> client_hello option"
  env_request :: "u8 list \<Rightarrow> client_request option"

datatype compositor_event =
    ClientConnected nat client_role string
  | ClientDisconnected "nat option" "string option"
  | FramePresented nat
  | ForegroundStopped string
  | ForegroundHome nat
  | EvLocked
  | EvUnlocked

datatype picture = LockFrame | StoppedFrame string | ClientFrame nat buffer_slot

datatype comp_out = Event compositor_event | Drawn picture bool | Notified nat buffer_slot

text \<open>Outputs of an earlier part of a step go before those of the rest.\<close>

definition append_out :: "comp_out list \<Rightarrow> compositor \<times> comp_out list \<Rightarrow> compositor \<times> comp_out list" where
  "append_out out r = (fst r, out @ snd r)"

lemma append_out_simps [simp]: "fst (append_out out r) = fst r" "snd (append_out out r) = out @ snd r"
  by (simp_all add: append_out_def)

definition foreground_client :: "compositor \<Rightarrow> nat option" where
  "foreground_client c = (case cp_foreground c of FgClient i \<Rightarrow> Some i | _ \<Rightarrow> None)"

definition put_client :: "compositor \<Rightarrow> nat \<Rightarrow> client \<Rightarrow> compositor" where
  "put_client c i cl = c\<lparr>cp_clients := (cp_clients c)(i := Some cl)\<rparr>"

section \<open>Framing\<close>

definition take_frame :: "u8 list \<Rightarrow> (codec_error, (u8 list \<times> u8 list) option) result" where
  "take_frame buf =
     (if length buf < LENGTH_PREFIX_BYTES then Ok None
      else
        let len = from_le_bytes (take LENGTH_PREFIX_BYTES buf)
        in if MAX_MESSAGE_BYTES < len then Err (TooLarge len MAX_MESSAGE_BYTES)
           else if length buf < LENGTH_PREFIX_BYTES + len then Ok None
           else Ok (Some (take len (drop LENGTH_PREFIX_BYTES buf), drop (LENGTH_PREFIX_BYTES + len) buf)))"

datatype handshake_error = HelloTruncated | HelloMalformed codec_error | HelloNoFd | HelloPool pool_error

definition decode_hello :: "(u8 list \<Rightarrow> client_hello option) \<Rightarrow> u8 list \<Rightarrow> (handshake_error, client_hello \<times> nat) result" where
  "decode_hello dec body =
     (if length body < LENGTH_PREFIX_BYTES then Err HelloTruncated
      else
        let len = from_le_bytes (take LENGTH_PREFIX_BYTES body);
            frame_end = LENGTH_PREFIX_BYTES + len
        in if length body < frame_end then Err HelloTruncated
           else and_then (map_err HelloMalformed (decode dec (take len (drop LENGTH_PREFIX_BYTES body))))
                  (\<lambda>hello. Ok (hello, frame_end)))"

section \<open>The panel\<close>

definition draw :: "compositor_env \<Rightarrow> compositor \<Rightarrow> compositor \<times> bool" where
  "draw env c = (c\<lparr>cp_draws := Suc (cp_draws c)\<rparr>, env_draw env (cp_draws c))"

text \<open>\<open>let _ = client.surface.release(slot)\<close>: a refused release is ignored.\<close>

definition release_slot :: "compositor \<Rightarrow> nat \<Rightarrow> buffer_slot \<Rightarrow> compositor" where
  "release_slot c i slot = (case cp_clients c i of
     None \<Rightarrow> c
   | Some cl \<Rightarrow> (case release (cl_surface cl) slot of
       Inl _ \<Rightarrow> c
     | Inr s \<Rightarrow> put_client c i (cl\<lparr>cl_surface := s\<rparr>)))"

definition present_foreground :: "compositor_env \<Rightarrow> compositor \<Rightarrow> compositor \<times> comp_out list" where
  "present_foreground env c = (case foreground_client c of
     None \<Rightarrow> (c, [])
   | Some i \<Rightarrow> (case cp_clients c i of
       None \<Rightarrow> (c, [])
     | Some cl \<Rightarrow> (case sf_current (cl_surface cl) of
         None \<Rightarrow> (c, [])
       | Some committed \<Rightarrow>
           (let slot = cm_buffer committed
            in if cp_locked c then (release_slot c i slot, [Notified i slot])
               else if extent (pool_buffer (p_descriptor (cl_pool cl))) \<noteq> env_panel_size env then (c, [])
               else
                 let (c1, ok) = draw env c
                 in if ok
                    then (release_slot c1 i slot,
                          [Drawn (ClientFrame i slot) True, Event (FramePresented i), Notified i slot])
                    else (c1, [Drawn (ClientFrame i slot) False])))))"

section \<open>Clients\<close>

definition disconnect :: "compositor_env \<Rightarrow> compositor \<Rightarrow> nat \<Rightarrow> compositor \<times> comp_out list" where
  "disconnect env c i = (case cp_clients c i of
     None \<Rightarrow> (c, [])
   | Some cl \<Rightarrow>
       (let c1 = c\<lparr>cp_clients := (cp_clients c)(i := None),
                   cp_home := (if cp_home c = Some i then None else cp_home c)\<rparr>;
            label = cl_label cl;
            gone = [Event (ClientDisconnected (Some i) (Some label))]
        in if cp_foreground c1 \<noteq> FgClient i then (c1, gone)
           else
             let (c2, stopped) =
                   (if cp_locked c1 then (c1, [Event (ForegroundStopped label)])
                    else
                      let (c', ok) = draw env c1
                      in (c', Drawn (StoppedFrame label) ok # (if ok then [Event (ForegroundStopped label)] else [])));
                 c3 = c2\<lparr>cp_foreground := FgStopped label\<rparr>
             in (case cp_home c3 of
                   None \<Rightarrow> (c3, gone @ stopped)
                 | Some h \<Rightarrow>
                     (let (c4, shown) = present_foreground env (c3\<lparr>cp_foreground := FgClient h\<rparr>)
                      in (c4, gone @ stopped @ [Event (ForegroundHome h)] @ shown)))))"

definition handle_request :: "compositor_env \<Rightarrow> compositor \<Rightarrow> nat \<Rightarrow> client_request \<Rightarrow> compositor \<times> comp_out list" where
  "handle_request env c i request = (case cp_clients c i of
     None \<Rightarrow> (c, [])
   | Some cl \<Rightarrow> (case request of
       RequestAttach slot \<Rightarrow> (case attach (cl_surface cl) slot of
         Inl _ \<Rightarrow> disconnect env c i
       | Inr s \<Rightarrow> (put_client c i (cl\<lparr>cl_surface := s\<rparr>), []))
     | RequestCommit damage \<Rightarrow> (case commit (cl_surface cl) damage of
         Inl _ \<Rightarrow> disconnect env c i
       | Inr (s, _) \<Rightarrow>
           (let c1 = put_client c i (cl\<lparr>cl_surface := s\<rparr>)
            in if foreground_client c1 = Some i then present_foreground env c1 else (c1, [])))))"

text \<open>What presenting a frame can change of a client is which buffers it holds as presenting.\<close>

definition client_view :: "client \<Rightarrow> client" where
  "client_view cl = cl\<lparr>cl_surface := (cl_surface cl)\<lparr>sf_slots :=
     (\<lambda>slot. if sf_slots (cl_surface cl) slot = Presenting then Free else sf_slots (cl_surface cl) slot)\<rparr>\<rparr>"

definition views :: "compositor \<Rightarrow> nat \<Rightarrow> client option" where
  "views c j = map_option client_view (cp_clients c j)"

lemma client_view_buf [simp]: "cl_buf (client_view cl) = cl_buf cl"
  by (simp add: client_view_def)

lemma views_draws [simp]: "views (c\<lparr>cp_draws := n\<rparr>) = views c"
  by (simp add: views_def fun_eq_iff)

lemma views_foreground [simp]: "views (c\<lparr>cp_foreground := f\<rparr>) = views c"
  by (simp add: views_def fun_eq_iff)

lemma views_put [simp]: "views (put_client c i cl) = (views c)(i := Some (client_view cl))"
  by (simp add: views_def put_client_def fun_eq_iff)

lemma views_release_slot [simp]: "views (release_slot c i slot) = views c"
proof (cases "cp_clients c i")
  case (Some cl)
  have "client_view (cl\<lparr>cl_surface := s\<rparr>) = client_view cl" if "release (cl_surface cl) slot = Ok s" for s
    using that by (auto simp: release_Ok client_view_def fun_eq_iff)
  with Some show ?thesis
    by (auto simp: release_slot_def views_def fun_eq_iff put_client_def split: sum.splits)
qed (simp add: release_slot_def)

lemma views_present [simp]: "views (fst (present_foreground env c)) = views c"
  by (simp add: present_foreground_def draw_def Let_def split: option.splits)

lemma views_disconnect: "views (fst (disconnect env c i)) = (views c)(i := None)"
proof (cases "cp_clients c i")
  case None
  then show ?thesis by (simp add: disconnect_def views_def fun_eq_iff)
next
  case (Some cl)
  have "views (c\<lparr>cp_clients := (cp_clients c)(i := None), cp_home := h\<rparr>) = (views c)(i := None)" for h
    by (simp add: views_def fun_eq_iff)
  with Some show ?thesis
    by (simp add: disconnect_def draw_def Let_def case_prod_beta split: option.splits)
qed

lemma views_handle_request:
  "cp_clients c i = Some cl \<Longrightarrow> \<exists>v. views (fst (handle_request env c i r)) = (views c)(i := v)
     \<and> (\<forall>w. v = Some w \<longrightarrow> cl_buf w = cl_buf cl)"
  by (cases r)
    (auto simp: handle_request_def views_disconnect Let_def split: sum.splits intro: exI [of _ None])

lemma handle_request_buf:
  "cp_clients (fst (handle_request env c i r)) i = Some cl' \<Longrightarrow>
     \<exists>cl. cp_clients c i = Some cl \<and> cl_buf cl' = cl_buf cl"
proof -
  assume after: "cp_clients (fst (handle_request env c i r)) i = Some cl'"
  show ?thesis
  proof (cases "cp_clients c i")
    case None
    with after show ?thesis by (simp add: handle_request_def)
  next
    case (Some cl)
    from views_handle_request [OF this] obtain v where
      v: "views (fst (handle_request env c i r)) = (views c)(i := v)" "\<And>w. v = Some w \<Longrightarrow> cl_buf w = cl_buf cl"
      by blast
    from fun_cong [OF v(1), of i] after have "v = Some (client_view cl')" by (simp add: views_def)
    with v(2) Some show ?thesis by force
  qed
qed

lemma take_frame_shorter: "take_frame buf = Ok (Some (body, rest)) \<Longrightarrow> length rest < length buf"
  by (auto simp: take_frame_def Let_def LENGTH_PREFIX_BYTES_def split: if_splits)

text \<open>
  Every complete frame already buffered is handled before the next read; the buffer gets
  shorter with each, so the loop ends.
\<close>

function drain_client_frames :: "compositor_env \<Rightarrow> compositor \<Rightarrow> nat \<Rightarrow> compositor \<times> comp_out list" where
  "drain_client_frames env c i = (case cp_clients c i of
     None \<Rightarrow> (c, [])
   | Some cl \<Rightarrow> (case take_frame (cl_buf cl) of
       Inl _ \<Rightarrow> disconnect env c i
     | Inr None \<Rightarrow> (c, [])
     | Inr (Some (body, rest)) \<Rightarrow>
         (let c1 = put_client c i (cl\<lparr>cl_buf := rest\<rparr>)
          in case decode (env_request env) body of
               Inl _ \<Rightarrow> disconnect env c1 i
             | Inr request \<Rightarrow>
                 append_out (snd (handle_request env c1 i request))
                   (drain_client_frames env (fst (handle_request env c1 i request)) i))))"
  by pat_completeness auto

definition owed :: "compositor \<Rightarrow> nat \<Rightarrow> nat" where
  "owed c i = (case cp_clients c i of None \<Rightarrow> 0 | Some cl \<Rightarrow> Suc (length (cl_buf cl)))"

lemma owed_handle_request:
  assumes "cp_clients c i = Some cl" and "take_frame (cl_buf cl) = Ok (Some (body, rest))"
  shows "owed (fst (handle_request env (put_client c i (cl\<lparr>cl_buf := rest\<rparr>)) i r)) i < owed c i"
proof -
  let ?c = "fst (handle_request env (put_client c i (cl\<lparr>cl_buf := rest\<rparr>)) i r)"
  have "length (cl_buf cl') = length rest" if "cp_clients ?c i = Some cl'" for cl'
    using handle_request_buf [OF that] by (auto simp: put_client_def)
  with assms take_frame_shorter [OF assms(2)] show ?thesis
    by (auto simp: owed_def split: option.splits)
qed

termination drain_client_frames
  by (relation "measure (\<lambda>(env, c, i). owed c i)") (auto intro: owed_handle_request)

declare drain_client_frames.simps [simp del]

section \<open>Connections\<close>

datatype read_result = ReadWouldBlock | ReadError | GotBytes "u8 list"

definition service_client :: "compositor_env \<Rightarrow> compositor \<Rightarrow> nat \<Rightarrow> read_result \<Rightarrow> compositor \<times> comp_out list" where
  "service_client env c i r = (case cp_clients c i of
     None \<Rightarrow> (c, [])
   | Some cl \<Rightarrow> (case r of
       ReadWouldBlock \<Rightarrow> (c, [])
     | ReadError \<Rightarrow> disconnect env c i
     | GotBytes bs \<Rightarrow>
         (if bs = [] then disconnect env c i
          else drain_client_frames env (put_client c i (cl\<lparr>cl_buf := cl_buf cl @ bs\<rparr>)) i)))"

text \<open>A received file: its size if \<open>fstat\<close> gives one, and whether mapping it succeeds.\<close>

record passed_file =
  pf_size :: "nat option"
  pf_mapped :: bool

definition open_pool :: "client_hello \<Rightarrow> passed_file option \<Rightarrow> (handshake_error, pool) result" where
  "open_pool hello file = and_then (ok_or HelloNoFd file) (\<lambda>f.
     map_err HelloPool (pool_from_file (hl_pool hello) (pf_size f) (pf_mapped f)))"

text \<open>The state after a hello is accepted: the next id, an empty surface, the bytes after the hello.\<close>

definition register_client :: "compositor \<Rightarrow> client_hello \<Rightarrow> pool \<Rightarrow> u8 list \<Rightarrow> compositor" where
  "register_client c hello pool rest =
     (let i = cp_next_id c;
          c1 = put_client (c\<lparr>cp_next_id := Suc i\<rparr>) i
            \<lparr>cl_role = hl_role hello, cl_label = hl_label hello, cl_surface = surface_new (hl_pool hello),
             cl_pool = pool, cl_buf = rest\<rparr>;
          c2 = (if hl_role hello = RoleHome then c1\<lparr>cp_home := Some i\<rparr> else c1)
      in if cp_foreground c2 = FgNone \<or> hl_role hello = RoleApp
         then c2\<lparr>cp_foreground := FgClient i\<rparr> else c2)"

definition finish_handshake :: "compositor_env \<Rightarrow> compositor \<Rightarrow> u8 list \<Rightarrow> passed_file option \<Rightarrow> compositor \<times> comp_out list" where
  "finish_handshake env c body file =
     (case and_then (decode_hello (env_hello env) body) (\<lambda>(hello, consumed).
             and_then (open_pool hello file) (\<lambda>pool. Ok (hello, pool, consumed))) of
        Inl _ \<Rightarrow> (c, [Event (ClientDisconnected None None)])
      | Inr (hello, pool, consumed) \<Rightarrow>
          append_out [Event (ClientConnected (cp_next_id c) (hl_role hello) (hl_label hello))]
            (drain_client_frames env (register_client c hello pool (drop consumed body)) (cp_next_id c)))"

datatype recv_result = RecvWouldBlock | RecvError | Received "u8 list" "passed_file option"

definition service_pending :: "compositor_env \<Rightarrow> compositor \<Rightarrow> nat \<Rightarrow> recv_result \<Rightarrow> compositor \<times> comp_out list" where
  "service_pending env c fd r = (case map_of (cp_pending c) fd of
     None \<Rightarrow> (c, [])
   | Some connected_at \<Rightarrow>
       (let c1 = c\<lparr>cp_pending := filter (\<lambda>(d, _). d \<noteq> fd) (cp_pending c)\<rparr>
        in case r of
             RecvWouldBlock \<Rightarrow> (c1\<lparr>cp_pending := (fd, connected_at) # cp_pending c1\<rparr>, [])
           | RecvError \<Rightarrow> (c1, [Event (ClientDisconnected None None)])
           | Received body file \<Rightarrow>
               (if body = [] then (c1, [Event (ClientDisconnected None None)])
                else finish_handshake env c1 body file)))"

text \<open>The descriptors \<open>accept\<close> returned before it would block, and whether each could be made non-blocking.\<close>

fun accept_all :: "compositor \<Rightarrow> instant \<Rightarrow> (nat \<times> bool) list \<Rightarrow> compositor" where
  "accept_all c now [] = c"
| "accept_all c now ((fd, ok) # rest) =
     accept_all (if ok then c\<lparr>cp_pending := (fd, now) # filter (\<lambda>(d, _). d \<noteq> fd) (cp_pending c)\<rparr> else c) now rest"

definition HELLO_DEADLINE :: duration where
  "HELLO_DEADLINE = from_secs 2"

definition reap_expired_pending :: "compositor \<Rightarrow> instant \<Rightarrow> compositor \<times> comp_out list" where
  "reap_expired_pending c now =
     (let expired = (\<lambda>(_, connected_at). HELLO_DEADLINE \<le> now - connected_at)
      in (c\<lparr>cp_pending := filter (\<lambda>p. \<not> expired p) (cp_pending c)\<rparr>,
          map (\<lambda>_. Event (ClientDisconnected None None)) (filter expired (cp_pending c))))"

section \<open>Iterations\<close>

datatype poll_target =
    ListenerReady "(nat \<times> bool) list"
  | PendingReady nat recv_result
  | ClientReady nat read_result

fun serve :: "compositor_env \<Rightarrow> instant \<Rightarrow> compositor \<Rightarrow> poll_target \<Rightarrow> compositor \<times> comp_out list" where
  "serve env now c (ListenerReady accepted) = (accept_all c now accepted, [])"
| "serve env now c (PendingReady fd r) = service_pending env c fd r"
| "serve env now c (ClientReady i r) = service_client env c i r"

text \<open>\<open>ready\<close>: what \<open>poll\<close> reported, in the order it is served, \<open>None\<close> when \<open>poll\<close> failed.\<close>

definition run_once :: "compositor_env \<Rightarrow> compositor \<Rightarrow> instant \<Rightarrow> poll_target list option \<Rightarrow> compositor \<times> comp_out list" where
  "run_once env c now ready = (case ready of
     None \<Rightarrow> (c, [])
   | Some targets \<Rightarrow>
       (let (c1, out) = run (serve env now) c targets;
            (c2, reaped) = reap_expired_pending c1 now
        in (c2, out @ reaped)))"

definition lock_screen :: "compositor_env \<Rightarrow> compositor \<Rightarrow> compositor \<times> comp_out list" where
  "lock_screen env c =
     (if cp_locked c then (c, [])
      else
        let (c1, ok) = draw env c
        in if ok then (c1\<lparr>cp_locked := True\<rparr>, [Drawn LockFrame True, Event EvLocked])
           else (c1, [Drawn LockFrame False]))"

definition wake :: "compositor_env \<Rightarrow> compositor \<Rightarrow> compositor \<times> comp_out list" where
  "wake env c =
     (if \<not> cp_locked c then (c, [])
      else
        let c1 = c\<lparr>cp_locked := False\<rparr>
        in append_out [Event EvUnlocked]
          (case cp_foreground c1 of
             FgClient _ \<Rightarrow> present_foreground env c1
           | FgStopped label \<Rightarrow> (let (c2, ok) = draw env c1 in (c2, [Drawn (StoppedFrame label) ok]))
           | FgNone \<Rightarrow> (c1, [])))"

text \<open>The compositor as one machine: an iteration, or a call to sleep or wake.\<close>

datatype comp_call = RunOnce instant "poll_target list option" | SleepCall | WakeCall

fun comp_step :: "compositor_env \<Rightarrow> compositor \<Rightarrow> comp_call \<Rightarrow> compositor \<times> comp_out list" where
  "comp_step env c (RunOnce now ready) = run_once env c now ready"
| "comp_step env c SleepCall = lock_screen env c"
| "comp_step env c WakeCall = wake env c"

section \<open>What a server promises\<close>

text \<open>
  A condition on the state that survives every part of an iteration, and what the outputs
  may then be: the interface between one request and a whole run.
\<close>

locale served =
  fixes env :: compositor_env
    and inv :: "compositor \<Rightarrow> bool"
    and allowed :: "comp_out \<Rightarrow> bool"
  assumes feed: "inv c \<Longrightarrow> cp_clients c i = Some cl \<Longrightarrow> inv (put_client c i (cl\<lparr>cl_buf := b\<rparr>))"
    and pending: "inv c \<Longrightarrow> inv (c\<lparr>cp_pending := p\<rparr>)"
    and request: "inv c \<Longrightarrow> cp_clients c i = Some cl \<Longrightarrow> inv (fst (handle_request env c i r))"
    and request_out: "inv c \<Longrightarrow> cp_clients c i = Some cl \<Longrightarrow>
      list_all allowed (snd (handle_request env c i r))"
    and drop: "inv c \<Longrightarrow> cp_clients c i = Some cl \<Longrightarrow> inv (fst (disconnect env c i))"
    and drop_out: "inv c \<Longrightarrow> cp_clients c i = Some cl \<Longrightarrow> list_all allowed (snd (disconnect env c i))"
    and connect: "inv c \<Longrightarrow> env_hello env b = Some hello \<Longrightarrow> open_pool hello file = Ok pool \<Longrightarrow>
      inv (register_client c hello pool rest)"
    and connect_out: "allowed (Event (ClientConnected i role label))" "allowed (Event (ClientDisconnected None None))"
begin

lemma drained: "inv c \<Longrightarrow> inv (fst (drain_client_frames env c i)) \<and>
    list_all allowed (snd (drain_client_frames env c i))"
proof (induction "owed c i" arbitrary: c rule: less_induct)
  case (less c)
  note unfold = drain_client_frames.simps [of env c i]
  show ?case
  proof (cases "cp_clients c i")
    case None
    with less.prems show ?thesis by (simp add: unfold)
  next
    case (Some cl)
    show ?thesis
    proof (cases "take_frame (cl_buf cl)")
      case (Inl e)
      with Some drop [OF less.prems Some] drop_out [OF less.prems Some] show ?thesis by (simp add: unfold)
    next
      case (Inr frame)
      show ?thesis
      proof (cases frame)
        case None
        with Inr Some less.prems show ?thesis by (simp add: unfold)
      next
        case (Some p)
        obtain body rest where p: "p = (body, rest)" by (cases p)
        note cl = \<open>cp_clients c i = Some cl\<close>
        let ?c = "put_client c i (cl\<lparr>cl_buf := rest\<rparr>)"
        have here: "cp_clients ?c i = Some (cl\<lparr>cl_buf := rest\<rparr>)" by (simp add: put_client_def)
        have inv: "inv ?c" using feed [OF less.prems cl] .
        have tf: "take_frame (cl_buf cl) = Ok (Some (body, rest))" using Inr Some p by simp
        show ?thesis
        proof (cases "decode (env_request env) body")
          case (Inl e)
          with tf cl drop [OF inv here] drop_out [OF inv here] show ?thesis by (simp add: unfold Let_def)
        next
          case (Inr r)
          from less.hyps [OF owed_handle_request [OF cl tf] request [OF inv here]] request_out [OF inv here]
          have "inv (fst (drain_client_frames env (fst (handle_request env ?c i r)) i)) \<and>
            list_all allowed (snd (drain_client_frames env (fst (handle_request env ?c i r)) i)) \<and>
            list_all allowed (snd (handle_request env ?c i r))" by blast
          with Inr tf cl show ?thesis by (auto simp: unfold Let_def)
        qed
      qed
    qed
  qed
qed

lemma handshaken: "inv c \<Longrightarrow> inv (fst (finish_handshake env c body file)) \<and>
    list_all allowed (snd (finish_handshake env c body file))"
proof -
  assume inv: "inv c"
  show ?thesis
  proof (cases "and_then (decode_hello (env_hello env) body) (\<lambda>(hello, consumed).
             and_then (open_pool hello file) (\<lambda>pool. Ok (hello, pool, consumed)))")
    case (Inl e)
    with inv connect_out show ?thesis by (simp add: finish_handshake_def)
  next
    case (Inr t)
    then obtain hello pool consumed where t: "t = (hello, pool, consumed)"
      "decode_hello (env_hello env) body = Ok (hello, consumed)" "open_pool hello file = Ok pool"
      by (auto simp: and_then_Ok_iff)
    from t(2) obtain b where "env_hello env b = Some hello"
      by (auto simp: decode_hello_def decode_def Let_def and_then_Ok_iff split: if_splits)
    from drained [OF connect [OF inv this t(3)]] connect_out Inr t show ?thesis
      by (auto simp: finish_handshake_def)
  qed
qed

lemma accepted: "inv c \<Longrightarrow> inv (accept_all c now fds)"
  by (induction c now fds rule: accept_all.induct) (simp_all add: pending)

lemma served_one: "inv c \<Longrightarrow> inv (fst (serve env now c t)) \<and> list_all allowed (snd (serve env now c t))"
proof (cases t)
  case (PendingReady fd r)
  assume "inv c"
  with PendingReady show ?thesis using handshaken [OF pending]
    by (auto simp: service_pending_def Let_def pending connect_out split: option.splits recv_result.splits)
next
  case (ClientReady i r)
  assume inv: "inv c"
  with ClientReady drop [OF inv] drop_out [OF inv] drained [OF feed [OF inv]] show ?thesis
    by (auto simp: service_client_def split: option.splits read_result.splits)
qed (simp add: accepted)

sublocale served: guarded_machine "serve env now" inv allowed for now
  by unfold_locales (use served_one in \<open>auto simp: list_all_iff\<close>)

lemma served_all: "inv c \<Longrightarrow> list_all allowed (snd (run (serve env now) c ts))"
  using served.run_allowed [of c] by (auto simp: list_all_iff)

lemma iterated: "inv c \<Longrightarrow> inv (fst (run_once env c now ready)) \<and>
    list_all allowed (snd (run_once env c now ready))"
  using served.run_inv [of c now] served_all [of c]
  by (auto simp: run_once_def reap_expired_pending_def Let_def pending connect_out case_prod_beta list.pred_map
      comp_def list.pred_True split: option.splits)

end

text \<open>The same with the two calls that lock and unlock: every run of the compositor.\<close>

locale compositor_law = served +
  assumes sleep: "inv c \<Longrightarrow> inv (fst (lock_screen env c))"
    and sleep_out: "inv c \<Longrightarrow> list_all allowed (snd (lock_screen env c))"
    and wake: "inv c \<Longrightarrow> inv (fst (wake env c))"
    and wake_out: "inv c \<Longrightarrow> list_all allowed (snd (wake env c))"
begin

lemma stepped: "inv c \<Longrightarrow> inv (fst (comp_step env c e)) \<and> list_all allowed (snd (comp_step env c e))"
  by (cases e) (auto simp: iterated sleep sleep_out wake wake_out)

sublocale machine: guarded_machine "comp_step env" inv allowed
  by unfold_locales (use stepped in \<open>auto simp: list_all_iff\<close>)

end

section \<open>The invariant\<close>

text \<open>A client's buffers are in one cycle, and its surface and mapping are those of one descriptor.\<close>

definition client_ok :: "client \<Rightarrow> bool" where
  "client_ok cl \<longleftrightarrow> surface_inv (cl_surface cl)
     \<and> sf_extent (cl_surface cl) = extent (pool_buffer (p_descriptor (cl_pool cl)))
     \<and> pool_bytes (p_descriptor (cl_pool cl)) = Some (p_len (cl_pool cl))
     \<and> 0 < p_len (cl_pool cl) \<and> p_len (cl_pool cl) \<le> MAX_POOL_BYTES"

definition comp_inv :: "compositor \<Rightarrow> bool" where
  "comp_inv c \<longleftrightarrow>
     (\<forall>i cl. cp_clients c i = Some cl \<longrightarrow> i < cp_next_id c \<and> client_ok cl)
   \<and> (\<forall>h. cp_home c = Some h \<longrightarrow> (\<exists>cl. cp_clients c h = Some cl \<and> cl_role cl = RoleHome))
   \<and> (\<forall>i. cp_foreground c = FgClient i \<longrightarrow> cp_clients c i \<noteq> None)
   \<and> (cp_foreground c = FgNone \<longrightarrow> cp_clients c = (\<lambda>_. None))"

lemma comp_inv_bind [simp]: "comp_inv compositor_bind"
  by (simp add: comp_inv_def compositor_bind_def)

lemma client_ok_buf [simp]: "client_ok (cl\<lparr>cl_buf := b\<rparr>) = client_ok cl"
  by (simp add: client_ok_def)

lemma client_ok_attach: "client_ok cl \<Longrightarrow> attach (cl_surface cl) slot = Ok s \<Longrightarrow> client_ok (cl\<lparr>cl_surface := s\<rparr>)"
  using attach_inv by (auto simp: client_ok_def attach_Ok)

lemma client_ok_commit: "client_ok cl \<Longrightarrow> commit (cl_surface cl) d = Ok (s, slot) \<Longrightarrow> client_ok (cl\<lparr>cl_surface := s\<rparr>)"
  using commit_inv by (auto simp: client_ok_def commit_Ok)

lemma client_ok_release: "client_ok cl \<Longrightarrow> release (cl_surface cl) slot = Ok s \<Longrightarrow> client_ok (cl\<lparr>cl_surface := s\<rparr>)"
  using release_inv by (auto simp: client_ok_def release_Ok)

lemma client_ok_new:
  "open_pool hello file = Ok pool \<Longrightarrow>
     client_ok \<lparr>cl_role = r, cl_label = l, cl_surface = surface_new (hl_pool hello), cl_pool = pool, cl_buf = b\<rparr>"
  by (auto simp: client_ok_def open_pool_def pool_from_file_def and_then_Ok_iff split: if_splits)

lemma comp_inv_put:
  assumes "comp_inv c" and "cp_clients c i = Some cl" and "client_ok cl'" and "cl_role cl' = cl_role cl"
  shows "comp_inv (put_client c i cl')"
  using assms by (auto simp: comp_inv_def put_client_def)

lemma comp_inv_release_slot: "comp_inv c \<Longrightarrow> comp_inv (release_slot c i slot)"
proof (cases "cp_clients c i")
  case (Some cl)
  assume inv: "comp_inv c"
  with Some have "client_ok cl" by (auto simp: comp_inv_def)
  from client_ok_release [OF this] comp_inv_put [OF inv Some] Some inv show ?thesis
    by (auto simp: release_slot_def split: sum.splits)
qed (simp add: release_slot_def)

lemma comp_inv_simps [simp]:
  "comp_inv (c\<lparr>cp_draws := n\<rparr>) = comp_inv c"
  "comp_inv (c\<lparr>cp_pending := p\<rparr>) = comp_inv c"
  "comp_inv (c\<lparr>cp_locked := b\<rparr>) = comp_inv c"
  by (simp_all add: comp_inv_def)

lemma comp_inv_present: "comp_inv c \<Longrightarrow> comp_inv (fst (present_foreground env c))"
  by (auto simp: present_foreground_def draw_def Let_def comp_inv_release_slot split: option.splits)

lemma comp_inv_disconnect:
  assumes "comp_inv c" and "cp_clients c i = Some cl"
  shows "comp_inv (fst (disconnect env c i))"
proof -
  define c1 where "c1 = c\<lparr>cp_clients := (cp_clients c)(i := None),
                   cp_home := (if cp_home c = Some i then None else cp_home c)\<rparr>"
  have named: "comp_inv c1" if "cp_foreground c \<noteq> FgClient i"
    using assms that by (auto simp: comp_inv_def c1_def)
  have stopped: "comp_inv (c1\<lparr>cp_foreground := FgStopped l\<rparr>)" "comp_inv (c1\<lparr>cp_draws := n, cp_foreground := FgStopped l\<rparr>)" for l n
    using assms by (auto simp: comp_inv_def c1_def)
  have home: "comp_inv (c1\<lparr>cp_foreground := FgClient h\<rparr>)" "comp_inv (c1\<lparr>cp_draws := n, cp_foreground := FgClient h\<rparr>)"
    if "cp_home c1 = Some h" for h n
    using assms that by (auto simp: comp_inv_def c1_def split: if_splits)
  have fg: "cp_foreground c1 = cp_foreground c" by (simp add: c1_def)
  show ?thesis
    using named stopped home comp_inv_present
    unfolding disconnect_def assms(2) c1_def [symmetric]
    by (auto simp: draw_def Let_def case_prod_beta c1_def [symmetric] fg split: option.splits)
qed

lemma comp_inv_request:
  assumes inv: "comp_inv c" and cl: "cp_clients c i = Some cl"
  shows "comp_inv (fst (handle_request env c i r))"
proof -
  have ok: "client_ok cl" using inv cl by (auto simp: comp_inv_def)
  show ?thesis
  proof (cases r)
    case (RequestAttach slot)
    with cl comp_inv_disconnect [OF inv cl] comp_inv_put [OF inv cl client_ok_attach [OF ok]] show ?thesis
      by (auto simp: handle_request_def split: sum.splits)
  next
    case (RequestCommit d)
    have "comp_inv (put_client c i (cl\<lparr>cl_surface := s\<rparr>))" if "commit (cl_surface cl) d = Ok (s, slot)" for s slot
      using comp_inv_put [OF inv cl client_ok_commit [OF ok that]] by simp
    with RequestCommit cl comp_inv_disconnect [OF inv cl] comp_inv_present show ?thesis
      by (auto simp: handle_request_def Let_def split: sum.splits)
  qed
qed

lemma comp_inv_register:
  assumes "comp_inv c" and "open_pool hello file = Ok pool"
  shows "comp_inv (register_client c hello pool rest)"
proof -
  have fresh: "cp_clients c (cp_next_id c) = None"
    using assms(1) by (cases "cp_clients c (cp_next_id c)") (auto simp: comp_inv_def)
  with assms(1) client_ok_new [OF assms(2)] show ?thesis
    by (cases "hl_role hello") (auto simp: comp_inv_def register_client_def put_client_def Let_def less_Suc_eq)
qed

interpretation laws: compositor_law env comp_inv "\<lambda>_. True" for env
proof unfold_locales
  fix c i cl b assume "comp_inv c" "cp_clients c i = Some cl"
  then show "comp_inv (put_client c i (cl\<lparr>cl_buf := b\<rparr>))"
    by (intro comp_inv_put) (auto simp: comp_inv_def)
qed (auto simp: comp_inv_request comp_inv_disconnect comp_inv_register lock_screen_def wake_def draw_def Let_def
      comp_inv_present list.pred_True split: foreground.splits)

section \<open>Serving one client\<close>

text \<open>What serving client \<open>i\<close> may change: that client, and the buffers of Home when it takes over.\<close>

definition apart :: "nat \<Rightarrow> compositor \<Rightarrow> compositor \<Rightarrow> bool" where
  "apart i c c' \<longleftrightarrow> cp_pending c' = cp_pending c \<and> cp_next_id c' = cp_next_id c \<and> cp_locked c' = cp_locked c
     \<and> (cp_home c' = cp_home c \<or> cp_home c = Some i \<and> cp_home c' = None)
     \<and> (\<forall>j. j \<noteq> i \<longrightarrow> views c' j = views c j \<and> (cp_home c \<noteq> Some j \<longrightarrow> cp_clients c' j = cp_clients c j))"

fun out_client :: "comp_out \<Rightarrow> nat option" where
  "out_client (Notified k _) = Some k"
| "out_client (Drawn (ClientFrame k _) _) = Some k"
| "out_client (Event (FramePresented k)) = Some k"
| "out_client (Event (ClientDisconnected k _)) = k"
| "out_client (Event (ForegroundHome k)) = Some k"
| "out_client _ = None"

definition about :: "nat \<Rightarrow> compositor \<Rightarrow> comp_out list \<Rightarrow> bool" where
  "about i c out \<longleftrightarrow> (\<forall>a\<in>set out. \<forall>k. out_client a = Some k \<longrightarrow> k = i \<or> cp_home c = Some k)"

lemma apart_refl [simp]: "apart i c c"
  by (simp add: apart_def)

lemma apart_trans: "apart i c d \<Longrightarrow> apart i d e \<Longrightarrow> apart i c e"
  by (auto simp: apart_def)

lemma about_trans: "apart i c d \<Longrightarrow> about i d out \<Longrightarrow> about i c out"
  by (auto simp: apart_def about_def)

lemma about_simps [simp]:
  "about i c []"
  "about i c (a # out) \<longleftrightarrow> (\<forall>k. out_client a = Some k \<longrightarrow> k = i \<or> cp_home c = Some k) \<and> about i c out"
  "about i c (out @ out') \<longleftrightarrow> about i c out \<and> about i c out'"
  by (auto simp: about_def)

lemma apart_put [simp]: "apart i c (put_client c i cl)"
  by (simp add: apart_def) (simp add: put_client_def)

lemma release_slot_keeps [simp]:
  "cp_pending (release_slot c k slot) = cp_pending c" "cp_next_id (release_slot c k slot) = cp_next_id c"
  "cp_locked (release_slot c k slot) = cp_locked c" "cp_home (release_slot c k slot) = cp_home c"
  "cp_foreground (release_slot c k slot) = cp_foreground c"
  "j \<noteq> k \<Longrightarrow> cp_clients (release_slot c k slot) j = cp_clients c j"
  by (simp_all add: release_slot_def put_client_def split: option.splits sum.splits)

lemma present_apart:
  assumes "\<And>k. foreground_client c = Some k \<Longrightarrow> k = i \<or> cp_home c = Some k"
  shows "apart i c (fst (present_foreground env c)) \<and> about i c (snd (present_foreground env c))"
proof (cases "foreground_client c")
  case None
  then show ?thesis by (simp add: present_foreground_def about_def)
next
  case (Some k)
  with assms have k: "k = i \<or> cp_home c = Some k" by blast
  have "apart i c (release_slot (c\<lparr>cp_draws := n\<rparr>) k slot)" "apart i c (release_slot c k slot)"
    "apart i c (c\<lparr>cp_draws := n\<rparr>)" for n slot
    using k by (auto simp: apart_def)
  with Some k show ?thesis
    by (auto simp: present_foreground_def draw_def about_def Let_def split: option.splits)
qed

lemma disconnect_apart: "apart i c (fst (disconnect env c i)) \<and> about i c (snd (disconnect env c i))"
proof (cases "cp_clients c i")
  case None
  then show ?thesis by (simp add: disconnect_def about_def)
next
  case (Some cl)
  define c1 where "c1 = c\<lparr>cp_clients := (cp_clients c)(i := None),
                   cp_home := (if cp_home c = Some i then None else cp_home c)\<rparr>"
  have a1: "apart i c (c1\<lparr>cp_foreground := f\<rparr>)" "apart i c (c1\<lparr>cp_draws := n, cp_foreground := f\<rparr>)" "apart i c c1" for f n
    by (auto simp: apart_def c1_def views_def)
  have home: "h = i \<or> cp_home c = Some h" if "cp_home c1 = Some h" for h
    using that by (simp add: c1_def split: if_splits)
  have p: "apart i c (fst (present_foreground env d)) \<and> about i c (snd (present_foreground env d))"
    if "apart i c d" "cp_home d = Some h" "cp_foreground d = FgClient h" for d h
  proof -
    have "apart i d (fst (present_foreground env d)) \<and> about i d (snd (present_foreground env d))"
      using that by (intro present_apart) (auto simp: foreground_client_def)
    with that(1) show ?thesis using apart_trans about_trans by blast
  qed
  have p1: "apart i c (fst (present_foreground env (c1\<lparr>cp_foreground := FgClient h\<rparr>)))"
    "about i c (snd (present_foreground env (c1\<lparr>cp_foreground := FgClient h\<rparr>)))"
    "apart i c (fst (present_foreground env (c1\<lparr>cp_draws := n, cp_foreground := FgClient h\<rparr>)))"
    "about i c (snd (present_foreground env (c1\<lparr>cp_draws := n, cp_foreground := FgClient h\<rparr>)))"
    if "cp_home c1 = Some h" for h n
    using p [OF a1(1) [of "FgClient h"]] p [OF a1(2) [where n = n and f = "FgClient h"]] that by simp_all
  have "about i c (if ok then [Event (ForegroundStopped l)] else [])" for ok l by simp
  with Some a1 p1 home show ?thesis unfolding disconnect_def c1_def [symmetric]
    by (auto simp: draw_def Let_def case_prod_beta c1_def [symmetric] split: option.splits)
qed

lemma request_apart: "apart i c (fst (handle_request env c i r)) \<and> about i c (snd (handle_request env c i r))"
proof -
  have p: "apart i c (fst (present_foreground env (put_client c i cl)))
      \<and> about i c (snd (present_foreground env (put_client c i cl)))"
    if "foreground_client (put_client c i cl) = Some i" for cl
    using present_apart [of "put_client c i cl" i env] that apart_trans [OF apart_put] about_trans [OF apart_put]
    by auto
  show ?thesis
    by (auto simp: handle_request_def disconnect_apart p Let_def
        split: option.splits client_request.splits sum.splits)
qed

lemma drain_apart: "apart i c (fst (drain_client_frames env c i)) \<and> about i c (snd (drain_client_frames env c i))"
proof (induction "owed c i" arbitrary: c rule: less_induct)
  case (less c)
  have IH: "apart i c (fst (drain_client_frames env (fst (handle_request env c1 i r)) i)) \<and>
      about i c (snd (handle_request env c1 i r) @ snd (drain_client_frames env (fst (handle_request env c1 i r)) i))"
    if "cp_clients c i = Some cl" "take_frame (cl_buf cl) = Ok (Some (body, rest))"
      "c1 = put_client c i (cl\<lparr>cl_buf := rest\<rparr>)" for cl body rest c1 r
  proof -
    let ?c2 = "fst (handle_request env c1 i r)"
    from that have lt: "owed ?c2 i < owed c i" by (simp add: owed_handle_request)
    have a: "apart i c c1" using that(3) by simp
    then have "apart i c ?c2" "about i c (snd (handle_request env c1 i r))"
      using request_apart [of i c1 env r] apart_trans [OF a] about_trans [OF a] by blast+
    with less.hyps [OF lt] show ?thesis using apart_trans about_trans by (auto simp: about_simps)
  qed
  have d: "apart i c (fst (disconnect env (put_client c i cl) i))" "about i c (snd (disconnect env (put_client c i cl) i))" for cl
    using disconnect_apart [of i "put_client c i cl" env] apart_trans [OF apart_put] about_trans [OF apart_put] by blast+
  show ?case using IH
    by (subst (1 2) drain_client_frames.simps) (auto simp: disconnect_apart d Let_def split: option.splits sum.splits)
qed

section \<open>Who has the panel\<close>

text \<open>A client in the background: nothing but its own entry, and at most the news that it is gone.\<close>

definition backstage :: "nat \<Rightarrow> compositor \<Rightarrow> compositor \<Rightarrow> comp_out list \<Rightarrow> bool" where
  "backstage i c c' out \<longleftrightarrow> cp_foreground c' = cp_foreground c \<and> cp_draws c' = cp_draws c
     \<and> (\<forall>j. j \<noteq> i \<longrightarrow> cp_clients c' j = cp_clients c j)
     \<and> (\<forall>a\<in>set out. \<exists>l. a = Event (ClientDisconnected (Some i) (Some l)))"

lemma backstage_refl [simp]: "backstage i c c []"
  by (simp add: backstage_def)

lemma backstage_put [simp]: "backstage i c (put_client c i cl) []"
  by (simp add: backstage_def put_client_def)

lemma backstage_trans: "backstage i c d out \<Longrightarrow> backstage i d e out' \<Longrightarrow> backstage i c e (out @ out')"
  by (auto simp: backstage_def)

lemma backstage_disconnect:
  "cp_foreground c \<noteq> FgClient i \<Longrightarrow> backstage i c (fst (disconnect env c i)) (snd (disconnect env c i))"
  by (simp add: disconnect_def backstage_def Let_def split: option.splits)

lemma put_client_keeps [simp]:
  "cp_locked (put_client c i cl) = cp_locked c" "cp_foreground (put_client c i cl) = cp_foreground c"
  "cp_home (put_client c i cl) = cp_home c" "cp_next_id (put_client c i cl) = cp_next_id c"
  "cp_draws (put_client c i cl) = cp_draws c"
  "cp_clients (put_client c i cl) = (cp_clients c)(i := Some cl)"
  by (simp_all add: put_client_def)

lemma backstage_request:
  assumes "cp_foreground c \<noteq> FgClient i"
  shows "backstage i c (fst (handle_request env c i r)) (snd (handle_request env c i r))"
proof -
  have "foreground_client (put_client c i cl) \<noteq> Some i" for cl
    using assms by (auto simp: foreground_client_def split: foreground.split)
  with backstage_disconnect [OF assms] show ?thesis
    by (auto simp: handle_request_def Let_def split: option.splits client_request.splits sum.splits)
qed

lemma backstage_drain:
  "cp_foreground c \<noteq> FgClient i \<Longrightarrow> backstage i c (fst (drain_client_frames env c i)) (snd (drain_client_frames env c i))"
proof (induction "owed c i" arbitrary: c rule: less_induct)
  case (less c)
  have IH: "backstage i c (fst (drain_client_frames env (fst (handle_request env c1 i r)) i))
      (snd (handle_request env c1 i r) @ snd (drain_client_frames env (fst (handle_request env c1 i r)) i))"
    if "cp_clients c i = Some cl" "take_frame (cl_buf cl) = Ok (Some (body, rest))"
      "c1 = put_client c i (cl\<lparr>cl_buf := rest\<rparr>)" for cl body rest c1 r
  proof -
    let ?c2 = "fst (handle_request env c1 i r)"
    from that have lt: "owed ?c2 i < owed c i" by (simp add: owed_handle_request)
    have fg: "cp_foreground c1 \<noteq> FgClient i" using that(3) less.prems by simp
    note step = backstage_trans [OF backstage_put backstage_request [OF fg [unfolded that(3)]], of env r, simplified, folded that(3)]
    then have "cp_foreground ?c2 \<noteq> FgClient i" using less.prems by (simp add: backstage_def)
    from backstage_trans [OF step less.hyps [OF lt this]] show ?thesis .
  qed
  have d: "backstage i c (fst (disconnect env (put_client c i cl) i)) (snd (disconnect env (put_client c i cl) i))" for cl
    using backstage_trans [OF backstage_put backstage_disconnect, of c i cl env] less.prems by simp
  show ?case using IH backstage_disconnect [OF less.prems]
    by (subst (1 2) drain_client_frames.simps) (auto simp: d Let_def split: option.splits sum.splits)
qed

text \<open>A client on the panel keeps it while it is connected; after that Home has it, or the label of the one that stopped.\<close>

definition heir :: "nat \<Rightarrow> string \<Rightarrow> compositor \<Rightarrow> foreground" where
  "heir i l c = (case cp_home c of None \<Rightarrow> FgStopped l | Some h \<Rightarrow> if h = i then FgStopped l else FgClient h)"

fun stopped_label :: "comp_out \<Rightarrow> string option" where
  "stopped_label (Drawn (StoppedFrame l) _) = Some l"
| "stopped_label (Event (ForegroundStopped l)) = Some l"
| "stopped_label _ = None"

definition onstage :: "nat \<Rightarrow> string \<Rightarrow> compositor \<Rightarrow> bool" where
  "onstage i l c \<longleftrightarrow> cp_foreground c = FgClient i \<and> (\<exists>cl. cp_clients c i = Some cl \<and> cl_label cl = l)"

definition succeeded :: "nat \<Rightarrow> string \<Rightarrow> compositor \<Rightarrow> compositor \<Rightarrow> comp_out list \<Rightarrow> bool" where
  "succeeded i l c c' out \<longleftrightarrow> cp_foreground c' = (if cp_clients c' i \<noteq> None then FgClient i else heir i l c)
     \<and> (cp_clients c' i \<noteq> None \<longrightarrow> onstage i l c' \<and> cp_home c' = cp_home c)
     \<and> (\<forall>a\<in>set out. \<forall>m. stopped_label a = Some m \<longrightarrow> m = l)"

lemma succeeded_refl: "onstage i l c \<Longrightarrow> succeeded i l c c []"
  by (auto simp: succeeded_def onstage_def)

lemma succeeded_trans: "onstage i l d \<Longrightarrow> cp_home d = cp_home c \<Longrightarrow> (\<forall>a\<in>set out. \<forall>m. stopped_label a = Some m \<longrightarrow> m = l) \<Longrightarrow>
    succeeded i l d e out' \<Longrightarrow> succeeded i l c e (out @ out')"
  by (auto simp: succeeded_def heir_def)

lemma present_stage: "cp_foreground (fst (present_foreground env c)) = cp_foreground c"
  "cp_home (fst (present_foreground env c)) = cp_home c"
  "map_option cl_label (cp_clients (fst (present_foreground env c)) j) = map_option cl_label (cp_clients c j)"
  "a \<in> set (snd (present_foreground env c)) \<Longrightarrow> stopped_label a = None"
proof -
  have r: "map_option cl_label (cp_clients (release_slot d i slot) j) = map_option cl_label (cp_clients d j)" for d i slot
    by (auto simp: release_slot_def put_client_def split: option.splits sum.splits)
  show "cp_foreground (fst (present_foreground env c)) = cp_foreground c" "cp_home (fst (present_foreground env c)) = cp_home c"
    "map_option cl_label (cp_clients (fst (present_foreground env c)) j) = map_option cl_label (cp_clients c j)"
    "a \<in> set (snd (present_foreground env c)) \<Longrightarrow> stopped_label a = None"
    by (auto simp: present_foreground_def draw_def Let_def r split: option.splits if_splits)
qed

lemma succeeded_disconnect:
  assumes "onstage i l c"
  shows "succeeded i l c (fst (disconnect env c i)) (snd (disconnect env c i))"
proof -
  from assms obtain cl where cl: "cp_clients c i = Some cl" "cl_label cl = l" and fg: "cp_foreground c = FgClient i"
    by (auto simp: onstage_def)
  have gone: "cp_clients (fst (disconnect env c i)) i = None"
    using fun_cong [OF views_disconnect [of env c i], of i] by (simp add: views_def)
  have "cp_foreground (fst (disconnect env c i)) = heir i l c"
    using cl fg by (auto simp: disconnect_def draw_def heir_def Let_def case_prod_beta present_stage split: option.splits)
  moreover have "stopped_label a = Some m \<Longrightarrow> a \<in> set (snd (disconnect env c i)) \<Longrightarrow> m = l" for a m
    using cl fg
    by (auto simp: disconnect_def draw_def Let_def case_prod_beta dest: present_stage(4) split: option.splits if_splits)
  ultimately show ?thesis using gone by (auto simp: succeeded_def)
qed

lemma succeeded_request:
  assumes "onstage i l c"
  shows "succeeded i l c (fst (handle_request env c i r)) (snd (handle_request env c i r))"
proof -
  from assms obtain cl where cl: "cp_clients c i = Some cl" "cl_label cl = l" and fg: "cp_foreground c = FgClient i"
    by (auto simp: onstage_def)
  have keep: "succeeded i l c (put_client c i (cl\<lparr>cl_surface := s\<rparr>)) []" for s
    using cl fg by (simp add: succeeded_def onstage_def)
  have show': "succeeded i l c (fst (present_foreground env (put_client c i (cl\<lparr>cl_surface := s\<rparr>))))
      (snd (present_foreground env (put_client c i (cl\<lparr>cl_surface := s\<rparr>))))" for s
  proof -
    let ?d = "put_client c i (cl\<lparr>cl_surface := s\<rparr>)"
    from present_stage(3) [of env ?d i] cl obtain cl' where "cp_clients (fst (present_foreground env ?d)) i = Some cl'" "cl_label cl' = l"
      by auto
    then show ?thesis using fg by (auto simp: succeeded_def onstage_def present_stage dest: present_stage(4))
  qed
  have "foreground_client (put_client c i (cl\<lparr>cl_surface := s\<rparr>)) = Some i" for s
    using fg by (simp add: foreground_client_def)
  with cl keep show' succeeded_disconnect [OF assms] show ?thesis
    by (auto simp: handle_request_def Let_def split: client_request.splits sum.splits)
qed

lemma succeeded_drain:
  "onstage i l c \<Longrightarrow> succeeded i l c (fst (drain_client_frames env c i)) (snd (drain_client_frames env c i))"
proof (induction "owed c i" arbitrary: c rule: less_induct)
  case (less c)
  obtain cl where cl: "cp_clients c i = Some cl" using less.prems by (auto simp: onstage_def)
  have put: "onstage i l (put_client c i (cl\<lparr>cl_buf := b\<rparr>))" for b
    using less.prems cl by (auto simp: onstage_def)
  have IH: "succeeded i l c (fst (drain_client_frames env (fst (handle_request env c1 i r)) i))
      (snd (handle_request env c1 i r) @ snd (drain_client_frames env (fst (handle_request env c1 i r)) i))"
    if tf: "take_frame (cl_buf cl) = Ok (Some (body, rest))" and c1: "c1 = put_client c i (cl\<lparr>cl_buf := rest\<rparr>)" for body rest c1 r
  proof -
    let ?c2 = "fst (handle_request env c1 i r)"
    have s: "succeeded i l c1 ?c2 (snd (handle_request env c1 i r))" unfolding c1 by (rule succeeded_request [OF put])
    have h: "cp_home c1 = cp_home c" by (simp add: c1)
    show ?thesis
    proof (cases "cp_clients ?c2 i")
      case None
      then have "drain_client_frames env ?c2 i = (?c2, [])" by (simp add: drain_client_frames.simps)
      with s h None show ?thesis by (auto simp: succeeded_def heir_def)
    next
      case (Some cl2)
      with s have on: "onstage i l ?c2" "cp_home ?c2 = cp_home c" using h by (auto simp: succeeded_def)
      have lt: "owed ?c2 i < owed c i" using owed_handle_request [OF cl tf] by (simp add: c1)
      from s show ?thesis by (intro succeeded_trans [OF on _ less.hyps [OF lt on(1)]]) (simp add: succeeded_def)
    qed
  qed
  have d: "succeeded i l c (fst (disconnect env (put_client c i (cl\<lparr>cl_buf := b\<rparr>)) i))
      (snd (disconnect env (put_client c i (cl\<lparr>cl_buf := b\<rparr>)) i))" for b
    using succeeded_trans [OF put _ _ succeeded_disconnect [OF put], where out = "[]"] by simp
  show ?case using IH succeeded_disconnect [OF less.prems] succeeded_refl [OF less.prems] cl d
    by (subst (1 2) drain_client_frames.simps) (auto simp: Let_def split: option.splits sum.splits)
qed

section \<open>Locked\<close>

fun silent :: "comp_out \<Rightarrow> bool" where
  "silent (Drawn _ _) = False"
| "silent _ = True"

lemma present_locked:
  "cp_locked c \<Longrightarrow> cp_locked (fst (present_foreground env c)) \<and> list_all silent (snd (present_foreground env c))"
  by (auto simp: present_foreground_def Let_def split: option.splits)

lemma disconnect_locked:
  "cp_locked c \<Longrightarrow> cp_locked (fst (disconnect env c i)) \<and> list_all silent (snd (disconnect env c i))"
  using present_locked by (auto simp: disconnect_def Let_def case_prod_beta split: option.splits)

lemma request_locked:
  "cp_locked c \<Longrightarrow> cp_locked (fst (handle_request env c i r)) \<and> list_all silent (snd (handle_request env c i r))"
  using present_locked disconnect_locked
  by (auto simp: handle_request_def Let_def split: option.splits client_request.splits sum.splits)

interpretation asleep: served env cp_locked silent for env
  by unfold_locales
    (use request_locked disconnect_locked in \<open>auto simp: register_client_def Let_def\<close>)

lemma asleep_run:
  "cp_locked c \<Longrightarrow> WakeCall \<notin> set calls \<Longrightarrow>
     cp_locked (fst (run (comp_step env) c calls)) \<and> list_all silent (snd (run (comp_step env) c calls))"
proof (induction calls arbitrary: c)
  case (Cons e calls)
  then have e: "cp_locked (fst (comp_step env c e)) \<and> list_all silent (snd (comp_step env c e))"
    using asleep.iterated [of c] by (cases e) (simp_all add: lock_screen_def)
  with Cons.IH [of "fst (comp_step env c e)"] Cons.prems show ?case by auto
qed simp

section \<open>Superseded buffers\<close>

text \<open>A buffer still presenting although a later commit of the other buffer took its place.\<close>

definition superseded_in :: "buffer_slot \<Rightarrow> surface \<Rightarrow> bool" where
  "superseded_in slot s \<longleftrightarrow> sf_slots s slot = Presenting \<and> sf_pending s \<noteq> Some slot
     \<and> (\<exists>cm. sf_current s = Some cm \<and> cm_buffer cm \<noteq> slot)"

definition superseded :: "nat \<Rightarrow> buffer_slot \<Rightarrow> compositor \<Rightarrow> bool" where
  "superseded k slot c \<longleftrightarrow> k < cp_next_id c
     \<and> (\<forall>cl. cp_clients c k = Some cl \<longrightarrow> superseded_in slot (cl_surface cl))"

lemma superseded_keeps [simp]:
  "superseded k slot (c\<lparr>cp_draws := n\<rparr>) = superseded k slot c"
  "superseded k slot (c\<lparr>cp_pending := p\<rparr>) = superseded k slot c"
  "superseded k slot (c\<lparr>cp_locked := b\<rparr>) = superseded k slot c"
  "superseded k slot (c\<lparr>cp_foreground := f\<rparr>) = superseded k slot c"
  by (simp_all add: superseded_def)

lemma superseded_release:
  assumes "superseded k slot c"
    and "\<And>cl cm. cp_clients c i = Some cl \<Longrightarrow> sf_current (cl_surface cl) = Some cm \<Longrightarrow> cm_buffer cm = slot'"
  shows "superseded k slot (release_slot c i slot')"
  using assms unfolding superseded_def release_slot_def
  by (auto simp: superseded_in_def release_Ok split: option.splits sum.splits)

lemma superseded_present:
  assumes "superseded k slot c"
  shows "superseded k slot (fst (present_foreground env c))
    \<and> list_all (\<lambda>a. a \<noteq> Notified k slot) (snd (present_foreground env c))"
proof (cases "foreground_client c")
  case (Some i)
  show ?thesis
  proof (cases "\<exists>cl cm. cp_clients c i = Some cl \<and> sf_current (cl_surface cl) = Some cm")
    case True
    then obtain cl cm where cl: "cp_clients c i = Some cl" "sf_current (cl_surface cl) = Some cm" by blast
    have rel: "superseded k slot (release_slot (c\<lparr>cp_draws := n\<rparr>) i (cm_buffer cm))"
        "superseded k slot (release_slot c i (cm_buffer cm))" for n
      using assms cl by (auto intro!: superseded_release)
    have "i \<noteq> k \<or> cm_buffer cm \<noteq> slot" using assms cl by (auto simp: superseded_def superseded_in_def)
    with Some cl assms rel show ?thesis by (auto simp: present_foreground_def draw_def Let_def)
  next
    case False
    with Some assms show ?thesis by (auto simp: present_foreground_def split: option.splits)
  qed
qed (simp add: present_foreground_def assms)

lemma superseded_disconnect:
  assumes "superseded k slot c"
  shows "superseded k slot (fst (disconnect env c i)) \<and> list_all (\<lambda>a. a \<noteq> Notified k slot) (snd (disconnect env c i))"
proof (cases "cp_clients c i")
  case (Some cl)
  have "superseded k slot (c\<lparr>cp_clients := (cp_clients c)(i := None), cp_home := h\<rparr>)" for h
    using assms by (simp add: superseded_def)
  with Some superseded_present show ?thesis
    by (auto simp: disconnect_def draw_def Let_def case_prod_beta split: option.splits)
qed (simp add: disconnect_def assms)

lemma superseded_request:
  assumes "superseded k slot c"
  shows "superseded k slot (fst (handle_request env c i r))
    \<and> list_all (\<lambda>a. a \<noteq> Notified k slot) (snd (handle_request env c i r))"
proof -
  have att: "superseded k slot (put_client c i (cl\<lparr>cl_surface := s\<rparr>))"
    if "cp_clients c i = Some cl" "attach (cl_surface cl) slot' = Ok s" for cl s slot'
    using assms that
    by (auto simp: superseded_def superseded_in_def attach_Ok split: option.splits)
  have com: "superseded k slot (put_client c i (cl\<lparr>cl_surface := s\<rparr>))"
    if "cp_clients c i = Some cl" "commit (cl_surface cl) d = Ok (s, slot')" for cl s slot' d
    using assms that by (auto simp: superseded_def superseded_in_def commit_Ok)
  show ?thesis
    using superseded_disconnect [OF assms] superseded_present [OF com] com att assms
    by (auto simp: handle_request_def Let_def split: option.splits client_request.splits sum.splits)
qed

lemma superseded_register: "superseded k slot c \<Longrightarrow> superseded k slot (register_client c hello pool rest)"
  by (auto simp: superseded_def register_client_def Let_def)

lemma superseded_feed:
  "superseded k slot c \<Longrightarrow> cp_clients c i = Some cl \<Longrightarrow> superseded k slot (put_client c i (cl\<lparr>cl_buf := b\<rparr>))"
  by (auto simp: superseded_def)

interpretation stuck: compositor_law env "superseded k slot" "\<lambda>a. a \<noteq> Notified k slot" for env k slot
  by unfold_locales (use superseded_request superseded_disconnect superseded_present superseded_register superseded_feed in
    \<open>auto simp: lock_screen_def wake_def draw_def Let_def split: foreground.splits\<close>)

section \<open>A stopped panel\<close>

text \<open>The same environment when only Home programs connect: a hello that says App is not accepted.\<close>

definition no_apps :: "compositor_env \<Rightarrow> compositor_env" where
  "no_apps env = env\<lparr>env_hello := (\<lambda>b. case env_hello env b of
     Some h \<Rightarrow> if hl_role h = RoleHome then Some h else None | None \<Rightarrow> None)\<rparr>"

fun shows_client :: "comp_out \<Rightarrow> bool" where
  "shows_client (Drawn (ClientFrame _ _) _) = True"
| "shows_client (Event (FramePresented _)) = True"
| "shows_client _ = False"

definition clientless :: "comp_out \<Rightarrow> bool" where
  "clientless a \<longleftrightarrow> \<not> shows_client a"

lemma clientless_simps [simp]:
  "clientless (Notified k slot)" "clientless (Drawn LockFrame ok)" "clientless (Drawn (StoppedFrame l) ok)"
  "clientless (Event (ClientConnected k r l))" "clientless (Event (ClientDisconnected k' l'))"
  "clientless (Event EvLocked)" "clientless (Event EvUnlocked)"
  by (simp_all add: clientless_def)

definition panel_stopped :: "string \<Rightarrow> compositor \<Rightarrow> bool" where
  "panel_stopped l c \<longleftrightarrow> cp_foreground c = FgStopped l"

lemma stopped_disconnect:
  "panel_stopped l c \<Longrightarrow> panel_stopped l (fst (disconnect env c i)) \<and> list_all clientless (snd (disconnect env c i))"
  by (simp add: disconnect_def panel_stopped_def Let_def split: option.splits)

lemma stopped_request:
  "panel_stopped l c \<Longrightarrow> panel_stopped l (fst (handle_request env c i r)) \<and> list_all clientless (snd (handle_request env c i r))"
  using stopped_disconnect [of l c]
  by (simp add: handle_request_def panel_stopped_def foreground_client_def Let_def
      split: option.splits client_request.splits sum.splits)

lemma stopped_connect:
  "panel_stopped l c \<Longrightarrow> env_hello (no_apps env) b = Some hello \<Longrightarrow> panel_stopped l (register_client c hello pool rest)"
  by (auto simp: panel_stopped_def no_apps_def register_client_def Let_def split: option.splits if_splits)

lemma stopped_keeps [simp]:
  "panel_stopped l (put_client c i cl) = panel_stopped l c"
  "panel_stopped l (c\<lparr>cp_pending := p\<rparr>) = panel_stopped l c"
  by (simp_all add: panel_stopped_def)

lemma stopped_sleep_wake:
  assumes "panel_stopped l c"
  shows "panel_stopped l (fst (lock_screen env c))" "list_all clientless (snd (lock_screen env c))"
    "panel_stopped l (fst (wake env c))" "list_all clientless (snd (wake env c))"
  using assms by (simp_all add: panel_stopped_def lock_screen_def wake_def draw_def Let_def)

interpretation homes: compositor_law "no_apps env" "panel_stopped l" clientless for env l
  by unfold_locales
    (simp_all add: stopped_request stopped_disconnect stopped_connect stopped_sleep_wake)

lemma only_homes: "(\<And>b h. env_hello env b = Some h \<Longrightarrow> hl_role h = RoleHome) \<Longrightarrow> no_apps env = env"
proof -
  assume h: "\<And>b h. env_hello env b = Some h \<Longrightarrow> hl_role h = RoleHome"
  have "(\<lambda>b. case env_hello env b of Some h \<Rightarrow> if hl_role h = RoleHome then Some h else None | None \<Rightarrow> None)
      = env_hello env" using h by (auto simp: fun_eq_iff split: option.splits)
  then show ?thesis by (simp add: no_apps_def)
qed

section \<open>Properties\<close>

text \<open>A 2 by 2 panel and one-byte messages, for the examples.\<close>

definition sample_pool :: shm_pool_descriptor where
  "sample_pool = \<lparr>pool_buffer = packed \<lparr>width = 2, height = 2\<rparr> Argb8888\<rparr>"

fun sample_hello :: "u8 list \<Rightarrow> client_hello option" where
  "sample_hello [b] = Some (if b = 0 then \<lparr>hl_role = RoleHome, hl_label = ''home'', hl_pool = sample_pool\<rparr>
     else \<lparr>hl_role = RoleApp, hl_label = ''app'', hl_pool = sample_pool\<rparr>)"
| "sample_hello _ = None"

fun sample_request :: "u8 list \<Rightarrow> client_request option" where
  "sample_request [b] = (if b = 0 then Some (RequestAttach SlotA) else if b = 1 then Some (RequestAttach SlotB)
     else if b = 2 then Some (RequestCommit Full) else None)"
| "sample_request _ = None"

definition sample_env :: compositor_env where
  "sample_env = \<lparr>env_panel_size = \<lparr>width = 2, height = 2\<rparr>, env_draw = (\<lambda>_. True),
     env_hello = sample_hello, env_request = sample_request\<rparr>"

definition frame1 :: "u8 \<Rightarrow> u8 list" where
  "frame1 b = [1, 0, 0, 0, b]"

definition arrive :: "nat \<Rightarrow> comp_call" where
  "arrive fd = RunOnce 0 (Some [ListenerReady [(fd, True)]])"

definition greet :: "nat \<Rightarrow> u8 \<Rightarrow> u8 list \<Rightarrow> comp_call" where
  "greet fd role rest = RunOnce 0 (Some [PendingReady fd (Received (frame1 role @ rest) (Some \<lparr>pf_size = Some 32, pf_mapped = True\<rparr>))])"

definition sends :: "nat \<Rightarrow> u8 list \<Rightarrow> comp_call" where
  "sends i bs = RunOnce 0 (Some [ClientReady i (GotBytes bs)])"

lemmas compositor_eval = sample_env_def sample_pool_def frame1_def arrive_def greet_def sends_def compositor_bind_def
  run.simps run_once_def service_pending_def service_client_def finish_handshake_def decode_hello_def
  open_pool_def pool_from_file_def pool_bytes_def slot_bytes_def surface_bytes_def size_is_empty_def packed_def
  register_client_def put_client_def drain_client_frames.simps take_frame_def LENGTH_PREFIX_BYTES_def decode_def
  MAX_MESSAGE_BYTES_def MAX_POOL_BYTES_def handle_request_def disconnect_def present_foreground_def
  foreground_client_def release_slot_def reap_expired_pending_def HELLO_DEADLINE_def from_secs_def
  lock_screen_def wake_def draw_def append_out_def surface_new_def attach_def commit_def release_def
  set_slot_state_def validate_damage_def Let_def

definition sample_client :: client where
  "sample_client = \<lparr>cl_role = RoleHome, cl_label = ''home'',
     cl_surface = \<lparr>sf_extent = \<lparr>width = 2, height = 2\<rparr>, sf_slots = (\<lambda>_. Free), sf_pending = None,
        sf_current = Some \<lparr>cm_buffer = SlotA, cm_damage = Full\<rparr>\<rparr>,
     cl_pool = \<lparr>p_descriptor = sample_pool, p_len = 32\<rparr>, cl_buf = []\<rparr>"

lemma home_showing:
  "run (comp_step sample_env) compositor_bind [arrive 5, greet 5 0 (frame1 0 @ frame1 2)]
   = (\<lparr>cp_pending = [], cp_clients = (\<lambda>_. None)(0 := Some sample_client),
        cp_home = Some 0, cp_foreground = FgClient 0, cp_next_id = 1, cp_locked = False, cp_draws = 1\<rparr>,
      [Event (ClientConnected 0 RoleHome ''home''), Drawn (ClientFrame 0 SlotA) True,
       Event (FramePresented 0), Notified 0 SlotA])"
  by (simp add: compositor_eval sample_client_def fun_upd_idem)

text \<open>
  C22. The compositor's own invariant, over every run: whatever connects, sends, dies or is
  locked, the foreground names a connected client and Home is a connected client that
  registered as Home; every client's attached buffer is the pending one, at most one of its
  two; and its mapping holds its two buffers side by side, within the pool limit.
\<close>

theorem compositor_stays_consistent:
  assumes "c = fst (run (comp_step env) compositor_bind calls)"
  shows "(foreground_client c = Some i \<longrightarrow> cp_clients c i \<noteq> None)
    \<and> (cp_home c = Some i \<longrightarrow> (\<exists>cl. cp_clients c i = Some cl \<and> cl_role cl = RoleHome))
    \<and> (cp_clients c i = Some cl \<longrightarrow> i < cp_next_id c
        \<and> (sf_slots (cl_surface cl) slot = Attached \<longleftrightarrow> sf_pending (cl_surface cl) = Some slot)
        \<and> (\<exists>n. slot_range (cl_pool cl) SlotA = Some (0, n) \<and> slot_range (cl_pool cl) SlotB = Some (n, n)
              \<and> 0 < n \<and> n + n = p_len (cl_pool cl) \<and> n + n \<le> MAX_POOL_BYTES))"
proof -
  have inv: "comp_inv c" unfolding assms by (rule laws.machine.run_inv) simp
  have pool: "\<exists>n. slot_range p SlotA = Some (0, n) \<and> slot_range p SlotB = Some (n, n)
      \<and> 0 < n \<and> n + n = p_len p \<and> n + n \<le> MAX_POOL_BYTES"
    if "pool_bytes (p_descriptor p) = Some (p_len p)" "0 < p_len p" "p_len p \<le> MAX_POOL_BYTES" for p
    using that by (auto simp: pool_bytes_def slot_range_def slot_offset_def split: option.splits if_splits)
  show ?thesis
    using inv pool by (auto simp: comp_inv_def client_ok_def surface_inv_def foreground_client_def split: foreground.splits)
qed

theorem compositor_stays_consistent_witness:
  "\<exists>n. slot_range (cl_pool sample_client) SlotA = Some (0, n) \<and> slot_range (cl_pool sample_client) SlotB = Some (n, n)
     \<and> 0 < n \<and> n + n = p_len (cl_pool sample_client) \<and> n + n \<le> MAX_POOL_BYTES"
  using compositor_stays_consistent [OF refl, where env = sample_env and i = 0 and cl = sample_client and
      calls = "[arrive 5, greet 5 0 (frame1 0 @ frame1 2)]"]
  by (simp add: home_showing)

text \<open>
  C23. Serving one client leaves the others alone, and the panel with whom it was. Whatever a
  client sends, and however its connection ends, every other client keeps its entry exactly as
  it was, except that Home, when it takes over the panel, may get a presented buffer back; the
  connections still waiting are untouched, and every picture, release or event names that
  client or Home. A client in the background draws nothing and takes the panel from nobody:
  all it can cause is the news that it is gone. A client on the panel keeps it as long as it
  is connected; when it goes, Home has it, or else a stopped frame with its own label.
\<close>

theorem clients_are_isolated:
  assumes "service_client env c i r = (c', out)" and "j \<noteq> i"
  shows "cp_pending c' = cp_pending c
    \<and> (if cp_home c = Some j then map_option client_view (cp_clients c' j) = map_option client_view (cp_clients c j)
       else cp_clients c' j = cp_clients c j)
    \<and> (a \<in> set out \<and> out_client a = Some k \<longrightarrow> k = i \<or> cp_home c = Some k)
    \<and> (cp_foreground c \<noteq> FgClient i \<longrightarrow> cp_foreground c' = cp_foreground c \<and> cp_draws c' = cp_draws c
         \<and> cp_clients c' j = cp_clients c j \<and> (a \<in> set out \<longrightarrow> (\<exists>l. a = Event (ClientDisconnected (Some i) (Some l)))))
    \<and> (cp_foreground c = FgClient i \<and> cp_clients c i = Some cl \<longrightarrow>
         cp_foreground c' = (if cp_clients c' i \<noteq> None then FgClient i else heir i (cl_label cl) c)
         \<and> (a \<in> set out \<and> stopped_label a = Some m \<longrightarrow> m = cl_label cl))"
proof -
  have p: "apart i c (put_client c i cl)" for cl by simp
  have "apart i c (fst (service_client env c i r)) \<and> about i c (snd (service_client env c i r))"
    using drain_apart disconnect_apart apart_trans [OF p] about_trans [OF p]
    by (simp add: service_client_def split: option.splits read_result.splits) blast
  moreover have "backstage i c (fst (service_client env c i r)) (snd (service_client env c i r))" if "cp_foreground c \<noteq> FgClient i"
    using backstage_disconnect [OF that] backstage_trans [OF backstage_put backstage_drain] that
    by (auto simp: service_client_def split: option.splits read_result.splits)
  moreover have "succeeded i (cl_label cl) c (fst (service_client env c i r)) (snd (service_client env c i r))"
    if "cp_foreground c = FgClient i" "cp_clients c i = Some cl"
  proof -
    have on: "onstage i (cl_label cl) c" using that by (simp add: onstage_def)
    have put: "onstage i (cl_label cl) (put_client c i (cl\<lparr>cl_buf := b\<rparr>))" for b using that by (simp add: onstage_def)
    show ?thesis
      using succeeded_disconnect [OF on] succeeded_refl [OF on] succeeded_trans [OF put _ _ succeeded_drain [OF put], where out = "[]"] that
      by (auto simp: service_client_def split: read_result.splits)
  qed
  ultimately show ?thesis using assms by (auto simp: apart_def about_def views_def backstage_def succeeded_def)
qed

text \<open>An app over Home on the panel: Home's crash behind it, and its own.\<close>

theorem clients_are_isolated_witness:
  "let c = fst (run (comp_step sample_env) compositor_bind
         [arrive 5, greet 5 0 (frame1 0 @ frame1 2), arrive 6, greet 6 1 []])
   in cp_foreground (fst (service_client sample_env c 0 ReadError)) = FgClient 1
    \<and> cp_draws (fst (service_client sample_env c 0 ReadError)) = cp_draws c
    \<and> cp_foreground (fst (service_client sample_env c 1 ReadError)) = FgClient 0
    \<and> map_option client_view (cp_clients (fst (service_client sample_env c 1 ReadError)) 0)
        = map_option client_view (cp_clients c 0)"
proof -
  let ?c = "fst (run (comp_step sample_env) compositor_bind
         [arrive 5, greet 5 0 (frame1 0 @ frame1 2), arrive 6, greet 6 1 []])"
  have c: "cp_home ?c = Some 0" "cp_foreground ?c = FgClient 1" by (simp_all add: compositor_eval)
  have "cp_clients ?c 1 \<noteq> None" "cp_clients (fst (service_client sample_env ?c 1 ReadError)) 1 = None"
    by (simp_all add: compositor_eval)
  then obtain cl where "cp_clients ?c 1 = Some cl" "cp_clients (fst (service_client sample_env ?c 1 ReadError)) 1 = None" by blast
  with clients_are_isolated [OF prod.collapse [symmetric], of 0 1 sample_env ?c ReadError]
    clients_are_isolated [OF prod.collapse [symmetric], of 1 0 sample_env ?c ReadError] c
  show ?thesis by (simp add: Let_def heir_def)
qed

text \<open>
  C24. A locked screen stays dark. While locked, no iteration and no further call to sleep
  draws anything, whatever clients connect, commit, crash or leave; and waking then draws the
  frame the foreground client committed last, reports it and releases its buffer.
\<close>

theorem locked_screen_is_dark:
  assumes "cp_locked c" and "WakeCall \<notin> set calls"
    and "run (comp_step env) c calls = (c', out)"
  shows "cp_locked c' \<and> Drawn p ok \<notin> set out
    \<and> (foreground_client c' = Some i \<and> cp_clients c' i = Some cl \<and> sf_current (cl_surface cl) = Some cm
        \<and> extent (pool_buffer (p_descriptor (cl_pool cl))) = env_panel_size env \<and> env_draw env (cp_draws c')
       \<longrightarrow> snd (wake env c') = [Event EvUnlocked, Drawn (ClientFrame i (cm_buffer cm)) True,
             Event (FramePresented i), Notified i (cm_buffer cm)])"
proof -
  from asleep_run [OF assms(1,2), of env] have dark: "cp_locked c'" "list_all silent out"
    by (simp_all add: assms(3))
  then have "Drawn p ok \<notin> set out" by (auto simp: list_all_iff)
  with dark show ?thesis
    by (auto simp: wake_def present_foreground_def foreground_client_def draw_def Let_def split: foreground.splits)
qed

definition home_asleep :: compositor where
  "home_asleep = fst (run (comp_step sample_env) compositor_bind
     [arrive 5, greet 5 0 (frame1 0 @ frame1 2), SleepCall])"

theorem locked_screen_is_dark_witness:
  "Drawn (ClientFrame 0 SlotB) True \<notin> set (snd (run (comp_step sample_env) home_asleep [sends 0 (frame1 1 @ frame1 2)]))"
proof -
  have "cp_locked home_asleep" by (simp add: home_asleep_def compositor_eval)
  then show ?thesis
    by (rule locked_screen_is_dark [OF _ _ prod.collapse [symmetric], THEN conjunct2, THEN conjunct1])
      (simp add: sends_def)
qed

text \<open>
  C25. A buffer committed in the background and then superseded is lost. A connected client
  that is not the foreground and commits first one buffer and then the other never gets the
  first one back: in no continuation is its release sent, as long as the client stays
  connected the server holds the buffer as presenting, and asking for it again ends the
  connection.
\<close>

theorem superseded_buffer_is_lost:
  assumes "comp_inv c" and "cp_clients c k = Some cl" and "foreground_client c \<noteq> Some k"
    and "sf_slots (cl_surface cl) = (\<lambda>_. Free)" and "sf_pending (cl_surface cl) = None"
    and "c1 = foldl (\<lambda>d r. fst (handle_request env d k r)) c
       [RequestAttach slot, RequestCommit Full, RequestAttach (slot_other slot), RequestCommit Full]"
    and "run (comp_step env) c1 calls = (c2, out)"
  shows "Notified k slot \<notin> set out
    \<and> (cp_clients c2 k = Some cl2 \<longrightarrow> sf_slots (cl_surface cl2) slot = Presenting)
    \<and> cp_clients (fst (handle_request env c2 k (RequestAttach slot))) k = None"
proof -
  have fg: "cp_foreground c \<noteq> FgClient k" using assms(3) by (auto simp: foreground_client_def)
  have "superseded k slot c1"
    using assms(1,2,4,5) fg unfolding assms(6)
    by (simp add: handle_request_def attach_def commit_def set_slot_state_def validate_damage_def Let_def
        foreground_client_def superseded_def superseded_in_def comp_inv_def split: foreground.splits)
  from stuck.machine.run_inv [OF this, of env calls] stuck.machine.run_allowed [OF this, of _ env calls] assms(7)
  have s: "superseded k slot c2" "Notified k slot \<notin> set out" by auto
  have "cp_clients (fst (handle_request env c2 k (RequestAttach slot))) k = None"
  proof (cases "cp_clients c2 k")
    case (Some cl2)
    with s(1) have "attach (cl_surface cl2) slot = Err (BufferBusy slot)"
      by (simp add: superseded_def superseded_in_def attach_def)
    with Some have "handle_request env c2 k (RequestAttach slot) = disconnect env c2 k"
      by (simp add: handle_request_def)
    then show ?thesis using fun_cong [OF views_disconnect [of env c2 k], of k] by (simp add: views_def)
  qed (simp add: handle_request_def)
  with s show ?thesis by (simp add: superseded_def superseded_in_def)
qed

definition app_over_home :: compositor where
  "app_over_home = fst (run (comp_step sample_env) compositor_bind
     [arrive 5, greet 5 0 (frame1 0 @ frame1 2), arrive 6, greet 6 1 []])"

theorem superseded_buffer_is_lost_witness:
  "Notified 0 SlotA \<notin> set (snd (run (comp_step sample_env)
     (foldl (\<lambda>d r. fst (handle_request sample_env d 0 r)) app_over_home
       [RequestAttach SlotA, RequestCommit Full, RequestAttach (slot_other SlotA), RequestCommit Full])
     [RunOnce 0 (Some [ClientReady 1 ReadError])]))"
proof -
  have inv: "comp_inv app_over_home" unfolding app_over_home_def by (rule laws.machine.run_inv) simp
  have split: "[arrive 5, greet 5 0 (frame1 0 @ frame1 2), arrive 6, greet 6 1 []]
      = [arrive 5, greet 5 0 (frame1 0 @ frame1 2)] @ [arrive 6, greet 6 1 []]" by simp
  have c: "cp_clients app_over_home 0 = Some sample_client" "foreground_client app_over_home = Some 1"
    unfolding app_over_home_def split fst_run_append home_showing by (simp_all add: compositor_eval)
  show ?thesis
    by (rule superseded_buffer_is_lost [OF inv c(1) _ _ _ refl prod.collapse [symmetric], THEN conjunct1])
      (simp_all add: c sample_client_def)
qed

text \<open>
  After Home has died on the panel, a restarted Home never appears. Once the foreground
  is a stopped frame it stays that frame through every run in which only Home programs
  connect: no client's picture is drawn and no frame reported, however often Home reconnects
  and commits.
\<close>

theorem restarted_home_stays_hidden:
  assumes "\<And>b h. env_hello env b = Some h \<Longrightarrow> hl_role h = RoleHome"
    and "cp_foreground c = FgStopped l" and "run (comp_step env) c calls = (c', out)"
  shows "cp_foreground c' = FgStopped l \<and> Drawn (ClientFrame i slot) ok \<notin> set out
    \<and> Event (FramePresented i) \<notin> set out"
proof -
  have s: "panel_stopped l c" using assms(2) by (simp add: panel_stopped_def)
  from homes.machine.run_inv [OF s, of env calls] homes.machine.run_allowed [OF s, of _ env calls] assms(3)
  have "panel_stopped l c'" "\<And>a. a \<in> set out \<Longrightarrow> clientless a" by (simp_all add: only_homes [OF assms(1)])
  then show ?thesis by (fastforce simp: panel_stopped_def clientless_def)
qed

text \<open>Home shows a frame, dies, comes back and commits: the panel still says it stopped.\<close>

definition homes_env :: compositor_env where
  "homes_env = sample_env\<lparr>env_hello := (\<lambda>b. if b = [0] then sample_hello b else None)\<rparr>"

definition home_crashed :: compositor where
  "home_crashed = fst (run (comp_step homes_env) compositor_bind
     [arrive 5, greet 5 0 (frame1 0 @ frame1 2), RunOnce 0 (Some [ClientReady 0 ReadError])])"

theorem restarted_home_stays_hidden_witness:
  "cp_home (fst (run (comp_step homes_env) home_crashed [arrive 5, greet 5 0 (frame1 0 @ frame1 2)])) = Some 1
   \<and> Drawn (ClientFrame 1 SlotA) True
       \<notin> set (snd (run (comp_step homes_env) home_crashed [arrive 5, greet 5 0 (frame1 0 @ frame1 2)]))"
proof
  show "cp_home (fst (run (comp_step homes_env) home_crashed [arrive 5, greet 5 0 (frame1 0 @ frame1 2)])) = Some 1"
    by (simp add: home_crashed_def homes_env_def compositor_eval)
  have homes: "hl_role h = RoleHome" if "env_hello homes_env b = Some h" for b h
    using that by (auto simp: homes_env_def split: if_splits)
  have f: "cp_foreground home_crashed = FgStopped ''home''" by (simp add: home_crashed_def homes_env_def compositor_eval)
  show "Drawn (ClientFrame 1 SlotA) True
      \<notin> set (snd (run (comp_step homes_env) home_crashed [arrive 5, greet 5 0 (frame1 0 @ frame1 2)]))"
    by (rule restarted_home_stays_hidden [OF _ f prod.collapse [symmetric], THEN conjunct2, THEN conjunct1])
      (rule homes)
qed

text \<open>
  Waking shows a buffer its owner is drawing into. When the foreground client has
  attached again the buffer it last committed, which the release sent for it allowed, waking
  draws that buffer and sends a second release for it, although it is still attached.
\<close>

theorem wake_shows_attached_buffer:
  assumes "cp_locked c" and "foreground_client c = Some i" and "cp_clients c i = Some cl"
    and "sf_current (cl_surface cl) = Some cm" and "sf_slots (cl_surface cl) (cm_buffer cm) = Attached"
    and "extent (pool_buffer (p_descriptor (cl_pool cl))) = env_panel_size env" and "env_draw env (cp_draws c)"
  shows "snd (wake env c) = [Event EvUnlocked, Drawn (ClientFrame i (cm_buffer cm)) True,
           Event (FramePresented i), Notified i (cm_buffer cm)]
    \<and> cp_clients (fst (wake env c)) i = Some cl"
  using assms by (auto simp: wake_def present_foreground_def foreground_client_def draw_def release_slot_def
      release_def Let_def split: foreground.splits)

theorem wake_shows_attached_buffer_witness:
  "let c = fst (run (comp_step sample_env) compositor_bind
         [arrive 5, greet 5 0 (frame1 0 @ frame1 2), SleepCall, sends 0 (frame1 0)])
   in snd (wake sample_env c) = [Event EvUnlocked, Drawn (ClientFrame 0 SlotA) True,
           Event (FramePresented 0), Notified 0 SlotA]
      \<and> map_option (\<lambda>cl. sf_slots (cl_surface cl) SlotA) (cp_clients (fst (wake sample_env c)) 0) = Some Attached"
proof -
  let ?c = "fst (run (comp_step sample_env) compositor_bind
         [arrive 5, greet 5 0 (frame1 0 @ frame1 2), SleepCall, sends 0 (frame1 0)])"
  let ?cl = "sample_client\<lparr>cl_surface := (cl_surface sample_client)
     \<lparr>sf_slots := (sf_slots (cl_surface sample_client))(SlotA := Attached), sf_pending := Some SlotA\<rparr>\<rparr>"
  have split: "[arrive 5, greet 5 0 (frame1 0 @ frame1 2), SleepCall, sends 0 (frame1 0)]
      = [arrive 5, greet 5 0 (frame1 0 @ frame1 2)] @ [SleepCall, sends 0 (frame1 0)]" by simp
  have c: "cp_locked ?c" "foreground_client ?c = Some 0" "cp_clients ?c 0 = Some ?cl"
    unfolding split fst_run_append home_showing by (simp_all add: compositor_eval sample_client_def)
  show ?thesis
    using wake_shows_attached_buffer [OF c, of "\<lparr>cm_buffer = SlotA, cm_damage = Full\<rparr>" sample_env] c(3)
    by (simp add: sample_client_def sample_env_def sample_pool_def packed_def Let_def)
qed

end
