(* ===== verification/Transaction.thy ===== *)
theory Transaction
  imports Prelude
begin

text \<open>
  Programs that write to a disk which can lose power. A program reads and writes the disk,
  asks the outside (each question is answered by its number), and fails with an error; what
  it did is its log, so that every prefix of the log is a state a power cut can leave. A
  \<open>triple\<close> says what holds after a program, after an error, and at every cut in between.
\<close>

section \<open>Programs\<close>

record ('d, 'e) tx_state =
  tx_disk :: 'd
  tx_log :: "'e list"
  tx_asked :: nat

type_synonym ('d, 'e, 'x, 'a) tx = "('d, 'e) tx_state \<Rightarrow> ('x, 'a) result \<times> ('d, 'e) tx_state"

definition tx_ok :: "'a \<Rightarrow> ('d, 'e, 'x, 'a) tx" where
  "tx_ok a u = (Ok a, u)"

definition tx_err :: "'x \<Rightarrow> ('d, 'e, 'x, 'a) tx" where
  "tx_err e u = (Err e, u)"

text \<open>The question mark, a \<open>match\<close> on a result, and \<open>let _ =\<close>.\<close>

definition tx_bind :: "('d, 'e, 'x, 'a) tx \<Rightarrow> ('a \<Rightarrow> ('d, 'e, 'x, 'b) tx) \<Rightarrow> ('d, 'e, 'x, 'b) tx" where
  "tx_bind m f u = (case m u of (Inl e, u') \<Rightarrow> (Inl e, u') | (Inr a, u') \<Rightarrow> f a u')"

definition tx_match :: "('d, 'e, 'x, 'a) tx \<Rightarrow> ('x \<Rightarrow> ('d, 'e, 'y, 'b) tx) \<Rightarrow> ('a \<Rightarrow> ('d, 'e, 'y, 'b) tx) \<Rightarrow> ('d, 'e, 'y, 'b) tx" where
  "tx_match m h f u = (case m u of (Inl e, u') \<Rightarrow> h e u' | (Inr a, u') \<Rightarrow> f a u')"

definition tx_try :: "('d, 'e, 'x, 'a) tx \<Rightarrow> ('d, 'e, 'x, unit) tx" where
  "tx_try m = tx_match m (\<lambda>_. tx_ok ()) (\<lambda>_. tx_ok ())"

definition tx_lift :: "('x, 'a) result \<Rightarrow> ('d, 'e, 'x, 'a) tx" where
  "tx_lift r u = (r, u)"

definition tx_get :: "('d \<Rightarrow> 'a) \<Rightarrow> ('d, 'e, 'x, 'a) tx" where
  "tx_get f u = (Ok (f (tx_disk u)), u)"

definition tx_ask :: "(nat \<Rightarrow> 'a) \<Rightarrow> ('d, 'e, 'x, 'a) tx" where
  "tx_ask q u = (Ok (q (tx_asked u)), u\<lparr>tx_asked := Suc (tx_asked u)\<rparr>)"

definition tx_emit :: "('d \<Rightarrow> 'e \<Rightarrow> 'd) \<Rightarrow> 'e \<Rightarrow> ('d, 'e, 'x, unit) tx" where
  "tx_emit eff w u = (Ok (), u\<lparr>tx_disk := eff (tx_disk u) w, tx_log := tx_log u @ [w]\<rparr>)"

text \<open>
  A durable write can fail before it took effect, or after it did and before the call could
  say so (a rename that happened, a directory sync that did not).
\<close>

datatype io_answer = IoOk | IoFailed | IoFailedAfter

definition tx_io :: "('d \<Rightarrow> 'e \<Rightarrow> 'd) \<Rightarrow> (nat \<Rightarrow> io_answer) \<Rightarrow> 'x \<Rightarrow> 'e \<Rightarrow> ('d, 'e, 'x, unit) tx" where
  "tx_io eff io err w = tx_bind (tx_ask io) (\<lambda>answer. case answer of
     IoOk \<Rightarrow> tx_emit eff w
   | IoFailed \<Rightarrow> tx_err err
   | IoFailedAfter \<Rightarrow> tx_bind (tx_emit eff w) (\<lambda>_. tx_err err))"

text \<open>A step that reads or touches the file system without changing what is modelled.\<close>

definition tx_probe :: "(nat \<Rightarrow> io_answer) \<Rightarrow> 'x \<Rightarrow> ('d, 'e, 'x, unit) tx" where
  "tx_probe io err = tx_bind (tx_ask io) (\<lambda>answer. if answer = IoOk then tx_ok () else tx_err err)"

definition tx_start :: "'d \<Rightarrow> ('d, 'e) tx_state" where
  "tx_start d = \<lparr>tx_disk = d, tx_log = [], tx_asked = 0\<rparr>"

text \<open>The states a power cut during a program can leave.\<close>

definition cuts :: "('d \<Rightarrow> 'e \<Rightarrow> 'd) \<Rightarrow> ('d, 'e, 'x, 'a) tx \<Rightarrow> 'd \<Rightarrow> 'd set" where
  "cuts eff m d = crash_points eff d (tx_log (snd (m (tx_start d))))"

section \<open>Triples\<close>

text \<open>What a program does to the state: it appends to the log, and the disk follows the log.\<close>

definition advanced :: "('d \<Rightarrow> 'e \<Rightarrow> 'd) \<Rightarrow> ('d \<Rightarrow> bool) \<Rightarrow> ('d, 'e) tx_state \<Rightarrow> ('d, 'e) tx_state \<Rightarrow> bool" where
  "advanced eff C u u' \<longleftrightarrow> (\<exists>ws. tx_log u' = tx_log u @ ws \<and> tx_disk u' = apply_writes eff (tx_disk u) ws
     \<and> (\<forall>d\<in>crash_points eff (tx_disk u) ws. C d))"

definition triple :: "('d \<Rightarrow> 'e \<Rightarrow> 'd) \<Rightarrow> ('d \<Rightarrow> bool) \<Rightarrow> ('d \<Rightarrow> bool) \<Rightarrow> ('d, 'e, 'x, 'a) tx
    \<Rightarrow> ('a \<Rightarrow> 'd \<Rightarrow> bool) \<Rightarrow> ('d \<Rightarrow> bool) \<Rightarrow> bool" where
  "triple eff C P m Q R \<longleftrightarrow> (\<forall>u. P (tx_disk u) \<longrightarrow> advanced eff C u (snd (m u))
     \<and> (case fst (m u) of Inr a \<Rightarrow> Q a (tx_disk (snd (m u))) | Inl _ \<Rightarrow> R (tx_disk (snd (m u)))))"

lemma advanced_refl: "C (tx_disk u) \<Longrightarrow> advanced eff C u u"
  by (simp add: advanced_def)

lemma advanced_asked [simp]: "advanced eff C u (u'\<lparr>tx_asked := n\<rparr>) = advanced eff C u u'"
  by (simp add: advanced_def)

lemma advanced_trans: "advanced eff C u v \<Longrightarrow> advanced eff C v w \<Longrightarrow> advanced eff C u w"
proof -
  assume "advanced eff C u v" and "advanced eff C v w"
  then obtain xs ys where "tx_log v = tx_log u @ xs" "tx_disk v = apply_writes eff (tx_disk u) xs"
    "\<forall>d\<in>crash_points eff (tx_disk u) xs. C d" "tx_log w = tx_log v @ ys"
    "tx_disk w = apply_writes eff (tx_disk v) ys" "\<forall>d\<in>crash_points eff (tx_disk v) ys. C d"
    by (auto simp: advanced_def)
  then show ?thesis by (auto simp: advanced_def crash_points_append intro!: exI [of _ "xs @ ys"])
qed

lemma triple_bind:
  assumes "triple eff C P m Q R" and "\<And>a. triple eff C (Q a) (f a) Q' R"
  shows "triple eff C P (tx_bind m f) Q' R"
  unfolding triple_def
proof (intro allI impI)
  fix u :: "('a, 'b) tx_state" assume P: "P (tx_disk u)"
  obtain r u' where m: "m u = (r, u')" by (cases "m u")
  show "advanced eff C u (snd (tx_bind m f u)) \<and> (case fst (tx_bind m f u) of
      Inr a \<Rightarrow> Q' a (tx_disk (snd (tx_bind m f u))) | Inl _ \<Rightarrow> R (tx_disk (snd (tx_bind m f u))))"
  proof (cases r)
    case (Inl e)
    with assms(1) P m show ?thesis by (auto simp: triple_def tx_bind_def)
  next
    case (Inr a)
    with assms(1) P m have "advanced eff C u u'" "Q a (tx_disk u')" by (auto simp: triple_def)
    with assms(2) [of a] have "advanced eff C u (snd (f a u')) \<and> (case fst (f a u') of
        Inr b \<Rightarrow> Q' b (tx_disk (snd (f a u'))) | Inl _ \<Rightarrow> R (tx_disk (snd (f a u'))))"
      by (auto simp: triple_def intro: advanced_trans)
    moreover have eq: "tx_bind m f u = f a u'" using m Inr by (simp add: tx_bind_def)
    ultimately show ?thesis unfolding eq by blast
  qed
qed

lemma triple_match:
  assumes "triple eff C P m Q E" and "\<And>e. triple eff C E (h e) Q' R" and "\<And>a. triple eff C (Q a) (f a) Q' R"
  shows "triple eff C P (tx_match m h f) Q' R"
  unfolding triple_def
proof (intro allI impI)
  fix u :: "('a, 'b) tx_state" assume P: "P (tx_disk u)"
  obtain r u' where m: "m u = (r, u')" by (cases "m u")
  show "advanced eff C u (snd (tx_match m h f u)) \<and> (case fst (tx_match m h f u) of
      Inr a \<Rightarrow> Q' a (tx_disk (snd (tx_match m h f u))) | Inl _ \<Rightarrow> R (tx_disk (snd (tx_match m h f u))))"
  proof (cases r)
    case (Inl e)
    with assms(1) P m have "advanced eff C u u'" "E (tx_disk u')" by (auto simp: triple_def)
    with assms(2) [of e] have "advanced eff C u (snd (h e u')) \<and> (case fst (h e u') of
        Inr b \<Rightarrow> Q' b (tx_disk (snd (h e u'))) | Inl _ \<Rightarrow> R (tx_disk (snd (h e u'))))"
      by (auto simp: triple_def intro: advanced_trans)
    moreover have eq: "tx_match m h f u = h e u'" using m Inl by (simp add: tx_match_def)
    ultimately show ?thesis unfolding eq by blast
  next
    case (Inr a)
    with assms(1) P m have "advanced eff C u u'" "Q a (tx_disk u')" by (auto simp: triple_def)
    with assms(3) [of a] have "advanced eff C u (snd (f a u')) \<and> (case fst (f a u') of
        Inr b \<Rightarrow> Q' b (tx_disk (snd (f a u'))) | Inl _ \<Rightarrow> R (tx_disk (snd (f a u'))))"
      by (auto simp: triple_def intro: advanced_trans)
    moreover have eq: "tx_match m h f u = f a u'" using m Inr by (simp add: tx_match_def)
    ultimately show ?thesis unfolding eq by blast
  qed
qed

lemma triple_ok: "(\<And>d. P d \<Longrightarrow> C d \<and> Q a d) \<Longrightarrow> triple eff C P (tx_ok a) Q R"
  by (simp add: triple_def tx_ok_def advanced_refl)

lemma triple_err: "(\<And>d. P d \<Longrightarrow> C d \<and> R d) \<Longrightarrow> triple eff C P (tx_err e) Q R"
  by (simp add: triple_def tx_err_def advanced_refl)

lemma triple_lift: "(\<And>d. P d \<Longrightarrow> C d \<and> R d \<and> (\<forall>a. r = Inr a \<longrightarrow> Q a d)) \<Longrightarrow> triple eff C P (tx_lift r) Q R"
  by (cases r) (simp_all add: triple_def tx_lift_def advanced_refl)

lemma triple_get: "(\<And>d. P d \<Longrightarrow> C d \<and> Q (f d) d) \<Longrightarrow> triple eff C P (tx_get f) Q R"
  by (simp add: triple_def tx_get_def advanced_refl)

lemma triple_ask: "(\<And>d n. P d \<Longrightarrow> C d \<and> Q (q n) d) \<Longrightarrow> triple eff C P (tx_ask q) Q R"
  by (simp add: triple_def tx_ask_def advanced_refl)

lemma triple_emit: "(\<And>d. P d \<Longrightarrow> C d \<and> C (eff d w) \<and> Q () (eff d w)) \<Longrightarrow> triple eff C P (tx_emit eff w) Q R"
  by (simp add: triple_def tx_emit_def advanced_def crash_points_Cons)

lemma triple_conseq:
  assumes "triple eff C P' m Q' R'" and "\<And>d. P d \<Longrightarrow> P' d"
    and "\<And>a d. Q' a d \<Longrightarrow> Q a d" and "\<And>d. R' d \<Longrightarrow> R d"
  shows "triple eff C P m Q R"
  using assms unfolding triple_def by (force split: sum.splits)

lemma triple_io:
  assumes "\<And>d. P d \<Longrightarrow> C d \<and> C (eff d w) \<and> Q () (eff d w) \<and> R d \<and> R (eff d w)"
  shows "triple eff C P (tx_io eff io err w) Q R"
  unfolding tx_io_def
  by (rule triple_bind [of _ _ _ _ "\<lambda>_. P"], rule triple_ask, use assms in blast)
    (auto split: io_answer.splits intro!: triple_emit triple_err
      triple_bind [of _ _ _ _ "\<lambda>_ d. C d \<and> R d"] dest!: assms)

lemma triple_probe: "(\<And>d. P d \<Longrightarrow> C d \<and> Q () d \<and> R d) \<Longrightarrow> triple eff C P (tx_probe io err) Q R"
  unfolding tx_probe_def
  by (rule triple_bind [of _ _ _ _ "\<lambda>_. P"]) (auto intro!: triple_ask triple_ok triple_err)

lemma triple_try: "triple eff C P m (\<lambda>_. Q) Q \<Longrightarrow> (\<And>d. Q d \<Longrightarrow> C d) \<Longrightarrow> triple eff C P (tx_try m) (\<lambda>_. Q) R"
  unfolding tx_try_def by (erule triple_match) (auto intro!: triple_ok)

lemma triple_if:
  "(b \<Longrightarrow> triple eff C P m Q R) \<Longrightarrow> (\<not> b \<Longrightarrow> triple eff C P n Q R) \<Longrightarrow> triple eff C P (if b then m else n) Q R"
  by simp

lemma triple_pure: "(p \<Longrightarrow> triple eff C P m Q R) \<Longrightarrow> triple eff C (\<lambda>d. P d \<and> p) m Q R"
  by (simp add: triple_def)

lemma triple_disj: "triple eff C P m Q R \<Longrightarrow> triple eff C P' m Q R \<Longrightarrow> triple eff C (\<lambda>d. P d \<or> P' d) m Q R"
  unfolding triple_def by blast

lemma triple_nothing: "triple eff C (\<lambda>_. False) m Q R"
  by (simp add: triple_def)

lemma triple_pure_left: "(p \<Longrightarrow> triple eff C P m Q R) \<Longrightarrow> triple eff C (\<lambda>d. p \<and> P d) m Q R"
  by (simp add: triple_def)

text \<open>A program whose result is known.\<close>

lemma triple_bind_eq:
  assumes "triple eff C P m (\<lambda>a d. a = b \<and> Q d) R" and "triple eff C Q (f b) Q' R"
  shows "triple eff C P (tx_bind m f) Q' R"
proof (rule triple_bind [OF assms(1)])
  fix a
  show "triple eff C (\<lambda>d. a = b \<and> Q d) (f a) Q' R"
    using assms(2) by (cases "a = b") (simp_all add: triple_def)
qed

text \<open>A triple bounds every cut and the final state.\<close>

lemma triple_cuts:
  "triple eff C P m Q R \<Longrightarrow> P d \<Longrightarrow> d' \<in> cuts eff m d \<Longrightarrow> C d'"
proof -
  assume t: "triple eff C P m Q R" and P: "P d" and d': "d' \<in> cuts eff m d"
  from P have "P (tx_disk (tx_start d))" by (simp add: tx_start_def)
  with t have "advanced eff C (tx_start d) (snd (m (tx_start d)))" unfolding triple_def by blast
  with d' show "C d'" by (auto simp: advanced_def cuts_def tx_start_def)
qed

lemma triple_result:
  "triple eff C P m Q R \<Longrightarrow> P (tx_disk u) \<Longrightarrow> m u = (Ok a, u') \<Longrightarrow> Q a (tx_disk u')"
  by (force simp: triple_def)

lemma triple_error:
  "triple eff C P m Q R \<Longrightarrow> P (tx_disk u) \<Longrightarrow> m u = (Err e, u') \<Longrightarrow> R (tx_disk u')"
  by (force simp: triple_def)

section \<open>Counting\<close>

text \<open>A program writes events of weight at most \<open>k\<close>, whatever it is answered.\<close>

definition costs :: "('e \<Rightarrow> nat) \<Rightarrow> nat \<Rightarrow> ('d, 'e, 'x, 'a) tx \<Rightarrow> bool" where
  "costs w k m \<longleftrightarrow> (\<forall>u. \<exists>ws. tx_log (snd (m u)) = tx_log u @ ws \<and> sum_list (map w ws) \<le> k)"

named_theorems cost

lemma costs_more: "costs w i m \<Longrightarrow> i \<le> k \<Longrightarrow> costs w k m"
  unfolding costs_def by (meson le_trans)

lemma costs_still [cost]:
  "costs w k (tx_ok a)" "costs w k (tx_err e)" "costs w k (tx_lift r)" "costs w k (tx_get f)" "costs w k (tx_ask q)"
  by (simp_all add: costs_def tx_ok_def tx_err_def tx_lift_def tx_get_def tx_ask_def)

lemma costs_emit [cost]: "w e \<le> k \<Longrightarrow> costs w k (tx_emit eff e)"
  by (simp add: costs_def tx_emit_def)

lemma costs_match_plus:
  assumes "costs w i m" and "\<And>e. costs w j (h e)" and "\<And>a. costs w j (f a)"
  shows "costs w (i + j) (tx_match m h f)"
  unfolding costs_def
proof
  fix u
  obtain r u' where m: "m u = (r, u')" by (cases "m u")
  with assms(1) obtain xs where xs: "tx_log u' = tx_log u @ xs" "sum_list (map w xs) \<le> i"
    unfolding costs_def by (metis snd_conv)
  have "\<exists>ys. tx_log (snd (tx_match m h f u)) = tx_log u' @ ys \<and> sum_list (map w ys) \<le> j"
    using assms(2,3) m by (cases r) (auto simp: costs_def tx_match_def)
  with xs show "\<exists>ws. tx_log (snd (tx_match m h f u)) = tx_log u @ ws \<and> sum_list (map w ws) \<le> i + j"
    by (metis add_mono append_assoc map_append sum_list_append)
qed

lemma tx_bind_match: "tx_bind m f = tx_match m tx_err f"
  by (auto simp: tx_bind_def tx_match_def tx_err_def fun_eq_iff split: prod.splits sum.splits)

lemma costs_bind_plus:
  assumes "costs w i m" and "\<And>a. costs w j (f a)"
  shows "costs w (i + j) (tx_bind m f)"
  unfolding tx_bind_match using assms by (intro costs_match_plus costs_still)

lemma costs_bind [cost]: "costs w 0 m \<Longrightarrow> (\<And>a. costs w k (f a)) \<Longrightarrow> costs w k (tx_bind m f)"
  using costs_bind_plus [of w 0 m k f] by simp

lemma costs_match [cost]:
  "costs w 0 m \<Longrightarrow> (\<And>e. costs w k (h e)) \<Longrightarrow> (\<And>a. costs w k (f a)) \<Longrightarrow> costs w k (tx_match m h f)"
  using costs_match_plus [of w 0 m k h f] by simp

lemma costs_try [cost]: "costs w k m \<Longrightarrow> costs w k (tx_try m)"
  using costs_match_plus [of w k m 0] unfolding tx_try_def by (metis add_0_right costs_still(1))

lemma costs_io [cost]:
  assumes "w e \<le> k"
  shows "costs w k (tx_io eff io err e)"
  unfolding tx_io_def
proof (rule costs_bind [OF costs_still(5)])
  fix a
  have "costs w (k + 0) (tx_bind (tx_emit eff e) (\<lambda>_. tx_err err))"
    by (rule costs_bind_plus) (simp_all add: assms costs_emit costs_still)
  then show "costs w k (case a of IoOk \<Rightarrow> tx_emit eff e | IoFailed \<Rightarrow> tx_err err
      | IoFailedAfter \<Rightarrow> tx_bind (tx_emit eff e) (\<lambda>_. tx_err err))"
    by (cases a) (simp_all add: assms costs_emit costs_still)
qed

lemma costs_probe [cost]: "costs w k (tx_probe io err)"
  unfolding tx_probe_def by (intro costs_bind costs_still) (simp add: costs_still)

lemma costs_if [cost]: "costs w k m \<Longrightarrow> costs w k n \<Longrightarrow> costs w k (if b then m else n)"
  by simp

lemma costs_option [cost]:
  "costs w k m \<Longrightarrow> (\<And>a. costs w k (f a)) \<Longrightarrow> costs w k (case x of None \<Rightarrow> m | Some a \<Rightarrow> f a)"
  by (cases x) simp_all

lemma costs_start: "costs w k m \<Longrightarrow> sum_list (map w (tx_log (snd (m (tx_start d))))) \<le> k"
  unfolding costs_def tx_start_def by (metis append_Nil tx_state.select_convs(2))

section \<open>Programs that return\<close>

text \<open>With a file system that works, an error assertion of \<open>False\<close> says that a program ends well.\<close>

lemma triple_io_works:
  "(\<And>n. io n = IoOk) \<Longrightarrow> (\<And>d. P d \<Longrightarrow> C d \<and> C (eff d w) \<and> Q () (eff d w)) \<Longrightarrow> triple eff C P (tx_io eff io err w) Q R"
  unfolding tx_io_def
  by (rule triple_bind [where Q = "\<lambda>a d. P d \<and> a = IoOk"]) (auto intro!: triple_ask triple_pure triple_emit)

lemma triple_probe_works:
  "(\<And>n. io n = IoOk) \<Longrightarrow> (\<And>d. P d \<Longrightarrow> C d \<and> Q () d) \<Longrightarrow> triple eff C P (tx_probe io err) Q R"
  unfolding tx_probe_def
  by (rule triple_bind [where Q = "\<lambda>a d. P d \<and> a = IoOk"]) (auto intro!: triple_ask triple_pure triple_ok triple_err)

lemma triple_returns:
  "triple eff C P m Q (\<lambda>_. False) \<Longrightarrow> P (tx_disk u) \<Longrightarrow> \<exists>a u'. m u = (Ok a, u') \<and> Q a (tx_disk u')"
  by (cases "m u"; cases "fst (m u)") (auto simp: triple_def)

section \<open>Programs that keep an assertion\<close>

definition keeps :: "('d \<Rightarrow> 'e \<Rightarrow> 'd) \<Rightarrow> ('d \<Rightarrow> bool) \<Rightarrow> ('d, 'e, 'x, 'a) tx \<Rightarrow> bool" where
  "keeps eff P m \<longleftrightarrow> triple eff P P m (\<lambda>_. P) P"

named_theorems keep

lemma keeps_triple: "keeps eff P m \<Longrightarrow> triple eff P P m (\<lambda>_. P) P"
  by (simp add: keeps_def)

lemma keeps_still [keep]:
  "keeps eff P (tx_ok a)" "keeps eff P (tx_err e)" "keeps eff P (tx_lift r)" "keeps eff P (tx_get f)" "keeps eff P (tx_ask q)"
  by (auto simp: keeps_def intro!: triple_ok triple_err triple_lift triple_get triple_ask)

lemma keeps_bind [keep]: "keeps eff P m \<Longrightarrow> (\<And>a. keeps eff P (f a)) \<Longrightarrow> keeps eff P (tx_bind m f)"
  unfolding keeps_def by (rule triple_bind)

lemma keeps_match [keep]:
  "keeps eff P m \<Longrightarrow> (\<And>e. keeps eff P (h e)) \<Longrightarrow> (\<And>a. keeps eff P (f a)) \<Longrightarrow> keeps eff P (tx_match m h f)"
  unfolding keeps_def by (rule triple_match)

lemma keeps_try [keep]: "keeps eff P m \<Longrightarrow> keeps eff P (tx_try m)"
  unfolding tx_try_def by (intro keeps_match keeps_still)

lemma keeps_io: "(\<And>d. P d \<Longrightarrow> P (eff d w)) \<Longrightarrow> keeps eff P (tx_io eff io err w)"
  unfolding keeps_def by (rule triple_io) simp

lemma keeps_probe [keep]: "keeps eff P (tx_probe io err)"
  unfolding keeps_def by (rule triple_probe) simp

lemma keeps_if [keep]: "(b \<Longrightarrow> keeps eff P m) \<Longrightarrow> (\<not> b \<Longrightarrow> keeps eff P n) \<Longrightarrow> keeps eff P (if b then m else n)"
  by simp

lemma keeps_option [keep]:
  "(x = None \<Longrightarrow> keeps eff P m) \<Longrightarrow> (\<And>a. x = Some a \<Longrightarrow> keeps eff P (f a)) \<Longrightarrow>
     keeps eff P (case x of None \<Rightarrow> m | Some a \<Rightarrow> f a)"
  by (cases x) simp_all

lemma keeps_prod [keep]: "(\<And>a b. keeps eff P (f a b)) \<Longrightarrow> keeps eff P (case x of (a, b) \<Rightarrow> f a b)"
  by (cases x) simp

text \<open>Weakening what holds at the cuts.\<close>

lemma advanced_weaken: "advanced eff C u v \<Longrightarrow> (\<And>d. C d \<Longrightarrow> C' d) \<Longrightarrow> advanced eff C' u v"
  unfolding advanced_def by blast

lemma triple_weaken:
  assumes "triple eff C P m Q R" and "\<And>d. C d \<Longrightarrow> C' d"
  shows "triple eff C' P m Q R"
  using assms unfolding triple_def by (blast intro: advanced_weaken)

text \<open>What is kept holds in addition to anything else a triple says.\<close>

lemma triple_conj:
  fixes m :: "('d, 'e, 'x, 'a) tx"
  assumes "triple eff C P m Q R" and "triple eff C' P' m Q' R'"
  shows "triple eff (\<lambda>d. C d \<and> C' d) (\<lambda>d. P d \<and> P' d) m (\<lambda>a d. Q a d \<and> Q' a d) (\<lambda>d. R d \<and> R' d)"
  unfolding triple_def
proof (intro allI impI)
  fix u :: "('d, 'e) tx_state" assume "P (tx_disk u) \<and> P' (tx_disk u)"
  then have "advanced eff C u (snd (m u))" "advanced eff C' u (snd (m u))"
    and r: "case fst (m u) of Inr a \<Rightarrow> Q a (tx_disk (snd (m u))) | Inl _ \<Rightarrow> R (tx_disk (snd (m u)))"
    "case fst (m u) of Inr a \<Rightarrow> Q' a (tx_disk (snd (m u))) | Inl _ \<Rightarrow> R' (tx_disk (snd (m u)))"
    using assms unfolding triple_def by blast+
  then have "advanced eff (\<lambda>d. C d \<and> C' d) u (snd (m u))"
    unfolding advanced_def by auto
  with r show "advanced eff (\<lambda>d. C d \<and> C' d) u (snd (m u)) \<and> (case fst (m u) of
      Inr a \<Rightarrow> Q a (tx_disk (snd (m u))) \<and> Q' a (tx_disk (snd (m u)))
    | Inl _ \<Rightarrow> R (tx_disk (snd (m u))) \<and> R' (tx_disk (snd (m u))))"
    by (auto split: sum.splits)
qed

text \<open>Evaluating a program on concrete arguments.\<close>

lemmas tx_run = tx_bind_def tx_match_def tx_ok_def tx_err_def tx_lift_def tx_get_def tx_ask_def tx_io_def tx_emit_def
  tx_probe_def tx_try_def tx_start_def

end
