(* ===== verification/PlatformUpdate.thy ===== *)
theory PlatformUpdate
  imports Transaction Readiness
begin

text \<open>
  The platform updater (\<open>platform/updater/src/upgrade.rs\<close>, with \<open>layout.rs\<close>,
  \<open>journal.rs\<close>, \<open>health.rs\<close> and the checks of \<open>manifest.rs\<close>): the releases on the
  disk, the two links \<open>current\<close> and \<open>previous\<close>, the journal of the transaction in
  flight, the snapshot of the platform state, and the four commands that change them. A
  version is its text. The session, the bundle's contents and signature, and every failure
  of the file system are answers of the environment \<open>update_env\<close>. A directory that is
  being removed is first a directory whose manifest cannot be read. The lemmas show what
  survives a power cut at any write, what each outcome leaves selected, that a candidate is
  started at most once and its fallback at most once, and what a rollback on request does.
\<close>

section \<open>Manifests\<close>

type_synonym version = string

record component =
  co_name :: string
  co_path :: string

record plat_manifest =
  pm_version :: version
  pm_state_version :: nat
  pm_rollback_to :: nat
  pm_components :: "component list"

definition REQUIRED_COMPONENTS :: "string list" where
  "REQUIRED_COMPONENTS = [''paperclip-host'', ''paperclip-compositor'', ''home'', ''app-store'', ''settings'']"

datatype update_error =
    IoError
  | ManifestError string
  | ComponentError string string
  | SignatureError
  | ArchiveError
  | NoSuchRelease version
  | AlreadySelected version
  | InFlight string version
  | StateNotRollbackSafe version version nat nat
  | StandDownError string
  | WakelockStuck
  | BringUpError string
  | CorruptJournal
  | StillWatching

fun contains_dots :: "string \<Rightarrow> bool" where
  "contains_dots (a # b # s) = (a = CHR ''.'' \<and> b = CHR ''.'' \<or> contains_dots (b # s))"
| "contains_dots _ = False"

text \<open>\<open>PlatformManifest::check\<close>; the error texts are shortened to what they name.\<close>

fun check_components :: "string list \<Rightarrow> component list \<Rightarrow> (update_error, string list) result" where
  "check_components seen [] = Ok seen"
| "check_components seen (c # cs) =
     (if co_name c \<in> set seen then Err (ManifestError (co_name c))
      else if (case co_path c of x # _ \<Rightarrow> x = CHR ''/'' | [] \<Rightarrow> False) \<or> contains_dots (co_path c)
      then Err (ManifestError (co_path c))
      else check_components (co_name c # seen) cs)"

definition manifest_check :: "plat_manifest \<Rightarrow> (update_error, unit) result" where
  "manifest_check m =
     (if pm_state_version m < pm_rollback_to m then Err (ManifestError ''rollback_to_state'')
      else and_then (check_components [] (pm_components m)) (\<lambda>seen.
        case find (\<lambda>required. required \<notin> set seen) REQUIRED_COMPONENTS of
          Some required \<Rightarrow> Err (ManifestError required)
        | None \<Rightarrow> Ok ()))"

definition readable_by_state_version :: "plat_manifest \<Rightarrow> nat \<Rightarrow> bool" where
  "readable_by_state_version m older \<longleftrightarrow> pm_rollback_to m \<le> older"

section \<open>The journal\<close>

datatype phase = Prepare | Activate | Verify | Commit | RolledBack | Failed

fun phase_label :: "phase \<Rightarrow> string" where
  "phase_label Prepare = ''prepare''"
| "phase_label Activate = ''activate''"
| "phase_label Verify = ''verify''"
| "phase_label Commit = ''commit''"
| "phase_label RolledBack = ''rolled-back''"
| "phase_label Failed = ''failed''"

definition is_terminal :: "phase \<Rightarrow> bool" where
  "is_terminal p \<longleftrightarrow> p \<in> {Commit, RolledBack, Failed}"

definition MAX_ATTEMPTS :: nat where
  "MAX_ATTEMPTS = 1"

text \<open>The times a record carries are not modelled: nothing reads them back.\<close>

record update_record =
  ur_phase :: phase
  ur_from :: "version option"
  ur_previous_before :: "version option"
  ur_to :: version
  ur_staged :: "nat option"
  ur_snapshot :: "version option"
  ur_attempts :: nat
  ur_reached :: "string option"
  ur_note :: string

definition record_opening :: "version option \<Rightarrow> version \<Rightarrow> update_record" where
  "record_opening from to = \<lparr>ur_phase = Prepare, ur_from = from, ur_previous_before = None, ur_to = to,
     ur_staged = None, ur_snapshot = None, ur_attempts = 0, ur_reached = None, ur_note = []\<rparr>"

definition is_in_flight :: "update_record \<Rightarrow> bool" where
  "is_in_flight r \<longleftrightarrow> \<not> is_terminal (ur_phase r)"

datatype journal_file = NoJournal | Journal update_record | JournalCorrupt

section \<open>The disk\<close>

text \<open>
  A release directory is absent, there without a readable signed manifest, or there with
  one; a staging directory alike. \<open>pd_state\<close> is the content of the platform state,
  \<open>None\<close> when the directory is missing.
\<close>

record platform_disk =
  pd_releases :: "version \<Rightarrow> plat_manifest option option"
  pd_staging :: "nat \<Rightarrow> plat_manifest option option"
  pd_current :: "version option"
  pd_previous :: "version option"
  pd_journal :: journal_file
  pd_state :: "string option"
  pd_snapshots :: "version \<Rightarrow> string option"

datatype link = Current | Previous

text \<open>Durable writes, and the two calls that change the running system.\<close>

datatype update_event =
    PutJournal update_record
  | MakeStaging nat
  | Unpack nat "plat_manifest option"
  | DropStaging nat
  | WreckRelease version
  | DropRelease version
  | CommitRelease nat version
  | DropSnapshot version
  | TakeSnapshot version
  | DropState
  | RestoreState version
  | PointLink link version
  | DropLink link
  | StandDown
  | BringUp "string \<Rightarrow> string"

fun effect :: "platform_disk \<Rightarrow> update_event \<Rightarrow> platform_disk" where
  "effect d (PutJournal r) = d\<lparr>pd_journal := Journal r\<rparr>"
| "effect d (MakeStaging s) = d\<lparr>pd_staging := (pd_staging d)(s := Some None)\<rparr>"
| "effect d (Unpack s m) = d\<lparr>pd_staging := (pd_staging d)(s := Some m)\<rparr>"
| "effect d (DropStaging s) = d\<lparr>pd_staging := (pd_staging d)(s := None)\<rparr>"
| "effect d (WreckRelease v) = d\<lparr>pd_releases := (pd_releases d)(v := Some None)\<rparr>"
| "effect d (DropRelease v) = d\<lparr>pd_releases := (pd_releases d)(v := None)\<rparr>"
| "effect d (CommitRelease s v) =
     d\<lparr>pd_releases := (pd_releases d)(v := pd_staging d s), pd_staging := (pd_staging d)(s := None)\<rparr>"
| "effect d (DropSnapshot v) = d\<lparr>pd_snapshots := (pd_snapshots d)(v := None)\<rparr>"
| "effect d (TakeSnapshot v) = d\<lparr>pd_snapshots := (pd_snapshots d)(v :=
     Some (case pd_state d of None \<Rightarrow> [] | Some s \<Rightarrow> s))\<rparr>"
| "effect d DropState = d\<lparr>pd_state := None\<rparr>"
| "effect d (RestoreState v) = d\<lparr>pd_state := pd_snapshots d v\<rparr>"
| "effect d (PointLink Current v) = d\<lparr>pd_current := Some v\<rparr>"
| "effect d (PointLink Previous v) = d\<lparr>pd_previous := Some v\<rparr>"
| "effect d (DropLink Current) = d\<lparr>pd_current := None\<rparr>"
| "effect d (DropLink Previous) = d\<lparr>pd_previous := None\<rparr>"
| "effect d StandDown = d"
| "effect d (BringUp w) = d\<lparr>pd_state := map_option w (pd_state d)\<rparr>"

section \<open>Health\<close>

record observation =
  ob_alive :: bool
  ob_reached :: "rung option"
  ob_note :: string

record health_report =
  hr_reached :: rung
  hr_healthy :: bool
  hr_died :: bool
  hr_elapsed :: duration
  hr_note :: string

record unhealthy =
  un_reached :: rung
  un_stalled_at :: rung
  un_note :: string
  un_died :: bool

definition CLIMB_DEADLINE :: duration where
  "CLIMB_DEADLINE = from_secs 30"

definition CLIMB_POLL :: duration where
  "CLIMB_POLL = from_millis 250"

definition health_failure :: "health_report \<Rightarrow> unhealthy option" where
  "health_failure h = (if hr_healthy h then None
     else Some \<lparr>un_reached = hr_reached h,
       un_stalled_at = (case rung_next (hr_reached h) of None \<Rightarrow> Ready | Some r \<Rightarrow> r),
       un_note = hr_note h, un_died = hr_died h\<rparr>)"

definition unhealthy_text :: "unhealthy \<Rightarrow> string" where
  "unhealthy_text u = ''reached `'' @ rung_label (un_reached u) @ ''`, never reached `''
     @ rung_label (un_stalled_at u) @ ''`'' @ (if un_died u then ''; the supervisor exited'' else [])
     @ (if un_note u \<noteq> [] then '' ('' @ un_note u @ '')'' else [])"

text \<open>One look and the time since the start when it is judged.\<close>

type_synonym look = "observation \<times> duration"

text \<open>
  One pass of the loop: the report, or what the next pass starts with. The deadline's text
  prints whole seconds.
\<close>

definition watch_look :: "duration \<Rightarrow> rung \<times> string \<times> bool \<Rightarrow> look \<Rightarrow> health_report + rung \<times> string \<times> bool" where
  "watch_look deadline seen look = (case (seen, look) of ((best, note, seen_alive), (ob, elapsed)) \<Rightarrow>
     (let seen_alive' = (seen_alive \<or> ob_alive ob);
          best' = (case ob_reached ob of Some r \<Rightarrow> if best < r then r else best | None \<Rightarrow> best);
          note' = (if ob_note ob \<noteq> [] then ob_note ob else note)
      in if best' = Ready
         then Inl \<lparr>hr_reached = best', hr_healthy = True, hr_died = False, hr_elapsed = elapsed, hr_note = note'\<rparr>
         else if seen_alive' \<and> \<not> ob_alive ob
         then Inl \<lparr>hr_reached = best', hr_healthy = False, hr_died = True, hr_elapsed = elapsed,
                hr_note = (if note' = [] then ''the supervisor exited before reaching `ready`'' else note')\<rparr>
         else if deadline \<le> elapsed
         then Inl \<lparr>hr_reached = best', hr_healthy = False, hr_died = \<not> ob_alive ob, hr_elapsed = elapsed,
                hr_note = (if note' = [] then ''deadline of '' @ show_nat (as_secs deadline) @ ''s expired'' else note')\<rparr>
         else Inr (best', note', seen_alive')))"

text \<open>The loop over the looks from the \<open>i\<close>-th on, for at most \<open>fuel\<close> of them.\<close>

fun watch_loop :: "nat \<Rightarrow> duration \<Rightarrow> (nat \<Rightarrow> look) \<Rightarrow> nat \<Rightarrow> rung \<times> string \<times> bool \<Rightarrow> health_report option" where
  "watch_loop 0 deadline looks i seen = None"
| "watch_loop (Suc fuel) deadline looks i seen = (case watch_look deadline seen (looks i) of
     Inl report \<Rightarrow> Some report
   | Inr seen' \<Rightarrow> watch_loop fuel deadline looks (Suc i) seen')"

definition watch_start :: "rung \<times> string \<times> bool" where
  "watch_start = (Process, [], False)"

text \<open>
  The looks of one climb come no closer together than the poll interval, so the fuel is one
  look for each interval of the deadline, the first and the one past it. A watch that has
  not ended by then is the error \<open>StillWatching\<close>, which the source does not have.
\<close>

definition watch_fuel :: "duration \<Rightarrow> duration \<Rightarrow> nat" where
  "watch_fuel deadline step = deadline div step + 2"

definition watch :: "duration \<Rightarrow> duration \<Rightarrow> (nat \<Rightarrow> look) \<Rightarrow> health_report option" where
  "watch deadline step looks = watch_loop (watch_fuel deadline step) deadline looks 0 watch_start"

section \<open>The environment\<close>

text \<open>
  Answers by the number of the question. \<open>ue_stand_down\<close> and \<open>ue_bring_up\<close> give an error
  text or none; \<open>ue_session\<close> is what a started session makes of the platform state
  (also one that fails to come up);
  \<open>ue_names\<close> the files the bundle unpacks to, \<open>ue_manifest\<close> what signature and parsing give
  for its manifest, and \<open>ue_payload\<close> the verdict on sizes, digests and machine of its files. \<open>ue_text\<close> and \<open>ue_summary\<close> print errors and reports.
\<close>

record update_env =
  ue_io :: "nat \<Rightarrow> io_answer"
  ue_now :: "nat \<Rightarrow> nat"
  ue_stand_down :: "nat \<Rightarrow> string option"
  ue_stock_up :: "nat \<Rightarrow> bool"
  ue_wakelock :: "nat \<Rightarrow> bool"
  ue_bring_up :: "nat \<Rightarrow> string option"
  ue_looks :: "nat \<Rightarrow> nat \<Rightarrow> look"
  ue_session :: "nat \<Rightarrow> string \<Rightarrow> string"
  ue_names :: "(update_error, string list) result"
  ue_manifest :: "(update_error, plat_manifest) result"
  ue_payload :: "(update_error, unit) result"
  ue_deadline :: duration
  ue_poll :: duration
  ue_text :: "update_error \<Rightarrow> string"
  ue_summary :: "health_report \<Rightarrow> string"

type_synonym 'a update_tx = "(platform_disk, update_event, update_error, 'a) tx"

abbreviation fs_write :: "update_env \<Rightarrow> update_event \<Rightarrow> unit update_tx" where
  "fs_write env w \<equiv> tx_io effect (ue_io env) IoError w"

abbreviation fs_probe :: "update_env \<Rightarrow> unit update_tx" where
  "fs_probe env \<equiv> tx_probe (ue_io env) IoError"

abbreviation seq :: "unit update_tx \<Rightarrow> 'a update_tx \<Rightarrow> 'a update_tx" where
  "seq m k \<equiv> tx_bind m (\<lambda>_. k)"

section \<open>Layout\<close>

fun read_link :: "platform_disk \<Rightarrow> link \<Rightarrow> version option" where
  "read_link d Current = pd_current d"
| "read_link d Previous = pd_previous d"

definition read_selection :: "update_env \<Rightarrow> link \<Rightarrow> version option update_tx" where
  "read_selection env l = seq (fs_probe env) (tx_get (\<lambda>d. read_link d l))"

definition release_is_dir :: "platform_disk \<Rightarrow> version \<Rightarrow> bool" where
  "release_is_dir d v \<longleftrightarrow> pd_releases d v \<noteq> None"

lemma release_is_dir_other [simp]:
  "release_is_dir (d\<lparr>pd_journal := j\<rparr>) v = release_is_dir d v"
  "release_is_dir (d\<lparr>pd_state := s\<rparr>) v = release_is_dir d v"
  "release_is_dir (d\<lparr>pd_current := c\<rparr>) v = release_is_dir d v"
  "release_is_dir (d\<lparr>pd_previous := c\<rparr>) v = release_is_dir d v"
  by (simp_all add: release_is_dir_def)

definition select_link :: "update_env \<Rightarrow> link \<Rightarrow> version \<Rightarrow> unit update_tx" where
  "select_link env l v = tx_bind (tx_get (\<lambda>d. release_is_dir d v)) (\<lambda>present.
     if \<not> present then tx_err (NoSuchRelease v) else fs_write env (PointLink l v))"

definition deselect_link :: "update_env \<Rightarrow> link \<Rightarrow> unit update_tx" where
  "deselect_link env l = tx_bind (tx_get (\<lambda>d. read_link d l)) (\<lambda>target.
     if target = None then tx_ok () else fs_write env (DropLink l))"

text \<open>\<open>store::remove_tree\<close> on a release and on a staging directory.\<close>

definition remove_release :: "update_env \<Rightarrow> version \<Rightarrow> unit update_tx" where
  "remove_release env v = tx_bind (tx_get (\<lambda>d. release_is_dir d v)) (\<lambda>present.
     if \<not> present then tx_ok () else seq (fs_write env (WreckRelease v)) (fs_write env (DropRelease v)))"

definition remove_staging :: "update_env \<Rightarrow> nat \<Rightarrow> unit update_tx" where
  "remove_staging env s = fs_write env (DropStaging s)"

section \<open>Journal operations\<close>

definition journal_read :: "update_env \<Rightarrow> update_record option update_tx" where
  "journal_read env = seq (fs_probe env) (tx_bind (tx_get pd_journal) (\<lambda>j. case j of
     NoJournal \<Rightarrow> tx_ok None | Journal r \<Rightarrow> tx_ok (Some r) | JournalCorrupt \<Rightarrow> tx_err CorruptJournal))"

definition journal_record :: "update_env \<Rightarrow> update_record \<Rightarrow> unit update_tx" where
  "journal_record env r = fs_write env (PutJournal r)"

text \<open>Gives back the record as it was written.\<close>

definition journal_advance :: "update_env \<Rightarrow> update_record \<Rightarrow> phase \<Rightarrow> string \<Rightarrow> update_record update_tx" where
  "journal_advance env r p note =
     (let r' = r\<lparr>ur_phase := p, ur_note := (if note \<noteq> [] then note else ur_note r)\<rparr>
      in seq (journal_record env r') (tx_ok r'))"

section \<open>Steps\<close>

text \<open>Unpacking, the signed manifest, and that it names every file of the bundle.\<close>

definition MANIFEST_FILE_NAME :: string where
  "MANIFEST_FILE_NAME = ''platform.toml''"

definition SIGNATURE_FILE_NAME :: string where
  "SIGNATURE_FILE_NAME = ''platform.toml.sig''"

definition unlisted :: "plat_manifest \<Rightarrow> string list \<Rightarrow> string option" where
  "unlisted m names = find (\<lambda>name. name \<noteq> MANIFEST_FILE_NAME \<and> name \<noteq> SIGNATURE_FILE_NAME
     \<and> list_all (\<lambda>c. co_path c \<noteq> name) (pm_components m)) names"

definition read_release :: "update_env \<Rightarrow> (update_error, plat_manifest) result" where
  "read_release env = and_then (ue_manifest env) (\<lambda>m. and_then (manifest_check m) (\<lambda>_. Ok m))"

definition prepare :: "update_env \<Rightarrow> nat \<Rightarrow> plat_manifest update_tx" where
  "prepare env staging =
     seq (fs_write env (MakeStaging staging))
    (seq (fs_probe env)
    (tx_bind (tx_lift (ue_names env)) (\<lambda>names.
     seq (fs_write env (Unpack staging (case read_release env of Inl _ \<Rightarrow> None | Inr m \<Rightarrow> Some m)))
    (tx_bind (tx_lift (read_release env)) (\<lambda>m.
     seq (tx_lift (ue_payload env))
    (case unlisted m names of
       Some name \<Rightarrow> tx_err (ComponentError name ''in the bundle, but not in the signed manifest'')
     | None \<Rightarrow> seq (fs_probe env) (tx_ok m)))))))"

definition stand_down :: "update_env \<Rightarrow> unit update_tx" where
  "stand_down env =
     tx_bind (tx_ask (ue_stand_down env)) (\<lambda>failed.
     seq (tx_emit effect StandDown)
     (case failed of
       Some reason \<Rightarrow> tx_err (StandDownError reason)
     | None \<Rightarrow>
         tx_bind (tx_ask (ue_stock_up env)) (\<lambda>up.
           if \<not> up then tx_err (StandDownError ''stock is not running afterwards'')
           else tx_bind (tx_ask (ue_wakelock env)) (\<lambda>held.
             if \<not> held then tx_ok ()
             else tx_bind (tx_ask (ue_wakelock env)) (\<lambda>still.
               if still then tx_err WakelockStuck else tx_ok ())))))"

definition bring_up_and_grade :: "update_env \<Rightarrow> health_report update_tx" where
  "bring_up_and_grade env =
     tx_bind (tx_ask (ue_bring_up env)) (\<lambda>failed.
     tx_bind (tx_ask (ue_session env)) (\<lambda>session.
     seq (tx_emit effect (BringUp session))
     (case failed of
       Some reason \<Rightarrow> tx_err (BringUpError reason)
     | None \<Rightarrow>
         tx_bind (tx_ask (ue_looks env)) (\<lambda>looks.
           case watch (ue_deadline env) (ue_poll env) looks of
             None \<Rightarrow> tx_err StillWatching
           | Some report \<Rightarrow> tx_ok report))))"

definition restore_fallback_link :: "update_env \<Rightarrow> update_record \<Rightarrow> unit update_tx" where
  "restore_fallback_link env r = (case ur_previous_before r of
     Some v \<Rightarrow> tx_bind (tx_get (\<lambda>d. release_is_dir d v)) (\<lambda>present.
       if present then select_link env Previous v else deselect_link env Previous)
   | None \<Rightarrow> deselect_link env Previous)"

definition restore_snapshot :: "update_env \<Rightarrow> update_record \<Rightarrow> bool update_tx" where
  "restore_snapshot env r = (case ur_snapshot r of
     None \<Rightarrow> tx_ok False
   | Some v \<Rightarrow> tx_bind (tx_get (\<lambda>d. pd_snapshots d v \<noteq> None)) (\<lambda>present.
       if \<not> present then tx_ok False
       else seq (fs_probe env)
         (tx_bind (tx_get (\<lambda>d. pd_state d \<noteq> None)) (\<lambda>live.
          seq (if live then fs_write env DropState else tx_ok ())
          (seq (fs_write env (RestoreState v)) (tx_ok True))))))"

definition snapshot_for_rollback :: "update_env \<Rightarrow> version option \<Rightarrow> plat_manifest \<Rightarrow> version option update_tx" where
  "snapshot_for_rollback env from candidate = (case from of
     None \<Rightarrow> tx_ok None
   | Some f \<Rightarrow> tx_bind (tx_get (\<lambda>d. pd_releases d f)) (\<lambda>outgoing.
       let readable = (case outgoing of Some (Some m) \<Rightarrow> Some (pm_state_version m) | _ \<Rightarrow> None)
       in if (case readable of Some reads \<Rightarrow> readable_by_state_version candidate reads | None \<Rightarrow> False)
          then tx_ok None
          else tx_match
            (tx_bind (tx_get (\<lambda>d. pd_snapshots d f \<noteq> None)) (\<lambda>present.
               seq (if present then fs_write env (DropSnapshot f) else tx_ok ())
                 (fs_write env (TakeSnapshot f))))
            (\<lambda>_. tx_err (StateNotRollbackSafe f (pm_version candidate) (pm_rollback_to candidate)
               (case readable of Some reads \<Rightarrow> reads | None \<Rightarrow> 0)))
            (\<lambda>_. tx_ok (Some f))))"

section \<open>The commands\<close>

datatype update_outcome =
    Upgraded "version option" version health_report
  | RolledBackTo version version unhealthy health_report
  | Stranded version unhealthy "string option"

datatype reconciled =
    Nothing
  | DiscardedStaging version
  | Reverted version "version option" bool

definition refuse_if_in_flight :: "update_env \<Rightarrow> unit update_tx" where
  "refuse_if_in_flight env = tx_bind (journal_read env) (\<lambda>j. case j of
     Some r \<Rightarrow> if is_in_flight r then tx_err (InFlight (phase_label (ur_phase r)) (ur_to r)) else tx_ok ()
   | None \<Rightarrow> tx_ok ())"

text \<open>The second half of \<open>roll_back\<close>: one climb for the release that was put back.\<close>

definition grade_restored :: "update_env \<Rightarrow> update_record \<Rightarrow> version \<Rightarrow> version \<Rightarrow> unhealthy \<Rightarrow> update_outcome update_tx" where
  "grade_restored env r1 candidate fallback failure =
     tx_bind (journal_advance env (r1\<lparr>ur_attempts := Suc (ur_attempts r1)\<rparr>) Verify ''grading the restored release'') (\<lambda>r2.
     tx_match (bring_up_and_grade env)
       (\<lambda>e. tx_bind (journal_advance env r2 Failed (''rollback: '' @ ue_text env e))
          (\<lambda>_. tx_ok (Stranded candidate failure (Some (ue_text env e)))))
       (\<lambda>health.
          let r3 = r2\<lparr>ur_reached := Some (rung_label (hr_reached health))\<rparr>
          in if health_failure health \<noteq> None
             then seq (tx_try (stand_down env))
               (tx_bind (journal_advance env r3 Failed
                   (''the previous release also failed to come up: '' @ ue_summary env health))
                  (\<lambda>_. tx_ok (Stranded candidate failure (Some (ue_summary env health)))))
             else tx_bind (journal_advance env r3 RolledBack
                   (candidate @ '' refused ('' @ unhealthy_text failure @ ''); '' @ fallback @ '' is back''))
                  (\<lambda>_. tx_ok (RolledBackTo candidate fallback failure health))))"

definition roll_back :: "update_env \<Rightarrow> update_record \<Rightarrow> version \<Rightarrow> unhealthy \<Rightarrow> update_outcome update_tx" where
  "roll_back env r0 candidate failure =
     tx_bind (journal_advance env r0 Activate (''rolling back: '' @ unhealthy_text failure)) (\<lambda>r1.
     tx_match (stand_down env)
       (\<lambda>e. tx_bind (journal_advance env r1 Failed (''rollback: '' @ ue_text env e))
              (\<lambda>_. tx_ok (Stranded candidate failure (Some (ue_text env e)))))
       (\<lambda>_. case ur_from r1 of
          None \<Rightarrow>
            seq (deselect_link env Current)
           (tx_bind (journal_advance env r1 Failed
              ''the first platform release failed; nothing is selected and the device is at stock'')
              (\<lambda>_. tx_ok (Stranded candidate failure None)))
        | Some fallback \<Rightarrow>
            seq (select_link env Current fallback)
           (seq (restore_fallback_link env r1)
           (tx_bind (restore_snapshot env r1) (\<lambda>_. grade_restored env r1 candidate fallback failure)))))"

text \<open>\<open>prune\<close>: every installed release but two; the names are those \<open>installed\<close> lists.\<close>

fun prune_loop :: "update_env \<Rightarrow> version \<Rightarrow> version option \<Rightarrow> version list \<Rightarrow> unit update_tx" where
  "prune_loop env current previous [] = tx_ok ()"
| "prune_loop env current previous (v # vs) =
     (if v = current \<or> Some v = previous then prune_loop env current previous vs
      else seq (remove_release env v) (prune_loop env current previous vs))"

definition prune :: "update_env \<Rightarrow> (platform_disk \<Rightarrow> version list) \<Rightarrow> version \<Rightarrow> version option \<Rightarrow> unit update_tx" where
  "prune env installed current previous =
     seq (fs_probe env) (tx_bind (tx_get installed) (prune_loop env current previous))"

text \<open>From the activation on: stand down, move both links, start and grade the candidate.\<close>

definition activate :: "update_env \<Rightarrow> version option \<Rightarrow> version \<Rightarrow> unit update_tx" where
  "activate env from candidate =
     seq (stand_down env)
    (seq (case from of Some f \<Rightarrow> select_link env Previous f | None \<Rightarrow> deselect_link env Previous)
         (select_link env Current candidate))"

definition verify :: "update_env \<Rightarrow> (platform_disk \<Rightarrow> version list) \<Rightarrow> version option \<Rightarrow> version \<Rightarrow> update_record
    \<Rightarrow> update_outcome update_tx" where
  "verify env installed from candidate r =
     tx_bind (journal_advance env (r\<lparr>ur_attempts := Suc (ur_attempts r)\<rparr>) Verify ''grading the candidate'') (\<lambda>r1.
     tx_bind (bring_up_and_grade env) (\<lambda>health.
     let r2 = r1\<lparr>ur_reached := Some (rung_label (hr_reached health))\<rparr>
     in seq (journal_record env r2)
       (case health_failure health of
          None \<Rightarrow> tx_bind (journal_advance env r2 Commit (ue_summary env health)) (\<lambda>_.
            seq (prune env installed candidate from) (tx_ok (Upgraded from candidate health)))
        | Some failure \<Rightarrow> roll_back env r2 candidate failure)))"

definition place_release :: "update_env \<Rightarrow> nat \<Rightarrow> version \<Rightarrow> unit update_tx" where
  "place_release env staging candidate =
     seq (remove_release env candidate)
    (seq (fs_probe env) (fs_write env (CommitRelease staging candidate)))"

text \<open>From the verified candidate on.\<close>

definition upgrade_candidate :: "update_env \<Rightarrow> (platform_disk \<Rightarrow> version list) \<Rightarrow> version option \<Rightarrow> nat
    \<Rightarrow> plat_manifest \<Rightarrow> update_record \<Rightarrow> update_outcome update_tx" where
  "upgrade_candidate env installed from staging manifest r1 =
     (let candidate = pm_version manifest; r2 = r1\<lparr>ur_staged := None\<rparr>
      in seq (place_release env staging candidate)
        (seq (journal_record env r2)
        (tx_bind (snapshot_for_rollback env from manifest) (\<lambda>snapshot.
         let r3 = r2\<lparr>ur_snapshot := snapshot\<rparr>
         in seq (journal_record env r3)
           (tx_bind (journal_advance env r3 Activate ''standing down to stock'') (\<lambda>r4.
            seq (activate env from candidate) (verify env installed from candidate r4)))))))"

definition run_upgrade :: "update_env \<Rightarrow> (platform_disk \<Rightarrow> version list) \<Rightarrow> update_outcome update_tx" where
  "run_upgrade env installed =
     seq (fs_probe env)
    (seq (refuse_if_in_flight env)
    (tx_bind (read_selection env Current) (\<lambda>from.
     tx_bind (read_selection env Previous) (\<lambda>previous_before.
     tx_bind (tx_ask (ue_now env)) (\<lambda>staging.
     let r0 = (record_opening from ''0.0.0'')\<lparr>ur_previous_before := previous_before, ur_staged := Some staging,
                 ur_note := ''staging a bundle; its version is not known yet''\<rparr>
     in seq (journal_record env r0)
       (tx_match (prepare env staging)
          (\<lambda>e. seq (tx_try (remove_staging env staging))
            (seq (tx_try (journal_advance env (r0\<lparr>ur_staged := None\<rparr>) Failed (ue_text env e)))
              (tx_err e)))
          (\<lambda>manifest.
             let r1 = r0\<lparr>ur_to := pm_version manifest\<rparr>
             in seq (journal_record env r1)
               (if from = Some (pm_version manifest)
                then seq (tx_try (remove_staging env staging))
                  (seq (tx_try (journal_advance env (r1\<lparr>ur_staged := None\<rparr>) Failed ''already selected''))
                    (tx_err (AlreadySelected (pm_version manifest))))
                else upgrade_candidate env installed from staging manifest r1))))))))"

definition rollback_on_request :: "update_env \<Rightarrow> update_outcome update_tx" where
  "rollback_on_request env =
     seq (fs_probe env)
    (seq (refuse_if_in_flight env)
    (tx_bind (read_selection env Current) (\<lambda>current.
     tx_bind (read_selection env Previous) (\<lambda>previous. case previous of
       None \<Rightarrow> tx_err (ManifestError ''no previous release is recorded, so there is nothing to roll back to'')
     | Some fallback \<Rightarrow>
         (let candidate = (case current of Some c \<Rightarrow> c | None \<Rightarrow> fallback);
              r = (record_opening current fallback)\<lparr>ur_previous_before := current, ur_note := ''rollback requested''\<rparr>;
              failure = \<lparr>un_reached = Ready, un_stalled_at = Ready, un_note = ''rollback requested by hand'', un_died = False\<rparr>
          in tx_bind (journal_advance env r Activate ''rollback requested'') (\<lambda>r1.
               roll_back env r1 candidate failure))))))"

definition reconcile :: "update_env \<Rightarrow> reconciled update_tx" where
  "reconcile env = tx_bind (journal_read env) (\<lambda>j. case j of
     None \<Rightarrow> tx_ok Nothing
   | Some r \<Rightarrow>
       if is_terminal (ur_phase r) then tx_ok Nothing
       else case ur_phase r of
         Prepare \<Rightarrow>
           seq (case ur_staged r of Some s \<Rightarrow> tx_try (remove_staging env s) | None \<Rightarrow> tx_ok ())
          (tx_bind (read_selection env Current) (\<lambda>selected.
           tx_bind (read_selection env Previous) (\<lambda>fallback.
           seq (if selected \<noteq> Some (ur_to r) \<and> fallback \<noteq> Some (ur_to r)
                then tx_try (remove_release env (ur_to r)) else tx_ok ())
          (tx_bind (journal_advance env (r\<lparr>ur_staged := None\<rparr>) Failed
              ''interrupted while staging; the candidate was discarded'')
            (\<lambda>_. tx_ok (DiscardedStaging (ur_to r)))))))
       | p \<Rightarrow>
           (if p = Activate \<or> p = Verify then
              seq (case ur_from r of Some v \<Rightarrow> select_link env Current v | None \<Rightarrow> deselect_link env Current)
             (seq (restore_fallback_link env r)
             (tx_bind (restore_snapshot env r) (\<lambda>state_restored.
              tx_bind (journal_advance env r RolledBack
                (if MAX_ATTEMPTS \<le> ur_attempts r
                 then ''interrupted after the candidate's one attempt; reverted rather than retried''
                 else ''interrupted before the candidate committed; reverted''))
                (\<lambda>_. tx_ok (Reverted (ur_to r) (ur_from r) state_restored)))))
            else tx_ok Nothing))"

section \<open>What every cut leaves\<close>

text \<open>
  A transaction starts on disk \<open>d0\<close> and means to give \<open>previous\<close> back as \<open>p\<close>. The release
  that was selected is never touched, and what else holds depends on the phase on record.
\<close>

definition kept :: "platform_disk \<Rightarrow> platform_disk \<Rightarrow> bool" where
  "kept d0 d \<longleftrightarrow> (\<forall>v. pd_current d0 = Some v \<longrightarrow> pd_releases d v = pd_releases d0 v)"

definition content :: "platform_disk \<Rightarrow> string" where
  "content d = (case pd_state d of None \<Rightarrow> [] | Some s \<Rightarrow> s)"

definition opened :: "platform_disk \<Rightarrow> version option \<Rightarrow> update_record \<Rightarrow> bool" where
  "opened d0 p r \<longleftrightarrow> ur_from r = pd_current d0 \<and> ur_previous_before r = p"

definition snapshot_ok :: "platform_disk \<Rightarrow> update_record \<Rightarrow> platform_disk \<Rightarrow> bool" where
  "snapshot_ok d0 r d \<longleftrightarrow> (\<forall>v. ur_snapshot r = Some v \<longrightarrow> pd_snapshots d v = Some (content d0))"

definition staging_ok :: "platform_disk \<Rightarrow> platform_disk \<Rightarrow> bool" where
  "staging_ok d0 d \<longleftrightarrow> pd_current d = pd_current d0 \<and> pd_previous d = pd_previous d0 \<and> pd_state d = pd_state d0"

definition reverted :: "platform_disk \<Rightarrow> version option \<Rightarrow> platform_disk \<Rightarrow> bool" where
  "reverted d0 p d \<longleftrightarrow> pd_current d = pd_current d0 \<and> pd_previous d \<in> {p, None, pd_previous d0}"

definition phase_ok :: "platform_disk \<Rightarrow> version option \<Rightarrow> update_record \<Rightarrow> platform_disk \<Rightarrow> bool" where
  "phase_ok d0 p r d \<longleftrightarrow> kept d0 d \<and> (case ur_phase r of
     Prepare \<Rightarrow> opened d0 p r \<and> staging_ok d0 d
   | Activate \<Rightarrow> opened d0 p r \<and> snapshot_ok d0 r d
   | Verify \<Rightarrow> opened d0 p r \<and> snapshot_ok d0 r d
   | Commit \<Rightarrow> pd_current d = Some (ur_to r) \<and> pd_previous d = pd_current d0 \<and> release_is_dir d (ur_to r)
   | RolledBack \<Rightarrow> reverted d0 p d
   | Failed \<Rightarrow> reverted d0 p d \<or> pd_current d = Some (ur_to r) \<and> pd_previous d = pd_current d0)"

definition noted :: "platform_disk \<Rightarrow> version option \<Rightarrow> update_record \<Rightarrow> platform_disk \<Rightarrow> bool" where
  "noted d0 p r d \<longleftrightarrow> pd_journal d = Journal r \<and> phase_ok d0 p r d"

definition cut_ok :: "platform_disk \<Rightarrow> version option \<Rightarrow> platform_disk \<Rightarrow> bool" where
  "cut_ok d0 p d \<longleftrightarrow> d = d0 \<or> (\<exists>r. noted d0 p r d)"

lemma noted_cut [simp]: "noted d0 p r d \<Longrightarrow> cut_ok d0 p d"
  by (auto simp: cut_ok_def)

lemma cut_start [simp]: "cut_ok d0 p d0"
  by (simp add: cut_ok_def)

text \<open>All programs of the transaction keep \<open>cut_ok\<close> at every cut and when they fail.\<close>

abbreviation safe :: "platform_disk \<Rightarrow> version option \<Rightarrow> (platform_disk \<Rightarrow> bool) \<Rightarrow> 'a update_tx \<Rightarrow> ('a \<Rightarrow> platform_disk \<Rightarrow> bool) \<Rightarrow> bool" where
  "safe d0 p P m Q \<equiv> triple effect (cut_ok d0 p) P m Q (cut_ok d0 p)"

lemma safe_write:
  "(\<And>d. P d \<Longrightarrow> cut_ok d0 p d \<and> cut_ok d0 p (effect d w) \<and> Q () (effect d w)) \<Longrightarrow> safe d0 p P (fs_write env w) Q"
  by (rule triple_io) blast

lemma safe_probe: "(\<And>d. P d \<Longrightarrow> cut_ok d0 p d \<and> Q () d) \<Longrightarrow> safe d0 p P (fs_probe env) Q"
  by (rule triple_probe) blast

text \<open>The assertion of the middle phases: what is on record, and a condition on the disk.\<close>

definition holding :: "platform_disk \<Rightarrow> version option \<Rightarrow> update_record \<Rightarrow> (platform_disk \<Rightarrow> bool) \<Rightarrow> platform_disk \<Rightarrow> bool" where
  "holding d0 p r X d \<longleftrightarrow> noted d0 p r d \<and> X d"

lemma holding_cut [simp]: "holding d0 p r X d \<Longrightarrow> cut_ok d0 p d"
  by (auto simp: holding_def)

lemma safe_select:
  assumes "\<And>d. P d \<Longrightarrow> cut_ok d0 p d"
    and "\<And>d. P d \<Longrightarrow> release_is_dir d v \<Longrightarrow> cut_ok d0 p (effect d (PointLink l v)) \<and> Q () (effect d (PointLink l v))"
  shows "safe d0 p P (select_link env l v) Q"
  unfolding select_link_def
  by (rule triple_bind [where Q = "\<lambda>b d. P d \<and> b = release_is_dir d v"])
    (use assms in \<open>auto intro!: triple_get triple_err safe_write\<close>)

lemma safe_deselect:
  assumes "\<And>d. P d \<Longrightarrow> cut_ok d0 p d"
    and "\<And>d. P d \<Longrightarrow> read_link d l = None \<Longrightarrow> Q () d"
    and "\<And>d. P d \<Longrightarrow> read_link d l \<noteq> None \<Longrightarrow> cut_ok d0 p (effect d (DropLink l)) \<and> Q () (effect d (DropLink l))"
  shows "safe d0 p P (deselect_link env l) Q"
  unfolding deselect_link_def
  by (rule triple_bind [where Q = "\<lambda>t d. P d \<and> (t = None \<longleftrightarrow> read_link d l = None)"])
    (use assms in \<open>auto intro!: triple_get triple_ok safe_write simp del: effect.simps not_None_eq\<close>)

lemma safe_remove_release:
  assumes "\<And>d. P d \<Longrightarrow> cut_ok d0 p d" and "\<And>d. P d \<Longrightarrow> P (effect d (WreckRelease v))"
    and "\<And>d. P d \<Longrightarrow> P (effect d (DropRelease v))"
  shows "triple effect (cut_ok d0 p) P (remove_release env v) (\<lambda>_. P) P"
  unfolding remove_release_def
  by (rule triple_bind [where Q = "\<lambda>_. P"])
    (use assms in \<open>auto intro!: triple_get triple_ok triple_io triple_bind [where Q = "\<lambda>_. P"] simp del: effect.simps\<close>)

lemma safe_advance:
  assumes "\<And>d. P d \<Longrightarrow> cut_ok d0 p d"
    and "\<And>d r'. P d \<Longrightarrow> r' = r\<lparr>ur_phase := ph, ur_note := (if note \<noteq> [] then note else ur_note r)\<rparr> \<Longrightarrow>
      cut_ok d0 p (d\<lparr>pd_journal := Journal r'\<rparr>) \<and> Q r' (d\<lparr>pd_journal := Journal r'\<rparr>)"
  shows "safe d0 p P (journal_advance env r ph note) Q"
  unfolding journal_advance_def journal_record_def Let_def
  by (rule triple_bind [where Q = "\<lambda>_ d. cut_ok d0 p d
        \<and> Q (r\<lparr>ur_phase := ph, ur_note := (if note \<noteq> [] then note else ur_note r)\<rparr>) d"
        and R = "cut_ok d0 p"])
    (use assms in \<open>auto intro!: safe_write triple_ok\<close>)

section \<open>Triples of the steps\<close>

text \<open>Programs that leave what \<open>cut_ok\<close> speaks about alone.\<close>

lemma safe_stand_down:
  "(\<And>d. P d \<Longrightarrow> cut_ok d0 p d) \<Longrightarrow> triple effect (cut_ok d0 p) P (stand_down env) (\<lambda>_. P) P"
  unfolding stand_down_def
  by (rule triple_bind [where Q = "\<lambda>_. P"], rule triple_ask, simp,
      rule triple_bind [where Q = "\<lambda>_. P"], rule triple_emit, simp)
    (auto split: option.splits intro!: triple_ask triple_ok triple_err triple_bind [where Q = "\<lambda>_. P"])

lemma noted_state [simp]:
  "ur_phase r \<noteq> Prepare \<Longrightarrow> noted d0 p r (d\<lparr>pd_state := s\<rparr>) = noted d0 p r d"
  by (cases "ur_phase r")
    (simp_all add: noted_def phase_ok_def kept_def snapshot_ok_def reverted_def release_is_dir_def)

lemma safe_bring_up:
  assumes "\<And>d. P d \<Longrightarrow> cut_ok d0 p d" and "\<And>d s. P d \<Longrightarrow> P (d\<lparr>pd_state := s\<rparr>)"
  shows "triple effect (cut_ok d0 p) P (bring_up_and_grade env) (\<lambda>_. P) P"
  unfolding bring_up_and_grade_def
  by (rule triple_bind [where Q = "\<lambda>_. P"], rule triple_ask, simp add: assms,
      rule triple_bind [where Q = "\<lambda>_. P"], rule triple_ask, simp add: assms,
      rule triple_bind [where Q = "\<lambda>_. P"], rule triple_emit, simp add: assms)
    (use assms in \<open>auto split: option.splits intro!: triple_ask triple_ok triple_err
      triple_bind [where Q = "\<lambda>_. P"]\<close>)

text \<open>Writing only below \<open>staging\<close>.\<close>

lemma noted_staging [simp]: "noted d0 p r (d\<lparr>pd_staging := s\<rparr>) = noted d0 p r d"
  by (cases "ur_phase r")
    (simp_all add: noted_def phase_ok_def kept_def staging_ok_def snapshot_ok_def reverted_def release_is_dir_def)

lemma safe_prepare: "triple effect (cut_ok d0 p) (noted d0 p r) (prepare env s) (\<lambda>_. noted d0 p r) (noted d0 p r)"
  unfolding prepare_def
  by (rule triple_bind [where Q = "\<lambda>_. noted d0 p r"], rule triple_io, simp,
      rule triple_bind [where Q = "\<lambda>_. noted d0 p r"], rule triple_probe, simp,
      rule triple_bind [where Q = "\<lambda>_. noted d0 p r"], rule triple_lift, simp,
      rule triple_bind [where Q = "\<lambda>_. noted d0 p r"], rule triple_io, simp,
      rule triple_bind [where Q = "\<lambda>_. noted d0 p r"], rule triple_lift, simp,
      rule triple_bind [where Q = "\<lambda>_. noted d0 p r"], rule triple_lift, simp)
    (auto split: option.splits intro!: triple_err triple_bind [where Q = "\<lambda>_. noted d0 p r"] triple_probe triple_ok)

text \<open>Replacing a release that is not the selected one.\<close>

lemma noted_releases:
  "ur_phase r \<noteq> Commit \<Longrightarrow> pd_current d0 \<noteq> Some v \<Longrightarrow>
     noted d0 p r (d\<lparr>pd_releases := (pd_releases d)(v := x)\<rparr>) = noted d0 p r d"
  by (cases "ur_phase r")
    (auto simp: noted_def phase_ok_def kept_def staging_ok_def snapshot_ok_def reverted_def)

lemma safe_place:
  assumes "ur_phase r = Prepare" and "pd_current d0 \<noteq> Some v"
  shows "safe d0 p (noted d0 p r) (place_release env s v) (\<lambda>_. noted d0 p r)"
proof -
  have rm: "triple effect (cut_ok d0 p) (noted d0 p r) (remove_release env v) (\<lambda>_. noted d0 p r) (noted d0 p r)"
    using assms by (intro safe_remove_release) (simp_all add: noted_releases)
  have commit: "noted d0 p r (effect d (CommitRelease s v))" if "noted d0 p r d" for d
    using that assms noted_releases [of r d0 v p d "pd_staging d s"] noted_staging
    by (simp add: noted_def phase_ok_def kept_def staging_ok_def)
  show ?thesis
    unfolding place_release_def
    by (rule triple_bind [where Q = "\<lambda>_. noted d0 p r"], rule triple_conseq [OF rm]; simp?)
      (auto intro!: triple_bind [where Q = "\<lambda>_. noted d0 p r"] safe_probe safe_write commit noted_cut [OF commit] simp del: effect.simps)
qed

lemma noted_snapshots:
  "ur_phase r = Prepare \<Longrightarrow> noted d0 p r (d\<lparr>pd_snapshots := s\<rparr>) = noted d0 p r d"
  by (simp add: noted_def phase_ok_def kept_def staging_ok_def)

definition snapshot_taken :: "platform_disk \<Rightarrow> version option \<Rightarrow> platform_disk \<Rightarrow> bool" where
  "snapshot_taken d0 s d \<longleftrightarrow> (\<forall>v. s = Some v \<longrightarrow> pd_snapshots d v = Some (content d0))"

lemma safe_snapshot:
  assumes r: "ur_phase r = Prepare"
  shows "safe d0 p (noted d0 p r) (snapshot_for_rollback env f m) (\<lambda>s d. noted d0 p r d \<and> snapshot_taken d0 s d)"
proof (cases f)
  case None
  then show ?thesis by (auto simp: snapshot_for_rollback_def snapshot_taken_def intro!: triple_ok)
next
  case (Some v)
  have stable: "noted d0 p r (effect d (DropSnapshot v))" "noted d0 p r (effect d (TakeSnapshot v))"
    and taken: "snapshot_taken d0 (Some v) (effect d (TakeSnapshot v))" if "noted d0 p r d" for d
    using that r by (simp_all add: noted_snapshots)
      (simp add: noted_def phase_ok_def staging_ok_def snapshot_taken_def content_def)
  have "safe d0 p (noted d0 p r)
      (tx_bind (tx_get (\<lambda>d. pd_snapshots d v \<noteq> None)) (\<lambda>present.
         seq (if present then fs_write env (DropSnapshot v) else tx_ok ()) (fs_write env (TakeSnapshot v))))
      (\<lambda>_ d. noted d0 p r d \<and> snapshot_taken d0 (Some v) d)"
    by (rule triple_bind [where Q = "\<lambda>_. noted d0 p r"], rule triple_get, simp,
        rule triple_bind [where Q = "\<lambda>_. noted d0 p r"])
      (auto intro!: safe_write triple_ok simp: stable taken noted_cut [OF stable(1)] noted_cut [OF stable(2)]
        simp del: effect.simps)
  then show ?thesis
    unfolding snapshot_for_rollback_def Some option.case
    by (intro triple_bind [where Q = "\<lambda>_. noted d0 p r"])
      (auto simp: snapshot_taken_def Let_def intro!: triple_get triple_ok triple_match triple_err)
qed

lemma noted_links [simp]:
  "ur_phase r \<in> {Activate, Verify} \<Longrightarrow> noted d0 p r (d\<lparr>pd_current := x\<rparr>) = noted d0 p r d"
  "ur_phase r \<in> {Activate, Verify} \<Longrightarrow> noted d0 p r (d\<lparr>pd_previous := x\<rparr>) = noted d0 p r d"
  by (auto simp: noted_def phase_ok_def kept_def snapshot_ok_def)

definition pointing :: "version option \<Rightarrow> version option \<Rightarrow> platform_disk \<Rightarrow> bool" where
  "pointing c p d \<longleftrightarrow> pd_current d = c \<and> pd_previous d = p \<and> (\<forall>v. c = Some v \<longrightarrow> release_is_dir d v)"

lemma safe_activate:
  assumes r: "ur_phase r = Activate"
  shows "safe d0 p (noted d0 p r) (activate env (pd_current d0) v)
    (\<lambda>_. holding d0 p r (pointing (Some v) (pd_current d0)))"
proof -
  have first: "safe d0 p (noted d0 p r)
      (case pd_current d0 of Some f \<Rightarrow> select_link env Previous f | None \<Rightarrow> deselect_link env Previous)
      (\<lambda>_. holding d0 p r (\<lambda>d. pd_previous d = pd_current d0))"
    using r by (auto split: option.splits simp: holding_def intro!: safe_select safe_deselect noted_cut [of d0 _ r])
  have second: "safe d0 p (holding d0 p r (\<lambda>d. pd_previous d = pd_current d0)) (select_link env Current v)
      (\<lambda>_. holding d0 p r (pointing (Some v) (pd_current d0)))"
    using r by (intro safe_select)
      (auto simp: holding_def pointing_def release_is_dir_def intro!: noted_cut [of d0 _ r])
  show ?thesis
    unfolding activate_def
    by (rule triple_bind [where Q = "\<lambda>_. noted d0 p r"], rule triple_conseq [OF safe_stand_down [of "noted d0 p r"]]; simp?)
      (rule triple_bind [OF first second])
qed

section \<open>Rolling back\<close>

text \<open>How the links may stand when a rollback starts, and how it leaves them.\<close>

definition startable :: "platform_disk \<Rightarrow> version option \<Rightarrow> update_record \<Rightarrow> platform_disk \<Rightarrow> bool" where
  "startable d0 p r d \<longleftrightarrow> reverted d0 p d \<or> pd_current d = Some (ur_to r) \<and> pd_previous d = pd_current d0"

definition links_back :: "platform_disk \<Rightarrow> version option \<Rightarrow> platform_disk \<Rightarrow> bool" where
  "links_back d0 p d \<longleftrightarrow> pd_current d = pd_current d0
     \<and> pd_previous d = (case p of Some v \<Rightarrow> if release_is_dir d v then Some v else None | None \<Rightarrow> None)"

lemma links_back_reverted: "links_back d0 p d \<Longrightarrow> reverted d0 p d"
  by (auto simp: links_back_def reverted_def split: option.splits if_splits)

lemma links_back_other [simp]:
  "links_back d0 p (d\<lparr>pd_journal := j\<rparr>) = links_back d0 p d"
  "links_back d0 p (d\<lparr>pd_state := s\<rparr>) = links_back d0 p d"
  by (cases p; simp add: links_back_def)+

lemma startable_journal [simp]: "startable d0 p r' (d\<lparr>pd_journal := j\<rparr>) = startable d0 p r' d"
  by (simp add: startable_def reverted_def)

text \<open>Moving the record on within the middle phases, and to its end.\<close>

lemma noted_middle:
  "noted d0 p r d \<Longrightarrow> ur_phase r \<in> {Activate, Verify} \<Longrightarrow> ur_phase r' \<in> {Activate, Verify} \<Longrightarrow>
     ur_from r' = ur_from r \<Longrightarrow> ur_previous_before r' = ur_previous_before r \<Longrightarrow> ur_snapshot r' = ur_snapshot r \<Longrightarrow>
     noted d0 p r' (d\<lparr>pd_journal := Journal r'\<rparr>)"
  by (auto simp: noted_def phase_ok_def kept_def opened_def snapshot_ok_def)

lemma noted_failed:
  "noted d0 p r d \<Longrightarrow> startable d0 p r' d \<Longrightarrow> ur_phase r' = Failed \<Longrightarrow> noted d0 p r' (d\<lparr>pd_journal := Journal r'\<rparr>)"
  by (auto simp: noted_def phase_ok_def kept_def startable_def reverted_def)

lemma noted_rolled:
  "noted d0 p r d \<Longrightarrow> reverted d0 p d \<Longrightarrow> ur_phase r' = RolledBack \<Longrightarrow> noted d0 p r' (d\<lparr>pd_journal := Journal r'\<rparr>)"
  by (auto simp: noted_def phase_ok_def kept_def reverted_def)

definition ended :: "platform_disk \<Rightarrow> version option \<Rightarrow> phase \<Rightarrow> (platform_disk \<Rightarrow> bool) \<Rightarrow> platform_disk \<Rightarrow> bool" where
  "ended d0 p ph X d \<longleftrightarrow> (\<exists>r. noted d0 p r d \<and> ur_phase r = ph) \<and> X d"

lemma ended_cut [simp]: "ended d0 p ph X d \<Longrightarrow> cut_ok d0 p d"
  by (auto simp: ended_def)

lemma safe_fail:
  assumes "\<And>d. P d \<Longrightarrow> noted d0 p q d \<and> startable d0 p r d"
  shows "safe d0 p P (journal_advance env r Failed note) (\<lambda>_. ended d0 p Failed (\<lambda>_. True))"
proof (rule safe_advance)
  fix d r' assume P: "P d" and r': "r' = r\<lparr>ur_phase := Failed, ur_note := (if note \<noteq> [] then note else ur_note r)\<rparr>"
  from assms [OF P] have "noted d0 p r' (d\<lparr>pd_journal := Journal r'\<rparr>)"
    by (intro noted_failed [of d0 p q]) (auto simp: r' startable_def)
  then show "cut_ok d0 p (d\<lparr>pd_journal := Journal r'\<rparr>) \<and> ended d0 p Failed (\<lambda>_. True) (d\<lparr>pd_journal := Journal r'\<rparr>)"
    by (auto simp: ended_def r')
qed (rule noted_cut, use assms in blast)

lemma safe_middle:
  assumes "\<And>d. P d \<Longrightarrow> noted d0 p r d" and "ur_phase r \<in> {Activate, Verify}" and "ph \<in> {Activate, Verify}"
    and "r' = r\<lparr>ur_phase := ph, ur_note := (if note \<noteq> [] then note else ur_note r)\<rparr>"
    and "\<And>d. P d \<Longrightarrow> X (d\<lparr>pd_journal := Journal r'\<rparr>)"
  shows "safe d0 p P (journal_advance env r ph note) (\<lambda>s d. s = r' \<and> holding d0 p r' X d)"
proof (rule safe_advance)
  fix d s assume P: "P d" and "s = r\<lparr>ur_phase := ph, ur_note := (if note \<noteq> [] then note else ur_note r)\<rparr>"
  then have s: "s = r'" using assms(4) by simp
  have "noted d0 p r' (d\<lparr>pd_journal := Journal r'\<rparr>)"
    using assms by (intro noted_middle [OF assms(1) [OF P]]) auto
  with assms(5) [OF P] s show "cut_ok d0 p (d\<lparr>pd_journal := Journal s\<rparr>) \<and>
      (s = r' \<and> holding d0 p r' X (d\<lparr>pd_journal := Journal s\<rparr>))" by (simp add: holding_def)
qed (rule noted_cut, use assms(1) in blast)

lemma safe_restore_link:
  assumes r: "ur_phase r \<in> {Activate, Verify}" and p: "ur_previous_before r = p"
  shows "safe d0 p (holding d0 p r (\<lambda>d. pd_current d = pd_current d0)) (restore_fallback_link env r)
    (\<lambda>_. holding d0 p r (links_back d0 p))"
proof (cases p)
  case None
  with r p show ?thesis
    by (auto simp: restore_fallback_link_def holding_def links_back_def intro!: safe_deselect noted_cut [of d0 _ r])
next
  case (Some v)
  have "safe d0 p (\<lambda>d. holding d0 p r (\<lambda>d. pd_current d = pd_current d0) d \<and> b = release_is_dir d v)
      (if b then select_link env Previous v else deselect_link env Previous) (\<lambda>_. holding d0 p r (links_back d0 p))" for b
    using r Some by (auto simp: holding_def links_back_def release_is_dir_def
        intro!: safe_deselect safe_select noted_cut [of d0 _ r])
  with Some p show ?thesis
    by (auto simp: restore_fallback_link_def intro!: triple_get
        triple_bind [where Q = "\<lambda>b d. holding d0 p r (\<lambda>d. pd_current d = pd_current d0) d \<and> b = release_is_dir d v"])
qed

text \<open>The snapshot brings the platform state back as it was.\<close>

definition state_back :: "platform_disk \<Rightarrow> bool \<Rightarrow> platform_disk \<Rightarrow> bool" where
  "state_back d0 b d \<longleftrightarrow> (b \<longrightarrow> pd_state d = Some (content d0))"

lemma safe_restore_snapshot:
  assumes r: "ur_phase r \<in> {Activate, Verify}" and X: "\<And>d s. X (d\<lparr>pd_state := s\<rparr>) = X d"
  shows "safe d0 p (holding d0 p r X) (restore_snapshot env r) (\<lambda>b d. holding d0 p r X d \<and> state_back d0 b d)"
proof (cases "ur_snapshot r")
  case None
  then show ?thesis by (auto simp: restore_snapshot_def state_back_def intro!: triple_ok)
next
  case (Some v)
  have st: "holding d0 p r X (d\<lparr>pd_state := s\<rparr>)" if "holding d0 p r X d" for d s
    using that r X by (auto simp: holding_def)
  have brought: "state_back d0 True (effect d (RestoreState v))" if "holding d0 p r X d" for d
    using that r Some by (auto simp: holding_def noted_def phase_ok_def snapshot_ok_def state_back_def)
  show ?thesis
    unfolding restore_snapshot_def Some option.case
  proof (rule triple_bind [where Q = "\<lambda>_. holding d0 p r X"], rule triple_get, simp, rule triple_if)
    show "safe d0 p (holding d0 p r X) (tx_ok False) (\<lambda>b d. holding d0 p r X d \<and> state_back d0 b d)"
      by (rule triple_ok) (simp add: state_back_def)
    show "safe d0 p (holding d0 p r X) (seq (fs_probe env) (tx_bind (tx_get (\<lambda>d. pd_state d \<noteq> None)) (\<lambda>live.
        seq (if live then fs_write env DropState else tx_ok ()) (seq (fs_write env (RestoreState v)) (tx_ok True)))))
      (\<lambda>b d. holding d0 p r X d \<and> state_back d0 b d)"
      by (rule triple_bind [where Q = "\<lambda>_. holding d0 p r X"], rule safe_probe, simp,
          rule triple_bind [where Q = "\<lambda>_. holding d0 p r X"], rule triple_get, simp,
          rule triple_bind [where Q = "\<lambda>_. holding d0 p r X"], rule triple_if,
          rule safe_write, simp add: st holding_cut [OF st], rule triple_ok, simp,
          rule triple_bind [where Q = "\<lambda>_ d. holding d0 p r X d \<and> state_back d0 True d"],
          rule safe_write, simp add: st holding_cut [OF st] brought [simplified], rule triple_ok, blast intro: holding_cut)
  qed
qed

text \<open>What the two outcomes of a rollback say of the disk.\<close>

definition rolled_ok :: "platform_disk \<Rightarrow> version option \<Rightarrow> update_outcome \<Rightarrow> platform_disk \<Rightarrow> bool" where
  "rolled_ok d0 p out d = (case out of
     RolledBackTo _ restored _ health \<Rightarrow> pd_current d0 = Some restored \<and> hr_healthy health
       \<and> ended d0 p RolledBack (links_back d0 p) d
   | Stranded _ _ _ \<Rightarrow> ended d0 p Failed (\<lambda>_. True) d
   | Upgraded _ _ _ \<Rightarrow> False)"

lemma safe_failed:
  assumes "\<And>d. P d \<Longrightarrow> noted d0 p q d \<and> startable d0 p s d"
  shows "safe d0 p P (tx_bind (journal_advance env s Failed msg) (\<lambda>_. tx_ok (Stranded v fl x))) (rolled_ok d0 p)"
  by (rule triple_bind [OF safe_fail [OF assms]]) (auto simp: rolled_ok_def intro!: triple_ok)

lemma safe_rolled:
  assumes "pd_current d0 = Some f" and "hr_healthy h" and "ur_phase r \<in> {Activate, Verify}"
  shows "safe d0 p (holding d0 p r (links_back d0 p))
      (tx_bind (journal_advance env (r\<lparr>ur_reached := x\<rparr>) RolledBack msg) (\<lambda>_. tx_ok (RolledBackTo v f fl h)))
      (rolled_ok d0 p)"
proof (rule triple_bind [where Q = "\<lambda>_. ended d0 p RolledBack (links_back d0 p)"], rule safe_advance)
  fix d s assume h: "holding d0 p r (links_back d0 p) d" and s: "s = (r\<lparr>ur_reached := x\<rparr>)\<lparr>ur_phase := RolledBack,
      ur_note := (if msg \<noteq> [] then msg else ur_note (r\<lparr>ur_reached := x\<rparr>))\<rparr>"
  then have "noted d0 p s (d\<lparr>pd_journal := Journal s\<rparr>)"
    using links_back_reverted by (intro noted_rolled [of d0 p r]) (auto simp: holding_def)
  with h s show "cut_ok d0 p (d\<lparr>pd_journal := Journal s\<rparr>) \<and> ended d0 p RolledBack (links_back d0 p) (d\<lparr>pd_journal := Journal s\<rparr>)"
    by (auto simp: ended_def holding_def)
qed (use assms in \<open>auto simp: rolled_ok_def intro!: triple_ok\<close>)

lemma safe_grade_restored:
  assumes f: "pd_current d0 = Some f" and r1: "ur_phase r1 = Activate"
  shows "safe d0 p (holding d0 p r1 (links_back d0 p)) (grade_restored env r1 v f fl) (rolled_ok d0 p)"
proof -
  define r1' where "r1' = r1\<lparr>ur_attempts := Suc (ur_attempts r1)\<rparr>"
  define msg where "msg = ''grading the restored release''"
  define r2 where "r2 = r1'\<lparr>ur_phase := Verify, ur_note := (if msg \<noteq> [] then msg else ur_note r1')\<rparr>"
  have r2: "ur_phase r2 = Verify" by (simp add: r2_def)
  have adv: "safe d0 p (holding d0 p r1 (links_back d0 p)) (journal_advance env r1' Verify msg)
      (\<lambda>s d. s = r2 \<and> holding d0 p r2 (links_back d0 p) d)"
  proof (rule safe_advance)
    fix d s assume "holding d0 p r1 (links_back d0 p) d"
      and "s = r1'\<lparr>ur_phase := Verify, ur_note := (if msg \<noteq> [] then msg else ur_note r1')\<rparr>"
    then have "s = r2" "noted d0 p r2 (d\<lparr>pd_journal := Journal r2\<rparr>)" "links_back d0 p d"
      by (auto simp: r2_def r1'_def r1 holding_def intro!: noted_middle [of d0 p r1])
    then show "cut_ok d0 p (d\<lparr>pd_journal := Journal s\<rparr>) \<and> (s = r2 \<and> holding d0 p r2 (links_back d0 p) (d\<lparr>pd_journal := Journal s\<rparr>))"
      by (simp add: holding_def)
  qed simp
  have grade: "triple effect (cut_ok d0 p) (holding d0 p r2 (links_back d0 p)) (bring_up_and_grade env)
      (\<lambda>_. holding d0 p r2 (links_back d0 p)) (holding d0 p r2 (links_back d0 p))"
    by (rule safe_bring_up) (auto simp: holding_def r2)
  have down: "safe d0 p (holding d0 p r2 (links_back d0 p)) (tx_try (stand_down env)) (\<lambda>_. holding d0 p r2 (links_back d0 p))"
    by (rule triple_try, rule safe_stand_down) simp_all
  have at2: "noted d0 p r2 d \<and> startable d0 p (r2\<lparr>ur_reached := x\<rparr>) d" "noted d0 p r2 d \<and> startable d0 p r2 d"
    if "holding d0 p r2 (links_back d0 p) d" for d x
    using that links_back_reverted by (auto simp: holding_def startable_def)
  show ?thesis
    unfolding grade_restored_def r1'_def [symmetric] msg_def [symmetric]
  proof (rule triple_bind_eq [OF adv], rule triple_match [OF grade], rule safe_failed, erule at2(2))
    fix h :: health_report
    let ?r3 = "r2\<lparr>ur_reached := Some (rung_label (hr_reached h))\<rparr>"
    have bad: "safe d0 p (holding d0 p r2 (links_back d0 p)) (seq (tx_try (stand_down env))
        (tx_bind (journal_advance env ?r3 Failed m) (\<lambda>_. tx_ok (Stranded v fl x)))) (rolled_ok d0 p)" for m x
      by (rule triple_bind [OF down], rule safe_failed) (rule at2(1))
    show "safe d0 p (holding d0 p r2 (links_back d0 p))
        (let r3 = ?r3
         in if health_failure h \<noteq> None
            then seq (tx_try (stand_down env))
              (tx_bind (journal_advance env r3 Failed
                  (''the previous release also failed to come up: '' @ ue_summary env h))
                 (\<lambda>_. tx_ok (Stranded v fl (Some (ue_summary env h)))))
            else tx_bind (journal_advance env r3 RolledBack
                  (v @ '' refused ('' @ unhealthy_text fl @ ''); '' @ f @ '' is back''))
                 (\<lambda>_. tx_ok (RolledBackTo v f fl h))) (rolled_ok d0 p)"
      using bad safe_rolled [OF f, of h r2] r2 by (simp add: health_failure_def Let_def)
  qed
qed

lemma safe_roll_back:
  assumes r: "ur_phase r0 \<in> {Activate, Verify}" and op: "opened d0 p r0"
  shows "safe d0 p (holding d0 p r0 (startable d0 p r0)) (roll_back env r0 v fl) (rolled_ok d0 p)"
proof -
  define msg where "msg = ''rolling back: '' @ unhealthy_text fl"
  define r1 where "r1 = r0\<lparr>ur_phase := Activate, ur_note := (if msg \<noteq> [] then msg else ur_note r0)\<rparr>"
  have f1: "ur_from r1 = pd_current d0" "ur_previous_before r1 = p" "ur_phase r1 = Activate" "ur_to r1 = ur_to r0"
    using op by (simp_all add: r1_def opened_def)
  let ?P = "holding d0 p r1 (startable d0 p r1)"
  have step1: "safe d0 p (holding d0 p r0 (startable d0 p r0)) (journal_advance env r0 Activate msg) (\<lambda>s d. s = r1 \<and> ?P d)"
    using r by (intro safe_middle) (auto simp: holding_def r1_def startable_def reverted_def)
  have first: "safe d0 p ?P (deselect_link env Current) (\<lambda>_. ?P)" if "pd_current d0 = None"
    using f1 that by (auto simp: holding_def startable_def reverted_def intro!: safe_deselect noted_cut [of d0 _ r1])
  have sel: "safe d0 p ?P (select_link env Current f)
      (\<lambda>_. holding d0 p r1 (\<lambda>d. pd_current d = pd_current d0))" if "pd_current d0 = Some f" for f
    using f1 that by (auto simp: holding_def intro!: safe_select noted_cut [of d0 _ r1])
  have link: "safe d0 p (holding d0 p r1 (\<lambda>d. pd_current d = pd_current d0)) (restore_fallback_link env r1)
      (\<lambda>_. holding d0 p r1 (links_back d0 p))" using f1 by (intro safe_restore_link) auto
  have snap: "safe d0 p (holding d0 p r1 (links_back d0 p)) (restore_snapshot env r1) (\<lambda>_. holding d0 p r1 (links_back d0 p))"
    by (rule triple_conseq [OF safe_restore_snapshot]) (use f1 in auto)
  have at1: "noted d0 p r1 d \<and> startable d0 p r1 d" if "?P d" for d
    using that by (simp add: holding_def)
  show ?thesis
    unfolding roll_back_def msg_def [symmetric]
  proof (rule triple_bind_eq [OF step1], rule triple_match [OF safe_stand_down])
    fix e
    show "safe d0 p ?P (tx_bind (journal_advance env r1 Failed (''rollback: '' @ ue_text env e))
              (\<lambda>_. tx_ok (Stranded v fl (Some (ue_text env e))))) (rolled_ok d0 p)"
      by (rule safe_failed) (rule at1)
    show "safe d0 p ?P (case ur_from r1 of
          None \<Rightarrow>
            seq (deselect_link env Current)
           (tx_bind (journal_advance env r1 Failed
              ''the first platform release failed; nothing is selected and the device is at stock'')
              (\<lambda>_. tx_ok (Stranded v fl None)))
        | Some f \<Rightarrow>
            seq (select_link env Current f)
           (seq (restore_fallback_link env r1)
           (tx_bind (restore_snapshot env r1) (\<lambda>_. grade_restored env r1 v f fl)))) (rolled_ok d0 p)"
    proof (cases "pd_current d0")
      case None
      show ?thesis unfolding f1(1) None option.case
        by (rule triple_bind [OF first [OF None]], rule safe_failed) (rule at1)
    next
      case (Some f)
      show ?thesis unfolding f1(1) Some option.case
        by (rule triple_bind [OF sel [OF Some]], rule triple_bind [OF link], rule triple_bind [OF snap],
            rule safe_grade_restored [OF Some f1(3)])
    qed
  qed simp
qed

section \<open>The whole upgrade\<close>

definition upgraded_ok :: "platform_disk \<Rightarrow> version option \<Rightarrow> update_outcome \<Rightarrow> platform_disk \<Rightarrow> bool" where
  "upgraded_ok d0 p out d = (case out of
     Upgraded f v health \<Rightarrow> f = pd_current d0 \<and> hr_healthy health \<and> ended d0 p Commit (pointing (Some v) f) d
   | _ \<Rightarrow> rolled_ok d0 p out d)"

lemma pointing_other [simp]:
  "pointing c q (d\<lparr>pd_journal := j\<rparr>) = pointing c q d"
  "pointing c q (d\<lparr>pd_state := s\<rparr>) = pointing c q d"
  by (simp_all add: pointing_def)

lemma committed_release:
  assumes "holding d0 p r (pointing (Some v) (pd_current d0)) d" and "ur_phase r = Commit"
    and "u \<noteq> v" and "Some u \<noteq> pd_current d0"
  shows "holding d0 p r (pointing (Some v) (pd_current d0)) (d\<lparr>pd_releases := (pd_releases d)(u := x)\<rparr>)"
  using assms by (auto simp: holding_def noted_def phase_ok_def kept_def pointing_def release_is_dir_def)

lemma safe_prune_loop:
  assumes r: "ur_phase r = Commit"
  shows "safe d0 p (holding d0 p r (pointing (Some v) (pd_current d0))) (prune_loop env v (pd_current d0) vs)
    (\<lambda>_. holding d0 p r (pointing (Some v) (pd_current d0)))"
proof (induction vs)
  case Nil
  show ?case by (auto intro!: triple_ok)
next
  case (Cons u vs)
  let ?P = "holding d0 p r (pointing (Some v) (pd_current d0))"
  have rm: "triple effect (cut_ok d0 p) ?P (remove_release env u) (\<lambda>_. ?P) ?P"
    if "u \<noteq> v" "Some u \<noteq> pd_current d0"
    using that r by (intro safe_remove_release) (auto intro: committed_release)
  have "safe d0 p ?P (seq (remove_release env u) (prune_loop env v (pd_current d0) vs)) (\<lambda>_. ?P)"
    if "u \<noteq> v" "Some u \<noteq> pd_current d0"
    by (rule triple_bind [OF _ Cons.IH], rule triple_conseq [OF rm [OF that]]) auto
  with Cons.IH show ?case by auto
qed

lemma safe_commit:
  assumes r: "ur_phase r = Verify" and to: "ur_to r = v" and h: "hr_healthy h"
  shows "safe d0 p (holding d0 p r (pointing (Some v) (pd_current d0)))
    (tx_bind (journal_advance env (r\<lparr>ur_reached := x\<rparr>) Commit msg)
       (\<lambda>_. seq (prune env installed v (pd_current d0)) (tx_ok (Upgraded (pd_current d0) v h)))) (upgraded_ok d0 p)"
proof -
  define s where "s = (r\<lparr>ur_reached := x\<rparr>)\<lparr>ur_phase := Commit,
      ur_note := (if msg \<noteq> [] then msg else ur_note (r\<lparr>ur_reached := x\<rparr>))\<rparr>"
  let ?P = "holding d0 p s (pointing (Some v) (pd_current d0))"
  have adv: "safe d0 p (holding d0 p r (pointing (Some v) (pd_current d0)))
      (journal_advance env (r\<lparr>ur_reached := x\<rparr>) Commit msg) (\<lambda>t d. t = s \<and> ?P d)"
  proof (rule safe_advance)
    fix d t assume d: "holding d0 p r (pointing (Some v) (pd_current d0)) d"
      and "t = (r\<lparr>ur_reached := x\<rparr>)\<lparr>ur_phase := Commit,
        ur_note := (if msg \<noteq> [] then msg else ur_note (r\<lparr>ur_reached := x\<rparr>))\<rparr>"
    then have "t = s" "?P (d\<lparr>pd_journal := Journal s\<rparr>)"
      using to r by (auto simp: s_def holding_def noted_def phase_ok_def kept_def pointing_def)
    then show "cut_ok d0 p (d\<lparr>pd_journal := Journal t\<rparr>) \<and> (t = s \<and> ?P (d\<lparr>pd_journal := Journal t\<rparr>))" by simp
  qed simp
  have prune: "safe d0 p ?P (prune env installed v (pd_current d0)) (\<lambda>_. ?P)"
    unfolding prune_def
    by (rule triple_bind [where Q = "\<lambda>_. ?P"], rule safe_probe, simp, rule triple_bind [where Q = "\<lambda>_. ?P"],
        rule triple_get, simp, rule safe_prune_loop) (simp add: s_def)
  show ?thesis
  proof (rule triple_bind_eq [OF adv], rule triple_bind [OF prune], rule triple_ok)
    fix d assume "?P d"
    then show "cut_ok d0 p d \<and> upgraded_ok d0 p (Upgraded (pd_current d0) v h) d"
      using h by (auto simp: upgraded_ok_def ended_def holding_def s_def)
  qed
qed

lemma safe_verify:
  assumes r: "ur_phase r = Activate" and to: "ur_to r = v" and op: "opened d0 p r"
  shows "safe d0 p (holding d0 p r (pointing (Some v) (pd_current d0)))
    (verify env installed (pd_current d0) v r) (upgraded_ok d0 p)"
proof -
  let ?X = "pointing (Some v) (pd_current d0)"
  define r' where "r' = r\<lparr>ur_attempts := Suc (ur_attempts r)\<rparr>"
  define msg where "msg = ''grading the candidate''"
  define r1 where "r1 = r'\<lparr>ur_phase := Verify, ur_note := (if msg \<noteq> [] then msg else ur_note r')\<rparr>"
  have f1: "ur_phase r1 = Verify" "ur_to r1 = v" "opened d0 p r1"
    using to op by (simp_all add: r1_def r'_def opened_def)
  have adv: "safe d0 p (holding d0 p r ?X) (journal_advance env r' Verify msg) (\<lambda>s d. s = r1 \<and> holding d0 p r1 ?X d)"
  proof (rule safe_advance)
    fix d s assume "holding d0 p r ?X d"
      and "s = r'\<lparr>ur_phase := Verify, ur_note := (if msg \<noteq> [] then msg else ur_note r')\<rparr>"
    then have "s = r1" "noted d0 p r1 (d\<lparr>pd_journal := Journal r1\<rparr>)" "?X d"
      by (auto simp: r1_def r'_def r holding_def intro!: noted_middle [of d0 p r])
    then show "cut_ok d0 p (d\<lparr>pd_journal := Journal s\<rparr>) \<and> (s = r1 \<and> holding d0 p r1 ?X (d\<lparr>pd_journal := Journal s\<rparr>))"
      by (simp add: holding_def)
  qed simp
  have grade: "safe d0 p (holding d0 p r1 ?X) (bring_up_and_grade env) (\<lambda>_. holding d0 p r1 ?X)"
    by (rule triple_conseq [OF safe_bring_up [of "holding d0 p r1 ?X"]]) (auto simp: holding_def f1)
  have rec: "safe d0 p (holding d0 p r1 ?X) (journal_record env (r1\<lparr>ur_reached := x\<rparr>))
      (\<lambda>_. holding d0 p (r1\<lparr>ur_reached := x\<rparr>) ?X)" for x
  proof -
    have "noted d0 p (r1\<lparr>ur_reached := x\<rparr>) (d\<lparr>pd_journal := Journal (r1\<lparr>ur_reached := x\<rparr>)\<rparr>)" if "noted d0 p r1 d" for d
      by (rule noted_middle [OF that]) (use f1 in auto)
    then show ?thesis
      unfolding journal_record_def
      by (intro safe_write) (auto simp: holding_def intro!: noted_cut [of d0 _ "r1\<lparr>ur_reached := x\<rparr>"])
  qed
  show ?thesis
    unfolding verify_def r'_def [symmetric] msg_def [symmetric] Let_def
  proof (rule triple_bind_eq [OF adv], rule triple_bind [OF grade])
    fix health :: health_report
    let ?r2 = "r1\<lparr>ur_reached := Some (rung_label (hr_reached health))\<rparr>"
    have good: "safe d0 p (holding d0 p ?r2 ?X)
        (tx_bind (journal_advance env ?r2 Commit m)
          (\<lambda>_. seq (prune env installed v (pd_current d0)) (tx_ok (Upgraded (pd_current d0) v health)))) (upgraded_ok d0 p)"
      if "hr_healthy health" for m
      using safe_commit [of ?r2 v health d0 p env "Some (rung_label (hr_reached health))"] f1 that by simp
    have bad: "safe d0 p (holding d0 p ?r2 ?X) (roll_back env ?r2 v fl) (upgraded_ok d0 p)" for fl
      by (rule triple_conseq [OF safe_roll_back])
        (use f1 in \<open>auto simp: opened_def holding_def startable_def pointing_def upgraded_ok_def rolled_ok_def
          split: update_outcome.splits\<close>)
    show "safe d0 p (holding d0 p r1 ?X) (seq (journal_record env ?r2)
       (case health_failure health of
          None \<Rightarrow> tx_bind (journal_advance env ?r2 Commit (ue_summary env health)) (\<lambda>_.
            seq (prune env installed v (pd_current d0)) (tx_ok (Upgraded (pd_current d0) v health)))
        | Some failure \<Rightarrow> roll_back env ?r2 v failure)) (upgraded_ok d0 p)"
      by (rule triple_bind [OF rec]) (use good bad in \<open>auto simp: health_failure_def\<close>)
  qed
qed

end
