(* ===== verification/PlatformRecovery.thy ===== *)
theory PlatformRecovery
  imports PlatformUpdate
begin

text \<open>
  The whole upgrade and what recovery makes of an interrupted one: the triples of
  \<open>run_upgrade\<close> and \<open>reconcile\<close>, put together from the triples of their steps, and the
  properties of the updater: safety under power cuts, the outcome of an upgrade, and what a
  rollback on request does.
\<close>

section \<open>The upgrade\<close>

lemma safe_record:
  assumes "\<And>d. P d \<Longrightarrow> cut_ok d0 p d" and "\<And>d. P d \<Longrightarrow> noted d0 p r (d\<lparr>pd_journal := Journal r\<rparr>)"
  shows "safe d0 p P (journal_record env r) (\<lambda>_. noted d0 p r)"
  unfolding journal_record_def using assms by (intro safe_write) (auto intro!: noted_cut [of d0 p r])

lemma noted_prepare:
  "noted d0 p r d \<Longrightarrow> ur_phase r = Prepare \<Longrightarrow> ur_phase r' = Prepare \<Longrightarrow> opened d0 p r' \<Longrightarrow>
     noted d0 p r' (d\<lparr>pd_journal := Journal r'\<rparr>)"
  by (simp add: noted_def phase_ok_def kept_def staging_ok_def)

lemma snapshot_taken_journal [simp]: "snapshot_taken d0 s (d\<lparr>pd_journal := j\<rparr>) = snapshot_taken d0 s d"
  by (simp add: snapshot_taken_def)

lemma noted_activate:
  "noted d0 p r d \<Longrightarrow> snapshot_taken d0 (ur_snapshot r') d \<Longrightarrow> ur_phase r = Prepare \<Longrightarrow> ur_phase r' = Activate \<Longrightarrow>
     opened d0 p r' \<Longrightarrow> noted d0 p r' (d\<lparr>pd_journal := Journal r'\<rparr>)"
  by (simp add: noted_def phase_ok_def kept_def snapshot_ok_def snapshot_taken_def)

lemma safe_upgrade_candidate:
  assumes r: "ur_phase r1 = Prepare" and op: "opened d0 p r1" and to: "ur_to r1 = pm_version m"
    and new: "pd_current d0 \<noteq> Some (pm_version m)"
  shows "safe d0 p (noted d0 p r1) (upgrade_candidate env installed (pd_current d0) s m r1) (upgraded_ok d0 p)"
proof -
  define r2 where "r2 = r1\<lparr>ur_staged := None\<rparr>"
  have r2: "ur_phase r2 = Prepare" "opened d0 p r2" "ur_to r2 = pm_version m"
    using r op to by (simp_all add: r2_def opened_def)
  have one: "safe d0 p (noted d0 p r1) (place_release env s (pm_version m)) (\<lambda>_. noted d0 p r1)"
    by (rule safe_place [OF r new])
  have two: "safe d0 p (noted d0 p r1) (journal_record env r2) (\<lambda>_. noted d0 p r2)"
    by (rule safe_record) (auto intro: noted_prepare r r2)
  have three: "safe d0 p (noted d0 p r2) (snapshot_for_rollback env (pd_current d0) m)
      (\<lambda>s d. noted d0 p r2 d \<and> snapshot_taken d0 s d)"
    by (rule safe_snapshot) (rule r2)
  have rest: "safe d0 p (\<lambda>d. noted d0 p r2 d \<and> snapshot_taken d0 x d)
      (let r3 = r2\<lparr>ur_snapshot := x\<rparr>
       in seq (journal_record env r3)
         (tx_bind (journal_advance env r3 Activate ''standing down to stock'') (\<lambda>r4.
          seq (activate env (pd_current d0) (pm_version m)) (verify env installed (pd_current d0) (pm_version m) r4))))
      (upgraded_ok d0 p)" for x
  proof -
    define r3 where "r3 = r2\<lparr>ur_snapshot := x\<rparr>"
    define msg where "msg = ''standing down to stock''"
    define r4 where "r4 = r3\<lparr>ur_phase := Activate, ur_note := (if msg \<noteq> [] then msg else ur_note r3)\<rparr>"
    have r3: "ur_phase r3 = Prepare" "opened d0 p r3" "ur_snapshot r3 = x" using r2 by (simp_all add: r3_def opened_def)
    have r4: "ur_phase r4 = Activate" "opened d0 p r4" "ur_to r4 = pm_version m" "ur_snapshot r4 = x"
      using r2 by (simp_all add: r4_def r3_def opened_def)
    have n3: "noted d0 p r3 (d\<lparr>pd_journal := Journal r3\<rparr>)" if "noted d0 p r2 d" for d
      using that by (rule noted_prepare) (use r2 r3 in auto)
    have n4: "noted d0 p r4 (d\<lparr>pd_journal := Journal r4\<rparr>)" if "noted d0 p r3 d" "snapshot_taken d0 x d" for d
      using that by (intro noted_activate) (use r3 r4 in auto)
    have rec: "safe d0 p (\<lambda>d. noted d0 p r2 d \<and> snapshot_taken d0 x d) (journal_record env r3)
        (\<lambda>_ d. noted d0 p r3 d \<and> snapshot_taken d0 x d)"
      unfolding journal_record_def
      by (rule safe_write) (auto simp: n3 noted_cut [OF n3])
    have adv: "safe d0 p (\<lambda>d. noted d0 p r3 d \<and> snapshot_taken d0 x d) (journal_advance env r3 Activate msg)
        (\<lambda>r d. r = r4 \<and> noted d0 p r4 d)"
      by (rule safe_advance) (auto simp: r4_def [symmetric] n4 noted_cut [OF n4])
    show ?thesis
      unfolding r3_def [symmetric] msg_def [symmetric] Let_def
      by (rule triple_bind [OF rec], rule triple_bind_eq [OF adv], rule triple_bind [OF safe_activate [OF r4(1)]],
          rule safe_verify [OF r4(1,3,2)])
  qed
  show ?thesis
    unfolding upgrade_candidate_def r2_def [symmetric] Let_def
    by (rule triple_bind [OF one], rule triple_bind [OF two], rule triple_bind [OF three],
        rule rest [unfolded Let_def])
qed

lemma noted_given_up:
  "noted d0 p r d \<Longrightarrow> ur_phase r = Prepare \<Longrightarrow> p = pd_previous d0 \<Longrightarrow> ur_phase r' = Failed \<Longrightarrow>
     noted d0 p r' (d\<lparr>pd_journal := Journal r'\<rparr>)"
  by (auto simp: noted_def phase_ok_def kept_def staging_ok_def reverted_def)

text \<open>Giving a staged candidate up: every write is best effort, and the error is returned.\<close>

lemma safe_give_up:
  assumes r: "ur_phase r = Prepare" "p = pd_previous d0"
  shows "safe d0 p (noted d0 p r)
    (seq (tx_try (remove_staging env s)) (seq (tx_try (journal_advance env (r\<lparr>ur_staged := None\<rparr>) Failed msg)) (tx_err e))) Q"
proof -
  have one: "safe d0 p (noted d0 p r) (tx_try (remove_staging env s)) (\<lambda>_. noted d0 p r)"
    unfolding remove_staging_def by (rule triple_try, rule triple_io) simp_all
  have two: "safe d0 p (noted d0 p r) (tx_try (journal_advance env (r\<lparr>ur_staged := None\<rparr>) Failed msg)) (\<lambda>_. cut_ok d0 p)"
  proof (rule triple_try, rule safe_advance)
    fix d r' assume d: "noted d0 p r d" and r': "r' = r\<lparr>ur_staged := None\<rparr>\<lparr>ur_phase := Failed,
        ur_note := (if msg \<noteq> [] then msg else ur_note (r\<lparr>ur_staged := None\<rparr>))\<rparr>"
    have "noted d0 p r' (d\<lparr>pd_journal := Journal r'\<rparr>)"
      by (rule noted_given_up [OF d r]) (simp add: r')
    then show "cut_ok d0 p (d\<lparr>pd_journal := Journal r'\<rparr>) \<and> cut_ok d0 p (d\<lparr>pd_journal := Journal r'\<rparr>)" by simp
  qed simp_all
  show ?thesis
    by (rule triple_bind [OF one], rule triple_bind [OF two], rule triple_err) simp
qed

text \<open>The start: nothing is on record yet, and the disk is as it was found.\<close>

lemma safe_refuse:
  "safe d0 p (\<lambda>d. d = d0) (refuse_if_in_flight env) (\<lambda>_ d. d = d0)"
  unfolding refuse_if_in_flight_def journal_read_def
  by (rule triple_bind [where Q = "\<lambda>_ d. d = d0"], rule triple_bind [where Q = "\<lambda>_ d. d = d0"], rule safe_probe, simp,
      rule triple_bind [where Q = "\<lambda>_ d. d = d0"], rule triple_get, simp)
    (auto split: journal_file.splits option.splits intro!: triple_ok triple_err)

lemma safe_read_selection:
  "safe d0 p (\<lambda>d. d = d0) (read_selection env l) (\<lambda>v d. v = read_link d0 l \<and> d = d0)"
  unfolding read_selection_def
  by (rule triple_bind [where Q = "\<lambda>_ d. d = d0"], rule safe_probe, simp, rule triple_get) simp

lemma safe_run_upgrade:
  "safe d0 (pd_previous d0) (\<lambda>d. d = d0) (run_upgrade env installed) (upgraded_ok d0 (pd_previous d0))"
proof -
  let ?p = "pd_previous d0"
  have body: "safe d0 ?p (\<lambda>d. d = d0)
     (seq (journal_record env r0)
       (tx_match (prepare env staging)
          (\<lambda>e. seq (tx_try (remove_staging env staging))
            (seq (tx_try (journal_advance env (r0\<lparr>ur_staged := None\<rparr>) Failed (ue_text env e)))
              (tx_err e)))
          (\<lambda>manifest.
             let r1 = r0\<lparr>ur_to := pm_version manifest\<rparr>
             in seq (journal_record env r1)
               (if pd_current d0 = Some (pm_version manifest)
                then seq (tx_try (remove_staging env staging))
                  (seq (tx_try (journal_advance env (r1\<lparr>ur_staged := None\<rparr>) Failed ''already selected''))
                    (tx_err (AlreadySelected (pm_version manifest))))
                else upgrade_candidate env installed (pd_current d0) staging manifest r1)))) (upgraded_ok d0 ?p)"
    if r0: "ur_phase r0 = Prepare" "opened d0 ?p r0" for r0 staging
  proof -
    have rec: "safe d0 ?p (\<lambda>d. d = d0) (journal_record env r0) (\<lambda>_. noted d0 ?p r0)"
      by (rule safe_record) (auto simp: noted_def phase_ok_def kept_def staging_ok_def r0)
    have good: "safe d0 ?p (noted d0 ?p r0)
        (seq (journal_record env r1)
          (if pd_current d0 = Some (pm_version m)
           then seq (tx_try (remove_staging env staging))
             (seq (tx_try (journal_advance env (r1\<lparr>ur_staged := None\<rparr>) Failed ''already selected''))
               (tx_err (AlreadySelected (pm_version m))))
           else upgrade_candidate env installed (pd_current d0) staging m r1)) (upgraded_ok d0 ?p)"
      if "r1 = r0\<lparr>ur_to := pm_version m\<rparr>" for m r1
    proof -
      have r1: "ur_phase r1 = Prepare" "opened d0 ?p r1" "ur_to r1 = pm_version m"
        using r0 that by (simp_all add: opened_def)
      have rec1: "safe d0 ?p (noted d0 ?p r0) (journal_record env r1) (\<lambda>_. noted d0 ?p r1)"
        by (rule safe_record) (auto intro: noted_prepare r0 r1)
      show ?thesis
        by (rule triple_bind [OF rec1], rule triple_if, rule safe_give_up)
          (simp_all add: r1 safe_upgrade_candidate [OF r1])
    qed
    show ?thesis
      unfolding Let_def
      by (rule triple_bind [OF rec], rule triple_match [OF safe_prepare], rule safe_give_up [OF r0(1) refl], rule good, rule refl)
  qed
  show ?thesis
    unfolding run_upgrade_def Let_def
    by (rule triple_bind [where Q = "\<lambda>_ d. d = d0"], rule safe_probe, simp,
        rule triple_bind [OF safe_refuse], rule triple_bind_eq [OF safe_read_selection],
        rule triple_bind_eq [OF safe_read_selection],
        rule triple_bind [where Q = "\<lambda>_ d. d = d0"], rule triple_ask, simp,
        simp only: read_link.simps, rule body [unfolded Let_def])
      (simp_all add: record_opening_def opened_def)
qed

section \<open>Recovery\<close>

definition quiet :: "platform_disk \<Rightarrow> bool" where
  "quiet d \<longleftrightarrow> (case pd_journal d of NoJournal \<Rightarrow> True | Journal r \<Rightarrow> is_terminal (ur_phase r) | JournalCorrupt \<Rightarrow> False)"

text \<open>What recovery leaves, by what it says it did.\<close>

definition recovered :: "platform_disk \<Rightarrow> version option \<Rightarrow> reconciled \<Rightarrow> platform_disk \<Rightarrow> bool" where
  "recovered d0 p a d \<longleftrightarrow> quiet d \<and> cut_ok d0 p d \<and> (case a of
     Nothing \<Rightarrow> True
   | DiscardedStaging v \<Rightarrow> staging_ok d0 d
   | Reverted v f restored \<Rightarrow> f = pd_current d0 \<and> links_back d0 p d \<and> state_back d0 restored d)"

lemma noted_quiet: "noted d0 p r d \<Longrightarrow> is_terminal (ur_phase r) \<Longrightarrow> quiet d"
  by (simp add: quiet_def noted_def)

lemma state_back_journal [simp]: "state_back d0 b (d\<lparr>pd_journal := j\<rparr>) = state_back d0 b d"
  by (simp add: state_back_def)

lemma safe_revert:
  assumes r: "ur_phase r \<in> {Activate, Verify}" and op: "opened d0 p r"
  shows "safe d0 p (noted d0 p r)
     (seq (case ur_from r of Some v \<Rightarrow> select_link env Current v | None \<Rightarrow> deselect_link env Current)
     (seq (restore_fallback_link env r)
     (tx_bind (restore_snapshot env r) (\<lambda>state_restored.
      tx_bind (journal_advance env r RolledBack msg) (\<lambda>_. tx_ok (Reverted (ur_to r) (ur_from r) state_restored))))))
     (recovered d0 p)"
proof -
  let ?X = "\<lambda>d. pd_current d = pd_current d0"
  have f: "ur_from r = pd_current d0" "ur_previous_before r = p" using op by (simp_all add: opened_def)
  have first: "safe d0 p (noted d0 p r)
      (case ur_from r of Some v \<Rightarrow> select_link env Current v | None \<Rightarrow> deselect_link env Current) (\<lambda>_. holding d0 p r ?X)"
    using r f by (auto split: option.splits simp: holding_def intro!: safe_select safe_deselect noted_cut [of d0 _ r])
  have last: "safe d0 p (\<lambda>d. holding d0 p r (links_back d0 p) d \<and> state_back d0 b d)
      (tx_bind (journal_advance env r RolledBack msg) (\<lambda>_. tx_ok (Reverted (ur_to r) (ur_from r) b))) (recovered d0 p)" for b
  proof (rule triple_bind [where Q = "\<lambda>_. recovered d0 p (Reverted (ur_to r) (ur_from r) b)"], rule safe_advance)
    fix d r' assume d: "holding d0 p r (links_back d0 p) d \<and> state_back d0 b d"
      and r': "r' = r\<lparr>ur_phase := RolledBack, ur_note := (if msg \<noteq> [] then msg else ur_note r)\<rparr>"
    then have n: "noted d0 p r' (d\<lparr>pd_journal := Journal r'\<rparr>)"
      using links_back_reverted by (intro noted_rolled [of d0 p r]) (auto simp: holding_def)
    then have "quiet (d\<lparr>pd_journal := Journal r'\<rparr>)" by (rule noted_quiet) (simp add: r' is_terminal_def)
    with n d f show "cut_ok d0 p (d\<lparr>pd_journal := Journal r'\<rparr>)
        \<and> recovered d0 p (Reverted (ur_to r) (ur_from r) b) (d\<lparr>pd_journal := Journal r'\<rparr>)"
      by (simp add: recovered_def holding_def)
  qed (auto simp: recovered_def intro!: triple_ok)
  show ?thesis
    by (rule triple_bind [OF first], rule triple_bind [OF safe_restore_link], rule r, rule f,
        rule triple_bind [OF safe_restore_snapshot last], rule r, simp)
qed

lemma safe_discard:
  assumes r: "ur_phase r = Prepare"
  shows "safe d0 p (noted d0 p r)
     (seq (case ur_staged r of Some s \<Rightarrow> tx_try (remove_staging env s) | None \<Rightarrow> tx_ok ())
     (tx_bind (read_selection env Current) (\<lambda>selected.
      tx_bind (read_selection env Previous) (\<lambda>fallback.
      seq (if selected \<noteq> Some (ur_to r) \<and> fallback \<noteq> Some (ur_to r)
           then tx_try (remove_release env (ur_to r)) else tx_ok ())
     (tx_bind (journal_advance env (r\<lparr>ur_staged := None\<rparr>) Failed msg)
       (\<lambda>_. tx_ok (DiscardedStaging (ur_to r))))))))
     (recovered d0 p)"
proof -
  let ?N = "noted d0 p r"
  have first: "safe d0 p ?N (case ur_staged r of Some s \<Rightarrow> tx_try (remove_staging env s) | None \<Rightarrow> tx_ok ()) (\<lambda>_. ?N)"
    by (cases "ur_staged r") (auto simp: remove_staging_def intro!: triple_ok triple_try triple_io)
  have st: "pd_current d = pd_current d0" if "?N d" for d
    using that r by (simp add: noted_def phase_ok_def staging_ok_def)
  have sel: "safe d0 p ?N (read_selection env Current) (\<lambda>v d. v = pd_current d0 \<and> ?N d)"
    unfolding read_selection_def
    by (rule triple_bind [where Q = "\<lambda>_. ?N"], rule safe_probe, simp, rule triple_get)
      (simp add: st)
  have fall: "safe d0 p ?N (read_selection env Previous) (\<lambda>_. ?N)"
    unfolding read_selection_def
    by (rule triple_bind [where Q = "\<lambda>_. ?N"], rule safe_probe, simp, rule triple_get) simp
  have rm: "safe d0 p ?N (if pd_current d0 \<noteq> Some (ur_to r) \<and> x \<noteq> Some (ur_to r)
      then tx_try (remove_release env (ur_to r)) else tx_ok ()) (\<lambda>_. ?N)" for x
    by (rule triple_if, rule triple_try, rule safe_remove_release)
      (use r in \<open>auto simp: noted_releases intro!: triple_ok\<close>)
  have last: "safe d0 p ?N (tx_bind (journal_advance env (r\<lparr>ur_staged := None\<rparr>) Failed msg)
      (\<lambda>_. tx_ok (DiscardedStaging (ur_to r)))) (recovered d0 p)"
  proof (rule triple_bind [where Q = "\<lambda>_. recovered d0 p (DiscardedStaging (ur_to r))"], rule safe_advance)
    fix d r' assume d: "?N d" and r': "r' = r\<lparr>ur_staged := None\<rparr>\<lparr>ur_phase := Failed,
        ur_note := (if msg \<noteq> [] then msg else ur_note (r\<lparr>ur_staged := None\<rparr>))\<rparr>"
    with r have n: "noted d0 p r' (d\<lparr>pd_journal := Journal r'\<rparr>)"
      by (auto simp: noted_def phase_ok_def kept_def staging_ok_def reverted_def)
    then have "quiet (d\<lparr>pd_journal := Journal r'\<rparr>)" by (rule noted_quiet) (simp add: r' is_terminal_def)
    with n d r show "cut_ok d0 p (d\<lparr>pd_journal := Journal r'\<rparr>)
        \<and> recovered d0 p (DiscardedStaging (ur_to r)) (d\<lparr>pd_journal := Journal r'\<rparr>)"
      by (auto simp: recovered_def staging_ok_def noted_def phase_ok_def intro: noted_cut [OF n])
  qed (auto simp: recovered_def intro!: triple_ok)
  show ?thesis
    by (rule triple_bind [OF first], rule triple_bind_eq [OF sel], rule triple_bind [OF fall],
        rule triple_bind [OF rm last])
qed

lemma safe_reconcile:
  assumes q: "quiet d0"
  shows "safe d0 p (cut_ok d0 p) (reconcile env) (recovered d0 p)"
proof -
  let ?J = "\<lambda>j d. cut_ok d0 p d \<and> (case j of None \<Rightarrow> pd_journal d = NoJournal | Some r \<Rightarrow> pd_journal d = Journal r)"
  have read: "safe d0 p (cut_ok d0 p) (journal_read env) ?J"
    unfolding journal_read_def
    by (rule triple_bind [where Q = "\<lambda>_. cut_ok d0 p"], rule safe_probe, simp,
        rule triple_bind [where Q = "\<lambda>j d. cut_ok d0 p d \<and> pd_journal d = j"], rule triple_get, simp)
      (auto split: journal_file.splits intro!: triple_ok triple_err)
  have known: "noted d0 p r d \<and> opened d0 p r" if "?J (Some r) d" "\<not> is_terminal (ur_phase r)" for r d
    using that q by (cases "ur_phase r") (auto simp: cut_ok_def quiet_def noted_def phase_ok_def is_terminal_def)
  have quiet: "quiet d" if "?J j d" "case j of None \<Rightarrow> True | Some r \<Rightarrow> is_terminal (ur_phase r)" for j d
    using that by (cases j) (simp_all add: quiet_def)
  have stay: "safe d0 p (?J j) (tx_ok Nothing) (recovered d0 p)"
    if "case j of None \<Rightarrow> True | Some r \<Rightarrow> is_terminal (ur_phase r)" for j
    by (rule triple_ok) (use quiet that in \<open>auto simp: recovered_def\<close>)
  have known': "safe d0 p (?J (Some r)) m (recovered d0 p)"
    if "\<not> is_terminal (ur_phase r)" "opened d0 p r \<Longrightarrow> safe d0 p (noted d0 p r) m (recovered d0 p)" for r m
    by (rule triple_conseq [where P' = "\<lambda>d. noted d0 p r d \<and> opened d0 p r"], rule triple_pure [OF that(2)])
      (use known that(1) in auto)
  show ?thesis
    unfolding reconcile_def
  proof (rule triple_bind [OF read], goal_cases)
    case (1 j)
    show ?case
    proof (cases j)
      case None
      with stay [of None] show ?thesis by simp
    next
      case (Some r)
      show ?thesis
      proof (cases "is_terminal (ur_phase r)")
        case True
        with stay [of "Some r"] Some show ?thesis by simp
      next
        case False
        show ?thesis
          unfolding Some option.case if_not_P [OF False]
          by (rule known' [unfolded option.case, OF False], cases "ur_phase r")
            (use False in \<open>simp_all add: is_terminal_def safe_revert safe_discard del: append.simps\<close>)
      qed
    qed
  qed
qed

section \<open>How often something is started\<close>

definition starts :: "update_event \<Rightarrow> nat" where
  "starts e = (case e of BringUp _ \<Rightarrow> 1 | _ \<Rightarrow> 0)"

lemma starts_simps [simp]:
  "starts (PutJournal r) = 0" "starts (MakeStaging s) = 0" "starts (Unpack s m) = 0" "starts (DropStaging s) = 0"
  "starts (WreckRelease v) = 0" "starts (DropRelease v) = 0" "starts (CommitRelease s v) = 0" "starts (DropSnapshot v) = 0"
  "starts (TakeSnapshot v) = 0" "starts DropState = 0" "starts (RestoreState v) = 0" "starts (PointLink l v) = 0"
  "starts (DropLink l) = 0" "starts StandDown = 0" "starts (BringUp f) = 1"
  by (simp_all add: starts_def)

lemma starts_steps [cost]:
  "costs starts k (journal_read env)"
  "costs starts k (journal_record env r)"
  "costs starts k (journal_advance env r ph msg)"
  "costs starts k (read_selection env l)"
  "costs starts k (select_link env l v)"
  "costs starts k (deselect_link env l)"
  "costs starts k (remove_release env v)"
  "costs starts k (remove_staging env s)"
  "costs starts k (stand_down env)"
  by (auto simp: journal_read_def journal_record_def journal_advance_def read_selection_def select_link_def deselect_link_def
      remove_release_def remove_staging_def stand_down_def Let_def split: journal_file.split intro!: cost)

lemma starts_parts [cost]:
  "costs starts k (prepare env s)"
  "costs starts k (restore_fallback_link env r)"
  "costs starts k (restore_snapshot env r)"
  "costs starts k (snapshot_for_rollback env f m)"
  "costs starts k (refuse_if_in_flight env)"
  "costs starts k (activate env f v)"
  "costs starts k (place_release env s v)"
  by (auto simp: prepare_def restore_fallback_link_def restore_snapshot_def snapshot_for_rollback_def refuse_if_in_flight_def
      activate_def place_release_def Let_def intro!: cost)

lemma starts_prune [cost]: "costs starts k (prune env installed v f)"
proof -
  have "costs starts j (prune_loop env v f vs)" for vs j
    by (induction vs arbitrary: j) (auto intro!: cost)
  then show ?thesis by (auto simp: prune_def intro!: cost)
qed

lemma starts_bring_up: "costs starts 1 (bring_up_and_grade env)"
proof -
  have one: "costs starts (1 + 0) (seq (tx_emit effect (BringUp f)) m)" if "costs starts 0 m" for f and m :: "health_report update_tx"
    by (rule costs_bind_plus [OF costs_emit that]) simp
  show ?thesis
    unfolding bring_up_and_grade_def
    by (rule costs_bind [OF costs_still(5)], rule costs_bind [OF costs_still(5)], rule one [unfolded add_0_right]) (auto intro!: cost)
qed

lemma starts_graded:
  "(\<And>e. costs starts k (h e)) \<Longrightarrow> (\<And>a. costs starts k (f a)) \<Longrightarrow> costs starts (Suc k) (tx_match (bring_up_and_grade env) h f)"
  using costs_match_plus [OF starts_bring_up] by fastforce

lemma starts_roll_back: "costs starts 1 (roll_back env r v fl)"
proof -
  have "costs starts (Suc 0) (grade_restored env r v f fl)" for r f
    unfolding grade_restored_def by (auto simp: Let_def intro!: cost starts_graded)
  then show ?thesis
    unfolding roll_back_def by (auto intro!: cost)
qed

lemma starts_verify: "costs starts 2 (verify env installed f v r)"
proof -
  have "costs starts (Suc 1) (verify env installed f v r)"
    unfolding verify_def tx_bind_match [of "bring_up_and_grade env"]
    by (auto simp: Let_def intro!: cost starts_graded starts_roll_back [simplified])
  then show ?thesis by (simp add: numeral_2_eq_2)
qed

lemma starts_run_upgrade: "costs starts 2 (run_upgrade env installed)"
  unfolding run_upgrade_def upgrade_candidate_def Let_def
  by (intro cost starts_verify)

lemma starts_rollback_on_request: "costs starts 1 (rollback_on_request env)"
  unfolding rollback_on_request_def Let_def
  by (intro cost starts_roll_back)

lemma starts_reconcile: "costs starts 0 (reconcile env)"
  unfolding reconcile_def by (auto split: phase.split intro!: cost)

section \<open>Recovery returns\<close>

definition fs_works :: "update_env \<Rightarrow> bool" where
  "fs_works env \<longleftrightarrow> (\<forall>n. ue_io env n = IoOk)"

definition there :: "version option \<Rightarrow> platform_disk \<Rightarrow> bool" where
  "there f d \<longleftrightarrow> (\<forall>v. f = Some v \<longrightarrow> release_is_dir d v)"

lemma there_other [simp]:
  "there f (d\<lparr>pd_journal := j\<rparr>) = there f d" "there f (d\<lparr>pd_state := s\<rparr>) = there f d"
  "there f (d\<lparr>pd_current := c\<rparr>) = there f d" "there f (d\<lparr>pd_previous := c\<rparr>) = there f d"
  "there f (d\<lparr>pd_staging := g\<rparr>) = there f d"
  by (simp_all add: there_def release_is_dir_def)

abbreviation always :: "(platform_disk \<Rightarrow> bool) \<Rightarrow> 'a update_tx \<Rightarrow> ('a \<Rightarrow> platform_disk \<Rightarrow> bool) \<Rightarrow> bool" where
  "always P m Q \<equiv> triple effect (\<lambda>_. True) P m Q (\<lambda>_. False)"

lemma always_write: "fs_works env \<Longrightarrow> (\<And>d. P d \<Longrightarrow> Q () (effect d w)) \<Longrightarrow> always P (fs_write env w) Q"
  by (rule triple_io_works) (simp_all add: fs_works_def)

lemma always_probe: "fs_works env \<Longrightarrow> (\<And>d. P d \<Longrightarrow> Q () d) \<Longrightarrow> always P (fs_probe env) Q"
  by (rule triple_probe_works) (simp_all add: fs_works_def)

lemma always_select:
  assumes "fs_works env" and "\<And>d. P d \<Longrightarrow> release_is_dir d v" and "\<And>d. P d \<Longrightarrow> Q () (effect d (PointLink l v))"
  shows "always P (select_link env l v) Q"
  unfolding select_link_def
  by (rule triple_bind [where Q = "\<lambda>b d. P d \<and> b"])
    (use assms in \<open>auto intro!: triple_get triple_pure always_write triple_err\<close>)

lemma always_deselect:
  assumes "fs_works env" and "\<And>d. P d \<Longrightarrow> Q () d" and "\<And>d. P d \<Longrightarrow> Q () (effect d (DropLink l))"
  shows "always P (deselect_link env l) Q"
  unfolding deselect_link_def
  by (rule triple_bind [where Q = "\<lambda>_. P"])
    (use assms in \<open>auto intro!: triple_get triple_ok always_write\<close>)

lemma always_advance:
  assumes "fs_works env" and "\<And>d r'. P d \<Longrightarrow> Q r' (d\<lparr>pd_journal := Journal r'\<rparr>)"
  shows "always P (journal_advance env r ph msg) Q"
  unfolding journal_advance_def journal_record_def Let_def
  by (rule triple_bind [where Q = "\<lambda>_. Q (r\<lparr>ur_phase := ph, ur_note := (if msg \<noteq> [] then msg else ur_note r)\<rparr>)"])
    (use assms in \<open>auto intro!: always_write triple_ok\<close>)

lemma always_restore_link:
  assumes "fs_works env"
  shows "always (there f) (restore_fallback_link env r) (\<lambda>_. there f)"
proof (cases "ur_previous_before r")
  case None
  with assms show ?thesis by (auto simp: restore_fallback_link_def intro!: always_deselect)
next
  case (Some v)
  have "always (\<lambda>d. there f d \<and> b = release_is_dir d v)
      (if b then select_link env Previous v else deselect_link env Previous) (\<lambda>_. there f)" for b
    using assms by (auto intro!: always_deselect always_select)
  with Some show ?thesis
    by (auto simp: restore_fallback_link_def intro!: triple_get triple_bind [where Q = "\<lambda>b d. there f d \<and> b = release_is_dir d v"])
qed

lemma always_restore_snapshot:
  assumes "fs_works env"
  shows "always (there f) (restore_snapshot env r) (\<lambda>_. there f)"
  unfolding restore_snapshot_def
  by (auto split: option.split intro!: triple_ok triple_get always_probe always_write assms triple_bind [where Q = "\<lambda>_. there f"])

lemma always_reconcile:
  assumes fs: "fs_works env"
  shows "always (\<lambda>d. pd_journal d = Journal r \<and> there (ur_from r) d) (reconcile env) (\<lambda>_ _. True)"
proof -
  let ?P = "\<lambda>d. pd_journal d = Journal r \<and> there (ur_from r) d"
  have read: "always ?P (journal_read env) (\<lambda>j d. j = Some r \<and> there (ur_from r) d)"
    unfolding journal_read_def
    by (rule triple_bind [where Q = "\<lambda>_. ?P"], rule always_probe [OF fs], simp,
        rule triple_bind [where Q = "\<lambda>j d. j = Journal r \<and> there (ur_from r) d"], rule triple_get, simp)
      (auto split: journal_file.split intro!: triple_ok triple_err)
  have link: "always (there (ur_from r))
      (case ur_from r of Some v \<Rightarrow> select_link env Current v | None \<Rightarrow> deselect_link env Current) (\<lambda>_. there (ur_from r))"
    by (auto split: option.split intro!: always_select always_deselect fs) (simp add: there_def)
  have revert: "always (there (ur_from r))
     (seq (case ur_from r of Some v \<Rightarrow> select_link env Current v | None \<Rightarrow> deselect_link env Current)
     (seq (restore_fallback_link env r)
     (tx_bind (restore_snapshot env r) (\<lambda>state_restored.
      tx_bind (journal_advance env r RolledBack msg) (\<lambda>_. tx_ok (Reverted (ur_to r) (ur_from r) state_restored))))))
     (\<lambda>_ _. True)" for msg
    by (rule triple_bind [OF link], rule triple_bind [OF always_restore_link [OF fs]],
        rule triple_bind [OF always_restore_snapshot [OF fs]], rule triple_bind [OF always_advance [OF fs, where Q = "\<lambda>_ _. True"]])
      (auto intro!: triple_ok)
  have sel: "always (\<lambda>_. True) (read_selection env l) (\<lambda>_ _. True)" for l
    unfolding read_selection_def by (auto intro!: triple_bind [where Q = "\<lambda>_ _. True"] always_probe fs triple_get)
  have rm: "always (\<lambda>_. True) (remove_release env v) (\<lambda>_ _. True)" for v
    unfolding remove_release_def by (auto intro!: triple_bind [where Q = "\<lambda>_ _. True"] always_write fs triple_get triple_ok)
  have discard: "always (\<lambda>_. True)
     (seq (case ur_staged r of Some s \<Rightarrow> tx_try (remove_staging env s) | None \<Rightarrow> tx_ok ())
     (tx_bind (read_selection env Current) (\<lambda>selected.
      tx_bind (read_selection env Previous) (\<lambda>fallback.
      seq (if selected \<noteq> Some (ur_to r) \<and> fallback \<noteq> Some (ur_to r)
           then tx_try (remove_release env (ur_to r)) else tx_ok ())
     (tx_bind (journal_advance env (r\<lparr>ur_staged := None\<rparr>) Failed msg)
       (\<lambda>_. tx_ok (DiscardedStaging (ur_to r)))))))) (\<lambda>_ _. True)" for msg
    by (auto split: option.split simp: remove_staging_def
        intro!: triple_bind [where Q = "\<lambda>_ _. True"] sel rm always_advance fs triple_ok triple_try triple_io triple_conseq [OF rm])
  show ?thesis
    unfolding reconcile_def
    by (rule triple_bind_eq [OF read], unfold option.case, rule triple_if, rule triple_ok, simp, cases "ur_phase r")
      (use revert triple_conseq [OF discard] in \<open>auto simp: is_terminal_def simp del: append.simps\<close>)
qed

section \<open>Watching ends\<close>

lemma watch_loop_returns:
  assumes "deadline \<le> snd (looks (i + k))"
  shows "watch_loop (Suc k) deadline looks i seen \<noteq> None"
  using assms
proof (induction k arbitrary: i seen)
  case 0
  then show ?case by (cases seen; cases "looks i") (auto simp: watch_look_def Let_def)
next
  case (Suc k)
  then show ?case by (subst watch_loop.simps) (auto split: sum.splits)
qed

lemma watch_returns:
  assumes "0 < step" and "\<And>i. i * step \<le> snd (looks i)"
  shows "watch deadline step looks \<noteq> None"
proof -
  have "deadline \<le> deadline div step * step + step"
    using assms(1) by (metis add.commute dividend_less_div_times less_imp_le)
  also have "\<dots> = (deadline div step + 1) * step" by simp
  also have "\<dots> \<le> snd (looks (0 + (deadline div step + 1)))" using assms(2) by (simp only: add_0)
  finally show ?thesis
    unfolding watch_def watch_fuel_def using watch_loop_returns [of deadline looks 0 "deadline div step + 1" watch_start] by simp
qed

section \<open>Properties\<close>

text \<open>Recovery that is itself cut off, any number of times.\<close>

inductive recovery_cut :: "platform_disk \<Rightarrow> platform_disk \<Rightarrow> bool" for d where
  never: "recovery_cut d d"
| again: "recovery_cut d d' \<Longrightarrow> d'' \<in> cuts effect (reconcile env) d' \<Longrightarrow> recovery_cut d d''"

lemma recovery_cut_ok:
  assumes "recovery_cut d d'" and "quiet d0" and "cut_ok d0 p d"
  shows "cut_ok d0 p d'"
  using assms by induction (auto intro: triple_cuts [OF safe_reconcile])

lemma upgrade_cut_ok: "d \<in> cuts effect (run_upgrade env installed) d0 \<Longrightarrow> cut_ok d0 (pd_previous d0) d"
  by (rule triple_cuts [OF safe_run_upgrade]) simp_all

text \<open>The states a settled disk can be in after an upgrade from \<open>d0\<close>.\<close>

definition unchanged_selection :: "platform_disk \<Rightarrow> platform_disk \<Rightarrow> bool" where
  "unchanged_selection d0 d \<longleftrightarrow> pd_current d = pd_current d0 \<and> pd_previous d \<in> {pd_previous d0, None}"

definition moved_selection :: "platform_disk \<Rightarrow> platform_disk \<Rightarrow> bool" where
  "moved_selection d0 d \<longleftrightarrow> (\<exists>r. pd_journal d = Journal r \<and> pd_current d = Some (ur_to r) \<and> pd_previous d = pd_current d0
     \<and> (ur_phase r = Commit \<and> release_is_dir d (ur_to r) \<or> ur_phase r = Failed))"

lemma settled_cases:
  assumes "cut_ok d0 (pd_previous d0) d" and "quiet d"
  shows "kept d0 d \<and> (unchanged_selection d0 d \<or> moved_selection d0 d)"
proof (cases "d = d0")
  case True
  then show ?thesis by (simp add: kept_def unchanged_selection_def)
next
  case False
  with assms obtain r where "noted d0 (pd_previous d0) r d" "is_terminal (ur_phase r)"
    by (auto simp: cut_ok_def quiet_def noted_def)
  then show ?thesis
    by (cases "ur_phase r")
      (auto simp: noted_def phase_ok_def is_terminal_def reverted_def unchanged_selection_def moved_selection_def)
qed

text \<open>A device to show the properties on: release 1.0.0 is selected, 2.0.0 is on offer.\<close>

definition example_manifest :: "version \<Rightarrow> nat \<Rightarrow> plat_manifest" where
  "example_manifest v n = \<lparr>pm_version = v, pm_state_version = n, pm_rollback_to = n,
     pm_components = map (\<lambda>c. \<lparr>co_name = c, co_path = c\<rparr>) REQUIRED_COMPONENTS\<rparr>"

definition example_disk :: platform_disk where
  "example_disk = \<lparr>pd_releases = (\<lambda>_. None)(''1.0.0'' := Some (Some (example_manifest ''1.0.0'' 1))),
     pd_staging = (\<lambda>_. None), pd_current = Some ''1.0.0'', pd_previous = None, pd_journal = NoJournal,
     pd_state = Some ''games'', pd_snapshots = (\<lambda>_. None)\<rparr>"

definition example_env :: "bool \<Rightarrow> update_env" where
  "example_env good = \<lparr>ue_io = (\<lambda>_. IoOk), ue_now = (\<lambda>_. 7), ue_stand_down = (\<lambda>_. None), ue_stock_up = (\<lambda>_. True),
     ue_wakelock = (\<lambda>_. False), ue_bring_up = (\<lambda>_. None),
     ue_looks = (\<lambda>n i. (\<lparr>ob_alive = (i = 0), ob_reached = (if good \<or> 30 < n then Some Ready else None), ob_note = []\<rparr>, i)),
     ue_session = (\<lambda>_ s. s @ ''!''), ue_names = Inr REQUIRED_COMPONENTS, ue_manifest = Inr (example_manifest ''2.0.0'' 2),
     ue_payload = Inr (), ue_deadline = 2, ue_poll = 1, ue_text = (\<lambda>_. ''error''), ue_summary = (\<lambda>_. ''report'')\<rparr>"

definition example_cut :: "nat \<Rightarrow> platform_disk" where
  "example_cut n = apply_writes effect example_disk
     (take n (tx_log (snd (run_upgrade (example_env True) (\<lambda>_. []) (tx_start example_disk)))))"

lemma example_quiet: "quiet example_disk"
  by (simp add: quiet_def example_disk_def)

lemma example_there: "there (pd_current example_disk) example_disk"
  by (simp add: there_def example_disk_def release_is_dir_def)

lemma example_works: "fs_works (example_env b)"
  by (simp add: fs_works_def example_env_def)

lemma example_cut_in: "example_cut n \<in> cuts effect (run_upgrade (example_env True) (\<lambda>_. [])) example_disk"
  unfolding example_cut_def cuts_def by (rule crash_point_take)

text \<open>Evaluating the program on the example.\<close>

lemmas update_run = run_upgrade_def refuse_if_in_flight_def journal_read_def journal_record_def journal_advance_def
  read_selection_def select_link_def deselect_link_def release_is_dir_def remove_release_def remove_staging_def
  read_release_def manifest_check_def REQUIRED_COMPONENTS_def unlisted_def MANIFEST_FILE_NAME_def SIGNATURE_FILE_NAME_def
  prepare_def stand_down_def bring_up_and_grade_def watch_def watch_fuel_def watch_start_def watch_look_def
  health_failure_def upgrade_candidate_def place_release_def snapshot_for_rollback_def readable_by_state_version_def
  activate_def verify_def prune_def roll_back_def grade_restored_def restore_fallback_link_def restore_snapshot_def
  reconcile_def is_in_flight_def is_terminal_def record_opening_def rollback_on_request_def Let_def

lemmas example_run = example_env_def example_disk_def example_manifest_def

lemma example_selected: "pd_current (example_cut 12) = Some ''2.0.0''"
  by (simp add: tx_run update_run example_run example_cut_def numeral_2_eq_2 del: append.simps)

lemma quiet_reconcile:
  assumes "fs_works env" and "quiet d"
  shows "\<exists>u. reconcile env (tx_start d) = (Ok Nothing, u) \<and> tx_disk u = d"
  using assms by (cases "pd_journal d") (simp_all add: reconcile_def journal_read_def quiet_def fs_works_def tx_run)

lemma recovery_returns:
  assumes fs: "fs_works env" and q: "quiet d0" and t: "there (pd_current d0) d0" and d: "cut_ok d0 p d"
  shows "\<exists>a u. reconcile env (tx_start d) = (Ok a, u)"
proof (cases "quiet d")
  case True
  with quiet_reconcile [OF fs] show ?thesis by blast
next
  case False
  with q d obtain r where n: "noted d0 p r d" "\<not> is_terminal (ur_phase r)"
    by (auto simp: cut_ok_def quiet_def noted_def)
  then have "ur_from r = pd_current d0" "kept d0 d"
    by (cases "ur_phase r"; simp add: noted_def phase_ok_def opened_def is_terminal_def)+
  with t have "there (ur_from r) d" by (simp add: there_def kept_def release_is_dir_def)
  with n triple_returns [OF always_reconcile [OF fs, of r], of "tx_start d"] show ?thesis
    by (auto simp: noted_def tx_start_def)
qed

text \<open>
  C26. Power may fail at any durable write of an upgrade, and again at any write of the
  recoveries that follow. When a recovery then reports success, no transaction is in flight,
  the release that was selected is untouched, and either it is still selected (with the
  fallback it had, or none), or the candidate is and the old release is the fallback, on
  record as committed or as a failed rollback. What recovery says it reverted, it reverted,
  the platform state included.
\<close>

theorem interrupted_upgrade_recovers:
  assumes "quiet d0" and "d1 \<in> cuts effect (run_upgrade env installed) d0" and "recovery_cut d1 d2"
    and "reconcile env' (tx_start d2) = (Ok a, u)"
  shows "quiet (tx_disk u) \<and> kept d0 (tx_disk u)
    \<and> (unchanged_selection d0 (tx_disk u) \<or> moved_selection d0 (tx_disk u))
    \<and> (case a of
         Nothing \<Rightarrow> True
       | DiscardedStaging v \<Rightarrow> pd_current (tx_disk u) = pd_current d0 \<and> pd_previous (tx_disk u) = pd_previous d0
           \<and> pd_state (tx_disk u) = pd_state d0
       | Reverted v f restored \<Rightarrow> f = pd_current d0 \<and> unchanged_selection d0 (tx_disk u)
           \<and> (restored \<longrightarrow> pd_state (tx_disk u) = Some (content d0)))"
proof -
  have "cut_ok d0 (pd_previous d0) d2"
    using assms recovery_cut_ok upgrade_cut_ok by blast
  with triple_result [OF safe_reconcile [OF assms(1)] _ assms(4)]
  have r: "recovered d0 (pd_previous d0) a (tx_disk u)" by (simp add: tx_start_def)
  then have "quiet (tx_disk u)" "cut_ok d0 (pd_previous d0) (tx_disk u)" by (simp_all add: recovered_def)
  moreover from r have "case a of Nothing \<Rightarrow> True
       | DiscardedStaging v \<Rightarrow> pd_current (tx_disk u) = pd_current d0 \<and> pd_previous (tx_disk u) = pd_previous d0
           \<and> pd_state (tx_disk u) = pd_state d0
       | Reverted v f restored \<Rightarrow> f = pd_current d0 \<and> unchanged_selection d0 (tx_disk u)
           \<and> (restored \<longrightarrow> pd_state (tx_disk u) = Some (content d0))"
    by (auto simp: recovered_def staging_ok_def links_back_def unchanged_selection_def state_back_def
        split: reconciled.splits option.splits if_splits)
  ultimately show ?thesis using settled_cases by blast
qed

theorem interrupted_upgrade_recovers_witness:
  "pd_current (example_cut 12) = Some ''2.0.0'' \<and> (\<exists>a u. reconcile (example_env True) (tx_start (example_cut 12)) = (Ok a, u)
     \<and> quiet (tx_disk u) \<and> (unchanged_selection example_disk (tx_disk u) \<or> moved_selection example_disk (tx_disk u)))"
proof -
  obtain a u where "reconcile (example_env True) (tx_start (example_cut 12)) = (Ok a, u)"
    using recovery_returns [OF example_works example_quiet example_there upgrade_cut_ok [OF example_cut_in]] by blast
  then show ?thesis
    using example_selected interrupted_upgrade_recovers [OF example_quiet example_cut_in recovery_cut.never] by blast
qed

text \<open>
  C27. After any such sequence of power cuts, recovery does return once the file system
  works, provided the release that was selected was installed; and then there is nothing
  left to recover: another recovery changes nothing.
\<close>

theorem recovery_finishes:
  assumes "quiet d0" and "there (pd_current d0) d0" and "d1 \<in> cuts effect (run_upgrade env installed) d0"
    and "recovery_cut d1 d2" and "fs_works env'"
  shows "\<exists>a u u'. reconcile env' (tx_start d2) = (Ok a, u)
    \<and> reconcile env' (tx_start (tx_disk u)) = (Ok Nothing, u') \<and> tx_disk u' = tx_disk u"
proof -
  have cut: "cut_ok d0 (pd_previous d0) d2"
    using assms recovery_cut_ok upgrade_cut_ok by blast
  with assms obtain a u where run: "reconcile env' (tx_start d2) = (Ok a, u)"
    using recovery_returns by blast
  with cut triple_result [OF safe_reconcile [OF assms(1)] _ run]
  have "quiet (tx_disk u)" by (simp add: tx_start_def recovered_def)
  with run assms(5) show ?thesis using quiet_reconcile by blast
qed

theorem recovery_finishes_witness:
  "\<exists>a u u'. reconcile (example_env True) (tx_start (example_cut 12)) = (Ok a, u)
    \<and> reconcile (example_env True) (tx_start (tx_disk u)) = (Ok Nothing, u') \<and> tx_disk u' = tx_disk u"
  by (rule recovery_finishes [OF example_quiet example_there example_cut_in recovery_cut.never example_works])

text \<open>
  An upgrade starts the platform at most twice, the candidate once and the release it
  goes back to once, whatever the environment answers; a rollback on request starts it at
  most once, and recovery never starts anything.
\<close>

theorem one_attempt_each:
  "sum_list (map starts (tx_log (snd (run_upgrade env installed (tx_start d))))) \<le> 2
   \<and> sum_list (map starts (tx_log (snd (rollback_on_request env (tx_start d))))) \<le> 1
   \<and> sum_list (map starts (tx_log (snd (reconcile env (tx_start d))))) = 0"
  using costs_start [OF starts_run_upgrade] costs_start [OF starts_rollback_on_request] costs_start [OF starts_reconcile]
  by simp

text \<open>
  C28. What an upgrade that reports an outcome leaves behind. Upgraded: the candidate is
  healthy, selected and installed, the old release is the fallback, and the journal says
  committed. Rolled back: the old release is healthy and selected again, with its fallback
  when that is still installed. Stranded: the journal says failed, and what is selected is
  the old selection or the candidate.
\<close>

theorem upgrade_outcome:
  assumes "run_upgrade env installed (tx_start d0) = (Ok out, u)"
  shows "kept d0 (tx_disk u) \<and> (case out of
     Upgraded f v health \<Rightarrow> f = pd_current d0 \<and> hr_healthy health \<and> pointing (Some v) f (tx_disk u)
   | RolledBackTo v f failure health \<Rightarrow> pd_current d0 = Some f \<and> hr_healthy health \<and> links_back d0 (pd_previous d0) (tx_disk u)
   | Stranded v failure reason \<Rightarrow> unchanged_selection d0 (tx_disk u) \<or> moved_selection d0 (tx_disk u))
   \<and> (\<exists>r. pd_journal (tx_disk u) = Journal r \<and> ur_phase r = (case out of
         Upgraded f v health \<Rightarrow> Commit | RolledBackTo v f failure health \<Rightarrow> RolledBack | Stranded v failure reason \<Rightarrow> Failed))"
proof -
  have out: "upgraded_ok d0 (pd_previous d0) out (tx_disk u)"
    using triple_result [OF safe_run_upgrade _ assms] by (simp add: tx_start_def)
  then obtain r where r: "noted d0 (pd_previous d0) r (tx_disk u)" "ur_phase r = (case out of
      Upgraded f v health \<Rightarrow> Commit | RolledBackTo v f failure health \<Rightarrow> RolledBack | Stranded v failure reason \<Rightarrow> Failed)"
    by (auto simp: upgraded_ok_def rolled_ok_def ended_def split: update_outcome.splits)
  then have "quiet (tx_disk u)" by (intro noted_quiet [OF r(1)]) (cases out; simp add: is_terminal_def)
  with settled_cases [OF noted_cut [OF r(1)]] have "kept d0 (tx_disk u) \<and> (unchanged_selection d0 (tx_disk u) \<or> moved_selection d0 (tx_disk u))"
    by blast
  with out r show ?thesis
    by (cases out) (auto simp: upgraded_ok_def rolled_ok_def ended_def noted_def)
qed

theorem upgrade_outcome_witness:
  "\<exists>out u. run_upgrade (example_env True) (\<lambda>_. []) (tx_start example_disk) = (Ok out, u) \<and> kept example_disk (tx_disk u)"
proof -
  have "fst (run_upgrade (example_env True) (\<lambda>_. []) (tx_start example_disk)) = Ok (Upgraded (Some ''1.0.0'') ''2.0.0''
      \<lparr>hr_reached = Ready, hr_healthy = True, hr_died = False, hr_elapsed = 0, hr_note = []\<rparr>)"
    by (simp add: tx_run update_run example_run numeral_2_eq_2 less_rung_def del: append.simps)
  then obtain out u where "run_upgrade (example_env True) (\<lambda>_. []) (tx_start example_disk) = (Ok out, u)"
    by (metis prod.collapse)
  then show ?thesis using upgrade_outcome by blast
qed

lemma safe_rollback_on_request:
  "safe d0 (pd_current d0) (\<lambda>d. d = d0) (rollback_on_request env) (rolled_ok d0 (pd_current d0))"
proof -
  let ?p = "pd_current d0"
  have body: "safe d0 ?p (\<lambda>d. d = d0) (tx_bind (journal_advance env r Activate m) (\<lambda>r1. roll_back env r1 v fl)) (rolled_ok d0 ?p)"
    if r: "opened d0 ?p r" "ur_snapshot r = None" for r m v fl
  proof (rule triple_bind [OF _ triple_pure])
    let ?Q = "\<lambda>s d. holding d0 ?p s (startable d0 ?p s) d \<and> ur_phase s = Activate \<and> opened d0 ?p s"
    show "safe d0 ?p (\<lambda>d. d = d0) (journal_advance env r Activate m)
        (\<lambda>s d. holding d0 ?p s (startable d0 ?p s) d \<and> (ur_phase s = Activate \<and> opened d0 ?p s))"
    proof (rule safe_advance)
      fix d r' assume "d = d0" and r': "r' = r\<lparr>ur_phase := Activate, ur_note := (if m \<noteq> [] then m else ur_note r)\<rparr>"
      then have "noted d0 ?p r' (d\<lparr>pd_journal := Journal r'\<rparr>)" "opened d0 ?p r'"
        using r by (auto simp: noted_def phase_ok_def kept_def snapshot_ok_def opened_def)
      with \<open>d = d0\<close> show "cut_ok d0 ?p (d\<lparr>pd_journal := Journal r'\<rparr>) \<and>
          (holding d0 ?p r' (startable d0 ?p r') (d\<lparr>pd_journal := Journal r'\<rparr>) \<and> (ur_phase r' = Activate \<and> opened d0 ?p r'))"
        by (simp add: holding_def startable_def reverted_def r')
    qed simp
    fix s assume "ur_phase s = Activate \<and> opened d0 ?p s"
    then show "safe d0 ?p (holding d0 ?p s (startable d0 ?p s)) (roll_back env s v fl) (rolled_ok d0 ?p)"
      by (intro safe_roll_back) simp_all
  qed
  show ?thesis
    unfolding rollback_on_request_def Let_def
  proof (rule triple_bind [where Q = "\<lambda>_ d. d = d0"], rule safe_probe, simp,
        rule triple_bind [OF safe_refuse], rule triple_bind_eq [OF safe_read_selection],
        rule triple_bind_eq [OF safe_read_selection], unfold read_link.simps, goal_cases)
    case 1
    show ?case
    proof (cases "pd_previous d0")
      case None
      show ?thesis unfolding None option.case by (rule triple_err) simp
    next
      case (Some f)
      show ?thesis
        unfolding Some option.case by (rule body) (simp_all add: record_opening_def opened_def)
    qed
  qed
qed

text \<open>
  C29. A rollback on request does not go back: when it reports that it rolled back, the
  release it put back is the one that was selected, and that release is now recorded as its
  own fallback, so the release that \<open>previous\<close> named can no longer be reached. (The record
  is opened with the selected release as the one to restore.)
\<close>

theorem requested_rollback_keeps_current:
  assumes "rollback_on_request env (tx_start d0) = (Ok (RolledBackTo v f failure health), u)"
  shows "pd_current d0 = Some f \<and> pd_current (tx_disk u) = Some f
    \<and> pd_previous (tx_disk u) = (if release_is_dir (tx_disk u) f then Some f else None)"
proof -
  have "rolled_ok d0 (pd_current d0) (RolledBackTo v f failure health) (tx_disk u)"
    using triple_result [OF safe_rollback_on_request _ assms] by (simp add: tx_start_def)
  then show ?thesis by (auto simp: rolled_ok_def ended_def links_back_def)
qed

definition example_pair :: platform_disk where
  "example_pair = example_disk\<lparr>pd_releases := (\<lambda>_. None)(''1.0.0'' := Some (Some (example_manifest ''1.0.0'' 1)),
     ''2.0.0'' := Some (Some (example_manifest ''2.0.0'' 2))), pd_current := Some ''2.0.0'', pd_previous := Some ''1.0.0''\<rparr>"

theorem requested_rollback_keeps_current_witness:
  "\<exists>v failure health u. rollback_on_request (example_env True) (tx_start example_pair)
       = (Ok (RolledBackTo v ''2.0.0'' failure health), u)
     \<and> pd_previous example_pair = Some ''1.0.0'' \<and> pd_current (tx_disk u) = Some ''2.0.0''"
proof -
  have "fst (rollback_on_request (example_env True) (tx_start example_pair)) = Ok (RolledBackTo ''2.0.0'' ''2.0.0''
      \<lparr>un_reached = Ready, un_stalled_at = Ready, un_note = ''rollback requested by hand'', un_died = False\<rparr>
      \<lparr>hr_reached = Ready, hr_healthy = True, hr_died = False, hr_elapsed = 0, hr_note = []\<rparr>)"
    by (simp add: tx_run update_run example_run example_pair_def numeral_2_eq_2 less_rung_def del: append.simps)
  then obtain failure health u where "rollback_on_request (example_env True) (tx_start example_pair)
      = (Ok (RolledBackTo ''2.0.0'' ''2.0.0'' failure health), u)"
    by (metis prod.collapse)
  then show ?thesis using requested_rollback_keeps_current by (auto simp: example_pair_def)
qed

end
