(* ===== verification/PackageInstall.thy ===== *)
theory PackageInstall
  imports Transaction Protocol "HOL-Library.List_Lexorder" "HOL-Library.Char_ord"
begin

text \<open>
  The app installer (\<open>platform/packages/src/install.rs\<close> over \<open>store.rs\<close>): the package store,
  the markers that make a release directory complete, the two selection files of an app, the
  journal of intents, the locks and the staging directories, and the operations on them:
  install, rollback, prune and recover. Directories are association lists, in the order
  \<open>read_dir\<close> gives them. Downloading is a byte string; the digest, the extraction, the
  version order, the question whether an app is running and every failure of the file system
  are answers of the environment \<open>install_env\<close>. Progress reports, times and the granted
  capabilities of the answer are left out: nothing here depends on them.
\<close>

section \<open>The store\<close>

type_synonym pkg_version = string

record marker =
  mk_digest :: string
  mk_signer :: string

datatype marker_file = NoMarker | BadMarker | HasMarker marker

record app_manifest =
  am_id :: app_id
  am_version :: pkg_version
  am_protocol :: protocol_version

text \<open>
  A directory that an archive was extracted to: its marker, its manifest when that can be
  read, whether every other file is there, and the archive it came from.
\<close>

record app_release =
  ar_marker :: marker_file
  ar_manifest :: "app_manifest option"
  ar_whole :: bool
  ar_archive :: string

datatype install_phase = Stage | Activating

record install_journal =
  ij_app :: app_id
  ij_version :: pkg_version
  ij_previous :: "pkg_version option"
  ij_staging :: "string option"
  ij_phase :: install_phase

text \<open>A selection file or a journal file that cannot be parsed holds \<open>None\<close>.\<close>

record package_store =
  ps_apps :: "app_id list"
  ps_releases :: "((app_id \<times> pkg_version) \<times> app_release) list"
  ps_current :: "(app_id \<times> pkg_version option) list"
  ps_previous :: "(app_id \<times> pkg_version option) list"
  ps_journal :: "(string \<times> install_journal option) list"
  ps_staging :: "(string \<times> app_release option) list"
  ps_locks :: "app_id list"

definition dir_drop :: "'k \<Rightarrow> ('k \<times> 'v) list \<Rightarrow> ('k \<times> 'v) list" where
  "dir_drop k l = filter (\<lambda>e. fst e \<noteq> k) l"

definition dir_put :: "'k \<Rightarrow> 'v \<Rightarrow> ('k \<times> 'v) list \<Rightarrow> ('k \<times> 'v) list" where
  "dir_put k v l = (k, v) # dir_drop k l"

lemma map_of_dir_drop [simp]: "map_of (dir_drop k l) x = (if x = k then None else map_of l x)"
  by (induction l) (auto simp: dir_drop_def)

lemma map_of_dir_put [simp]: "map_of (dir_put k v l) x = (if x = k then Some v else map_of l x)"
  by (simp add: dir_put_def)

lemma set_dir_drop [simp]: "set (dir_drop k l) = {e \<in> set l. fst e \<noteq> k}"
  by (auto simp: dir_drop_def)

lemma set_dir_put [simp]: "set (dir_put k v l) = insert (k, v) {e \<in> set l. fst e \<noteq> k}"
  by (simp add: dir_put_def)

lemma map_of_adjust: "map_of (map (\<lambda>(k, r). (k, f k r)) l) x = map_option (f x) (map_of l x)"
  by (induction l) auto

datatype selection_file = CurrentFile | PreviousFile

text \<open>Durable writes. Removing a release is not one step: a cut can leave part of its files.\<close>

datatype store_event =
    TakeLock app_id
  | DropLock app_id
  | MakeApp app_id
  | MakeStage string
  | FillStage string app_release
  | StampStage string marker
  | DropStage string
  | WriteIntent string install_journal
  | DropIntent string
  | CommitStage string app_id pkg_version
  | GutRelease app_id pkg_version bool bool
  | RemoveRelease app_id pkg_version
  | WriteSelection selection_file app_id pkg_version
  | DropCurrent app_id

definition gutted :: "bool \<Rightarrow> bool \<Rightarrow> app_release \<Rightarrow> app_release" where
  "gutted marker manifest r = r\<lparr>ar_marker := (if marker then ar_marker r else NoMarker),
     ar_manifest := (if manifest then ar_manifest r else None), ar_whole := False\<rparr>"

fun put_store :: "package_store \<Rightarrow> store_event \<Rightarrow> package_store" where
  "put_store d (TakeLock a) = d\<lparr>ps_locks := a # ps_locks d\<rparr>"
| "put_store d (DropLock a) = d\<lparr>ps_locks := removeAll a (ps_locks d)\<rparr>"
| "put_store d (MakeApp a) = d\<lparr>ps_apps := List.insert a (ps_apps d)\<rparr>"
| "put_store d (MakeStage t) = d\<lparr>ps_staging := dir_put t None (ps_staging d)\<rparr>"
| "put_store d (FillStage t r) = d\<lparr>ps_staging := dir_put t (Some r) (ps_staging d)\<rparr>"
| "put_store d (StampStage t m) = d\<lparr>ps_staging := map (\<lambda>(s, r). (s,
     if s = t then map_option (\<lambda>r. r\<lparr>ar_marker := HasMarker m\<rparr>) r else r)) (ps_staging d)\<rparr>"
| "put_store d (DropStage t) = d\<lparr>ps_staging := dir_drop t (ps_staging d)\<rparr>"
| "put_store d (WriteIntent p j) = d\<lparr>ps_journal := dir_put p (Some j) (ps_journal d)\<rparr>"
| "put_store d (DropIntent p) = d\<lparr>ps_journal := dir_drop p (ps_journal d)\<rparr>"
| "put_store d (CommitStage t a v) = (case map_of (ps_staging d) t of
     Some (Some r) \<Rightarrow> d\<lparr>ps_releases := dir_put (a, v) r (ps_releases d), ps_staging := dir_put t None (ps_staging d)\<rparr>
   | _ \<Rightarrow> d)"
| "put_store d (GutRelease a v marker manifest) = d\<lparr>ps_releases := map (\<lambda>(k, r). (k,
     if k = (a, v) then gutted marker manifest r else r)) (ps_releases d)\<rparr>"
| "put_store d (RemoveRelease a v) = d\<lparr>ps_releases := dir_drop (a, v) (ps_releases d)\<rparr>"
| "put_store d (WriteSelection CurrentFile a v) = d\<lparr>ps_current := dir_put a (Some v) (ps_current d)\<rparr>"
| "put_store d (WriteSelection PreviousFile a v) = d\<lparr>ps_previous := dir_put a (Some v) (ps_previous d)\<rparr>"
| "put_store d (DropCurrent a) = d\<lparr>ps_current := dir_drop a (ps_current d)\<rparr>"

section \<open>Requests, errors, environment\<close>

record app_release_descriptor =
  rd_app :: app_id
  rd_version :: pkg_version
  rd_protocol :: protocol_version
  rd_size :: nat
  rd_digest :: string
  rd_signer :: string

record install_options =
  op_activate :: bool
  op_allow_downgrade :: bool
  op_allow_incompatible :: bool
  op_prune :: bool

definition default_options :: install_options where
  "default_options = \<lparr>op_activate = True, op_allow_downgrade = False, op_allow_incompatible = False, op_prune = True\<rparr>"

record installed =
  in_app :: app_id
  in_version :: pkg_version
  in_previous :: "pkg_version option"
  in_activated :: bool
  in_already_present :: bool
  in_pruned :: "pkg_version list"

record rolled_back =
  rb_app :: app_id
  rb_version :: pkg_version
  rb_from :: pkg_version

record recovered_report =
  rr_completed :: "(app_id \<times> pkg_version) list"
  rr_reverted :: "(app_id \<times> pkg_version option) list"
  rr_staging_removed :: nat
  rr_locks_broken :: nat
  rr_incomplete_removed :: "(app_id \<times> pkg_version) list"

definition is_clean :: "recovered_report \<Rightarrow> bool" where
  "is_clean r \<longleftrightarrow> rr_completed r = [] \<and> rr_reverted r = [] \<and> rr_staging_removed r = 0
     \<and> rr_locks_broken r = 0 \<and> rr_incomplete_removed r = []"

datatype install_error =
    SizeError nat nat
  | DigestMismatch string string
  | Disagreement string
  | VersionExists app_id pkg_version string string
  | Downgrade app_id pkg_version pkg_version
  | Running app_id
  | NothingSelected app_id
  | NoFallback app_id
  | CorruptIntent string
  | BadArchive
  | UnreadableManifest
  | UnsupportedProtocol protocol_version protocol_version
  | StoreCorrupt
  | Locked app_id
  | StoreIo

record install_env =
  ie_io :: "nat \<Rightarrow> io_answer"
  ie_gut :: "nat \<Rightarrow> bool \<times> bool"
  ie_token :: "nat \<Rightarrow> string"
  ie_running :: "nat \<Rightarrow> bool"
  ie_older :: "pkg_version \<Rightarrow> pkg_version \<Rightarrow> bool"
  ie_archive :: string
  ie_sha :: "string \<Rightarrow> string"
  ie_extract :: "string \<Rightarrow> (install_error, app_manifest) result"

type_synonym 'a store_tx = "(package_store, store_event, install_error, 'a) tx"

abbreviation st_write :: "install_env \<Rightarrow> store_event \<Rightarrow> unit store_tx" where
  "st_write env w \<equiv> tx_io put_store (ie_io env) StoreIo w"

abbreviation st_probe :: "install_env \<Rightarrow> unit store_tx" where
  "st_probe env \<equiv> tx_probe (ie_io env) StoreIo"

abbreviation then_tx :: "unit store_tx \<Rightarrow> 'a store_tx \<Rightarrow> 'a store_tx" where
  "then_tx m k \<equiv> tx_bind m (\<lambda>_. k)"

section \<open>Reading the store\<close>

definition release_at :: "package_store \<Rightarrow> app_id \<Rightarrow> pkg_version \<Rightarrow> app_release option" where
  "release_at d a v = map_of (ps_releases d) (a, v)"

definition marker_at :: "package_store \<Rightarrow> app_id \<Rightarrow> pkg_version \<Rightarrow> marker_file" where
  "marker_at d a v = (case release_at d a v of None \<Rightarrow> NoMarker | Some r \<Rightarrow> ar_marker r)"

text \<open>\<open>read_marker\<close> and \<open>existing_marker\<close>.\<close>

definition existing_marker :: "install_env \<Rightarrow> app_id \<Rightarrow> pkg_version \<Rightarrow> marker option store_tx" where
  "existing_marker env a v = then_tx (st_probe env) (tx_bind (tx_get (\<lambda>d. marker_at d a v)) (\<lambda>m. case m of
     NoMarker \<Rightarrow> tx_ok None | HasMarker mk \<Rightarrow> tx_ok (Some mk) | BadMarker \<Rightarrow> tx_err StoreCorrupt))"

fun selection_at :: "package_store \<Rightarrow> selection_file \<Rightarrow> app_id \<Rightarrow> pkg_version option option" where
  "selection_at d CurrentFile a = map_of (ps_current d) a"
| "selection_at d PreviousFile a = map_of (ps_previous d) a"

definition read_selection :: "install_env \<Rightarrow> selection_file \<Rightarrow> app_id \<Rightarrow> pkg_version option store_tx" where
  "read_selection env f a = then_tx (st_probe env) (tx_bind (tx_get (\<lambda>d. selection_at d f a)) (\<lambda>s. case s of
     None \<Rightarrow> tx_ok None | Some None \<Rightarrow> tx_err StoreCorrupt | Some (Some v) \<Rightarrow> tx_ok (Some v)))"

definition usable_selection :: "install_env \<Rightarrow> selection_file \<Rightarrow> app_id \<Rightarrow> pkg_version option store_tx" where
  "usable_selection env f a = tx_bind (read_selection env f a) (\<lambda>s. case s of
     None \<Rightarrow> tx_ok None
   | Some v \<Rightarrow> tx_bind (existing_marker env a v) (\<lambda>m. tx_ok (if m = None then None else Some v)))"

text \<open>\<open>Layout::installed_versions\<close>: the complete releases, oldest first.\<close>

fun insert_version :: "(pkg_version \<Rightarrow> pkg_version \<Rightarrow> bool) \<Rightarrow> pkg_version \<Rightarrow> pkg_version list \<Rightarrow> pkg_version list" where
  "insert_version older v [] = [v]"
| "insert_version older v (w # ws) = (if older v w then v # w # ws else w # insert_version older v ws)"

definition listed_versions :: "package_store \<Rightarrow> app_id \<Rightarrow> pkg_version list" where
  "listed_versions d a = map (snd \<circ> fst) (filter (\<lambda>e. fst (fst e) = a) (ps_releases d))"

fun complete_versions :: "install_env \<Rightarrow> app_id \<Rightarrow> pkg_version list \<Rightarrow> pkg_version list store_tx" where
  "complete_versions env a [] = tx_ok []"
| "complete_versions env a (v # vs) = tx_bind (existing_marker env a v) (\<lambda>m.
     tx_bind (complete_versions env a vs) (\<lambda>rest. tx_ok (if m = None then rest else v # rest)))"

definition installed_versions :: "install_env \<Rightarrow> app_id \<Rightarrow> pkg_version list store_tx" where
  "installed_versions env a = then_tx (st_probe env) (tx_bind (tx_get (\<lambda>d. listed_versions d a)) (\<lambda>names.
     tx_bind (complete_versions env a names) (\<lambda>vs. tx_ok (foldr (insert_version (ie_older env)) vs []))))"

section \<open>Locks\<close>

definition acquire :: "install_env \<Rightarrow> app_id \<Rightarrow> unit store_tx" where
  "acquire env a = then_tx (st_probe env) (tx_bind (tx_get (\<lambda>d. a \<in> set (ps_locks d))) (\<lambda>held.
     if held then tx_err (Locked a) else st_write env (TakeLock a)))"

text \<open>The lock is dropped on every way out.\<close>

definition locked :: "install_env \<Rightarrow> app_id \<Rightarrow> 'a store_tx \<Rightarrow> 'a store_tx" where
  "locked env a m = then_tx (acquire env a) (tx_match m
     (\<lambda>e. then_tx (tx_try (st_write env (DropLock a))) (tx_err e))
     (\<lambda>x. then_tx (tx_try (st_write env (DropLock a))) (tx_ok x)))"

fun break_locks :: "install_env \<Rightarrow> app_id list \<Rightarrow> unit store_tx" where
  "break_locks env [] = tx_ok ()"
| "break_locks env (a # as) = then_tx (st_write env (DropLock a)) (break_locks env as)"

definition break_all :: "install_env \<Rightarrow> nat store_tx" where
  "break_all env = then_tx (st_probe env) (tx_bind (tx_get ps_locks) (\<lambda>ls.
     then_tx (break_locks env ls) (tx_ok (length ls))))"

section \<open>The journal\<close>

fun install_phase_label :: "install_phase \<Rightarrow> string" where
  "install_phase_label Stage = ''stage''"
| "install_phase_label Activating = ''activate''"

definition intent_file :: "install_journal \<Rightarrow> string" where
  "intent_file j = ij_app j @ ''-'' @ ij_version j @ ''-'' @ install_phase_label (ij_phase j) @ ''.toml''"

text \<open>Gives the entry's file.\<close>

definition write_intent :: "install_env \<Rightarrow> install_journal \<Rightarrow> string store_tx" where
  "write_intent env j = then_tx (st_probe env) (then_tx (st_write env (WriteIntent (intent_file j) j)) (tx_ok (intent_file j)))"

definition all_intents :: "install_env \<Rightarrow> string list store_tx" where
  "all_intents env = then_tx (st_probe env) (tx_get (\<lambda>d. sort (map fst (ps_journal d))))"

definition read_intent :: "install_env \<Rightarrow> string \<Rightarrow> install_journal store_tx" where
  "read_intent env p = then_tx (st_probe env) (tx_bind (tx_get (\<lambda>d. map_of (ps_journal d) p)) (\<lambda>e. case e of
     None \<Rightarrow> tx_err StoreIo | Some None \<Rightarrow> tx_err (CorruptIntent p) | Some (Some j) \<Rightarrow> tx_ok j))"

definition remove_intent :: "install_env \<Rightarrow> string \<Rightarrow> unit store_tx" where
  "remove_intent env p = st_write env (DropIntent p)"

section \<open>Steps\<close>

definition remove_app_release :: "install_env \<Rightarrow> app_id \<Rightarrow> pkg_version \<Rightarrow> unit store_tx" where
  "remove_app_release env a v = tx_bind (tx_ask (ie_gut env)) (\<lambda>(marker, manifest).
     then_tx (st_write env (GutRelease a v marker manifest)) (st_write env (RemoveRelease a v)))"

text \<open>\<open>Transaction::begin\<close> and \<open>Transaction::finish\<close>; a transaction is its directory and its entry.\<close>

definition begin_transaction :: "install_env \<Rightarrow> app_id \<Rightarrow> pkg_version \<Rightarrow> (string \<times> string) store_tx" where
  "begin_transaction env a v = then_tx (st_probe env) (tx_bind (tx_ask (ie_token env)) (\<lambda>token.
     let t = a @ ''-'' @ v @ ''-'' @ token
     in then_tx (st_write env (DropStage t))
       (then_tx (st_write env (MakeStage t))
         (tx_bind (write_intent env \<lparr>ij_app = a, ij_version = v, ij_previous = None, ij_staging = Some t, ij_phase = Stage\<rparr>)
           (\<lambda>entry. tx_ok (t, entry))))))"

definition finish_transaction :: "install_env \<Rightarrow> string \<times> string \<Rightarrow> unit store_tx" where
  "finish_transaction env tr = then_tx (st_write env (DropStage (fst tr))) (remove_intent env (snd tr))"

text \<open>A \<open>MeasuredReader\<close> copied to its end.\<close>

definition measured_copy :: "(string \<Rightarrow> string) \<Rightarrow> nat \<Rightarrow> string \<Rightarrow> (install_error, nat \<times> string) result" where
  "measured_copy sha limit bytes = (if limit < length bytes then Err StoreIo else Ok (length bytes, sha bytes))"

definition stage_archive :: "install_env \<Rightarrow> string \<Rightarrow> app_release_descriptor \<Rightarrow> app_manifest store_tx" where
  "stage_archive env t desc =
     then_tx (st_probe env)
    (tx_bind (tx_lift (measured_copy (ie_sha env) (rd_size desc) (ie_archive env))) (\<lambda>(copied, digest).
     then_tx (st_probe env)
     (if copied \<noteq> rd_size desc then tx_err (SizeError (rd_size desc) copied)
      else if digest \<noteq> rd_digest desc then tx_err (DigestMismatch (rd_digest desc) digest)
      else then_tx (st_probe env)
        (tx_bind (tx_lift (ie_extract env (ie_archive env))) (\<lambda>m.
         then_tx (st_write env (FillStage t \<lparr>ar_marker = NoMarker, ar_manifest = Some m, ar_whole = True, ar_archive = ie_archive env\<rparr>))
           (tx_ok m))))))"

definition check_agreement :: "app_release_descriptor \<Rightarrow> app_manifest \<Rightarrow> (install_error, unit) result" where
  "check_agreement desc m =
     (if am_id m \<noteq> rd_app desc then Err (Disagreement ''app id'')
      else if am_version m \<noteq> rd_version desc then Err (Disagreement ''version'')
      else if am_protocol m \<noteq> rd_protocol desc then Err (Disagreement ''protocol'')
      else Ok ())"

definition ensure_runnable :: "app_manifest \<Rightarrow> (install_error, unit) result" where
  "ensure_runnable m = (if can_run CURRENT (am_protocol m) then Ok () else Err (UnsupportedProtocol (am_protocol m) CURRENT))"

text \<open>\<open>commit_directory\<close>: the rename fails on a directory that holds anything.\<close>

definition commit_stage :: "install_env \<Rightarrow> string \<Rightarrow> app_id \<Rightarrow> pkg_version \<Rightarrow> unit store_tx" where
  "commit_stage env t a v = then_tx (st_probe env) (then_tx (st_write env (MakeApp a))
     (tx_bind (tx_get (\<lambda>d. release_at d a v \<noteq> None)) (\<lambda>occupied.
        if occupied then tx_err StoreIo else st_write env (CommitStage t a v))))"

definition apply_selection :: "install_env \<Rightarrow> app_id \<Rightarrow> pkg_version \<Rightarrow> pkg_version option \<Rightarrow> unit store_tx" where
  "apply_selection env a v previous =
     then_tx (st_write env (MakeApp a))
    (then_tx (case previous of
        Some p \<Rightarrow> if p \<noteq> v then st_write env (WriteSelection PreviousFile a p) else tx_ok ()
      | None \<Rightarrow> tx_ok ())
    (then_tx (st_write env (WriteSelection CurrentFile a v)) (st_probe env)))"

definition restore_selection :: "install_env \<Rightarrow> app_id \<Rightarrow> pkg_version option \<Rightarrow> unit store_tx" where
  "restore_selection env a fallback = tx_bind (tx_get (\<lambda>d. a \<in> set (ps_apps d))) (\<lambda>there.
     if \<not> there then tx_ok ()
     else then_tx (case fallback of
         Some v \<Rightarrow> st_write env (WriteSelection CurrentFile a v)
       | None \<Rightarrow> st_write env (DropCurrent a)) (st_probe env))"

definition usable_fallback :: "install_env \<Rightarrow> install_journal \<Rightarrow> pkg_version option store_tx" where
  "usable_fallback env j = tx_bind (case ij_previous j of
       None \<Rightarrow> tx_ok None | Some p \<Rightarrow> existing_marker env (ij_app j) p) (\<lambda>m.
     if m \<noteq> None then tx_ok (ij_previous j)
     else tx_bind (usable_selection env CurrentFile (ij_app j)) (\<lambda>current.
       if current \<noteq> None then tx_ok current
       else tx_bind (installed_versions env (ij_app j)) (\<lambda>vs.
         tx_ok (if vs = [] then None else Some (last vs)))))"

fun prune_app_loop :: "install_env \<Rightarrow> app_id \<Rightarrow> pkg_version list \<Rightarrow> pkg_version list \<Rightarrow> pkg_version list store_tx" where
  "prune_app_loop env a keep [] = tx_ok []"
| "prune_app_loop env a keep (v # vs) =
     (if v \<in> set keep then prune_app_loop env a keep vs
      else then_tx (remove_app_release env a v)
        (tx_bind (prune_app_loop env a keep vs) (\<lambda>pruned. tx_ok (v # pruned))))"

definition prune_app :: "install_env \<Rightarrow> app_id \<Rightarrow> pkg_version \<Rightarrow> pkg_version list store_tx" where
  "prune_app env a keep =
     tx_bind (usable_selection env CurrentFile a) (\<lambda>current.
     tx_bind (usable_selection env PreviousFile a) (\<lambda>previous.
     tx_bind (installed_versions env a) (\<lambda>vs.
       prune_app_loop env a (List.map_filter id [current, previous, Some keep]) vs)))"

section \<open>The operations\<close>

text \<open>
  \<open>PackageManager::finish\<close>: select when asked to, prune, report. The boolean arguments are
  \<open>activate\<close> and \<open>already_present\<close> of the request.
\<close>

definition finish_install :: "install_env \<Rightarrow> install_options \<Rightarrow> app_id \<Rightarrow> pkg_version \<Rightarrow> pkg_version option
    \<Rightarrow> bool \<Rightarrow> bool \<Rightarrow> installed store_tx" where
  "finish_install env opts a v current activate present =
     tx_bind (if activate \<and> current \<noteq> Some v
       then tx_bind (tx_ask (ie_running env)) (\<lambda>running.
         if running then tx_err (Running a)
         else tx_bind (write_intent env \<lparr>ij_app = a, ij_version = v, ij_previous = current, ij_staging = None, ij_phase = Activating\<rparr>)
           (\<lambda>entry. then_tx (apply_selection env a v current) (then_tx (remove_intent env entry) (tx_ok True))))
       else tx_ok (current = Some v \<and> activate)) (\<lambda>activated.
     tx_bind (if op_prune opts then prune_app env a v else tx_ok []) (\<lambda>pruned.
     tx_ok \<lparr>in_app = a, in_version = v, in_previous = current, in_activated = activated,
       in_already_present = present, in_pruned = pruned\<rparr>))"

definition install_staged :: "install_env \<Rightarrow> install_options \<Rightarrow> app_release_descriptor \<Rightarrow> string
    \<Rightarrow> pkg_version option \<Rightarrow> installed store_tx" where
  "install_staged env opts desc t current =
     tx_bind (stage_archive env t desc) (\<lambda>m.
     then_tx (tx_lift (check_agreement desc m))
    (then_tx (tx_lift (if op_allow_incompatible opts then Ok () else ensure_runnable m))
    (then_tx (st_write env (StampStage t \<lparr>mk_digest = rd_digest desc, mk_signer = rd_signer desc\<rparr>))
    (then_tx (commit_stage env t (rd_app desc) (rd_version desc))
      (finish_install env opts (rd_app desc) (rd_version desc) current
        (op_activate opts \<and> ensure_runnable m = Ok ()) False)))))"

definition fresh_install :: "install_env \<Rightarrow> install_options \<Rightarrow> app_release_descriptor \<Rightarrow> pkg_version option \<Rightarrow> installed store_tx" where
  "fresh_install env opts desc current =
     tx_bind (begin_transaction env (rd_app desc) (rd_version desc)) (\<lambda>tr.
     tx_match (install_staged env opts desc (fst tr) current)
       (\<lambda>e. then_tx (tx_try (finish_transaction env tr)) (tx_err e))
       (\<lambda>r. then_tx (finish_transaction env tr) (tx_ok r)))"

definition install_locked :: "install_env \<Rightarrow> install_options \<Rightarrow> app_release_descriptor \<Rightarrow> installed store_tx" where
  "install_locked env opts desc =
     tx_bind (usable_selection env CurrentFile (rd_app desc)) (\<lambda>current.
     if \<not> op_allow_downgrade opts \<and> (case current of Some s \<Rightarrow> ie_older env (rd_version desc) s | None \<Rightarrow> False)
     then tx_err (Downgrade (rd_app desc) (the current) (rd_version desc))
     else tx_bind (existing_marker env (rd_app desc) (rd_version desc)) (\<lambda>found. case found of
         Some mk \<Rightarrow>
           if mk_digest mk \<noteq> rd_digest desc
           then tx_err (VersionExists (rd_app desc) (rd_version desc) (mk_digest mk) (rd_digest desc))
           else tx_bind (tx_get (\<lambda>d. Option.bind (release_at d (rd_app desc) (rd_version desc)) ar_manifest)) (\<lambda>m. case m of
               None \<Rightarrow> tx_err UnreadableManifest
             | Some _ \<Rightarrow> finish_install env opts (rd_app desc) (rd_version desc) current (op_activate opts) True)
       | None \<Rightarrow> fresh_install env opts desc current))"

definition install_release :: "install_env \<Rightarrow> install_options \<Rightarrow> app_release_descriptor \<Rightarrow> installed store_tx" where
  "install_release env opts desc = then_tx (st_probe env) (locked env (rd_app desc) (install_locked env opts desc))"

definition rollback_app :: "install_env \<Rightarrow> app_id \<Rightarrow> rolled_back store_tx" where
  "rollback_app env a = locked env a
     (tx_bind (usable_selection env CurrentFile a) (\<lambda>current. case current of
        None \<Rightarrow> tx_err (NothingSelected a)
      | Some from \<Rightarrow> tx_bind (usable_selection env PreviousFile a) (\<lambda>previous. case previous of
          None \<Rightarrow> tx_err (NoFallback a)
        | Some to \<Rightarrow> tx_bind (tx_ask (ie_running env)) (\<lambda>running.
            if running then tx_err (Running a)
            else tx_bind (write_intent env \<lparr>ij_app = a, ij_version = to, ij_previous = Some from, ij_staging = None, ij_phase = Activating\<rparr>)
              (\<lambda>entry. then_tx (apply_selection env a to (Some from))
                (then_tx (remove_intent env entry) (tx_ok \<lparr>rb_app = a, rb_version = to, rb_from = from\<rparr>)))))))"

section \<open>Recovery\<close>

definition recover_selection :: "install_env \<Rightarrow> install_journal \<Rightarrow> recovered_report \<Rightarrow> recovered_report store_tx" where
  "recover_selection env j report =
     (if ij_phase j = Activating
      then tx_bind (existing_marker env (ij_app j) (ij_version j)) (\<lambda>m.
        if m \<noteq> None
        then then_tx (apply_selection env (ij_app j) (ij_version j) (ij_previous j))
          (tx_ok (report\<lparr>rr_completed := rr_completed report @ [(ij_app j, ij_version j)]\<rparr>))
        else tx_bind (usable_fallback env j) (\<lambda>fallback.
          then_tx (restore_selection env (ij_app j) fallback)
            (tx_ok (report\<lparr>rr_reverted := rr_reverted report @ [(ij_app j, fallback)]\<rparr>))))
      else tx_ok report)"

definition recover_intent :: "install_env \<Rightarrow> string \<Rightarrow> recovered_report \<Rightarrow> recovered_report store_tx" where
  "recover_intent env p report =
     tx_bind (read_intent env p) (\<lambda>j. locked env (ij_app j)
      (tx_bind (case ij_staging j of
          Some t \<Rightarrow> then_tx (st_write env (DropStage t)) (tx_ok (report\<lparr>rr_staging_removed := Suc (rr_staging_removed report)\<rparr>))
        | None \<Rightarrow> tx_ok report) (\<lambda>report1.
       tx_bind (recover_selection env j report1) (\<lambda>report2.
       then_tx (remove_intent env p) (tx_ok report2)))))"

fun recover_intents :: "install_env \<Rightarrow> string list \<Rightarrow> recovered_report \<Rightarrow> recovered_report store_tx" where
  "recover_intents env [] report = tx_ok report"
| "recover_intents env (p # ps) report = tx_bind (recover_intent env p report) (recover_intents env ps)"

fun sweep_staging_loop :: "install_env \<Rightarrow> string list \<Rightarrow> unit store_tx" where
  "sweep_staging_loop env [] = tx_ok ()"
| "sweep_staging_loop env (t # ts) = then_tx (st_write env (DropStage t)) (sweep_staging_loop env ts)"

definition sweep_staging :: "install_env \<Rightarrow> nat store_tx" where
  "sweep_staging env = then_tx (st_probe env) (tx_bind (tx_get (\<lambda>d. map fst (ps_staging d))) (\<lambda>ts.
     then_tx (sweep_staging_loop env ts) (tx_ok (length ts))))"

fun sweep_releases :: "install_env \<Rightarrow> app_id \<Rightarrow> pkg_version list \<Rightarrow> (app_id \<times> pkg_version) list store_tx" where
  "sweep_releases env a [] = tx_ok []"
| "sweep_releases env a (v # vs) = tx_bind (existing_marker env a v) (\<lambda>m.
     if m \<noteq> None then sweep_releases env a vs
     else then_tx (remove_app_release env a v)
       (tx_bind (sweep_releases env a vs) (\<lambda>removed. tx_ok ((a, v) # removed))))"

fun sweep_apps :: "install_env \<Rightarrow> app_id list \<Rightarrow> (app_id \<times> pkg_version) list store_tx" where
  "sweep_apps env [] = tx_ok []"
| "sweep_apps env (a # as) = then_tx (st_probe env) (tx_bind (tx_get (\<lambda>d. listed_versions d a)) (\<lambda>vs.
     tx_bind (sweep_releases env a vs) (\<lambda>removed.
     tx_bind (sweep_apps env as) (\<lambda>rest. tx_ok (removed @ rest)))))"

definition sweep_incomplete :: "install_env \<Rightarrow> (app_id \<times> pkg_version) list store_tx" where
  "sweep_incomplete env = then_tx (st_probe env) (tx_bind (tx_get (\<lambda>d. sort (ps_apps d))) (sweep_apps env))"

definition recover_store :: "install_env \<Rightarrow> recovered_report store_tx" where
  "recover_store env = then_tx (st_probe env)
     (tx_bind (break_all env) (\<lambda>broken.
      tx_bind (all_intents env) (\<lambda>ps.
      tx_bind (recover_intents env ps \<lparr>rr_completed = [], rr_reverted = [], rr_staging_removed = 0,
          rr_locks_broken = broken, rr_incomplete_removed = []\<rparr>) (\<lambda>report.
      tx_bind (sweep_staging env) (\<lambda>swept.
      tx_bind (sweep_incomplete env) (\<lambda>removed.
        tx_ok (report\<lparr>rr_staging_removed := rr_staging_removed report + swept, rr_incomplete_removed := removed\<rparr>)))))))"

end
