(* ===== verification/PackageRecovery.thy ===== *)
theory PackageRecovery
  imports PackageInstall
begin

text \<open>
  What survives a power cut in the package store, and what recovery makes of it: a release
  directory with a marker holds the whole archive the descriptor signed, the selections of
  an app change from the old pair to the new pair or not at all, and recovery leaves no
  intent, staging directory, lock or incomplete release behind.
\<close>

section \<open>Sound releases\<close>

definition sound_release :: "(string \<Rightarrow> string) \<Rightarrow> app_id \<Rightarrow> pkg_version \<Rightarrow> app_release \<Rightarrow> bool" where
  "sound_release sha a v r \<longleftrightarrow> ar_whole r
     \<and> (case ar_manifest r of None \<Rightarrow> False | Some m \<Rightarrow> am_id m = a \<and> am_version m = v)
     \<and> (case ar_marker r of HasMarker mk \<Rightarrow> mk_digest mk = sha (ar_archive r) | _ \<Rightarrow> False)"

definition store_sound :: "(string \<Rightarrow> string) \<Rightarrow> package_store \<Rightarrow> bool" where
  "store_sound sha d \<longleftrightarrow> (\<forall>a v r. release_at d a v = Some r \<longrightarrow> ar_marker r \<noteq> NoMarker \<longrightarrow> sound_release sha a v r)"

definition chosen :: "package_store \<Rightarrow> app_id \<Rightarrow> pkg_version \<Rightarrow> bool" where
  "chosen d a v \<longleftrightarrow> selection_at d CurrentFile a = Some (Some v) \<or> selection_at d PreviousFile a = Some (Some v)"

definition launch_sound :: "(string \<Rightarrow> string) \<Rightarrow> package_store \<Rightarrow> bool" where
  "launch_sound sha d \<longleftrightarrow> (\<forall>a v r. chosen d a v \<longrightarrow> release_at d a v = Some r \<longrightarrow> ar_marker r \<noteq> NoMarker
     \<longrightarrow> sound_release sha a v r)"

definition sound_but :: "(string \<Rightarrow> string) \<Rightarrow> app_id \<Rightarrow> pkg_version \<Rightarrow> package_store \<Rightarrow> bool" where
  "sound_but sha a v d \<longleftrightarrow> (\<forall>b w r. (b, w) \<noteq> (a, v) \<longrightarrow> release_at d b w = Some r \<longrightarrow> ar_marker r \<noteq> NoMarker
     \<longrightarrow> sound_release sha b w r)"

text \<open>
  Sound but for one release at most, of \<open>a\<close>, which is not version \<open>v\<close> and which the app has not
  selected and cannot fall back to: the one that is being pruned.
\<close>

definition nearly_sound :: "(string \<Rightarrow> string) \<Rightarrow> app_id \<Rightarrow> pkg_version \<Rightarrow> package_store \<Rightarrow> bool" where
  "nearly_sound sha a v d \<longleftrightarrow> store_sound sha d
     \<or> (\<exists>w. w \<noteq> v \<and> sound_but sha a w d \<and> (chosen d a w \<longrightarrow> marker_at d a w = NoMarker))"

lemma store_nearly_sound: "store_sound sha d \<Longrightarrow> nearly_sound sha a v d"
  by (simp add: nearly_sound_def)

lemma nearly_launch_sound: "nearly_sound sha a v d \<Longrightarrow> launch_sound sha d"
proof -
  have "sound_release sha b w r" if "sound_but sha a u d" "chosen d a u \<longrightarrow> marker_at d a u = NoMarker"
    "chosen d b w" "release_at d b w = Some r" "ar_marker r \<noteq> NoMarker" for u b w r
  proof (cases "(b, w) = (a, u)")
    case True
    with that show ?thesis by (simp add: marker_at_def)
  next
    case False
    with that(1,4,5) show ?thesis unfolding sound_but_def by blast
  qed
  then show "nearly_sound sha a v d \<Longrightarrow> launch_sound sha d"
    unfolding nearly_sound_def launch_sound_def store_sound_def by blast
qed

lemma release_at_other [simp]:
  "release_at (d\<lparr>ps_apps := x1\<rparr>) a v = release_at d a v" "release_at (d\<lparr>ps_current := x2\<rparr>) a v = release_at d a v"
  "release_at (d\<lparr>ps_previous := x2\<rparr>) a v = release_at d a v" "release_at (d\<lparr>ps_journal := x3\<rparr>) a v = release_at d a v"
  "release_at (d\<lparr>ps_staging := x4\<rparr>) a v = release_at d a v" "release_at (d\<lparr>ps_locks := x5\<rparr>) a v = release_at d a v"
  "release_at (d\<lparr>ps_releases := dir_drop (b, w) (ps_releases d)\<rparr>) a v = (if a = b \<and> v = w then None else release_at d a v)"
  "release_at (d\<lparr>ps_releases := dir_put (b, w) r (ps_releases d)\<rparr>) a v = (if a = b \<and> v = w then Some r else release_at d a v)"
  by (auto simp: release_at_def)

lemma release_at_gut [simp]:
  "release_at (put_store d (GutRelease b w marker manifest)) a v
     = (if a = b \<and> v = w then map_option (gutted marker manifest) (release_at d a v) else release_at d a v)"
  by (auto simp: release_at_def map_of_adjust option.map_ident split: option.splits)

text \<open>Writes that touch neither a release nor a selection nor an intent.\<close>

fun aside :: "store_event \<Rightarrow> bool" where
  "aside (CommitStage t a v) = False"
| "aside (GutRelease a v mk m) = False"
| "aside (RemoveRelease a v) = False"
| "aside (WriteSelection f a v) = False"
| "aside (DropCurrent a) = False"
| "aside (WriteIntent p j) = False"
| "aside (DropIntent p) = False"
| "aside _ = True"

lemma aside_releases: "aside w \<Longrightarrow> release_at (put_store d w) a v = release_at d a v"
  by (cases w) simp_all

lemma aside_selection: "aside w \<Longrightarrow> selection_at (put_store d w) f a = selection_at d f a"
  by (cases w; cases f) simp_all

abbreviation preserves :: "(package_store \<Rightarrow> bool) \<Rightarrow> 'a store_tx \<Rightarrow> bool" where
  "preserves P m \<equiv> keeps put_store P m"

text \<open>The programs that only write aside, and what they preserve.\<close>

definition stable :: "(package_store \<Rightarrow> bool) \<Rightarrow> bool" where
  "stable P \<longleftrightarrow> (\<forall>d w. aside w \<longrightarrow> P d \<longrightarrow> P (put_store d w))"

definition journal_free :: "(package_store \<Rightarrow> bool) \<Rightarrow> bool" where
  "journal_free P \<longleftrightarrow> (\<forall>d x. P d \<longrightarrow> P (d\<lparr>ps_journal := x\<rparr>))"

lemma journal_free_write [keep]:
  "journal_free P \<Longrightarrow> preserves P (st_write env (WriteIntent p j))"
  "journal_free P \<Longrightarrow> preserves P (st_write env (DropIntent p))"
  by (rule keeps_io; simp add: journal_free_def)+

lemma stableD: "stable P \<Longrightarrow> aside w \<Longrightarrow> P d \<Longrightarrow> P (put_store d w)"
  by (simp add: stable_def)

lemma stable_write [keep]: "stable P \<Longrightarrow> aside w \<Longrightarrow> preserves P (st_write env w)"
  by (rule keeps_io) (simp add: stable_def)

lemma preserves_reading [keep]:
  "preserves P (existing_marker env a v)"
  "preserves P (read_selection env f a)"
  by (auto simp: existing_marker_def read_selection_def split: marker_file.split option.split intro!: keep)

lemma preserves_usable [keep]: "preserves P (usable_selection env f a)"
  by (auto simp: usable_selection_def intro!: keep)

lemma preserves_installed [keep]: "preserves P (installed_versions env a)"
proof -
  have "preserves P (complete_versions env a vs)" for vs
    by (induction vs) (auto intro!: keep)
  then show ?thesis by (auto simp: installed_versions_def intro!: keep)
qed

lemma preserves_fallback [keep]: "preserves P (usable_fallback env j)"
  by (auto simp: usable_fallback_def intro!: keep)

lemma preserves_intents [keep]:
  "journal_free P \<Longrightarrow> preserves P (write_intent env j)"
  "journal_free P \<Longrightarrow> preserves P (remove_intent env p)"
  "preserves P (all_intents env)"
  "preserves P (read_intent env p)"
  by (auto simp: write_intent_def remove_intent_def all_intents_def read_intent_def intro!: keep)

lemma preserves_acquire [keep]: "stable P \<Longrightarrow> preserves P (acquire env a)"
  by (auto simp: acquire_def intro!: keep)

lemma preserves_locked [keep]: "stable P \<Longrightarrow> preserves P m \<Longrightarrow> preserves P (locked env a m)"
  by (auto simp: locked_def intro!: keep)

lemma preserves_break [keep]: "stable P \<Longrightarrow> preserves P (break_all env)"
proof -
  assume s: "stable P"
  then have "preserves P (break_locks env as)" for as by (induction as) (auto intro!: keep)
  with s show ?thesis by (auto simp: break_all_def intro!: keep)
qed

lemma preserves_transaction [keep]:
  "stable P \<Longrightarrow> journal_free P \<Longrightarrow> preserves P (begin_transaction env a v)"
  "stable P \<Longrightarrow> journal_free P \<Longrightarrow> preserves P (finish_transaction env tr)"
  by (auto simp: begin_transaction_def finish_transaction_def Let_def intro!: keep)

lemma preserves_stage [keep]: "stable P \<Longrightarrow> preserves P (stage_archive env t desc)"
  by (auto simp: stage_archive_def intro!: keep)

lemma preserves_sweep_staging [keep]: "stable P \<Longrightarrow> preserves P (sweep_staging env)"
proof -
  assume s: "stable P"
  then have "preserves P (sweep_staging_loop env ts)" for ts by (induction ts) (auto intro!: keep)
  with s show ?thesis by (auto simp: sweep_staging_def intro!: keep)
qed

lemma aside_chosen: "aside w \<Longrightarrow> chosen (put_store d w) a v = chosen d a v"
  by (simp only: chosen_def aside_selection)

lemma stable_store_sound: "stable (store_sound sha)" "journal_free (store_sound sha)"
  by (simp_all add: stable_def journal_free_def store_sound_def aside_releases)

lemma chosen_journal [simp]: "chosen (d\<lparr>ps_journal := x\<rparr>) a v = chosen d a v"
  by (simp add: chosen_def)

lemma stable_nearly_sound: "stable (nearly_sound sha a v)" "journal_free (nearly_sound sha a v)"
  by (simp_all add: stable_def journal_free_def nearly_sound_def store_sound_def sound_but_def marker_at_def aside_releases aside_chosen)

section \<open>What the reads find\<close>

definition picked :: "package_store \<Rightarrow> selection_file \<Rightarrow> app_id \<Rightarrow> pkg_version option" where
  "picked d f a = (case selection_at d f a of Some (Some w) \<Rightarrow> Some w | _ \<Rightarrow> None)"

definition usable :: "package_store \<Rightarrow> selection_file \<Rightarrow> app_id \<Rightarrow> pkg_version option" where
  "usable d f a = (case picked d f a of None \<Rightarrow> None | Some w \<Rightarrow> if marker_at d a w = NoMarker then None else Some w)"

lemma chosen_picked: "chosen d a v \<longleftrightarrow> picked d CurrentFile a = Some v \<or> picked d PreviousFile a = Some v"
  by (auto simp: chosen_def picked_def split: option.splits)

text \<open>Reading: the disk stays, and the answer is a function of it.\<close>

abbreviation reads :: "'a store_tx \<Rightarrow> (package_store \<Rightarrow> 'a \<Rightarrow> bool) \<Rightarrow> bool" where
  "reads m F \<equiv> (\<forall>P. triple put_store P P m (\<lambda>a d. P d \<and> F d a) P)"

lemma reads_marker: "reads (existing_marker env a v) (\<lambda>d m. (m = None \<longleftrightarrow> marker_at d a v = NoMarker) \<and>
    (\<forall>mk. m = Some mk \<longrightarrow> marker_at d a v = HasMarker mk))"
proof
  fix P :: "package_store \<Rightarrow> bool"
  show "triple put_store P P (existing_marker env a v) (\<lambda>m d. P d \<and> (m = None \<longleftrightarrow> marker_at d a v = NoMarker) \<and>
      (\<forall>mk. m = Some mk \<longrightarrow> marker_at d a v = HasMarker mk)) P"
    unfolding existing_marker_def
    by (rule triple_bind [where Q = "\<lambda>_. P"], rule triple_probe, simp,
        rule triple_bind [where Q = "\<lambda>m d. P d \<and> marker_at d a v = m"], rule triple_get, simp)
      (auto split: marker_file.split intro!: triple_ok triple_err)
qed

lemma reads_usable: "reads (usable_selection env f a) (\<lambda>d v. v = usable d f a)"
proof
  fix P :: "package_store \<Rightarrow> bool"
  have first: "triple put_store P P (read_selection env f a) (\<lambda>s d. P d \<and> picked d f a = s) P"
    unfolding read_selection_def
    by (rule triple_bind [where Q = "\<lambda>_. P"], rule triple_probe, simp,
        rule triple_bind [where Q = "\<lambda>s d. P d \<and> selection_at d f a = s"], rule triple_get, simp)
      (auto split: option.split simp: picked_def intro!: triple_ok triple_err)
  have rest: "triple put_store P (\<lambda>d. P d \<and> picked d f a = Some v)
      (tx_bind (existing_marker env a v) (\<lambda>m. tx_ok (if m = None then None else Some v)))
      (\<lambda>v d. P d \<and> v = usable d f a) P" for v
  proof (rule triple_bind [where Q = "\<lambda>m d. (P d \<and> picked d f a = Some v) \<and> (m = None \<longleftrightarrow> marker_at d a v = NoMarker)"])
    show "triple put_store P (\<lambda>d. P d \<and> picked d f a = Some v) (existing_marker env a v)
        (\<lambda>m d. (P d \<and> picked d f a = Some v) \<and> (m = None \<longleftrightarrow> marker_at d a v = NoMarker)) P"
      by (rule triple_conseq [OF triple_weaken [OF reads_marker [rule_format, of "\<lambda>d. P d \<and> picked d f a = Some v"]]]) auto
  qed (auto simp: usable_def intro!: triple_ok)
  show "triple put_store P P (usable_selection env f a) (\<lambda>v d. P d \<and> v = usable d f a) P"
    unfolding usable_selection_def
  proof (rule triple_bind [OF first], goal_cases)
    case (1 s)
    show ?case
    proof (cases s)
      case None
      then show ?thesis by (auto simp: usable_def intro!: triple_ok)
    next
      case (Some v)
      with rest show ?thesis by simp
    qed
  qed
qed

section \<open>Pruning\<close>

definition chosen_in :: "app_id \<Rightarrow> pkg_version list \<Rightarrow> package_store \<Rightarrow> bool" where
  "chosen_in a ks d \<longleftrightarrow> (\<forall>w. chosen d a w \<longrightarrow> marker_at d a w \<noteq> NoMarker \<longrightarrow> w \<in> set ks)"

lemma sound_but_nearly:
  assumes "sound_but sha a w d" and "chosen_in a ks d" and "w \<notin> set ks" and "v \<in> set ks"
  shows "nearly_sound sha a v d"
proof -
  have "w \<noteq> v" "chosen d a w \<longrightarrow> marker_at d a w = NoMarker"
    using assms(2-4) by (auto simp: chosen_in_def)
  with assms(1) show ?thesis unfolding nearly_sound_def by blast
qed

lemma chosen_releases [simp]: "chosen (d\<lparr>ps_releases := x\<rparr>) a v = chosen d a v"
  by (simp add: chosen_def)

lemma chosen_gut [simp]: "chosen (put_store d (GutRelease b w mk m)) a v = chosen d a v"
  by (simp add: chosen_def)

lemma sound_but_gut: "sound_but sha a v d \<Longrightarrow> sound_but sha a v (put_store d (GutRelease a v mk m))"
  by (simp add: sound_but_def del: put_store.simps)

lemma chosen_in_gut: "chosen_in a ks d \<Longrightarrow> chosen_in a ks (put_store d (GutRelease a v mk m))"
  by (auto simp: chosen_in_def marker_at_def gutted_def simp del: put_store.simps split: option.splits if_splits)

lemma sound_but_remove: "sound_but sha a v d \<Longrightarrow> store_sound sha (put_store d (RemoveRelease a v))"
  by (auto simp: sound_but_def store_sound_def split: if_splits)

lemma chosen_in_remove: "chosen_in a ks d \<Longrightarrow> chosen_in a ks (put_store d (RemoveRelease a v))"
  by (auto simp: chosen_in_def marker_at_def split: if_splits)

lemma sound_prune_loop:
  assumes k: "k \<in> set ks"
  shows "triple put_store (nearly_sound sha a k) (\<lambda>d. store_sound sha d \<and> chosen_in a ks d) (prune_app_loop env a ks vs)
     (\<lambda>_ d. store_sound sha d \<and> chosen_in a ks d) (nearly_sound sha a k)"
proof (induction vs)
  case Nil
  show ?case by (auto intro!: triple_ok store_nearly_sound)
next
  case (Cons v vs)
  let ?P = "\<lambda>d. store_sound sha d \<and> chosen_in a ks d" and ?M = "\<lambda>d. sound_but sha a v d \<and> chosen_in a ks d"
  have weak: "?M d" if "?P d" for d
    using that by (auto simp: store_sound_def sound_but_def)
  have "triple put_store (nearly_sound sha a k) ?P (remove_app_release env a v) (\<lambda>_. ?P) (nearly_sound sha a k)" if "v \<notin> set ks"
  proof -
    have mid: "?M (put_store d (GutRelease a v mk m))" "nearly_sound sha a k (put_store d (GutRelease a v mk m))"
      if "?P d" for d mk m
      using sound_but_gut chosen_in_gut weak [OF that] sound_but_nearly [OF _ _ _ k] \<open>v \<notin> set ks\<close> by blast+
    have out: "?P (put_store d (RemoveRelease a v))" if "?M d" for d
      using that sound_but_remove chosen_in_remove by blast
    have step: "triple put_store (nearly_sound sha a k) ?P
        (then_tx (st_write env (GutRelease a v mk m)) (st_write env (RemoveRelease a v))) (\<lambda>_. ?P) (nearly_sound sha a k)" for mk m
      by (rule triple_bind [where Q = "\<lambda>_. ?M"]; rule triple_io)
        (use mid out store_nearly_sound sound_but_nearly [OF _ _ _ k] \<open>v \<notin> set ks\<close> in blast)+
    show ?thesis
      unfolding remove_app_release_def
      by (rule triple_bind [where Q = "\<lambda>_. ?P"], rule triple_ask)
        (use step store_nearly_sound in \<open>auto split: prod.splits\<close>)
  qed
  with Cons.IH show ?case
    by (auto intro!: triple_bind [where Q = "\<lambda>_. ?P"] triple_ok store_nearly_sound)
qed

lemma sound_prune:
  "triple put_store (nearly_sound sha a v) (store_sound sha) (prune_app env a v) (\<lambda>_. store_sound sha) (nearly_sound sha a v)"
proof -
  let ?P = "store_sound sha"
  have use: "triple put_store (nearly_sound sha a v) P (usable_selection env f a) (\<lambda>v d. P d \<and> v = usable d f a) (nearly_sound sha a v)"
    if "\<And>d. P d \<Longrightarrow> store_sound sha d" for P f
    by (rule triple_conseq [OF triple_weaken [OF reads_usable [rule_format, of P]]])
      (use that store_nearly_sound in blast)+
  have inst: "triple put_store (nearly_sound sha a v) P (installed_versions env a) (\<lambda>_. P) (nearly_sound sha a v)"
    if "\<And>d. P d \<Longrightarrow> store_sound sha d" for P
    by (rule triple_conseq [OF triple_weaken [OF keeps_triple [OF preserves_installed, of P]]])
      (use that store_nearly_sound in blast)+
  have covered: "chosen_in a (List.map_filter id [c, p, Some v]) d"
    if "c = usable d CurrentFile a" "p = usable d PreviousFile a" for c p d
    using that by (auto simp: chosen_in_def chosen_picked usable_def List.map_filter_def)
  show ?thesis
    unfolding prune_app_def
    by (rule triple_bind [OF use], assumption, rule triple_bind [OF use], blast, rule triple_bind [OF inst], blast,
        rule triple_conseq [OF sound_prune_loop]) (use covered in \<open>auto simp: List.map_filter_def\<close>)
qed

section \<open>Every operation keeps the store sound\<close>

lemma sound_selection_writes [keep]:
  "preserves (store_sound sha) (st_write env (WriteSelection f a v))"
  "preserves (store_sound sha) (st_write env (DropCurrent a))"
  by (cases f; auto intro!: keeps_io simp: store_sound_def) (auto intro!: keeps_io simp: store_sound_def)

lemma sound_apply [keep]: "preserves (store_sound sha) (apply_selection env a v p)"
  by (auto simp: apply_selection_def intro!: keep stable_store_sound)

lemma sound_restore [keep]: "preserves (store_sound sha) (restore_selection env a f)"
  by (auto simp: restore_selection_def intro!: keep stable_store_sound)

text \<open>Removing a release that has no marker.\<close>

definition unmarked :: "app_id \<Rightarrow> pkg_version \<Rightarrow> package_store \<Rightarrow> bool" where
  "unmarked a v d \<longleftrightarrow> marker_at d a v = NoMarker"

lemma unmarked_gut: "unmarked a v d \<Longrightarrow> unmarked a v (put_store d (GutRelease a v mk m))"
  by (auto simp: unmarked_def marker_at_def gutted_def simp del: put_store.simps split: option.splits)

lemma triple_remove_unmarked:
  assumes "\<And>d mk m. P d \<Longrightarrow> unmarked a v d \<Longrightarrow> P (put_store d (GutRelease a v mk m))"
    and "\<And>d. P d \<Longrightarrow> unmarked a v d \<Longrightarrow> P (put_store d (RemoveRelease a v))"
  shows "triple put_store P (\<lambda>d. P d \<and> unmarked a v d) (remove_app_release env a v) (\<lambda>_. P) P"
proof -
  let ?P = "\<lambda>d. P d \<and> unmarked a v d"
  have step: "triple put_store P ?P (then_tx (st_write env (GutRelease a v mk m)) (st_write env (RemoveRelease a v))) (\<lambda>_. P) P" for mk m
    by (rule triple_bind [where Q = "\<lambda>_. ?P"]; rule triple_io)
      (use assms unmarked_gut in \<open>auto simp del: put_store.simps\<close>)
  show ?thesis
    unfolding remove_app_release_def
    by (rule triple_bind [where Q = "\<lambda>_. ?P"], rule triple_ask, simp) (use step in \<open>auto split: prod.splits\<close>)
qed

lemma preserves_sweep_incomplete:
  assumes "\<And>d a v mk m. P d \<Longrightarrow> unmarked a v d \<Longrightarrow> P (put_store d (GutRelease a v mk m))"
    and "\<And>d a v. P d \<Longrightarrow> unmarked a v d \<Longrightarrow> P (put_store d (RemoveRelease a v))"
  shows "preserves P (sweep_incomplete env)"
proof -
  have rel: "preserves P (sweep_releases env a vs)" for a vs
  proof (induction vs)
    case (Cons v vs)
    show ?case
      unfolding keeps_def sweep_releases.simps
    proof (rule triple_bind [OF reads_marker [rule_format]], goal_cases)
      case (1 m)
      have "triple put_store P (\<lambda>d. P d \<and> unmarked a v d)
          (then_tx (remove_app_release env a v) (tx_bind (sweep_releases env a vs) (\<lambda>removed. tx_ok ((a, v) # removed)))) (\<lambda>_. P) P"
        by (rule triple_bind [OF triple_remove_unmarked], erule (1) assms, erule (1) assms, rule triple_bind [OF keeps_triple [OF Cons.IH]],
            rule triple_ok) simp
      then show ?case
        using keeps_triple [OF Cons.IH]
        by (cases m) (auto elim!: triple_conseq simp: unmarked_def)
    qed
  qed (auto intro!: keep)
  have "preserves P (sweep_apps env as)" for as
    by (induction as) (auto intro!: keep rel)
  then show ?thesis by (auto simp: sweep_incomplete_def intro!: keep)
qed

lemma sound_sweep [keep]: "preserves (store_sound sha) (sweep_incomplete env)"
proof (rule preserves_sweep_incomplete)
  fix d a v mk m assume "store_sound sha d" "unmarked a v d"
  then show "store_sound sha (put_store d (GutRelease a v mk m))"
    by (auto simp: store_sound_def unmarked_def marker_at_def gutted_def simp del: put_store.simps split: if_splits)
qed (auto simp: store_sound_def split: if_splits)

lemma sound_recover_intents [keep]: "preserves (store_sound sha) (recover_intents env ps report)"
  by (induction ps arbitrary: report)
    (auto simp: recover_intent_def recover_selection_def intro!: keep stable_store_sound)

lemma sound_recover: "preserves (store_sound sha) (recover_store env)"
  unfolding recover_store_def by (intro keep stable_store_sound)

lemma sound_rollback: "preserves (store_sound sha) (rollback_app env a)"
  unfolding rollback_app_def by (intro keep stable_store_sound)

section \<open>Installing\<close>

lemma sound_finish:
  assumes "op_prune opts \<Longrightarrow> C = nearly_sound sha a v" and "\<And>d. store_sound sha d \<Longrightarrow> C d"
  shows "triple put_store C (store_sound sha) (finish_install env opts a v current act present) (\<lambda>_. store_sound sha) C"
proof -
  have weak: "triple put_store C (store_sound sha) m (\<lambda>_. store_sound sha) C" if "preserves (store_sound sha) m" for m
    by (rule triple_conseq [OF triple_weaken [OF keeps_triple [OF that]]]) (use assms(2) in auto)
  have prune: "triple put_store C (store_sound sha) (if op_prune opts then prune_app env a v else tx_ok []) (\<lambda>_. store_sound sha) C"
    using assms sound_prune by (auto intro!: triple_ok)
  show ?thesis
    unfolding finish_install_def
    by (rule triple_bind [OF weak], intro keep stable_store_sound, rule triple_bind [OF prune], rule weak, rule keep)
qed

text \<open>The staged payload before and after it is stamped.\<close>

definition staged :: "package_store \<Rightarrow> string \<Rightarrow> app_release \<Rightarrow> bool" where
  "staged d t r \<longleftrightarrow> map_of (ps_staging d) t = Some (Some r)"

definition payload :: "install_env \<Rightarrow> marker_file \<Rightarrow> app_manifest \<Rightarrow> app_release" where
  "payload env mk m = \<lparr>ar_marker = mk, ar_manifest = Some m, ar_whole = True, ar_archive = ie_archive env\<rparr>"

lemma triple_stage_archive:
  assumes "stable P" and "\<And>d. P d \<Longrightarrow> C d"
  shows "triple put_store C P (stage_archive env t desc)
    (\<lambda>m d. (P d \<and> staged d t (payload env NoMarker m)) \<and> ie_sha env (ie_archive env) = rd_digest desc) C"
proof -
  have fill: "triple put_store C P (st_write env (FillStage t (payload env NoMarker m)))
      (\<lambda>_ d. P d \<and> staged d t (payload env NoMarker m)) C" for m
  proof (rule triple_io)
    fix d assume d: "P d"
    then have "P (put_store d (FillStage t (payload env NoMarker m)))"
      by (rule assms(1) [unfolded stable_def, rule_format, rotated]) simp
    with d assms(2) show "C d \<and> C (put_store d (FillStage t (payload env NoMarker m))) \<and>
        (P (put_store d (FillStage t (payload env NoMarker m))) \<and>
         staged (put_store d (FillStage t (payload env NoMarker m))) t (payload env NoMarker m)) \<and>
        C d \<and> C (put_store d (FillStage t (payload env NoMarker m)))"
      by (auto simp: staged_def)
  qed
  have pr: "triple put_store C P (st_probe env) (\<lambda>_. P) C"
    by (rule triple_probe) (use assms in auto)
  have rest: "triple put_store C P
        (tx_bind (tx_lift (ie_extract env (ie_archive env))) (\<lambda>m.
         then_tx (st_write env (FillStage t \<lparr>ar_marker = NoMarker, ar_manifest = Some m, ar_whole = True, ar_archive = ie_archive env\<rparr>))
           (tx_ok m))) (\<lambda>m d. P d \<and> staged d t (payload env NoMarker m)) C"
    unfolding payload_def [symmetric]
    by (rule triple_bind [where Q = "\<lambda>_. P"], rule triple_lift, use assms in simp,
        rule triple_bind [OF fill], rule triple_ok) (use assms in auto)
  show ?thesis
    unfolding stage_archive_def
    by (rule triple_bind [OF pr], rule triple_bind [where Q = "\<lambda>x d. P d \<and> snd x = ie_sha env (ie_archive env)"], rule triple_lift)
      (use assms pr rest in \<open>auto simp: measured_copy_def split: prod.splits
        intro!: triple_pure triple_bind [OF pr] triple_err triple_conseq [OF rest]\<close>)
qed

lemma staged_stamp:
  "staged d t (payload env NoMarker m) \<Longrightarrow> staged (put_store d (StampStage t mk)) t (payload env (HasMarker mk) m)"
  by (simp add: staged_def map_of_adjust payload_def)

lemma sound_commit:
  assumes "store_sound sha d" and "staged d t r" and "sound_release sha a v r"
  shows "store_sound sha (put_store d (CommitStage t a v))"
  using assms by (auto simp: store_sound_def staged_def split: if_splits)

lemma agreement:
  "check_agreement desc m = Ok u \<longleftrightarrow> am_id m = rd_app desc \<and> am_version m = rd_version desc \<and> am_protocol m = rd_protocol desc"
  by (auto simp: check_agreement_def)

lemma sound_install_staged:
  assumes c: "op_prune opts \<Longrightarrow> C = nearly_sound (ie_sha env) (rd_app desc) (rd_version desc)" "\<And>d. store_sound (ie_sha env) d \<Longrightarrow> C d"
  shows "triple put_store C (store_sound (ie_sha env)) (install_staged env opts desc t current)
    (\<lambda>_. store_sound (ie_sha env)) C"
proof -
  let ?S = "store_sound (ie_sha env)"
  let ?mk = "\<lparr>mk_digest = rd_digest desc, mk_signer = rd_signer desc\<rparr>"
  have stamp: "triple put_store C (\<lambda>d. ?S d \<and> staged d t (payload env NoMarker m)) (st_write env (StampStage t ?mk))
      (\<lambda>_ d. ?S d \<and> staged d t (payload env (HasMarker ?mk) m)) C" for m
    by (rule triple_io) (use c(2) staged_stamp stable_store_sound in
      \<open>auto simp: stable_def simp del: put_store.simps\<close>)
  have commit: "triple put_store C (\<lambda>d. ?S d \<and> staged d t r) (commit_stage env t a v) (\<lambda>_. ?S) C"
    if "sound_release (ie_sha env) a v r" for r a v
    unfolding commit_stage_def
    by (rule triple_bind [where Q = "\<lambda>_ d. ?S d \<and> staged d t r"], rule triple_probe, simp add: c,
        rule triple_bind [where Q = "\<lambda>_ d. ?S d \<and> staged d t r"], rule triple_io,
        use c(2) in \<open>simp add: staged_def store_sound_def\<close>,
        rule triple_bind [where Q = "\<lambda>_ d. ?S d \<and> staged d t r"], rule triple_get, simp add: c,
        rule triple_if, rule triple_err, simp add: c, rule triple_io)
      (use c(2) sound_commit [OF _ _ that] in \<open>auto simp del: put_store.simps\<close>)
  have sound: "sound_release (ie_sha env) (rd_app desc) (rd_version desc) (payload env (HasMarker ?mk) m)"
    if "check_agreement desc m = Ok ()" "ie_sha env (ie_archive env) = rd_digest desc" for m
    using that by (simp add: sound_release_def payload_def agreement)
  show ?thesis
    unfolding install_staged_def
  proof (rule triple_bind [OF triple_stage_archive [OF stable_store_sound(1) c(2)]], assumption, rule triple_pure)
    fix m assume sha: "ie_sha env (ie_archive env) = rd_digest desc"
    let ?A = "\<lambda>d. ?S d \<and> staged d t (payload env NoMarker m)"
    let ?B = "\<lambda>d. ?A d \<and> check_agreement desc m = Ok ()"
    show "triple put_store C ?A
      (then_tx (tx_lift (check_agreement desc m))
        (then_tx (tx_lift (if op_allow_incompatible opts then Ok () else ensure_runnable m))
          (then_tx (st_write env (StampStage t ?mk))
            (then_tx (commit_stage env t (rd_app desc) (rd_version desc))
              (finish_install env opts (rd_app desc) (rd_version desc) current
                (op_activate opts \<and> ensure_runnable m = Ok ()) False))))) (\<lambda>_. ?S) C"
      by (rule triple_bind [where Q = "\<lambda>_. ?B"], rule triple_lift, simp add: c(2),
          rule triple_pure, rule triple_bind [where Q = "\<lambda>_. ?A"], rule triple_lift, simp add: c(2),
          rule triple_bind [OF stamp], rule triple_bind [OF commit], rule sound, assumption, rule sha, rule sound_finish)
        (use c in auto)
  qed
qed

lemma sound_fresh_install:
  assumes c: "op_prune opts \<Longrightarrow> C = nearly_sound (ie_sha env) (rd_app desc) (rd_version desc)" "\<And>d. store_sound (ie_sha env) d \<Longrightarrow> C d" and s: "stable C" "journal_free C"
  shows "triple put_store C (store_sound (ie_sha env)) (fresh_install env opts desc current) (\<lambda>_. store_sound (ie_sha env)) C"
proof -
  let ?S = "store_sound (ie_sha env)"
  have weak: "triple put_store C ?S m (\<lambda>_. ?S) C" if "preserves ?S m" for m
    by (rule triple_conseq [OF triple_weaken [OF keeps_triple [OF that]]]) (use c(2) in auto)
  have undo: "triple put_store C C (then_tx (tx_try (finish_transaction env tr)) (tx_err e)) (\<lambda>_. ?S) C" for tr e
    by (rule triple_bind [OF keeps_triple], intro keep s, rule triple_err) simp
  show ?thesis
    unfolding fresh_install_def
    by (rule triple_bind [OF weak], intro keep stable_store_sound, rule triple_match [OF sound_install_staged undo])
      (use c in \<open>auto intro!: weak keep stable_store_sound\<close>)
qed

lemma sound_locked:
  assumes "triple put_store C P m (\<lambda>_. P) C" and "stable P" "stable C" and "\<And>d. P d \<Longrightarrow> C d"
  shows "triple put_store C P (locked env a m) (\<lambda>_. P) C"
proof -
  have weak: "triple put_store C P m' (\<lambda>_. P) C" if "preserves P m'" for m'
    by (rule triple_conseq [OF triple_weaken [OF keeps_triple [OF that]]]) (use assms(4) in auto)
  show ?thesis
    unfolding locked_def
    by (rule triple_bind [OF weak], intro keep assms, rule triple_match [OF assms(1)],
        rule triple_bind [OF keeps_triple], intro keep, simp_all add: assms)
      (auto intro!: triple_err weak keep assms)
qed

lemma sound_install:
  assumes c: "op_prune opts \<Longrightarrow> C = nearly_sound (ie_sha env) (rd_app desc) (rd_version desc)" "\<And>d. store_sound (ie_sha env) d \<Longrightarrow> C d" and s: "stable C" "journal_free C"
  shows "triple put_store C (store_sound (ie_sha env)) (install_release env opts desc) (\<lambda>_. store_sound (ie_sha env)) C"
proof -
  let ?S = "store_sound (ie_sha env)"
  have weak: "triple put_store C ?S m (\<lambda>_. ?S) C" if "preserves ?S m" for m
    by (rule triple_conseq [OF triple_weaken [OF keeps_triple [OF that]]]) (use c(2) in auto)
  have "triple put_store C ?S (install_locked env opts desc) (\<lambda>_. ?S) C"
    unfolding install_locked_def
    by (rule triple_bind [OF weak], rule keep, rule triple_if, rule weak, rule keep, rule triple_bind [OF weak], rule keep)
      (use c s in \<open>auto split: option.split intro!: triple_bind [where Q = "\<lambda>_. ?S"]
        weak [OF keeps_still(2)] weak [OF keeps_still(4)] sound_finish sound_fresh_install\<close>)
  then show ?thesis
    unfolding install_release_def
    by (intro triple_bind [OF weak] keep sound_locked stable_store_sound s) (assumption | erule c(2))+
qed

end
