(* ===== verification/PackageAtomic.thy ===== *)
theory PackageAtomic
  imports PackageRecovery
begin

text \<open>
  Installing and rolling back are atomic for the two selection files of an app, across power
  cuts and the recoveries after them: abstractly an operation is one assignment of the pair
  (\<open>switched\<close>), and the programs refine it, with one intermediate state that is only seen
  while the intent to leave it is on disk. The properties of the installer are at the end.
\<close>

section \<open>The abstract step and the states in between\<close>

type_synonym selection_pair = "pkg_version option option \<times> pkg_version option option"

definition selections :: "package_store \<Rightarrow> app_id \<Rightarrow> selection_pair" where
  "selections d a = (selection_at d CurrentFile a, selection_at d PreviousFile a)"

definition new_previous :: "pkg_version \<Rightarrow> pkg_version option \<Rightarrow> pkg_version option option \<Rightarrow> pkg_version option option" where
  "new_previous v pv old = (case pv of Some p \<Rightarrow> if p \<noteq> v then Some (Some p) else old | None \<Rightarrow> old)"

definition halfway :: "app_id \<Rightarrow> pkg_version \<Rightarrow> pkg_version option \<Rightarrow> (app_id \<Rightarrow> selection_pair) \<Rightarrow> app_id \<Rightarrow> selection_pair" where
  "halfway a v pv s = s(a := (fst (s a), new_previous v pv (snd (s a))))"

definition switched :: "app_id \<Rightarrow> pkg_version \<Rightarrow> pkg_version option \<Rightarrow> (app_id \<Rightarrow> selection_pair) \<Rightarrow> app_id \<Rightarrow> selection_pair" where
  "switched a v pv s = s(a := (Some (Some v), new_previous v pv (snd (s a))))"

definition act_intent :: "app_id \<Rightarrow> pkg_version \<Rightarrow> pkg_version option \<Rightarrow> install_journal" where
  "act_intent a v pv = \<lparr>ij_app = a, ij_version = v, ij_previous = pv, ij_staging = None, ij_phase = Activating\<rparr>"

definition act_file :: "app_id \<Rightarrow> pkg_version \<Rightarrow> string" where
  "act_file a v = intent_file (act_intent a v None)"

lemma intent_file_act [simp]: "intent_file (act_intent a v pv) = act_file a v"
  by (simp add: intent_file_def act_file_def act_intent_def)

definition intended :: "app_id \<Rightarrow> pkg_version \<Rightarrow> pkg_version option \<Rightarrow> package_store \<Rightarrow> bool" where
  "intended a v pv d \<longleftrightarrow> (act_file a v, Some (act_intent a v pv)) \<in> set (ps_journal d)"

definition marked :: "app_id \<Rightarrow> pkg_version \<Rightarrow> package_store \<Rightarrow> bool" where
  "marked a v d \<longleftrightarrow> marker_at d a v \<noteq> NoMarker"

definition staging_entry :: "app_id \<Rightarrow> pkg_version \<Rightarrow> string \<times> install_journal option \<Rightarrow> bool" where
  "staging_entry a v x \<longleftrightarrow> fst x \<noteq> act_file a v \<and> (case snd x of Some j \<Rightarrow> ij_phase j = Stage | None \<Rightarrow> False)"

definition entries_ok :: "app_id \<Rightarrow> pkg_version \<Rightarrow> pkg_version option \<Rightarrow> package_store \<Rightarrow> bool" where
  "entries_ok a v pv d \<longleftrightarrow> (\<forall>x\<in>set (ps_journal d). x = (act_file a v, Some (act_intent a v pv)) \<or> staging_entry a v x)"

definition swap_ok :: "package_store \<Rightarrow> app_id \<Rightarrow> pkg_version \<Rightarrow> pkg_version option \<Rightarrow> package_store \<Rightarrow> bool" where
  "swap_ok d0 a v pv d \<longleftrightarrow> entries_ok a v pv d \<and> (intended a v pv d \<longrightarrow> marked a v d)
     \<and> (selections d = selections d0 \<or> intended a v pv d \<and> selections d = halfway a v pv (selections d0)
        \<or> selections d = switched a v pv (selections d0))"

text \<open>Before the intent is written.\<close>

definition calm :: "package_store \<Rightarrow> app_id \<Rightarrow> pkg_version \<Rightarrow> package_store \<Rightarrow> bool" where
  "calm d0 a v d \<longleftrightarrow> (\<forall>x\<in>set (ps_journal d). staging_entry a v x) \<and> selections d = selections d0"

lemma not_intended: "\<forall>x\<in>set (ps_journal d). staging_entry a v x \<Longrightarrow> \<not> intended a v pv d"
  by (auto simp: intended_def staging_entry_def)

lemma calm_swap: "calm d0 a v d \<Longrightarrow> swap_ok d0 a v pv d"
  using not_intended by (fastforce simp: calm_def swap_ok_def entries_ok_def)

section \<open>Which writes keep them\<close>

lemma aside_selections: "aside w \<Longrightarrow> selections (put_store d w) = selections d"
  by (rule ext) (simp only: selections_def aside_selection)

lemma aside_journal: "aside w \<Longrightarrow> ps_journal (put_store d w) = ps_journal d"
  by (cases w) simp_all

lemma aside_marked: "aside w \<Longrightarrow> marked a v (put_store d w) = marked a v d"
  by (simp add: marked_def marker_at_def aside_releases)

lemma aside_all: "aside w \<Longrightarrow> intended a v pv (put_store d w) = intended a v pv d"
  "aside w \<Longrightarrow> entries_ok a v pv (put_store d w) = entries_ok a v pv d"
  by (simp_all add: intended_def entries_ok_def aside_journal)

lemma stable_swap: "stable (swap_ok d0 a v pv)"
  by (simp add: stable_def swap_ok_def aside_all aside_marked aside_selections)

lemma stable_calm: "stable (calm d0 a v)"
  by (simp add: stable_def calm_def aside_journal aside_selections)

lemma selections_other [simp]:
  "selections (d\<lparr>ps_journal := x\<rparr>) = selections d" "selections (d\<lparr>ps_releases := y\<rparr>) = selections d"
  by (simp_all add: selections_def fun_eq_iff)

lemma marked_journal [simp]: "marked a v (d\<lparr>ps_journal := x\<rparr>) = marked a v d"
  by (simp add: marked_def marker_at_def)

text \<open>Changes of releases that leave the marker of the target alone.\<close>

lemma swap_releases:
  assumes "ps_journal d' = ps_journal d" and "selections d' = selections d" and "marked a v d \<Longrightarrow> marked a v d'"
  shows "swap_ok d0 a v pv d \<Longrightarrow> swap_ok d0 a v pv d'"
  using assms by (auto simp: swap_ok_def intended_def entries_ok_def)

lemma calm_releases:
  "ps_journal d' = ps_journal d \<Longrightarrow> selections d' = selections d \<Longrightarrow> calm d0 a v d \<Longrightarrow> calm d0 a v d'"
  by (simp add: calm_def)

lemma commit_quiet:
  "ps_journal (put_store d (CommitStage t b w)) = ps_journal d"
  "selections (put_store d (CommitStage t b w)) = selections d"
  by (auto simp: selections_def fun_eq_iff split: option.splits)

lemma gut_quiet:
  "ps_journal (put_store d (GutRelease b w mk m)) = ps_journal d"
  "selections (put_store d (GutRelease b w mk m)) = selections d"
  "ps_journal (put_store d (RemoveRelease b w)) = ps_journal d"
  "selections (put_store d (RemoveRelease b w)) = selections d"
  by simp_all

lemma marked_remove:
  "marked a v d \<Longrightarrow> (b, w) \<noteq> (a, v) \<or> unmarked b w d \<Longrightarrow> marked a v (put_store d (GutRelease b w mk m))"
  "marked a v d \<Longrightarrow> (b, w) \<noteq> (a, v) \<or> unmarked b w d \<Longrightarrow> marked a v (put_store d (RemoveRelease b w))"
  by (auto simp: marked_def unmarked_def marker_at_def simp del: put_store.simps(11))

lemma swap_remove:
  "swap_ok d0 a v pv d \<Longrightarrow> (b, w) \<noteq> (a, v) \<or> unmarked b w d \<Longrightarrow> swap_ok d0 a v pv (put_store d (GutRelease b w mk m))"
  "swap_ok d0 a v pv d \<Longrightarrow> (b, w) \<noteq> (a, v) \<or> unmarked b w d \<Longrightarrow> swap_ok d0 a v pv (put_store d (RemoveRelease b w))"
  by (erule swap_releases [rotated 3], rule gut_quiet, rule gut_quiet, erule marked_remove, assumption)+

text \<open>Entries of the journal.\<close>

lemma act_file_not_stage:
  "ij_app j = a \<Longrightarrow> ij_version j = v \<Longrightarrow> ij_phase j = Stage \<Longrightarrow> intent_file j \<noteq> act_file a v"
  by (simp add: intent_file_def act_file_def act_intent_def)

lemma swap_drop:
  assumes "swap_ok d0 a v pv d" and "p \<noteq> act_file a v"
  shows "swap_ok d0 a v pv (put_store d (DropIntent p))"
  using assms by (auto simp: swap_ok_def intended_def entries_ok_def)

lemma calm_drop: "calm d0 a v d \<Longrightarrow> calm d0 a v (put_store d (DropIntent p))"
  by (simp add: calm_def)

lemma calm_stage:
  "calm d0 a v d \<Longrightarrow> ij_app j = a \<Longrightarrow> ij_version j = v \<Longrightarrow> ij_phase j = Stage \<Longrightarrow>
     calm d0 a v (put_store d (WriteIntent (intent_file j) j))"
  using act_file_not_stage by (auto simp: calm_def staging_entry_def)

section \<open>Triples of the steps\<close>

abbreviation swaps :: "package_store \<Rightarrow> app_id \<Rightarrow> pkg_version \<Rightarrow> pkg_version option \<Rightarrow> (package_store \<Rightarrow> bool)
    \<Rightarrow> 'a store_tx \<Rightarrow> ('a \<Rightarrow> package_store \<Rightarrow> bool) \<Rightarrow> bool" where
  "swaps d0 a v pv P m Q \<equiv> triple put_store (swap_ok d0 a v pv) P m Q (swap_ok d0 a v pv)"

lemma swaps_keeps:
  "preserves P m \<Longrightarrow> (\<And>d. P d \<Longrightarrow> swap_ok d0 a v pv d) \<Longrightarrow> swaps d0 a v pv P m (\<lambda>_. P)"
  by (rule triple_conseq [where P' = P and Q' = "\<lambda>_. P" and R' = P], rule triple_weaken, erule keeps_triple) auto

lemma swaps_reads:
  "reads m F \<Longrightarrow> (\<And>d. P d \<Longrightarrow> swap_ok d0 a v pv d) \<Longrightarrow> swaps d0 a v pv P m (\<lambda>x d. P d \<and> F d x)"
  by (rule triple_conseq [where P' = P and Q' = "\<lambda>x d. P d \<and> F d x" and R' = P], rule triple_weaken, erule spec) auto

lemma swaps_write:
  "(\<And>d. P d \<Longrightarrow> swap_ok d0 a v pv d \<and> swap_ok d0 a v pv (put_store d w) \<and> Q () (put_store d w)) \<Longrightarrow>
     swaps d0 a v pv P (st_write env w) Q"
  by (rule triple_io) blast

lemma swaps_probe: "(\<And>d. P d \<Longrightarrow> swap_ok d0 a v pv d) \<Longrightarrow> swaps d0 a v pv P (st_probe env) (\<lambda>_. P)"
  by (rule triple_probe) simp

text \<open>The lock and its release write aside only.\<close>

lemma locked_triple:
  assumes m: "triple put_store C P m Q C" and s: "stable P" "stable C" "\<And>x. stable (Q x)"
    and c: "\<And>d. P d \<Longrightarrow> C d" "\<And>x d. Q x d \<Longrightarrow> C d"
  shows "triple put_store C P (locked env b m) Q C"
proof -
  have acq: "triple put_store C P (acquire env b) (\<lambda>_. P) C"
    by (rule triple_conseq [OF triple_weaken [OF keeps_triple [OF preserves_acquire [OF s(1)]]]]) (use c in auto)
  have drop: "triple put_store C R (tx_try (st_write env (DropLock b))) (\<lambda>_. R) C" if "stable R" "\<And>d. R d \<Longrightarrow> C d" for R
    by (rule triple_conseq [OF triple_weaken [OF keeps_triple [OF keeps_try [OF stable_write [OF that(1)]]]]]) (use that in auto)
  show ?thesis
    unfolding locked_def
    by (rule triple_bind [OF acq], rule triple_match [OF m], rule triple_bind [OF drop [OF s(2)]], assumption,
        rule triple_err, simp, rule triple_bind [OF drop [OF s(3)]], erule c(2), rule triple_ok)
      (use c(2) in auto)
qed

text \<open>Switching, with the intent on disk.\<close>

definition ready :: "package_store \<Rightarrow> app_id \<Rightarrow> pkg_version \<Rightarrow> pkg_version option \<Rightarrow> package_store \<Rightarrow> bool" where
  "ready d0 a v pv d \<longleftrightarrow> swap_ok d0 a v pv d \<and> intended a v pv d"

lemma ready_swap: "ready d0 a v pv d \<Longrightarrow> swap_ok d0 a v pv d"
  by (simp add: ready_def)

lemma stable_ready: "stable (ready d0 a v pv)"
  using stable_swap by (auto simp: stable_def ready_def aside_all)

definition arrived :: "package_store \<Rightarrow> app_id \<Rightarrow> pkg_version \<Rightarrow> pkg_version option \<Rightarrow> package_store \<Rightarrow> bool" where
  "arrived d0 a v pv d \<longleftrightarrow> entries_ok a v pv d \<and> marked a v d \<and> selections d = switched a v pv (selections d0)"

lemma arrived_swap: "arrived d0 a v pv d \<Longrightarrow> swap_ok d0 a v pv d"
  by (simp add: arrived_def swap_ok_def)

lemma stable_arrived: "stable (arrived d0 a v pv)"
  by (simp add: stable_def arrived_def aside_all aside_marked aside_selections)

lemma selections_write:
  "selections (d\<lparr>ps_current := dir_put a (Some v) (ps_current d)\<rparr>) = (selections d)(a := (Some (Some v), snd (selections d a)))"
  "selections (d\<lparr>ps_previous := dir_put a (Some v) (ps_previous d)\<rparr>) = (selections d)(a := (fst (selections d a), Some (Some v)))"
  by (auto simp: selections_def fun_eq_iff)

lemma write_quiet:
  "intended a v pv (d\<lparr>ps_current := x\<rparr>) = intended a v pv d" "intended a v pv (d\<lparr>ps_previous := x\<rparr>) = intended a v pv d"
  "entries_ok a v pv (d\<lparr>ps_current := x\<rparr>) = entries_ok a v pv d" "entries_ok a v pv (d\<lparr>ps_previous := x\<rparr>) = entries_ok a v pv d"
  "marked a v (d\<lparr>ps_current := x\<rparr>) = marked a v d" "marked a v (d\<lparr>ps_previous := x\<rparr>) = marked a v d"
  by (simp_all add: intended_def entries_ok_def marked_def marker_at_def)

definition turned :: "package_store \<Rightarrow> app_id \<Rightarrow> pkg_version \<Rightarrow> pkg_version option \<Rightarrow> package_store \<Rightarrow> bool" where
  "turned d0 a v pv d \<longleftrightarrow> entries_ok a v pv d \<and> intended a v pv d \<and> marked a v d
     \<and> selections d \<in> {halfway a v pv (selections d0), switched a v pv (selections d0)}"

lemma turned_swap: "turned d0 a v pv d \<Longrightarrow> swap_ok d0 a v pv d"
  by (auto simp: turned_def swap_ok_def)

lemma ready_previous:
  assumes "ready d0 a v pv d"
  shows "pv = Some p \<Longrightarrow> p \<noteq> v \<Longrightarrow> turned d0 a v pv (put_store d (WriteSelection PreviousFile a p))"
    and "(\<And>p. pv = Some p \<Longrightarrow> p = v) \<Longrightarrow> turned d0 a v pv d"
  using assms
  by (auto simp: ready_def swap_ok_def turned_def selections_write write_quiet halfway_def switched_def new_previous_def
      fun_upd_idem split: option.splits)

lemma turned_current: "turned d0 a v pv d \<Longrightarrow> arrived d0 a v pv (put_store d (WriteSelection CurrentFile a v))"
  by (auto simp: turned_def arrived_def selections_write write_quiet halfway_def switched_def)

lemma swaps_apply: "swaps d0 a v pv (ready d0 a v pv) (apply_selection env a v pv) (\<lambda>_. arrived d0 a v pv)"
proof -
  have first: "swaps d0 a v pv (ready d0 a v pv) (st_write env (MakeApp a)) (\<lambda>_. ready d0 a v pv)"
    by (rule swaps_keeps [OF stable_write [OF stable_ready]]) (auto simp: ready_def)
  have prev: "swaps d0 a v pv (ready d0 a v pv)
      (case pv of Some p \<Rightarrow> if p \<noteq> v then st_write env (WriteSelection PreviousFile a p) else tx_ok () | None \<Rightarrow> tx_ok ())
      (\<lambda>_. turned d0 a v pv)"
    using ready_previous turned_swap ready_swap
    by (auto split: option.splits intro!: swaps_write triple_ok simp del: put_store.simps) blast+
  have cur: "swaps d0 a v pv (turned d0 a v pv) (st_write env (WriteSelection CurrentFile a v)) (\<lambda>_. arrived d0 a v pv)"
    using turned_swap turned_current arrived_swap by (intro swaps_write) blast
  show ?thesis
    unfolding apply_selection_def
    by (rule triple_bind [OF first], rule triple_bind [OF prev], rule triple_bind [OF cur], rule swaps_probe, erule arrived_swap)
qed

text \<open>Done: the intent is gone and the new pair is selected.\<close>

lemma arrived_drop: "arrived d0 a v pv d \<Longrightarrow> arrived d0 a v pv (put_store d (DropIntent p))"
  by (auto simp: arrived_def entries_ok_def)

lemma swaps_remove_intent: "swaps d0 a v pv (arrived d0 a v pv) (remove_intent env p) (\<lambda>_. arrived d0 a v pv)"
  unfolding remove_intent_def using arrived_drop arrived_swap by (intro swaps_write) blast

lemma swaps_intend:
  "swaps d0 a v pv (\<lambda>d. calm d0 a v d \<and> marked a v d) (write_intent env (act_intent a v pv))
     (\<lambda>p d. ready d0 a v pv d)"
proof -
  have "ready d0 a v pv (put_store d (WriteIntent (act_file a v) (act_intent a v pv)))" if "calm d0 a v d \<and> marked a v d" for d
    using that by (auto simp: calm_def ready_def swap_ok_def entries_ok_def intended_def)
  then have "swaps d0 a v pv (\<lambda>d. calm d0 a v d \<and> marked a v d)
      (st_write env (WriteIntent (act_file a v) (act_intent a v pv))) (\<lambda>_. ready d0 a v pv)"
    using calm_swap by (intro swaps_write) (auto simp: ready_def simp del: put_store.simps)
  then show ?thesis
    unfolding write_intent_def intent_file_act
    by (intro triple_bind [OF swaps_probe]) (auto intro: calm_swap intro!: triple_bind [where Q = "\<lambda>_. ready d0 a v pv"] triple_ok simp: ready_def)
qed

section \<open>Installing\<close>

lemma preserves_remove_release:
  assumes "\<And>d mk m. P d \<Longrightarrow> P (put_store d (GutRelease b w mk m))" and "\<And>d. P d \<Longrightarrow> P (put_store d (RemoveRelease b w))"
  shows "preserves P (remove_app_release env b w)"
  unfolding remove_app_release_def by (intro keep keeps_io assms)

lemma swap_prune: "preserves (swap_ok d0 a v pv) (prune_app env a v)"
proof -
  have "preserves (swap_ok d0 a v pv) (prune_app_loop env a ks vs)" if "v \<in> set ks" for ks vs
    by (induction vs) (use that in \<open>auto intro!: keep preserves_remove_release intro: swap_remove simp del: put_store.simps\<close>)
  then show ?thesis unfolding prune_app_def by (intro keep) (simp add: List.map_filter_def)
qed

text \<open>\<open>finish\<close> is called with the target complete and nothing on record but staging.\<close>

lemma swaps_finish:
  "swaps d0 a v pv (\<lambda>d. calm d0 a v d \<and> marked a v d) (finish_install env opts a v pv act present) (\<lambda>_. swap_ok d0 a v pv)"
proof -
  let ?P = "\<lambda>d. calm d0 a v d \<and> marked a v d"
  have P: "?P d \<Longrightarrow> swap_ok d0 a v pv d" for d by (simp add: calm_swap)
  have go: "swaps d0 a v pv ?P (tx_bind (write_intent env (act_intent a v pv)) (\<lambda>entry.
      then_tx (apply_selection env a v pv) (then_tx (remove_intent env entry) (tx_ok True)))) (\<lambda>_. swap_ok d0 a v pv)"
    by (rule triple_bind [OF swaps_intend], rule triple_bind [OF swaps_apply],
        rule triple_bind [OF swaps_remove_intent], rule triple_ok) (use arrived_swap in auto)
  have first: "swaps d0 a v pv ?P (if act \<and> pv \<noteq> Some v
       then tx_bind (tx_ask (ie_running env)) (\<lambda>running.
         if running then tx_err (Running a)
         else tx_bind (write_intent env \<lparr>ij_app = a, ij_version = v, ij_previous = pv, ij_staging = None, ij_phase = Activating\<rparr>)
           (\<lambda>entry. then_tx (apply_selection env a v pv) (then_tx (remove_intent env entry) (tx_ok True))))
       else tx_ok (pv = Some v \<and> act)) (\<lambda>_. swap_ok d0 a v pv)"
    unfolding act_intent_def [symmetric]
    by (rule triple_if, rule triple_bind [where Q = "\<lambda>_. ?P"], rule triple_ask, simp add: P, rule triple_if,
        rule triple_err, simp add: P, rule go, rule triple_ok) (simp add: P)
  show ?thesis
    unfolding finish_install_def
    by (rule triple_bind [OF first], rule keeps_triple, intro keep swap_prune)
qed

lemma calm_commit:
  assumes "calm d0 a v d" "staged d t r" "ar_marker r \<noteq> NoMarker"
  shows "calm d0 a v (put_store d (CommitStage t a v)) \<and> marked a v (put_store d (CommitStage t a v))"
  using assms by (auto simp: calm_releases [OF commit_quiet] simp del: put_store.simps)
    (auto simp: marked_def marker_at_def staged_def)

lemma swaps_install_staged:
  "swaps d0 (rd_app desc) (rd_version desc) pv (calm d0 (rd_app desc) (rd_version desc))
     (install_staged env opts desc t pv) (\<lambda>_. swap_ok d0 (rd_app desc) (rd_version desc) pv)"
proof -
  let ?a = "rd_app desc" and ?v = "rd_version desc"
  let ?C = "swap_ok d0 ?a ?v pv" and ?S = "calm d0 ?a ?v"
  let ?mk = "\<lparr>mk_digest = rd_digest desc, mk_signer = rd_signer desc\<rparr>"
  have c: "?S d \<Longrightarrow> ?C d" for d by (rule calm_swap)
  have stamp: "triple put_store ?C (\<lambda>d. ?S d \<and> staged d t (payload env NoMarker m)) (st_write env (StampStage t ?mk))
      (\<lambda>_ d. ?S d \<and> staged d t (payload env (HasMarker ?mk) m)) ?C" for m
    by (rule triple_io) (use c staged_stamp stable_calm in \<open>auto simp: stable_def simp del: put_store.simps\<close>)
  have commit: "triple put_store ?C (\<lambda>d. ?S d \<and> staged d t (payload env (HasMarker ?mk) m)) (commit_stage env t ?a ?v)
      (\<lambda>_ d. ?S d \<and> marked ?a ?v d) ?C" for m
  proof -
    let ?B = "\<lambda>d. ?S d \<and> staged d t (payload env (HasMarker ?mk) m)"
    have app: "?B (put_store d (MakeApp ?a))" if "?B d" for d
      using that stableD [OF stable_calm, of "MakeApp ?a"] by (simp add: staged_def)
    have final: "?S (put_store d (CommitStage t ?a ?v)) \<and> marked ?a ?v (put_store d (CommitStage t ?a ?v))" if "?B d" for d
      using that by (intro calm_commit) (auto simp: payload_def)
    show ?thesis
      unfolding commit_stage_def
      by (rule triple_bind [where Q = "\<lambda>_. ?B"], rule triple_probe, simp add: c,
          rule triple_bind [where Q = "\<lambda>_. ?B"], rule triple_io, use app c in blast,
          rule triple_bind [where Q = "\<lambda>_. ?B"], rule triple_get, simp add: c,
          rule triple_if, rule triple_err, simp add: c, rule triple_io)
        (use final c in blast)
  qed
  show ?thesis
    unfolding install_staged_def
  proof (rule triple_bind [OF triple_stage_archive [OF stable_calm c]], assumption, rule triple_pure)
    fix m
    let ?A = "\<lambda>d. ?S d \<and> staged d t (payload env NoMarker m)"
    show "triple put_store ?C ?A
      (then_tx (tx_lift (check_agreement desc m))
        (then_tx (tx_lift (if op_allow_incompatible opts then Ok () else ensure_runnable m))
          (then_tx (st_write env (StampStage t ?mk))
            (then_tx (commit_stage env t ?a ?v)
              (finish_install env opts ?a ?v pv (op_activate opts \<and> ensure_runnable m = Ok ()) False))))) (\<lambda>_. ?C) ?C"
      by (rule triple_bind [where Q = "\<lambda>_. ?A"], rule triple_lift, simp add: c,
          rule triple_bind [where Q = "\<lambda>_. ?A"], rule triple_lift, simp add: c,
          rule triple_bind [OF stamp], rule triple_bind [OF commit], rule swaps_finish)
  qed
qed

lemma swaps_fresh_install:
  "swaps d0 (rd_app desc) (rd_version desc) pv (calm d0 (rd_app desc) (rd_version desc))
     (fresh_install env opts desc pv) (\<lambda>_. swap_ok d0 (rd_app desc) (rd_version desc) pv)"
proof -
  let ?a = "rd_app desc" and ?v = "rd_version desc"
  let ?C = "swap_ok d0 ?a ?v pv" and ?S = "calm d0 ?a ?v"
  let ?j = "\<lambda>t. \<lparr>ij_app = ?a, ij_version = ?v, ij_previous = None, ij_staging = Some t, ij_phase = Stage\<rparr>"
  have opens: "swaps d0 ?a ?v pv ?S (begin_transaction env ?a ?v) (\<lambda>tr d. ?S d \<and> snd tr \<noteq> act_file ?a ?v)"
  proof -
    have w: "swaps d0 ?a ?v pv ?S (st_write env (WriteIntent (intent_file (?j t)) (?j t))) (\<lambda>_. ?S)" for t
      by (rule swaps_write) (use calm_stage [of d0 ?a ?v _ "?j t"] calm_swap in auto)
    have still: "swaps d0 ?a ?v pv ?S m (\<lambda>_. ?S)" if "preserves ?S m" for m
      using that calm_swap by (rule swaps_keeps)
    have aw: "swaps d0 ?a ?v pv ?S (st_write env w) (\<lambda>_. ?S)" if "aside w" for w
      by (rule still) (rule stable_write [OF stable_calm that])
    have "intent_file (?j t) \<noteq> act_file ?a ?v" for t by (rule act_file_not_stage) simp_all
    then have wi: "swaps d0 ?a ?v pv ?S (write_intent env (?j t)) (\<lambda>p d. ?S d \<and> p \<noteq> act_file ?a ?v)" for t
      unfolding write_intent_def
      by (intro triple_bind [OF swaps_probe] triple_bind [OF w] triple_ok) (auto intro: calm_swap)
    show ?thesis
      unfolding begin_transaction_def Let_def
      by (rule triple_bind [OF swaps_probe], erule calm_swap, rule triple_bind [where Q = "\<lambda>_. ?S"], rule triple_ask, simp add: calm_swap,
          rule triple_bind [OF aw], simp, rule triple_bind [OF aw], simp, rule triple_bind [OF wi], rule triple_ok)
        (simp add: calm_swap)
  qed
  have finish: "preserves ?C (finish_transaction env tr)" if "snd tr \<noteq> act_file ?a ?v" for tr
    unfolding finish_transaction_def remove_intent_def
    by (intro keep stable_swap keeps_io swap_drop that) simp_all
  show ?thesis
    unfolding fresh_install_def
  proof (rule triple_bind [OF opens], rule triple_pure)
    fix tr :: "string \<times> string" assume tr: "snd tr \<noteq> act_file ?a ?v"
    show "swaps d0 ?a ?v pv ?S (tx_match (install_staged env opts desc (fst tr) pv)
        (\<lambda>e. then_tx (tx_try (finish_transaction env tr)) (tx_err e))
        (\<lambda>r. then_tx (finish_transaction env tr) (tx_ok r))) (\<lambda>_. ?C)"
      by (rule triple_match [OF swaps_install_staged])
        (rule keeps_triple, intro keep finish tr)+
  qed
qed

lemma aside_usable: "aside w \<Longrightarrow> usable (put_store d w) f b = usable d f b"
  unfolding usable_def picked_def marker_at_def by (simp only: aside_selection aside_releases)

definition calm_from :: "package_store \<Rightarrow> app_id \<Rightarrow> pkg_version \<Rightarrow> package_store \<Rightarrow> bool" where
  "calm_from d0 a v d \<longleftrightarrow> calm d0 a v d \<and> (\<forall>f. usable d f a = usable d0 f a)"

lemma calm_from_swap: "calm_from d0 a v d \<Longrightarrow> swap_ok d0 a v pv d"
  by (simp add: calm_from_def calm_swap)

lemma stable_calm_from: "stable (calm_from d0 a v)"
  using stable_calm by (auto simp: stable_def calm_from_def aside_usable)

lemma calm_from_start: "ps_journal d0 = [] \<Longrightarrow> calm_from d0 a v d0"
  by (simp add: calm_from_def calm_def)

lemma swaps_usable:
  assumes "\<And>d. P d \<Longrightarrow> calm_from d0 a v d"
  shows "swaps d0 a v pv P (usable_selection env f a) (\<lambda>x d. x = usable d0 f a \<and> P d)"
  by (rule triple_conseq [OF swaps_reads [OF reads_usable, of P]])
    (use assms in \<open>auto simp: calm_from_def calm_swap\<close>)

lemma swaps_install:
  assumes "ps_journal d0 = []"
  shows "swaps d0 (rd_app desc) (rd_version desc) (usable d0 CurrentFile (rd_app desc)) (\<lambda>d. d = d0)
    (install_release env opts desc) (\<lambda>_. swap_ok d0 (rd_app desc) (rd_version desc) (usable d0 CurrentFile (rd_app desc)))"
proof -
  let ?a = "rd_app desc" and ?v = "rd_version desc" and ?pv = "usable d0 CurrentFile (rd_app desc)"
  let ?C = "swap_ok d0 ?a ?v ?pv" and ?S = "calm_from d0 ?a ?v"
  have c: "?S d \<Longrightarrow> ?C d" for d by (rule calm_from_swap)
  have seen: "swaps d0 ?a ?v ?pv ?S (existing_marker env ?a ?v) (\<lambda>m d. calm d0 ?a ?v d \<and> (m \<noteq> None \<longrightarrow> marked ?a ?v d))"
    by (rule triple_conseq [OF swaps_reads [OF reads_marker, of ?S]])
      (use c in \<open>auto simp: calm_from_def marked_def\<close>)
  have found: "swaps d0 ?a ?v ?pv (\<lambda>d. calm d0 ?a ?v d \<and> marked ?a ?v d)
      (if mk_digest mk \<noteq> rd_digest desc
       then tx_err (VersionExists ?a ?v (mk_digest mk) (rd_digest desc))
       else tx_bind (tx_get (\<lambda>d. Option.bind (release_at d ?a ?v) ar_manifest)) (\<lambda>m. case m of
           None \<Rightarrow> tx_err UnreadableManifest
         | Some _ \<Rightarrow> finish_install env opts ?a ?v ?pv (op_activate opts) True)) (\<lambda>_. ?C)" for mk
    by (auto split: option.split intro!: triple_err triple_bind [where Q = "\<lambda>_ d. calm d0 ?a ?v d \<and> marked ?a ?v d"]
        triple_get swaps_finish simp: calm_swap)
  have body: "swaps d0 ?a ?v ?pv ?S (install_locked env opts desc) (\<lambda>_. ?C)"
    unfolding install_locked_def
  proof (rule triple_bind_eq [OF swaps_usable], assumption, rule triple_if, rule triple_err, simp add: c,
      rule triple_bind [OF seen], goal_cases)
    case (1 m)
    show ?case
    proof (cases m)
      case None
      show ?thesis unfolding None option.case
        by (rule triple_conseq [OF swaps_fresh_install]) auto
    next
      case (Some mk)
      show ?thesis unfolding Some option.case
        by (rule triple_conseq [OF found]) auto
    qed
  qed
  have "swaps d0 ?a ?v ?pv ?S (install_release env opts desc) (\<lambda>_. ?C)"
    unfolding install_release_def
    by (rule triple_bind [OF swaps_probe], erule c, rule locked_triple [OF body stable_calm_from stable_swap stable_swap])
      (use c in auto)
  then show ?thesis
    by (rule triple_conseq) (use calm_from_start assms in auto)
qed

section \<open>Rolling back\<close>

text \<open>Which entries of the journal are left.\<close>

definition pending_in :: "string list \<Rightarrow> package_store \<Rightarrow> bool" where
  "pending_in ps d \<longleftrightarrow> fst ` set (ps_journal d) \<subseteq> set ps"

lemma aside_pending: "aside w \<Longrightarrow> pending_in ps (put_store d w) = pending_in ps d"
  by (simp add: pending_in_def aside_journal)

text \<open>The pending entries stay where they are while a selection is switched.\<close>

lemma pending_apply: "preserves (pending_in ps) (apply_selection env a v pv)"
  unfolding apply_selection_def
  by (intro keep keeps_io) (simp_all add: pending_in_def)

lemma swaps_apply_pending:
  "swaps d0 a v pv (\<lambda>d. ready d0 a v pv d \<and> pending_in ps d) (apply_selection env a v pv)
     (\<lambda>_ d. arrived d0 a v pv d \<and> pending_in ps d)"
  by (rule triple_conseq [OF triple_weaken [OF triple_conj [OF swaps_apply keeps_triple [OF pending_apply]]]]) auto

lemma pending_drop: "pending_in (p # ps) d \<Longrightarrow> pending_in ps (put_store d (DropIntent p))"
  by (auto simp: pending_in_def)

lemma swaps_intend_pending:
  "swaps d0 a v pv (\<lambda>d. (calm d0 a v d \<and> marked a v d) \<and> pending_in [] d) (write_intent env (act_intent a v pv))
     (\<lambda>p d. p = act_file a v \<and> (ready d0 a v pv d \<and> pending_in [act_file a v] d))"
proof -
  have "triple put_store (\<lambda>_. True) (pending_in []) (write_intent env (act_intent a v pv))
      (\<lambda>p d. p = act_file a v \<and> pending_in [act_file a v] d) (\<lambda>_. True)"
    unfolding write_intent_def intent_file_act
    by (rule triple_bind [where Q = "\<lambda>_. pending_in []"], rule triple_probe, simp,
        rule triple_bind [where Q = "\<lambda>_. pending_in [act_file a v]"], rule triple_io, simp add: pending_in_def, rule triple_ok) simp
  from triple_weaken [OF triple_conj [OF swaps_intend this]]
  show ?thesis by (rule triple_conseq) auto
qed

lemma stable_pending: "stable (pending_in ps)"
  by (simp add: stable_def aside_pending)

lemma stable_conj: "stable P \<Longrightarrow> stable Q \<Longrightarrow> stable (\<lambda>d. P d \<and> Q d)"
  by (simp add: stable_def)


definition fallback_of :: "package_store \<Rightarrow> app_id \<Rightarrow> pkg_version" where
  "fallback_of d a = (case usable d PreviousFile a of Some v \<Rightarrow> v | None \<Rightarrow> [])"

lemma usable_marked: "usable d f a = Some v \<Longrightarrow> marked a v d"
  by (auto simp: usable_def marked_def split: option.splits if_splits)

lemma swaps_rollback:
  assumes "ps_journal d0 = []"
  shows "swaps d0 a (fallback_of d0 a) (usable d0 CurrentFile a) (\<lambda>d. d = d0) (rollback_app env a)
    (\<lambda>r d. usable d0 CurrentFile a = Some (rb_from r) \<and> usable d0 PreviousFile a = Some (rb_version r) \<and> rb_app r = a
       \<and> arrived d0 a (fallback_of d0 a) (usable d0 CurrentFile a) d \<and> pending_in [] d)"
    (is "swaps d0 a ?v ?pv _ _ ?Q")
proof -
  let ?C = "swap_ok d0 a ?v ?pv" and ?S = "\<lambda>d. calm_from d0 a ?v d \<and> pending_in [] d"
  have c: "?S d \<Longrightarrow> ?C d" for d by (simp add: calm_from_swap)
  have stS: "stable ?S" by (intro stable_conj stable_calm_from stable_pending)
  have go: "swaps d0 a ?v ?pv ?S (tx_bind (write_intent env (act_intent a ?v ?pv))
      (\<lambda>entry. then_tx (apply_selection env a ?v ?pv)
        (then_tx (remove_intent env entry) (tx_ok \<lparr>rb_app = a, rb_version = t, rb_from = w\<rparr>)))) ?Q"
    if "?pv = Some w" "usable d0 PreviousFile a = Some t" for w t
  proof -
    have start: "swaps d0 a ?v ?pv ?S (write_intent env (act_intent a ?v ?pv)) 
        (\<lambda>p d. p = act_file a ?v \<and> (ready d0 a ?v ?pv d \<and> pending_in [act_file a ?v] d))"
      by (rule triple_conseq [OF swaps_intend_pending])
        (use that usable_marked in \<open>fastforce simp: calm_from_def fallback_of_def\<close>)+
    have remove: "swaps d0 a ?v ?pv (\<lambda>d. arrived d0 a ?v ?pv d \<and> pending_in [act_file a ?v] d)
        (remove_intent env (act_file a ?v)) (\<lambda>_ d. arrived d0 a ?v ?pv d \<and> pending_in [] d)"
      unfolding remove_intent_def using arrived_drop arrived_swap pending_drop by (intro swaps_write) blast
    show ?thesis
      by (rule triple_bind_eq [OF start], rule triple_bind [OF swaps_apply_pending], rule triple_bind [OF remove], rule triple_ok)
        (use that arrived_swap in auto)
  qed
  have body: "swaps d0 a ?v ?pv ?S
     (tx_bind (usable_selection env CurrentFile a) (\<lambda>current. case current of
        None \<Rightarrow> tx_err (NothingSelected a)
      | Some from \<Rightarrow> tx_bind (usable_selection env PreviousFile a) (\<lambda>previous. case previous of
          None \<Rightarrow> tx_err (NoFallback a)
        | Some to \<Rightarrow> tx_bind (tx_ask (ie_running env)) (\<lambda>running.
            if running then tx_err (Running a)
            else tx_bind (write_intent env \<lparr>ij_app = a, ij_version = to, ij_previous = Some from, ij_staging = None, ij_phase = Activating\<rparr>)
              (\<lambda>entry. then_tx (apply_selection env a to (Some from))
                (then_tx (remove_intent env entry) (tx_ok \<lparr>rb_app = a, rb_version = to, rb_from = from\<rparr>))))))) ?Q"
  proof (rule triple_bind_eq [OF swaps_usable], erule conjunct1, goal_cases)
    case 1
    show ?case
    proof (cases ?pv)
      case None
      show ?thesis unfolding None option.case by (rule triple_err) (use c None in auto)
    next
      case (Some w)
      note pv = Some
      show ?thesis unfolding pv option.case
      proof (rule triple_bind_eq [OF swaps_usable], erule conjunct1, goal_cases)
        case 1
        show ?case
        proof (cases "usable d0 PreviousFile a")
          case None
          show ?thesis unfolding None option.case by (rule triple_err) (use c pv in auto)
        next
          case (Some t)
          then have v: "?v = t" by (simp add: fallback_of_def)
          show ?thesis unfolding Some option.case
            by (rule triple_bind [where Q = "\<lambda>_. ?S"], rule triple_ask, use c pv in simp, rule triple_if, rule triple_err, use c pv in simp)
              (use go [OF pv Some] pv v in \<open>simp add: act_intent_def Some\<close>)
        qed
      qed
    qed
  qed
  have st: "stable (?Q r)" for r
    using stable_arrived stable_pending by (auto simp: stable_def)
  have "swaps d0 a ?v ?pv ?S (rollback_app env a) ?Q"
    unfolding rollback_app_def
    by (rule locked_triple [OF body stS stable_swap st]) (use c arrived_swap in auto)
  then show ?thesis
    by (rule triple_conseq) (use calm_from_start assms in \<open>auto simp: pending_in_def\<close>)
qed

section \<open>Recovery\<close>

definition recovering :: "package_store \<Rightarrow> app_id \<Rightarrow> pkg_version \<Rightarrow> pkg_version option \<Rightarrow> string list \<Rightarrow> package_store \<Rightarrow> bool" where
  "recovering d0 a v pv ps d \<longleftrightarrow> swap_ok d0 a v pv d \<and> pending_in ps d"

lemma recovering_swap: "recovering d0 a v pv ps d \<Longrightarrow> swap_ok d0 a v pv d"
  by (simp add: recovering_def)

lemma stable_recovering: "stable (recovering d0 a v pv ps)"
  using stable_swap by (auto simp: stable_def recovering_def aside_pending)

lemma recover_act:
  "swaps d0 a v pv (\<lambda>d. ready d0 a v pv d \<and> pending_in ps d) (recover_selection env (act_intent a v pv) report)
     (\<lambda>_ d. arrived d0 a v pv d \<and> pending_in ps d)"
proof -
  let ?P = "\<lambda>d. ready d0 a v pv d \<and> pending_in ps d"
  have seen: "swaps d0 a v pv ?P (existing_marker env a v) (\<lambda>m d. ?P d \<and> m \<noteq> None)"
    by (rule triple_conseq [OF swaps_reads [OF reads_marker, of ?P]])
      (auto simp: ready_def swap_ok_def marked_def)
  have simps: "ij_phase (act_intent a v pv) = Activating" "ij_app (act_intent a v pv) = a"
    "ij_version (act_intent a v pv) = v" "ij_previous (act_intent a v pv) = pv"
    by (simp_all add: act_intent_def)
  show ?thesis
    unfolding recover_selection_def simps
    by (simp, rule triple_bind [OF seen], rule triple_pure)
      (auto intro!: triple_bind [OF swaps_apply_pending] triple_ok simp: arrived_swap)
qed

lemma swaps_recover_intent:
  "swaps d0 a v pv (recovering d0 a v pv (p # ps)) (recover_intent env p report) (\<lambda>_. recovering d0 a v pv ps)"
proof -
  let ?R = "recovering d0 a v pv (p # ps)"
  let ?A = "\<lambda>d. ready d0 a v pv d \<and> pending_in (p # ps) d"
  have arr: "arrived d0 a v pv d \<and> pending_in (p # ps) d \<Longrightarrow> recovering d0 a v pv ps (put_store d (DropIntent p))" for d
    using arrived_drop [of d0 a v pv d p] arrived_swap [of d0 a v pv "put_store d (DropIntent p)"] pending_drop [of p ps d]
    by (simp add: recovering_def)
  have known: "swaps d0 a v pv ?R (read_intent env p)
     (\<lambda>j d. (j = act_intent a v pv \<and> ?A d) \<or> (ij_phase j = Stage \<and> p \<noteq> act_file a v \<and> ?R d))"
    unfolding read_intent_def
  proof (rule triple_bind [OF swaps_probe], erule recovering_swap,
      rule triple_bind [where Q = "\<lambda>e d. ?R d \<and> map_of (ps_journal d) p = e"], rule triple_get, simp add: recovering_swap, goal_cases)
    case (1 _ e)
    have "(j = act_intent a v pv \<and> ?A d) \<or> (ij_phase j = Stage \<and> p \<noteq> act_file a v \<and> ?R d)"
      if "?R d" "map_of (ps_journal d) p = Some (Some j)" for j d
      using map_of_SomeD [OF that(2)] that(1)
      by (auto simp: recovering_def swap_ok_def entries_ok_def ready_def intended_def staging_entry_def)
    then show ?case
      by (auto split: option.split intro!: triple_err triple_ok simp: recovering_swap)
  qed
  have staging: "swaps d0 a v pv P (case ij_staging j of
          Some t \<Rightarrow> then_tx (st_write env (DropStage t)) (tx_ok (report\<lparr>rr_staging_removed := Suc (rr_staging_removed report)\<rparr>))
        | None \<Rightarrow> tx_ok report) (\<lambda>_. P)" if "stable P" "\<And>d. P d \<Longrightarrow> swap_ok d0 a v pv d" for P j
    by (rule swaps_keeps [OF _ that(2)]) (intro keep that, simp_all)
  let ?body = "\<lambda>j. tx_bind (case ij_staging j of
          Some t \<Rightarrow> then_tx (st_write env (DropStage t)) (tx_ok (report\<lparr>rr_staging_removed := Suc (rr_staging_removed report)\<rparr>))
        | None \<Rightarrow> tx_ok report) (\<lambda>report1. tx_bind (recover_selection env j report1) (\<lambda>report2.
            then_tx (remove_intent env p) (tx_ok report2)))"
  have stA: "stable ?A" using stable_ready by (auto simp: stable_def aside_pending)
  have act: "swaps d0 a v pv ?A (?body (act_intent a v pv)) (\<lambda>_. recovering d0 a v pv ps)"
  proof (rule triple_bind [OF staging [OF stA]], simp add: ready_def, rule triple_bind [OF recover_act],
      rule triple_bind [where Q = "\<lambda>_. recovering d0 a v pv ps"])
    show "swaps d0 a v pv (\<lambda>d. arrived d0 a v pv d \<and> pending_in (p # ps) d) (remove_intent env p) (\<lambda>_. recovering d0 a v pv ps)"
      unfolding remove_intent_def using arr arrived_swap recovering_swap by (intro swaps_write) blast
  qed (rule triple_ok, simp add: recovering_swap)
  have stg: "swaps d0 a v pv ?R (?body j) (\<lambda>_. recovering d0 a v pv ps)" if "ij_phase j = Stage" "p \<noteq> act_file a v" for j
  proof -
    have eq: "recover_selection env j r = tx_ok r" for r
      using that by (simp add: recover_selection_def)
    have rem: "swaps d0 a v pv ?R (remove_intent env p) (\<lambda>_. recovering d0 a v pv ps)"
      unfolding remove_intent_def using swap_drop [OF _ that(2)] pending_drop [of p ps]
      by (intro swaps_write) (auto simp: recovering_def simp del: put_store.simps)
    show ?thesis
      unfolding eq
      by (rule triple_bind [OF staging [OF stable_recovering]], erule recovering_swap, rule triple_bind [where Q = "\<lambda>_. ?R"],
          rule triple_ok, simp add: recovering_swap, rule triple_bind [OF rem], rule triple_ok) (simp add: recovering_swap)
  qed
  have swapped: "swaps d0 a v pv P (locked env b (?body j)) (\<lambda>_. recovering d0 a v pv ps)"
    if "swaps d0 a v pv P (?body j) (\<lambda>_. recovering d0 a v pv ps)" "stable P" "\<And>d. P d \<Longrightarrow> swap_ok d0 a v pv d" for P b j
    by (rule locked_triple [OF that(1) that(2) stable_swap stable_recovering that(3)]) (auto simp: recovering_swap)
  show ?thesis
    unfolding recover_intent_def
    by (rule triple_bind [OF known], rule triple_disj, rule triple_pure_left, rule swapped, simp only: act, rule stA,
        simp add: ready_def, unfold conj_assoc [symmetric], rule triple_pure_left, rule swapped, rule stg)
      (auto simp: stable_recovering recovering_swap)
qed

lemma swaps_recover_intents:
  "swaps d0 a v pv (recovering d0 a v pv ps) (recover_intents env ps report) (\<lambda>_. recovering d0 a v pv [])"
proof (induction ps arbitrary: report)
  case Nil
  show ?case by (auto intro!: triple_ok simp: recovering_swap)
next
  case (Cons p ps)
  show ?case unfolding recover_intents.simps
    by (rule triple_bind [OF swaps_recover_intent Cons.IH])
qed

lemma preserves_sweep_recovering: "preserves (recovering d0 a v pv []) (sweep_incomplete env)"
  by (rule preserves_sweep_incomplete) (auto simp: recovering_def pending_in_def intro: swap_remove simp del: put_store.simps simp: gut_quiet)

lemma swaps_recover:
  "swaps d0 a v pv (swap_ok d0 a v pv) (recover_store env) (\<lambda>_. recovering d0 a v pv [])"
proof -
  let ?C = "swap_ok d0 a v pv"
  have still: "swaps d0 a v pv P m (\<lambda>_. P)" if "preserves P m" "\<And>d. P d \<Longrightarrow> ?C d" for m P
    using that by (rule swaps_keeps)
  have list: "swaps d0 a v pv ?C (all_intents env) (\<lambda>ps. recovering d0 a v pv ps)"
    unfolding all_intents_def
    by (rule triple_bind [OF swaps_probe], assumption, rule triple_get) (simp add: recovering_def pending_in_def)
  show ?thesis
    unfolding recover_store_def
    by (rule triple_bind [OF swaps_probe], assumption, rule triple_bind [OF still [OF preserves_break [OF stable_swap]]], assumption,
        rule triple_bind [OF list], rule triple_bind [OF swaps_recover_intents],
        rule triple_bind [OF still [OF preserves_sweep_staging [OF stable_recovering]]], erule recovering_swap,
        rule triple_bind [OF still [OF preserves_sweep_recovering]], erule recovering_swap, rule triple_ok)
      (simp add: recovering_swap)
qed

section \<open>Interrupted installs\<close>

text \<open>Recovery that is itself cut off, any number of times.\<close>

inductive store_cut :: "package_store \<Rightarrow> package_store \<Rightarrow> bool" for d where
  start: "store_cut d d"
| again: "store_cut d d' \<Longrightarrow> d'' \<in> cuts put_store (recover_store env) d' \<Longrightarrow> store_cut d d''"

lemma store_cut_swap: "store_cut d d' \<Longrightarrow> swap_ok d0 a v pv d \<Longrightarrow> swap_ok d0 a v pv d'"
  by (induction rule: store_cut.induct) (auto intro: triple_cuts [OF swaps_recover])

lemma recovering_end:
  assumes "recovering d0 a v pv [] d"
  shows "ps_journal d = [] \<and> (selections d = selections d0 \<or> selections d = switched a v pv (selections d0))"
  using assms by (auto simp: recovering_def pending_in_def swap_ok_def intended_def)

lemma recover_swap_result:
  assumes "swap_ok d0 a v pv d" and "recover_store env (tx_start d) = (Ok report, u)"
  shows "recovering d0 a v pv [] (tx_disk u)"
  by (rule triple_result [OF swaps_recover _ assms(2)]) (simp add: tx_start_def assms(1))

section \<open>An example\<close>

text \<open>
  A store with one selected release, an environment where every call works, and a descriptor
  of a second release; \<open>example_store_cut n\<close> is the store after the first n durable writes
  of installing it. The gutted release has lost its files but not its marker, and its
  manifest asks for a protocol nobody speaks.
\<close>

definition example_app_manifest :: "string \<Rightarrow> app_manifest" where
  "example_app_manifest v = \<lparr>am_id = ''c'', am_version = v, am_protocol = CURRENT\<rparr>"

definition example_release :: "string \<Rightarrow> app_release" where
  "example_release v = \<lparr>ar_marker = HasMarker \<lparr>mk_digest = ''z'', mk_signer = ''s''\<rparr>,
     ar_manifest = Some (example_app_manifest v), ar_whole = True, ar_archive = ''z''\<rparr>"

definition example_store :: package_store where
  "example_store = \<lparr>ps_apps = [''c''], ps_releases = [((''c'', ''1''), example_release ''1'')],
     ps_current = [(''c'', Some ''1'')], ps_previous = [], ps_journal = [], ps_staging = [], ps_locks = []\<rparr>"

definition example_install_env :: install_env where
  "example_install_env = \<lparr>ie_io = (\<lambda>_. IoOk), ie_gut = (\<lambda>_. (True, True)), ie_token = (\<lambda>_. ''t''), ie_running = (\<lambda>_. False),
     ie_older = (\<lambda>_ _. False), ie_archive = ''z'', ie_sha = (\<lambda>b. b), ie_extract = (\<lambda>_. Ok (example_app_manifest ''2''))\<rparr>"

definition example_descriptor :: app_release_descriptor where
  "example_descriptor = \<lparr>rd_app = ''c'', rd_version = ''2'', rd_protocol = CURRENT, rd_size = 1, rd_digest = ''z'', rd_signer = ''s''\<rparr>"

definition example_store_cut :: "nat \<Rightarrow> package_store" where
  "example_store_cut n = apply_writes put_store example_store
     (take n (tx_log (snd (install_release example_install_env default_options example_descriptor (tx_start example_store)))))"

definition example_pair_store :: package_store where
  "example_pair_store = example_store\<lparr>ps_releases := [((''c'', ''2''), example_release ''2''), ((''c'', ''1''), example_release ''1'')],
     ps_current := [(''c'', Some ''2'')], ps_previous := [(''c'', Some ''1'')]\<rparr>"

definition example_gutted :: app_release where
  "example_gutted = (example_release ''2'')\<lparr>ar_whole := False,
     ar_manifest := Some \<lparr>am_id = ''c'', am_version = ''2'', am_protocol = \<lparr>major = 9, minor = 0\<rparr>\<rparr>\<rparr>"

definition example_gutted_store :: package_store where
  "example_gutted_store = example_store\<lparr>ps_releases := [((''c'', ''2''), example_gutted), ((''c'', ''1''), example_release ''1'')]\<rparr>"

definition example_stale_store :: package_store where
  "example_stale_store = example_pair_store\<lparr>ps_current := [(''c'', Some ''1'')],
     ps_journal := [(act_file ''c'' ''2'', Some (act_intent ''c'' ''2'' None))]\<rparr>"

lemmas example_stores = example_pair_store_def example_gutted_def example_gutted_store_def example_stale_store_def
  act_file_def act_intent_def

lemmas install_run = install_release_def locked_def acquire_def install_locked_def usable_selection_def read_selection_def
  existing_marker_def marker_at_def release_at_def fresh_install_def begin_transaction_def write_intent_def install_staged_def
  stage_archive_def measured_copy_def check_agreement_def ensure_runnable_def commit_stage_def finish_install_def
  apply_selection_def remove_intent_def finish_transaction_def prune_app_def installed_versions_def listed_versions_def
  rollback_app_def recover_store_def break_all_def all_intents_def recover_intent_def read_intent_def recover_selection_def
  sweep_staging_def sweep_incomplete_def remove_app_release_def intent_file_def dir_put_def dir_drop_def Let_def

lemmas example_install = example_install_env_def example_store_def example_release_def example_app_manifest_def
  example_descriptor_def default_options_def

lemma runs_current: "can_run CURRENT CURRENT"
  by (simp add: can_run_def)

lemma example_cut_halfway:
  "selections (example_store_cut 11) ''c'' = (Some (Some ''1''), Some (Some ''1''))"
  by (simp add: selections_def tx_run install_run example_install example_store_cut_def example_stores runs_current numeral_2_eq_2 del: append.simps)

lemma example_cut_recovers: "\<exists>report u. recover_store example_install_env (tx_start (example_store_cut 11)) = (Ok report, u)"
proof -
  have "fst (recover_store example_install_env (tx_start (example_store_cut 11))) = Ok
      \<lparr>rr_completed = [(''c'', ''2'')], rr_reverted = [], rr_staging_removed = 1, rr_locks_broken = 1, rr_incomplete_removed = []\<rparr>"
    by (simp add: tx_run install_run example_install example_store_cut_def example_stores runs_current numeral_2_eq_2 del: append.simps)
  then show ?thesis by (metis prod.collapse)
qed

text \<open>
  C30. Refinement: for the two selection files of every app, an install is one atomic
  assignment. Power may fail at any durable write of an install started with an empty
  journal, and again during the recoveries that follow; once a recovery reports success, the
  journal is empty again and the selections are those from before, or the abstract step has
  been done: the app's current release is the new version and its fallback the release that
  was usable before. No other app is touched.
\<close>

theorem install_is_atomic:
  assumes "ps_journal d0 = []" and "d1 \<in> cuts put_store (install_release env opts desc) d0" and "store_cut d1 d2"
    and "recover_store env' (tx_start d2) = (Ok report, u)"
  shows "ps_journal (tx_disk u) = [] \<and> (selections (tx_disk u) = selections d0
    \<or> selections (tx_disk u) = switched (rd_app desc) (rd_version desc) (usable d0 CurrentFile (rd_app desc)) (selections d0))"
proof -
  have "swap_ok d0 (rd_app desc) (rd_version desc) (usable d0 CurrentFile (rd_app desc)) d1"
    by (rule triple_cuts [OF swaps_install [OF assms(1)] refl assms(2)])
  from recovering_end [OF recover_swap_result [OF store_cut_swap [OF assms(3) this] assms(4)]]
  show ?thesis .
qed

theorem install_is_atomic_witness:
  "selections (example_store_cut 11) \<noteq> selections example_store \<and> (\<exists>report u.
     recover_store example_install_env (tx_start (example_store_cut 11)) = (Ok report, u) \<and> ps_journal (tx_disk u) = []
     \<and> (selections (tx_disk u) = selections example_store
        \<or> selections (tx_disk u) = switched ''c'' ''2'' (usable example_store CurrentFile ''c'') (selections example_store)))"
proof -
  obtain report u where run: "recover_store example_install_env (tx_start (example_store_cut 11)) = (Ok report, u)"
    using example_cut_recovers by blast
  have cut: "example_store_cut 11 \<in> cuts put_store (install_release example_install_env default_options example_descriptor) example_store"
    unfolding example_store_cut_def cuts_def by (rule crash_point_take)
  have calm: "ps_journal example_store = []" by (simp add: example_store_def)
  have "selections example_store ''c'' = (Some (Some ''1''), None)" by code_simp
  with example_cut_halfway have "selections (example_store_cut 11) \<noteq> selections example_store" by (metis prod.inject option.distinct(1))
  with run install_is_atomic [OF calm cut store_cut.start run] show ?thesis by (simp add: example_descriptor_def)
qed


section \<open>Rolling back twice\<close>

lemma rollback_result:
  assumes "ps_journal d0 = []" and "rollback_app env a (tx_start d0) = (Ok r, u)"
  shows "usable d0 CurrentFile a = Some (rb_from r) \<and> usable d0 PreviousFile a = Some (rb_version r)
    \<and> selections (tx_disk u) = switched a (rb_version r) (Some (rb_from r)) (selections d0) \<and> ps_journal (tx_disk u) = []"
  using triple_result [OF swaps_rollback [OF assms(1)] _ assms(2)]
  by (auto simp: tx_start_def arrived_def fallback_of_def pending_in_def)

lemma usable_picked: "usable d f a = Some v \<Longrightarrow> selection_at d f a = Some (Some v)"
  by (auto simp: usable_def picked_def split: option.splits if_splits)

text \<open>
  C31. A rollback can be undone by a rollback: when two in a row report success, the second
  goes back to where the first came from, and the selections of every app are what they were
  before both.
\<close>

theorem rollback_undoes_rollback:
  assumes "ps_journal d0 = []" and "rollback_app env a (tx_start d0) = (Ok r, u)"
    and "rollback_app env' a (tx_start (tx_disk u)) = (Ok r', u')"
  shows "rb_version r' = rb_from r \<and> rb_from r' = rb_version r \<and> selections (tx_disk u') = selections d0"
proof -
  note one = rollback_result [OF assms(1,2)]
  note two = rollback_result [OF _ assms(3)]
  have pair: "selections d a = (Some (Some w), Some (Some v))"
    if "usable d CurrentFile a = Some w" "usable d PreviousFile a = Some v" for d w v
    using usable_picked [OF that(1)] usable_picked [OF that(2)] by (simp only: selections_def)
  have s0: "selections d0 a = (Some (Some (rb_from r)), Some (Some (rb_version r)))"
    using one by (intro pair) simp_all
  then have s1: "selections (tx_disk u) a = (Some (Some (rb_version r)), Some (Some (rb_from r)))"
    using one by (auto simp: switched_def new_previous_def)
  moreover have "selections (tx_disk u) a = (Some (Some (rb_from r')), Some (Some (rb_version r')))"
    using one two by (intro pair) simp_all
  ultimately have names: "rb_from r' = rb_version r" "rb_version r' = rb_from r" by simp_all
  have "selections (tx_disk u') = selections d0"
    using one two s0 names by (auto simp: switched_def new_previous_def fun_upd_idem split: if_splits)
  with names show ?thesis by simp
qed

theorem rollback_undoes_rollback_witness:
  "\<exists>r u r' u'. rollback_app example_install_env ''c'' (tx_start example_pair_store) = (Ok r, u)
     \<and> rollback_app example_install_env ''c'' (tx_start (tx_disk u)) = (Ok r', u')
     \<and> rb_version r' = rb_from r \<and> selections (tx_disk u') = selections example_pair_store"
proof -
  let ?run = "\<lambda>d. rollback_app example_install_env ''c'' (tx_start d)"
  have "fst (?run example_pair_store) = Ok \<lparr>rb_app = ''c'', rb_version = ''1'', rb_from = ''2''\<rparr>"
    "fst (?run (tx_disk (snd (?run example_pair_store)))) = Ok \<lparr>rb_app = ''c'', rb_version = ''2'', rb_from = ''1''\<rparr>"
    by (simp_all add: tx_run install_run example_install example_store_cut_def example_stores runs_current numeral_2_eq_2 del: append.simps)
  then obtain r u r' u' where runs: "?run example_pair_store = (Ok r, u)" "?run (tx_disk u) = (Ok r', u')"
    by (metis prod.collapse snd_conv)
  have "ps_journal example_pair_store = []" by (simp add: example_pair_store_def example_store_def)
  from rollback_undoes_rollback [OF this runs] runs show ?thesis by blast
qed


section \<open>Soundness\<close>

text \<open>
  C32. What a marker means. In a sound store every release directory with a marker holds the
  whole archive whose digest was signed, with a manifest that names the app and version of the
  directory. Rollback, recovery and an install that does not prune leave the store sound at
  every durable write. An install that prunes does so up to one release at a time, the one it
  is removing: that is a release of the same app, not the installed version and not one
  the app has selected or can fall back to; the releases that can be launched are sound at
  every write, and the whole store is again when the install returns its result.
\<close>

theorem store_stays_sound:
  assumes "store_sound (ie_sha env) d"
  shows "(\<forall>d'\<in>cuts put_store (install_release env opts desc) d.
        nearly_sound (ie_sha env) (rd_app desc) (rd_version desc) d' \<and> launch_sound (ie_sha env) d')
    \<and> (\<forall>i u. install_release env opts desc (tx_start d) = (Ok i, u) \<longrightarrow> store_sound (ie_sha env) (tx_disk u))
    \<and> (\<not> op_prune opts \<longrightarrow> (\<forall>d'\<in>cuts put_store (install_release env opts desc) d. store_sound (ie_sha env) d'))
    \<and> (\<forall>d'\<in>cuts put_store (rollback_app env' a) d. store_sound (ie_sha env) d')
    \<and> (\<forall>d'\<in>cuts put_store (recover_store env') d. store_sound (ie_sha env) d')"
proof (intro conjI ballI allI impI)
  have t: "triple put_store (nearly_sound (ie_sha env) (rd_app desc) (rd_version desc)) (store_sound (ie_sha env)) (install_release env opts desc)
      (\<lambda>_. store_sound (ie_sha env)) (nearly_sound (ie_sha env) (rd_app desc) (rd_version desc))"
    by (rule sound_install) (simp_all add: store_nearly_sound stable_nearly_sound)
  show n: "nearly_sound (ie_sha env) (rd_app desc) (rd_version desc) d'" if "d' \<in> cuts put_store (install_release env opts desc) d" for d'
    using triple_cuts [OF t assms that] .
  show "launch_sound (ie_sha env) d'" if "d' \<in> cuts put_store (install_release env opts desc) d" for d'
    using n [OF that] by (rule nearly_launch_sound)
  show "store_sound (ie_sha env) (tx_disk u)" if "install_release env opts desc (tx_start d) = (Ok i, u)" for i u
    using triple_result [OF t _ that] assms by (simp add: tx_start_def)
next
  assume p: "\<not> op_prune opts"
  have "triple put_store (store_sound (ie_sha env)) (store_sound (ie_sha env)) (install_release env opts desc)
      (\<lambda>_. store_sound (ie_sha env)) (store_sound (ie_sha env))"
    by (rule sound_install) (simp_all add: p stable_store_sound)
  then show "store_sound (ie_sha env) d'" if "d' \<in> cuts put_store (install_release env opts desc) d" for d'
    using assms that by (rule triple_cuts)
next
  fix d' assume "d' \<in> cuts put_store (rollback_app env' a) d"
  then show "store_sound (ie_sha env) d'" by (rule triple_cuts [OF keeps_triple [OF sound_rollback] assms])
next
  fix d' assume "d' \<in> cuts put_store (recover_store env') d"
  then show "store_sound (ie_sha env) d'" by (rule triple_cuts [OF keeps_triple [OF sound_recover] assms])
qed

theorem store_stays_sound_witness:
  "store_sound (\<lambda>b. b) example_store \<and> nearly_sound (\<lambda>b. b) ''c'' ''2'' (example_store_cut 11) \<and> launch_sound (\<lambda>b. b) (example_store_cut 11)"
proof -
  have s: "store_sound (ie_sha example_install_env) example_store"
    by (simp add: store_sound_def release_at_def sound_release_def example_install)
  have "example_store_cut 11 \<in> cuts put_store (install_release example_install_env default_options example_descriptor) example_store"
    unfolding example_store_cut_def cuts_def by (rule crash_point_take)
  with store_stays_sound [OF s, of default_options example_descriptor]
  have "nearly_sound (ie_sha example_install_env) (rd_app example_descriptor) (rd_version example_descriptor) (example_store_cut 11)"
    "launch_sound (ie_sha example_install_env) (example_store_cut 11)" by blast+
  with s show ?thesis by (simp add: example_install_env_def example_descriptor_def)
qed


section \<open>What a marker hides\<close>

text \<open>On the path for a release that is already there, selecting depends on the request alone.\<close>

abbreviation runs :: "(package_store \<Rightarrow> bool) \<Rightarrow> 'a store_tx \<Rightarrow> ('a \<Rightarrow> package_store \<Rightarrow> bool) \<Rightarrow> bool" where
  "runs P m Q \<equiv> triple put_store (\<lambda>_. True) P m Q (\<lambda>_. True)"

lemma runs_keeps: "preserves P m \<Longrightarrow> runs P m (\<lambda>_. P)"
  by (rule triple_conseq [where P' = P and Q' = "\<lambda>_. P" and R' = P], rule triple_weaken, erule keeps_triple) auto

definition current_is :: "app_id \<Rightarrow> pkg_version \<Rightarrow> package_store \<Rightarrow> bool" where
  "current_is a v d \<longleftrightarrow> selection_at d CurrentFile a = Some (Some v)"

lemma aside_current: "aside w \<Longrightarrow> current_is a v (put_store d w) = current_is a v d"
  by (simp only: current_is_def aside_selection)

lemma stable_current: "stable (current_is a v)" "journal_free (current_is a v)"
  by (simp add: stable_def aside_current) (simp add: journal_free_def current_is_def)

lemma current_prune: "preserves (current_is a v) (prune_app env b w)"
proof -
  have "preserves (current_is a v) (prune_app_loop env b ks vs)" for ks vs
    by (induction vs) (auto intro!: keep preserves_remove_release simp: current_is_def)
  then show ?thesis unfolding prune_app_def by (intro keep)
qed

lemma runs_finish:
  "runs (\<lambda>d. pv = Some v \<longrightarrow> current_is a v d) (finish_install env opts a v pv True present)
     (\<lambda>i d. in_activated i \<and> in_already_present i = present \<and> current_is a v d)"
proof -
  let ?P = "\<lambda>d. pv = Some v \<longrightarrow> current_is a v d"
  have "runs (\<lambda>_. True) (apply_selection env a v pv) (\<lambda>_. current_is a v)"
    unfolding apply_selection_def
    by (rule triple_bind [where Q = "\<lambda>_ _. True"], rule triple_io, simp, rule triple_bind [where Q = "\<lambda>_ _. True"])
      (auto split: option.split simp: current_is_def intro!: triple_io triple_ok triple_probe triple_bind [where Q = "\<lambda>_. current_is a v"])
  note applied = this
  have go: "runs (\<lambda>_. True) (tx_bind (tx_ask (ie_running env)) (\<lambda>running.
         if running then tx_err (Running a)
         else tx_bind (write_intent env j)
           (\<lambda>entry. then_tx (apply_selection env a v pv) (then_tx (remove_intent env entry) (tx_ok True)))))
      (\<lambda>b d. b \<and> current_is a v d)" for j
  proof -
    have any: "runs (\<lambda>_. True) m (\<lambda>_ _. True)" if "preserves (\<lambda>_. True) m" for m
      using that by (rule runs_keeps)
    have rem: "runs (current_is a v) (remove_intent env p) (\<lambda>_. current_is a v)" for p
      by (rule runs_keeps) (intro keep stable_current)
    have intent: "runs (\<lambda>_. True) (write_intent env j) (\<lambda>_ _. True)"
      by (rule any) (intro keep, simp add: journal_free_def)
    show ?thesis
      by (rule triple_bind [where Q = "\<lambda>_ _. True"], rule triple_ask, simp, rule triple_if, rule triple_err, simp,
          rule triple_bind [OF intent], rule triple_bind [OF applied], rule triple_bind [OF rem], rule triple_ok) simp
  qed
  have first: "runs ?P (if True \<and> pv \<noteq> Some v
       then tx_bind (tx_ask (ie_running env)) (\<lambda>running.
         if running then tx_err (Running a)
         else tx_bind (write_intent env j)
           (\<lambda>entry. then_tx (apply_selection env a v pv) (then_tx (remove_intent env entry) (tx_ok True))))
       else tx_ok (pv = Some v \<and> True)) (\<lambda>b d. b \<and> current_is a v d)" for j
    by (rule triple_if) (rule triple_conseq [OF go], simp_all add: triple_ok)
  have prune: "runs (current_is a v) (if op_prune opts then prune_app env a v else tx_ok []) (\<lambda>_. current_is a v)"
    by (rule runs_keeps) (intro keep current_prune)
  show ?thesis
    unfolding finish_install_def
    by (rule triple_bind [OF first], rule triple_pure_left, rule triple_bind [OF prune], rule triple_ok) simp
qed

definition present_at :: "app_id \<Rightarrow> pkg_version \<Rightarrow> app_release \<Rightarrow> package_store \<Rightarrow> bool" where
  "present_at a v r d \<longleftrightarrow> release_at d a v = Some r"

lemma stable_present: "stable (present_at a v r)"
  by (simp add: stable_def present_at_def aside_releases)

lemma usable_current: "usable d CurrentFile a = Some v \<Longrightarrow> current_is a v d"
  by (simp only: current_is_def usable_picked)

lemma runs_already_present:
  assumes r: "ar_marker r = HasMarker mk" "mk_digest mk = rd_digest desc" and act: "op_activate opts"
  shows "runs (present_at (rd_app desc) (rd_version desc) r) (install_release env opts desc)
    (\<lambda>i d. in_activated i \<and> in_already_present i \<and> current_is (rd_app desc) (rd_version desc) d)"
proof -
  let ?a = "rd_app desc" and ?v = "rd_version desc"
  let ?P = "present_at ?a ?v r"
  let ?Q = "\<lambda>i d. in_activated i \<and> in_already_present i \<and> current_is ?a ?v d"
  have cur: "runs ?P (usable_selection env CurrentFile ?a) (\<lambda>pv d. (pv = Some ?v \<longrightarrow> current_is ?a ?v d) \<and> ?P d)"
    by (rule triple_conseq [OF triple_weaken [OF reads_usable [rule_format, of ?P]]])
      (auto dest: usable_current)
  have seen: "runs (\<lambda>d. (pv = Some ?v \<longrightarrow> current_is ?a ?v d) \<and> ?P d) (existing_marker env ?a ?v)
      (\<lambda>m d. m = Some mk \<and> (pv = Some ?v \<longrightarrow> current_is ?a ?v d))" for pv
    by (rule triple_conseq [OF triple_weaken [OF reads_marker [rule_format, of "\<lambda>d. (pv = Some ?v \<longrightarrow> current_is ?a ?v d) \<and> ?P d"]]])
      (use r in \<open>auto simp: present_at_def marker_at_def\<close>)
  have fin: "runs (\<lambda>d. pv = Some ?v \<longrightarrow> current_is ?a ?v d) (finish_install env opts ?a ?v pv True True) ?Q" for pv
    by (rule triple_conseq [OF runs_finish]) auto
  have body: "runs ?P (install_locked env opts desc) ?Q"
    unfolding install_locked_def eqTrueI [OF act]
    by (rule triple_bind [OF cur], rule triple_if, rule triple_err, simp, rule triple_bind_eq [OF seen])
      (use r in \<open>auto split: option.split intro!: triple_err fin
        triple_bind [where Q = "\<lambda>_ d. pv = Some ?v \<longrightarrow> current_is ?a ?v d" for pv] triple_get\<close>)
  have st: "stable (?Q i)" for i
    using stable_current(1) by (simp add: stable_def)
  show ?thesis
    unfolding install_release_def
    by (rule triple_bind [OF runs_keeps], rule keep, rule locked_triple [OF body stable_present _ st]) (simp_all add: stable_def)
qed

text \<open>
  Installing a version whose release directory has a marker with the signed digest
  selects it without looking further: neither at the files (a cut inside a removal can leave
  the marker and the manifest behind without the rest) nor at the protocol it needs, which a
  fresh install checks before it selects a release.
\<close>

theorem reinstall_trusts_marker:
  assumes "release_at d (rd_app desc) (rd_version desc) = Some r" and "ar_marker r = HasMarker mk"
    and "mk_digest mk = rd_digest desc" and "op_activate opts" and "install_release env opts desc (tx_start d) = (Ok i, u)"
  shows "in_activated i \<and> in_already_present i
    \<and> selection_at (tx_disk u) CurrentFile (rd_app desc) = Some (Some (rd_version desc))"
  using triple_result [OF runs_already_present [OF assms(2-4)] _ assms(5)] assms(1)
  by (simp add: tx_start_def present_at_def current_is_def)

theorem reinstall_trusts_marker_witness:
  "\<not> ar_whole example_gutted \<and> (\<exists>i u. install_release example_install_env default_options example_descriptor (tx_start example_gutted_store) = (Ok i, u)
     \<and> in_activated i \<and> selection_at (tx_disk u) CurrentFile ''c'' = Some (Some ''2''))"
proof -
  have "fst (install_release example_install_env default_options example_descriptor (tx_start example_gutted_store)) = Ok
      \<lparr>in_app = ''c'', in_version = ''2'', in_previous = Some ''1'', in_activated = True, in_already_present = True, in_pruned = []\<rparr>"
    by (simp add: tx_run install_run example_install example_store_cut_def example_stores runs_current numeral_2_eq_2 del: append.simps)
  then obtain i u where run: "install_release example_install_env default_options example_descriptor (tx_start example_gutted_store) = (Ok i, u)"
    by (metis prod.collapse)
  have "release_at example_gutted_store (rd_app example_descriptor) (rd_version example_descriptor) = Some example_gutted"
    "ar_marker example_gutted = HasMarker \<lparr>mk_digest = ''z'', mk_signer = ''s''\<rparr>"
    "mk_digest \<lparr>mk_digest = ''z'', mk_signer = ''s''\<rparr> = rd_digest example_descriptor" "op_activate default_options"
    by (simp_all add: example_gutted_store_def example_gutted_def release_at_def example_install)
  from reinstall_trusts_marker [OF this run] run show ?thesis
    by (simp add: example_gutted_def example_descriptor_def)
qed


section \<open>Stale intents\<close>

lemma arrived_sweep:
  "preserves (arrived d0 a v pv) (sweep_incomplete env)"
proof (rule preserves_sweep_incomplete)
  have kept: "arrived d0 a v pv d'" if "arrived d0 a v pv d" "ps_journal d' = ps_journal d" "selections d' = selections d" "marked a v d'" for d d'
    using that by (simp add: arrived_def entries_ok_def)
  fix d b w assume d: "arrived d0 a v pv d" "unmarked b w d"
  then have m: "marked a v d" by (simp add: arrived_def)
  show "arrived d0 a v pv (put_store d (RemoveRelease b w))"
    by (rule kept [OF d(1) gut_quiet(3,4) marked_remove(2) [OF m]]) (use d in blast)
  show "arrived d0 a v pv (put_store d (GutRelease b w mk mf))" for mk mf
    by (rule kept [OF d(1) gut_quiet(1,2) marked_remove(1) [OF m]]) (use d in blast)
qed

lemma ready_entry: "ready d0 a v pv d \<Longrightarrow> map_of (ps_journal d) (act_file a v) = Some e \<Longrightarrow> e = Some (act_intent a v pv)"
  by (auto dest!: map_of_SomeD simp: ready_def swap_ok_def entries_ok_def staging_entry_def)

lemma recover_intent_act:
  "swaps d0 a v pv (\<lambda>d. ready d0 a v pv d \<and> pending_in [act_file a v] d) (recover_intent env (act_file a v) report)
     (\<lambda>_ d. arrived d0 a v pv d)"
proof -
  let ?P = "\<lambda>d. ready d0 a v pv d \<and> pending_in [act_file a v] d"
  have p: "?P d \<Longrightarrow> swap_ok d0 a v pv d" for d by (simp add: ready_swap)
  have entry: "swaps d0 a v pv ?P (read_intent env (act_file a v)) (\<lambda>j d. j = act_intent a v pv \<and> ?P d)"
    unfolding read_intent_def
    by (rule triple_bind [OF swaps_probe], erule p,
        rule triple_bind [where Q = "\<lambda>e d. ?P d \<and> map_of (ps_journal d) (act_file a v) = e"], rule triple_get, simp add: p)
      (auto split: option.split intro!: triple_err triple_ok dest: ready_entry simp: ready_swap)
  have none: "ij_staging (act_intent a v pv) = None" by (simp add: act_intent_def)
  have body: "swaps d0 a v pv ?P (tx_bind (tx_ok report) (\<lambda>report1. tx_bind (recover_selection env (act_intent a v pv) report1)
      (\<lambda>report2. then_tx (remove_intent env (act_file a v)) (tx_ok report2)))) (\<lambda>_. arrived d0 a v pv)"
    by (rule triple_bind [where Q = "\<lambda>_. ?P"], rule triple_ok, simp add: p, rule triple_bind [OF recover_act],
        rule triple_bind [where Q = "\<lambda>_. arrived d0 a v pv"], rule triple_conseq [OF swaps_remove_intent])
      (auto intro!: triple_ok simp: arrived_swap)
  show ?thesis
    unfolding recover_intent_def
    by (rule triple_bind_eq [OF entry], unfold none option.case, rule locked_triple [OF body _ stable_swap stable_arrived])
      (auto simp: arrived_swap p intro: stable_conj stable_ready stable_pending)
qed

text \<open>
  An intent to activate that was left behind is carried out by the next recovery
  whatever has been selected since: an activation that failed half way, followed by an
  install of another version that succeeded, is replayed over that version.
\<close>

theorem stale_activation_is_replayed:
  assumes "ps_journal d = [(act_file a v, Some (act_intent a v pv))]" and "marked a v d"
    and "recover_store env (tx_start d) = (Ok report, u)"
  shows "selections (tx_disk u) = switched a v pv (selections d)"
proof -
  let ?R = "\<lambda>d'. ready d a v pv d' \<and> ps_journal d' = ps_journal d"
  have st: "stable ?R" using stable_ready by (auto simp: stable_def aside_journal)
  have p: "?R d' \<Longrightarrow> swap_ok d a v pv d'" for d' by (simp add: ready_swap)
  have still: "swaps d a v pv P m (\<lambda>_. P)" if "preserves P m" "\<And>d'. P d' \<Longrightarrow> swap_ok d a v pv d'" for m P
    using that by (rule swaps_keeps)
  have listed: "swaps d a v pv ?R (all_intents env)
      (\<lambda>ps d'. ps = [act_file a v] \<and> (ready d a v pv d' \<and> pending_in [act_file a v] d'))"
    unfolding all_intents_def
    by (rule triple_bind [OF swaps_probe], erule p, rule triple_get) (auto simp: assms(1) pending_in_def ready_swap)
  have one: "swaps d a v pv (\<lambda>d'. ready d a v pv d' \<and> pending_in [act_file a v] d')
      (recover_intents env [act_file a v] rep) (\<lambda>_. arrived d a v pv)" for rep
    unfolding recover_intents.simps
    by (rule triple_bind [OF recover_intent_act], rule triple_ok) (simp add: arrived_swap)
  have run: "swaps d a v pv ?R (recover_store env) (\<lambda>_. arrived d a v pv)"
    unfolding recover_store_def
    by (rule triple_bind [OF swaps_probe], erule p, rule triple_bind [OF still [OF preserves_break [OF st]]], erule p,
        rule triple_bind_eq [OF listed], rule triple_bind [OF one],
        rule triple_bind [OF still [OF preserves_sweep_staging [OF stable_arrived]]], erule arrived_swap,
        rule triple_bind [OF still [OF arrived_sweep]], erule arrived_swap, rule triple_ok)
      (simp add: arrived_swap)
  have "ready d a v pv d"
    using assms(1,2) by (auto simp: ready_def swap_ok_def entries_ok_def intended_def)
  then show ?thesis
    using triple_result [OF run _ assms(3)] by (simp add: tx_start_def arrived_def)
qed

theorem stale_activation_is_replayed_witness:
  "\<exists>report u. recover_store example_install_env (tx_start example_stale_store) = (Ok report, u)
     \<and> selections example_stale_store ''c'' = (Some (Some ''1''), Some (Some ''1''))
     \<and> selections (tx_disk u) ''c'' = (Some (Some ''2''), Some (Some ''1''))"
proof -
  have "fst (recover_store example_install_env (tx_start example_stale_store)) = Ok
      \<lparr>rr_completed = [(''c'', ''2'')], rr_reverted = [], rr_staging_removed = 0, rr_locks_broken = 0, rr_incomplete_removed = []\<rparr>"
    by (simp add: tx_run install_run example_install example_store_cut_def example_stores runs_current numeral_2_eq_2 del: append.simps)
  then obtain report u where run: "recover_store example_install_env (tx_start example_stale_store) = (Ok report, u)"
    by (metis prod.collapse)
  have s: "selections example_stale_store ''c'' = (Some (Some ''1''), Some (Some ''1''))" by code_simp
  have j: "ps_journal example_stale_store = [(act_file ''c'' ''2'', Some (act_intent ''c'' ''2'' None))]"
    by (simp add: example_stale_store_def)
  have m: "marked ''c'' ''2'' example_stale_store" by code_simp
  from stale_activation_is_replayed [OF j m run] run s show ?thesis
    by (simp add: switched_def new_previous_def)
qed


end
