(* ===== verification/Canonical.thy ===== *)
theory Canonical
  imports Prelude
begin

text \<open>
  Text forms that are canonical: a value has one text, and nothing else parses as it. The
  interface is shared by the printed squares, hex strings, digests, key ids and signatures of
  the program; bytes and characters are converted here too.
\<close>

locale canonical_text =
  fixes ok :: "'a \<Rightarrow> bool" and print :: "'a \<Rightarrow> string" and parse :: "string \<Rightarrow> 'a option"
  assumes parse_iff: "parse t = Some x \<longleftrightarrow> ok x \<and> t = print x"
begin

lemma parse_print: "ok x \<Longrightarrow> parse (print x) = Some x"
  by (simp add: parse_iff)

lemma parse_ok: "parse t = Some x \<Longrightarrow> ok x"
  by (simp add: parse_iff)

lemma print_inj: "ok x \<Longrightarrow> ok y \<Longrightarrow> print x = print y \<longleftrightarrow> x = y"
  using parse_iff by (metis option.inject)

lemma parse_unique: "parse s = Some x \<Longrightarrow> parse t = Some x \<Longrightarrow> s = t"
  by (simp add: parse_iff)

end

section \<open>Bytes and characters\<close>

definition char_byte :: "char \<Rightarrow> u8" where
  "char_byte c = word_of_nat (of_char c)"

definition byte_char :: "u8 \<Rightarrow> char" where
  "byte_char b = char_of (unat b)"

lemma byte_char_byte [simp]: "byte_char (char_byte c) = c"
proof -
  have "(of_char c :: nat) < 256" by simp
  then have "unat (word_of_nat (of_char c) :: u8) = of_char c" by (simp add: unat_of_nat)
  then show ?thesis by (simp add: byte_char_def char_byte_def)
qed

lemma char_byte_char [simp]: "char_byte (byte_char b) = b"
proof -
  have "unat b < 256" using unsigned_less [where ?'a = nat, of b] by simp
  then show ?thesis by (simp add: byte_char_def char_byte_def of_char_of)
qed

lemma code_byte_char: "(of_char (byte_char b) :: nat) = unat b"
proof -
  have "unat b < 256" using unsigned_less [where ?'a = nat, of b] by simp
  then show ?thesis by (simp add: byte_char_def of_char_of)
qed

lemma char_byte_eq [simp]: "char_byte c = char_byte d \<longleftrightarrow> c = d"
  by (metis byte_char_byte)

definition bytes_of :: "string \<Rightarrow> u8 list" where
  "bytes_of s = map char_byte s"

text \<open>\<open>String::from_utf8\<close>; a text is the list of its bytes.\<close>

definition cont :: "u8 \<Rightarrow> bool" where
  "cont b \<longleftrightarrow> 0x80 \<le> b \<and> b \<le> 0xBF"

fun utf8_ok :: "u8 list \<Rightarrow> bool" where
  "utf8_ok [] = True"
| "utf8_ok (b # bs) =
     (if b \<le> 0x7F then utf8_ok bs
      else (case bs of [] \<Rightarrow> False | c # cs \<Rightarrow>
        if 0xC2 \<le> b \<and> b \<le> 0xDF then cont c \<and> utf8_ok cs
        else (case cs of [] \<Rightarrow> False | d # ds \<Rightarrow>
          if 0xE0 \<le> b \<and> b \<le> 0xEF
          then cont c \<and> (b = 0xE0 \<longrightarrow> 0xA0 \<le> c) \<and> (b = 0xED \<longrightarrow> c \<le> 0x9F) \<and> cont d \<and> utf8_ok ds
          else (case ds of [] \<Rightarrow> False | e # es \<Rightarrow>
            0xF0 \<le> b \<and> b \<le> 0xF4 \<and> cont c \<and> (b = 0xF0 \<longrightarrow> 0x90 \<le> c) \<and> (b = 0xF4 \<longrightarrow> c \<le> 0x8F)
            \<and> cont d \<and> cont e \<and> utf8_ok es))))"

definition from_utf8 :: "u8 list \<Rightarrow> string option" where
  "from_utf8 bs = (if utf8_ok bs then Some (map byte_char bs) else None)"

text \<open>\<open>str::strip_prefix\<close>.\<close>

fun strip_prefix :: "string \<Rightarrow> string \<Rightarrow> string option" where
  "strip_prefix [] s = Some s"
| "strip_prefix (p # ps) [] = None"
| "strip_prefix (p # ps) (c # cs) = (if p = c then strip_prefix ps cs else None)"

lemma strip_prefix_iff: "strip_prefix p s = Some r \<longleftrightarrow> s = p @ r"
  by (induction p s rule: strip_prefix.induct) auto

lemma strip_prefix_append [simp]: "strip_prefix p (p @ r) = Some r"
  by (simp add: strip_prefix_iff)

text \<open>A parser with a reason for its refusals, as a partial function.\<close>

definition ok_of :: "('e, 'a) result \<Rightarrow> 'a option" where
  "ok_of r = (case r of Inl _ \<Rightarrow> None | Inr x \<Rightarrow> Some x)"

lemma ok_of_iff [simp]: "ok_of r = Some x \<longleftrightarrow> r = Ok x"
  by (cases r) (auto simp: ok_of_def)

section \<open>Hexadecimal\<close>

text \<open>\<open>nibble\<close>, \<open>unhex\<close> and \<open>hex_value\<close>, \<open>to_hex\<close> and \<open>encode_hex\<close>, \<open>decode_hex\<close>.\<close>

definition nibble :: "u8 \<Rightarrow> char" where
  "nibble v = byte_char (if v \<le> 9 then 48 + v else 97 + v - 10)"

definition hex_value :: "char \<Rightarrow> u8 option" where
  "hex_value c = (let b = char_byte c in if 48 \<le> b \<and> b \<le> 57 then Some (b - 48)
     else if 97 \<le> b \<and> b \<le> 102 then Some (b - 97 + 10) else None)"

fun encode_hex :: "u8 list \<Rightarrow> string" where
  "encode_hex [] = []"
| "encode_hex (b # bs) = nibble (drop_bit 4 b) # nibble (b AND 0x0F) # encode_hex bs"

fun hex_pairs :: "string \<Rightarrow> u8 list option" where
  "hex_pairs (h # l # rest) = (case hex_value h of None \<Rightarrow> None | Some high \<Rightarrow>
     (case hex_value l of None \<Rightarrow> None | Some low \<Rightarrow>
       (case hex_pairs rest of None \<Rightarrow> None | Some bs \<Rightarrow> Some ((push_bit 4 high OR low) # bs))))"
| "hex_pairs _ = Some []"

definition decode_hex :: "string \<Rightarrow> nat \<Rightarrow> u8 list option" where
  "decode_hex t n = (if length t \<noteq> n * 2 then None else hex_pairs t)"

text \<open>One character.\<close>

lemma low_cases: "(v::u8) < 16 \<Longrightarrow> v \<in> {0, 1, 2, 3, 4, 5, 6, 7, 8, 9, 10, 11, 12, 13, 14, 15}"
proof -
  assume "v < 16"
  then have "unat v \<in> set [0..<16]" by (simp add: word_less_nat_alt)
  then have "unat v \<in> {0, 1, 2, 3, 4, 5, 6, 7, 8, 9, 10, 11, 12, 13, 14, 15}" by (simp add: upt_rec numeral_eq_Suc)
  then have "(word_of_nat (unat v) :: u8) \<in> word_of_nat ` {0, 1, 2, 3, 4, 5, 6, 7, 8, 9, 10, 11, 12, 13, 14, 15}" by (rule imageI)
  then show ?thesis by simp
qed

lemma hex_value_nibble: "v < 16 \<Longrightarrow> hex_value (nibble v) = Some v"
  using low_cases [of v] by (auto simp: hex_value_def nibble_def)

lemma hex_value_iff: "hex_value c = Some v \<longleftrightarrow> v < 16 \<and> c = nibble v"
proof
  assume h: "hex_value c = Some v"
  show "v < 16 \<and> c = nibble v"
  proof (cases "48 \<le> char_byte c \<and> char_byte c \<le> 57")
    case True
    with h have "v = char_byte c - 48" by (simp add: hex_value_def)
    have "unat (char_byte c) \<le> 57" using True by (simp add: word_le_nat_alt)
    with True \<open>v = _\<close> have "unat v \<le> 9" by (simp add: word_le_nat_alt unat_sub)
    then have "v \<le> 9" "v < 16" by (simp_all add: word_le_nat_alt word_less_nat_alt)
    with \<open>v = _\<close> show ?thesis by (simp add: nibble_def)
  next
    case False
    with h have b: "97 \<le> char_byte c" "char_byte c \<le> 102" "v = char_byte c - 97 + 10"
      by (simp_all add: hex_value_def Let_def split: if_splits)
    then have "unat (char_byte c - 97) \<le> 5" by (simp add: word_le_nat_alt unat_sub)
    then have "unat v = unat (char_byte c - 97) + 10" unfolding b(3) by (subst unat_add_lem [THEN iffD1]) simp_all
    with \<open>unat (char_byte c - 97) \<le> 5\<close> have "\<not> v \<le> 9" "v < 16" by (simp_all add: word_le_nat_alt word_less_nat_alt)
    with b(3) show ?thesis by (simp add: nibble_def)
  qed
qed (simp add: hex_value_nibble)

lemma byte_halves: "push_bit 4 (drop_bit 4 b) OR (b AND 0x0F) = (b::u8)"
proof (rule bit_eqI)
  fix n assume "possible_bit TYPE(u8) n"
  then have "n < 8" by simp
  then have "n \<in> {0, 1, 2, 3, 4, 5, 6, 7}" by auto
  then show "bit (push_bit 4 (drop_bit 4 b) OR (b AND 0x0F)) n = bit b n"
    by (auto simp: bit_simps)
qed

lemma low_bits: "(v::u8) < 16 \<Longrightarrow> take_bit 4 v = v"
  using low_cases [of v] by auto

lemma halves_byte:
  assumes "(h::u8) < 16" and "(l::u8) < 16"
  shows "drop_bit 4 (push_bit 4 h OR l) = h \<and> (push_bit 4 h OR l) AND 0x0F = l"
proof -
  have "drop_bit 4 (push_bit 4 h OR take_bit 4 l) = take_bit 4 h"
    by (rule bit_eqI) (auto simp: bit_simps)
  moreover have "(push_bit 4 h OR l) AND mask 4 = take_bit 4 l"
    by (rule bit_eqI) (auto simp: bit_simps)
  moreover have "(0x0F::u8) = mask 4" by (simp add: mask_eq_exp_minus_1)
  ultimately show ?thesis using low_bits [OF assms(1)] low_bits [OF assms(2)] by simp
qed

lemma halves_small: "drop_bit 4 (b::u8) < 16" "b AND 0x0F < (16::u8)"
proof -
  have "unat b < 256" using unsigned_less [where ?'a = nat, of b] by simp
  then show "drop_bit 4 b < 16" by (simp add: word_less_nat_alt drop_bit_eq_div unat_div)
  have "b AND 0x0F = take_bit 4 b" by (simp add: take_bit_eq_mask mask_eq_decr_exp)
  then show "b AND 0x0F < (16::u8)"
    using take_bit_nat_less_exp [of 4 "unat b"] by (simp add: word_less_nat_alt unsigned_take_bit_eq)
qed

lemma length_encode_hex [simp]: "length (encode_hex bs) = length bs * 2"
  by (induction bs) simp_all

lemma encode_hex_Nil [simp]: "[] = encode_hex bs \<longleftrightarrow> bs = []"
  by (cases bs) simp_all

lemma hex_pairs_iff: "even (length t) \<Longrightarrow> hex_pairs t = Some bs \<longleftrightarrow> t = encode_hex bs"
proof (induction t arbitrary: bs rule: hex_pairs.induct)
  case (1 h l rest)
  show ?case
  proof
    assume "hex_pairs (h # l # rest) = Some bs"
    then obtain x y cs where hl: "hex_value h = Some x" "hex_value l = Some y" and cs: "hex_pairs rest = Some cs"
      "bs = (push_bit 4 x OR y) # cs"
      by (auto split: option.splits)
    have "rest = encode_hex cs" using 1(1) [OF hl, of cs] 1(2) cs(1) by simp
    with hl cs show "h # l # rest = encode_hex bs"
      using halves_byte [of x y] by (simp add: hex_value_iff del: drop_bit_or)
  next
    assume t: "h # l # rest = encode_hex bs"
    then obtain b cs where bs: "bs = b # cs" by (cases bs) auto
    with t have hl: "hex_value h = Some (drop_bit 4 b)" "hex_value l = Some (b AND 0x0F)" "rest = encode_hex cs"
      by (simp_all add: hex_value_iff halves_small)
    with 1 have "hex_pairs rest = Some cs" by simp
    with hl bs show "hex_pairs (h # l # rest) = Some bs" by (simp add: byte_halves)
  qed
qed auto

lemma decode_hex_iff: "decode_hex t n = Some bs \<longleftrightarrow> length bs = n \<and> t = encode_hex bs"
  using hex_pairs_iff [of t bs] by (auto simp: decode_hex_def)

interpretation hex: canonical_text "\<lambda>bs. length bs = n" encode_hex "\<lambda>t. decode_hex t n" for n
  by unfold_locales (rule decode_hex_iff)

end
