(* ===== verification/ChessTypes.thy ===== *)
theory ChessTypes
  imports Canonical
begin

text \<open>
  The vocabulary of the chess rules (\<open>apps/chess-rules/src/types.rs\<close>, \<open>error.rs\<close>) and the
  types of the crate \<open>chess\<close> that it converts from and to. Files and ranks are bytes below
  eight, as the private constructors guarantee; \<open>on_board\<close> says so of a square.
\<close>

section \<open>Squares\<close>

datatype color = White | Black

fun opponent :: "color \<Rightarrow> color" where
  "opponent White = Black"
| "opponent Black = White"

datatype piece_kind = Pawn | Knight | Bishop | Rook | Queen | King

datatype board_file = BoardFile (file_index: u8)

datatype board_rank = BoardRank (rank_index: u8)

definition file_new :: "u8 \<Rightarrow> board_file option" where
  "file_new i = (if i < 8 then Some (BoardFile i) else None)"

definition rank_new :: "u8 \<Rightarrow> board_rank option" where
  "rank_new i = (if i < 8 then Some (BoardRank i) else None)"

definition file_letter :: "board_file \<Rightarrow> char" where
  "file_letter f = byte_char (97 + file_index f)"

definition file_from_letter :: "char \<Rightarrow> board_file option" where
  "file_from_letter c = (if 97 \<le> char_byte c \<and> char_byte c \<le> 122 then file_new (char_byte c - 97) else None)"

definition rank_number :: "board_rank \<Rightarrow> u8" where
  "rank_number r = rank_index r + 1"

definition rank_from_number :: "char \<Rightarrow> board_rank option" where
  "rank_from_number c = (if is_digit c
     then (if 1 \<le> digit_val c \<and> digit_val c \<le> 8 then rank_new (word_of_nat (digit_val c) - 1) else None)
     else None)"

record square =
  sq_file :: board_file
  sq_rank :: board_rank

definition square_new :: "u8 \<Rightarrow> u8 \<Rightarrow> square option" where
  "square_new f r = (case file_new f of None \<Rightarrow> None | Some file \<Rightarrow>
     (case rank_new r of None \<Rightarrow> None | Some rank \<Rightarrow> Some \<lparr>sq_file = file, sq_rank = rank\<rparr>))"

definition square_name :: "square \<Rightarrow> string" where
  "square_name s = file_letter (sq_file s) # show_nat (unat (rank_number (sq_rank s)))"

fun square_parse :: "string \<Rightarrow> square option" where
  "square_parse (f # r # rest) = (case file_from_letter f of None \<Rightarrow> None | Some file \<Rightarrow>
     (case rank_from_number r of None \<Rightarrow> None | Some rank \<Rightarrow>
       (if rest \<noteq> [] then None else Some \<lparr>sq_file = file, sq_rank = rank\<rparr>)))"
| "square_parse _ = None"

definition all_squares :: "square list" where
  "all_squares = concat (map (\<lambda>r. List.map_filter (\<lambda>f. square_new f r) [0, 1, 2, 3, 4, 5, 6, 7]) [0, 1, 2, 3, 4, 5, 6, 7])"

definition on_board :: "square \<Rightarrow> bool" where
  "on_board s \<longleftrightarrow> file_index (sq_file s) < 8 \<and> rank_index (sq_rank s) < 8"

record chess_move =
  mv_from :: square
  mv_to :: square
  mv_promotion :: "piece_kind option"

definition plain_move :: "square \<Rightarrow> square \<Rightarrow> chess_move" where
  "plain_move a b = \<lparr>mv_from = a, mv_to = b, mv_promotion = None\<rparr>"

definition promoting_move :: "square \<Rightarrow> square \<Rightarrow> piece_kind \<Rightarrow> chess_move" where
  "promoting_move a b p = \<lparr>mv_from = a, mv_to = b, mv_promotion = Some p\<rparr>"

section \<open>Names of squares\<close>

lemma byte_cases: "(b::u8) < 8 \<Longrightarrow> b \<in> {0, 1, 2, 3, 4, 5, 6, 7}"
proof -
  assume "b < 8"
  then have "unat b < 8" by (simp add: word_less_nat_alt)
  then have "unat b \<in> {0, 1, 2, 3, 4, 5, 6, 7}" by auto
  then have "(word_of_nat (unat b) :: u8) \<in> word_of_nat ` {0, 1, 2, 3, 4, 5, 6, 7}" by (rule imageI)
  then show ?thesis by simp
qed

lemma letter_round_trip:
  "file_index f < 8 \<Longrightarrow> file_from_letter (file_letter f) = Some f"
  using byte_cases [of "file_index f"] by (cases f) (auto simp: file_letter_def file_from_letter_def file_new_def
      char_byte_def byte_char_def)

lemma number_round_trip:
  "rank_index r < 8 \<Longrightarrow> show_nat (unat (rank_number r)) = [digit_char (unat (rank_number r))]
     \<and> rank_from_number (digit_char (unat (rank_number r))) = Some r"
  using byte_cases [of "rank_index r"] by (cases r) (auto simp: rank_number_def rank_from_number_def rank_new_def
      digit_char_def is_digit_def digit_val_def show_nat.simps)

lemma file_from_letter_iff: "file_from_letter c = Some f \<longleftrightarrow> file_index f < 8 \<and> c = file_letter f"
proof
  assume "file_from_letter c = Some f"
  then show "file_index f < 8 \<and> c = file_letter f"
    by (auto simp: file_from_letter_def file_new_def file_letter_def split: if_splits)
qed (simp add: letter_round_trip)

lemma rank_from_number_iff:
  "rank_from_number c = Some r \<longleftrightarrow> rank_index r < 8 \<and> c = digit_char (unat (rank_number r))"
proof
  assume "rank_from_number c = Some r"
  then have d: "is_digit c" "1 \<le> digit_val c" "digit_val c \<le> 8" and r: "rank_index r < 8" "r = BoardRank (word_of_nat (digit_val c) - 1)"
    by (auto simp: rank_from_number_def rank_new_def split: if_splits)
  have "unat (rank_number r) = digit_val c" using d(3) by (simp add: rank_number_def r(2) unat_of_nat)
  moreover have "digit_char (digit_val c) = c" using d(1) by (simp add: digit_char_def digit_val_def is_digit_def)
  ultimately show "rank_index r < 8 \<and> c = digit_char (unat (rank_number r))" using r(1) by simp
qed (simp add: number_round_trip)

lemma square_name_eq:
  "on_board s \<Longrightarrow> square_name s = [file_letter (sq_file s), digit_char (unat (rank_number (sq_rank s)))]"
  by (simp add: square_name_def on_board_def number_round_trip)

lemma square_names: "square_parse t = Some s \<longleftrightarrow> on_board s \<and> t = square_name s"
proof
  assume "square_parse t = Some s"
  then show "on_board s \<and> t = square_name s"
    by (cases t rule: square_parse.cases)
      (auto simp: file_from_letter_iff rank_from_number_iff on_board_def square_name_eq split: option.splits if_splits)
next
  assume "on_board s \<and> t = square_name s"
  then show "square_parse t = Some s"
    by (simp add: square_name_eq on_board_def letter_round_trip number_round_trip)
qed

interpretation squares: canonical_text on_board square_name square_parse
  by unfold_locales (rule square_names)

text \<open>Every square of the board once, a file inside a rank.\<close>

lemma mem_map_filter: "x \<in> set (List.map_filter f ys) \<longleftrightarrow> (\<exists>y\<in>set ys. f y = Some x)"
  by (force simp: map_filter_def)

lemma byte_list: "set [0, 1, 2, 3, 4, 5, 6, 7] = {b::u8. b < 8}"
proof
  show "set [0, 1, 2, 3, 4, 5, 6, 7] \<subseteq> {b::u8. b < 8}" by simp
  show "{b::u8. b < 8} \<subseteq> set [0, 1, 2, 3, 4, 5, 6, 7]" using byte_cases by (simp only: set_simps subset_iff mem_Collect_eq) blast
qed

lemma square_new_iff:
  "square_new f r = Some s \<longleftrightarrow> f < 8 \<and> r < 8 \<and> s = \<lparr>sq_file = BoardFile f, sq_rank = BoardRank r\<rparr>"
  by (auto simp: square_new_def file_new_def rank_new_def split: if_splits)

lemma set_all_squares: "set all_squares = {s. on_board s}"
proof -
  have "s \<in> set all_squares \<longleftrightarrow> (\<exists>r<8. \<exists>f<8. square_new f r = Some s)" for s
    unfolding all_squares_def set_concat set_map byte_list by (simp add: mem_map_filter byte_list del: set_simps map_filter_simps) 
  also have "\<dots> s \<longleftrightarrow> on_board s" for s
    by (cases s; cases "sq_file s"; cases "sq_rank s") (auto simp: square_new_iff on_board_def)
  finally show ?thesis by blast
qed

lemma distinct_all_squares: "distinct all_squares"
  by code_simp

end
