(* ===== verification/ChessGame.thy ===== *)
theory ChessGame
  imports ChessTypes
begin

text \<open>
  A game of chess (\<open>apps/chess-rules/src/game.rs\<close>, \<open>save.rs\<close>, \<open>error.rs\<close>): applying moves,
  the draws that can be claimed and those that end a game, and the saved history. Boards, the
  legal moves, the status and the hash of a position come from the crate \<open>chess\<close>; they are
  the record \<open>chess_lib\<close> of functions over an arbitrary type of boards.
\<close>

section \<open>The chess crate\<close>

datatype lib_color = LibWhite | LibBlack

datatype lib_piece = LibPawn | LibKnight | LibBishop | LibRook | LibQueen | LibKing

datatype lib_square = LibSquare (lib_rank: nat) (lib_file: nat)

datatype castle_rights = NoRights | KingSide | QueenSide | BothSides

datatype board_status = Ongoing | StalemateStatus | CheckmateStatus

record lib_move =
  lm_source :: lib_square
  lm_dest :: lib_square
  lm_promotion :: "lib_piece option"

record 'b chess_lib =
  cl_default :: 'b
  cl_from_str :: "string \<Rightarrow> 'b option"
  cl_side_to_move :: "'b \<Rightarrow> lib_color"
  cl_piece_on :: "'b \<Rightarrow> lib_square \<Rightarrow> lib_piece option"
  cl_color_on :: "'b \<Rightarrow> lib_square \<Rightarrow> lib_color option"
  cl_checkers :: "'b \<Rightarrow> u32"
  cl_pieces :: "'b \<Rightarrow> lib_piece \<Rightarrow> u32"
  cl_legal :: "'b \<Rightarrow> lib_move list"
  cl_make_move :: "'b \<Rightarrow> lib_move \<Rightarrow> 'b"
  cl_status :: "'b \<Rightarrow> board_status"
  cl_hash :: "'b \<Rightarrow> u64"
  cl_castle_rights :: "'b \<Rightarrow> lib_color \<Rightarrow> castle_rights"
  cl_en_passant :: "'b \<Rightarrow> lib_square option"
  cl_index :: "lib_square \<Rightarrow> nat"

definition to_lib_square :: "square \<Rightarrow> lib_square" where
  "to_lib_square s = LibSquare (unat (rank_index (sq_rank s))) (unat (file_index (sq_file s)))"

text \<open>\<open>None\<close> is the \<open>unreachable!\<close> of the source.\<close>

definition from_lib_square :: "lib_square \<Rightarrow> square option" where
  "from_lib_square t = square_new (word_of_nat (lib_file t)) (word_of_nat (lib_rank t))"

fun to_color :: "lib_color \<Rightarrow> color" where
  "to_color LibWhite = White"
| "to_color LibBlack = Black"

fun lib_opponent :: "lib_color \<Rightarrow> lib_color" where
  "lib_opponent LibWhite = LibBlack"
| "lib_opponent LibBlack = LibWhite"

fun to_lib_piece :: "piece_kind \<Rightarrow> lib_piece" where
  "to_lib_piece Pawn = LibPawn"
| "to_lib_piece Knight = LibKnight"
| "to_lib_piece Bishop = LibBishop"
| "to_lib_piece Rook = LibRook"
| "to_lib_piece Queen = LibQueen"
| "to_lib_piece King = LibKing"

fun from_lib_piece :: "lib_piece \<Rightarrow> piece_kind" where
  "from_lib_piece LibPawn = Pawn"
| "from_lib_piece LibKnight = Knight"
| "from_lib_piece LibBishop = Bishop"
| "from_lib_piece LibRook = Rook"
| "from_lib_piece LibQueen = Queen"
| "from_lib_piece LibKing = King"

section \<open>Outcomes and events\<close>

definition FIFTY_MOVE_CLAIM :: u32 where "FIFTY_MOVE_CLAIM = 100"
definition SEVENTY_FIVE_MOVE_AUTOMATIC :: u32 where "SEVENTY_FIVE_MOVE_AUTOMATIC = 150"
definition THREEFOLD_CLAIM :: u8 where "THREEFOLD_CLAIM = 3"
definition FIVEFOLD_AUTOMATIC :: u8 where "FIVEFOLD_AUTOMATIC = 5"

datatype claimable = ThreefoldRepetition | FiftyMoveRule

datatype chess_outcome =
    Checkmate color
  | Stalemate
  | InsufficientMaterial
  | FivefoldRepetition
  | SeventyFiveMoveRule
  | Claimed claimable

fun is_draw :: "chess_outcome \<Rightarrow> bool" where
  "is_draw (Checkmate _) = False"
| "is_draw _ = True"

record chess_record =
  cr_move :: chess_move
  cr_piece :: piece_kind
  cr_captured :: "piece_kind option"
  cr_is_check :: bool

datatype chess_event = MoveEvent square square "piece_kind option" | ClaimEvent claimable

definition event_of_move :: "chess_move \<Rightarrow> chess_event" where
  "event_of_move m = MoveEvent (mv_from m) (mv_to m) (mv_promotion m)"

datatype chess_move_error = GameOver | EmptySquare | WrongColor | Illegal | PromotionRequired | PromotionNotAllowed

datatype claim_error = ClaimGameOver | NothingToClaim

fun chess_error_text :: "chess_move_error \<Rightarrow> string" where
  "chess_error_text GameOver = ''the game is over''"
| "chess_error_text EmptySquare = ''there is no piece on that square''"
| "chess_error_text WrongColor = ''that piece belongs to the side not to move''"
| "chess_error_text Illegal = ''that is not a legal move''"
| "chess_error_text PromotionRequired = ''a promotion piece is required''"
| "chess_error_text PromotionNotAllowed = ''that move does not promote a pawn''"

fun claim_error_text :: "claim_error \<Rightarrow> string" where
  "claim_error_text ClaimGameOver = ''the game is over''"
| "claim_error_text NothingToClaim = ''no claimable draw is available''"

fun claimable_debug :: "claimable \<Rightarrow> string" where
  "claimable_debug ThreefoldRepetition = ''ThreefoldRepetition''"
| "claimable_debug FiftyMoveRule = ''FiftyMoveRule''"

section \<open>The game\<close>

type_synonym repetition_key_t = "u64 \<times> bool \<times> u8 \<times> u8 \<times> u8 option"

fun castle_bits :: "castle_rights \<Rightarrow> u8" where
  "castle_bits NoRights = 0"
| "castle_bits KingSide = 1"
| "castle_bits QueenSide = 2"
| "castle_bits BothSides = 3"

definition repetition_key :: "'b chess_lib \<Rightarrow> 'b \<Rightarrow> repetition_key_t" where
  "repetition_key L b = (cl_hash L b, cl_side_to_move L b = LibWhite, castle_bits (cl_castle_rights L b LibWhite),
     castle_bits (cl_castle_rights L b LibBlack), map_option (\<lambda>s. word_of_nat (cl_index L s)) (cl_en_passant L b))"

definition insufficient_material :: "'b chess_lib \<Rightarrow> 'b \<Rightarrow> bool" where
  "insufficient_material L b \<longleftrightarrow>
     (let no_heavy = cl_pieces L b LibPawn = 0 \<and> cl_pieces L b LibRook = 0 \<and> cl_pieces L b LibQueen = 0;
          minors = cl_pieces L b LibKnight + cl_pieces L b LibBishop
      in no_heavy \<and> minors \<le> 1)"

record 'b chess_game =
  cg_board :: 'b
  cg_outcome :: "chess_outcome option"
  cg_clock :: u32
  cg_counts :: "repetition_key_t \<Rightarrow> u8 option"
  cg_events :: "chess_event list"

definition game_from_board :: "'b chess_lib \<Rightarrow> 'b \<Rightarrow> u32 \<Rightarrow> 'b chess_game" where
  "game_from_board L b clock = \<lparr>cg_board = b, cg_outcome = None, cg_clock = clock,
     cg_counts = (\<lambda>_. None)(repetition_key L b := Some 1), cg_events = []\<rparr>"

definition new_chess :: "'b chess_lib \<Rightarrow> 'b chess_game" where
  "new_chess L = game_from_board L (cl_default L) 0"

definition from_fen :: "'b chess_lib \<Rightarrow> string \<Rightarrow> 'b chess_game option" where
  "from_fen L fen = (case cl_from_str L fen of None \<Rightarrow> None | Some b \<Rightarrow> Some (game_from_board L b 0))"

definition side_to_move :: "'b chess_lib \<Rightarrow> 'b chess_game \<Rightarrow> color" where
  "side_to_move L g = to_color (cl_side_to_move L (cg_board g))"

definition chess_ply :: "'b chess_game \<Rightarrow> nat" where
  "chess_ply g = length (cg_events g)"

definition piece_at :: "'b chess_lib \<Rightarrow> 'b chess_game \<Rightarrow> square \<Rightarrow> (color \<times> piece_kind) option" where
  "piece_at L g s = (case cl_piece_on L (cg_board g) (to_lib_square s) of None \<Rightarrow> None
     | Some piece \<Rightarrow> (case cl_color_on L (cg_board g) (to_lib_square s) of None \<Rightarrow> None
        | Some c \<Rightarrow> Some (to_color c, from_lib_piece piece)))"

definition is_in_check :: "'b chess_lib \<Rightarrow> 'b chess_game \<Rightarrow> bool" where
  "is_in_check L g \<longleftrightarrow> 0 < cl_checkers L (cg_board g)"

definition claimable_draw :: "'b chess_lib \<Rightarrow> 'b chess_game \<Rightarrow> claimable option" where
  "claimable_draw L g = (if cg_outcome g \<noteq> None then None
     else let occurrences = (case cg_counts g (repetition_key L (cg_board g)) of None \<Rightarrow> 0 | Some n \<Rightarrow> n)
       in if THREEFOLD_CLAIM \<le> occurrences then Some ThreefoldRepetition
          else if FIFTY_MOVE_CLAIM \<le> cg_clock g then Some FiftyMoveRule
          else None)"

text \<open>The loop over the legal moves; \<open>None\<close> when a square is off the board.\<close>

fun destinations_loop :: "lib_square \<Rightarrow> lib_move list \<Rightarrow> square list \<Rightarrow> square list option" where
  "destinations_loop from [] found = Some found"
| "destinations_loop from (c # cs) found = (if lm_source c = from
     then (case from_lib_square (lm_dest c) of
         None \<Rightarrow> None
       | Some dest \<Rightarrow> destinations_loop from cs (if dest \<in> set found then found else found @ [dest]))
     else destinations_loop from cs found)"

definition legal_destinations :: "'b chess_lib \<Rightarrow> 'b chess_game \<Rightarrow> square \<Rightarrow> square list option" where
  "legal_destinations L g from = (if cg_outcome g \<noteq> None then Some []
     else destinations_loop (to_lib_square from) (cl_legal L (cg_board g)) [])"

definition derive_automatic_outcome :: "'b chess_lib \<Rightarrow> 'b chess_game \<Rightarrow> u8 \<Rightarrow> chess_outcome option" where
  "derive_automatic_outcome L g occurrences = (case cl_status L (cg_board g) of
     CheckmateStatus \<Rightarrow> Some (Checkmate (to_color (lib_opponent (cl_side_to_move L (cg_board g)))))
   | StalemateStatus \<Rightarrow> Some Stalemate
   | Ongoing \<Rightarrow>
       if insufficient_material L (cg_board g) then Some InsufficientMaterial
       else if FIVEFOLD_AUTOMATIC \<le> occurrences then Some FivefoldRepetition
       else if SEVENTY_FIVE_MOVE_AUTOMATIC \<le> cg_clock g then Some SeventyFiveMoveRule
       else None)"

text \<open>Which of the candidates a move means.\<close>

definition chosen_candidate :: "chess_move \<Rightarrow> lib_move list \<Rightarrow> (chess_move_error, lib_move) result" where
  "chosen_candidate mv candidates =
     (if candidates = [] then Err Illegal
      else let needs_promotion = (\<exists>c\<in>set candidates. lm_promotion c \<noteq> None)
        in (case (needs_promotion, mv_promotion mv) of
            (True, None) \<Rightarrow> Err PromotionRequired
          | (True, Some piece) \<Rightarrow>
              (case List.find (\<lambda>c. lm_promotion c = Some (to_lib_piece piece)) candidates of
                 None \<Rightarrow> Err Illegal | Some c \<Rightarrow> Ok c)
          | (False, Some _) \<Rightarrow> Err PromotionNotAllowed
          | (False, None) \<Rightarrow> Ok (hd candidates)))"

definition captured_piece :: "'b chess_lib \<Rightarrow> 'b \<Rightarrow> lib_piece \<Rightarrow> lib_square \<Rightarrow> lib_square \<Rightarrow> lib_piece option" where
  "captured_piece L b moving from to = (case cl_piece_on L b to of
     Some piece \<Rightarrow> Some piece
   | None \<Rightarrow> if moving = LibPawn \<and> lib_file from \<noteq> lib_file to then Some LibPawn else None)"

text \<open>What \<open>apply\<close> does once the move is chosen.\<close>

definition make_chess_move :: "'b chess_lib \<Rightarrow> chess_move \<Rightarrow> lib_piece \<Rightarrow> lib_move \<Rightarrow> 'b chess_game \<Rightarrow> chess_record \<times> 'b chess_game" where
  "make_chess_move L mv moving chosen g =
     (let captured = captured_piece L (cg_board g) moving (to_lib_square (mv_from mv)) (to_lib_square (mv_to mv));
          resets_clock = (moving = LibPawn \<or> captured \<noteq> None);
          board = cl_make_move L (cg_board g) chosen;
          key = repetition_key L board;
          occurrences = (case cg_counts g key of None \<Rightarrow> 0 | Some n \<Rightarrow> n) + 1;
          g1 = g\<lparr>cg_board := board, cg_clock := (if resets_clock then 0 else cg_clock g + 1),
                 cg_counts := (cg_counts g)(key := Some occurrences)\<rparr>;
          g2 = g1\<lparr>cg_outcome := derive_automatic_outcome L g1 occurrences, cg_events := cg_events g @ [event_of_move mv]\<rparr>
      in (\<lparr>cr_move = mv, cr_piece = from_lib_piece moving, cr_captured = map_option from_lib_piece captured,
            cr_is_check = is_in_check L g2\<rparr>, g2))"

text \<open>\<open>Game::apply\<close>; \<open>None\<close> is the \<open>unreachable!\<close> for a piece without a colour.\<close>

definition apply_move :: "'b chess_lib \<Rightarrow> chess_move \<Rightarrow> 'b chess_game \<Rightarrow> ((chess_move_error, chess_record) result \<times> 'b chess_game) option" where
  "apply_move L mv g =
     (if cg_outcome g \<noteq> None then Some (Err GameOver, g)
      else (case cl_piece_on L (cg_board g) (to_lib_square (mv_from mv)) of
          None \<Rightarrow> Some (Err EmptySquare, g)
        | Some moving \<Rightarrow> (case cl_color_on L (cg_board g) (to_lib_square (mv_from mv)) of
            None \<Rightarrow> None
          | Some c \<Rightarrow> if c \<noteq> cl_side_to_move L (cg_board g) then Some (Err WrongColor, g)
              else (case chosen_candidate mv (filter (\<lambda>m. lm_source m = to_lib_square (mv_from mv)
                    \<and> lm_dest m = to_lib_square (mv_to mv)) (cl_legal L (cg_board g))) of
                  Inl e \<Rightarrow> Some (Err e, g)
                | Inr chosen \<Rightarrow> Some (let (r, g') = make_chess_move L mv moving chosen g in (Ok r, g'))))))"

definition claim_draw :: "'b chess_lib \<Rightarrow> 'b chess_game \<Rightarrow> (claim_error, claimable) result \<times> 'b chess_game" where
  "claim_draw L g = (if cg_outcome g \<noteq> None then (Err ClaimGameOver, g)
     else (case claimable_draw L g of
         None \<Rightarrow> (Err NothingToClaim, g)
       | Some claim \<Rightarrow> (Ok claim, g\<lparr>cg_outcome := Some (Claimed claim), cg_events := cg_events g @ [ClaimEvent claim]\<rparr>)))"

section \<open>Replaying and saving\<close>

definition mismatch_text :: "claimable \<Rightarrow> claimable \<Rightarrow> string" where
  "mismatch_text reason claimed = ''recorded claim '' @ claimable_debug reason
     @ '' does not match the draw actually available ('' @ claimable_debug claimed @ '')''"

text \<open>One event of a history; \<open>None\<close> is a panic.\<close>

fun replay_event :: "'b chess_lib \<Rightarrow> chess_event \<Rightarrow> 'b chess_game \<Rightarrow> (string, 'b chess_game) result option" where
  "replay_event L (MoveEvent a b p) g = (case apply_move L \<lparr>mv_from = a, mv_to = b, mv_promotion = p\<rparr> g of
     None \<Rightarrow> None
   | Some (Inl e, _) \<Rightarrow> Some (Err (chess_error_text e))
   | Some (Inr _, g') \<Rightarrow> Some (Ok g'))"
| "replay_event L (ClaimEvent reason) g = (case claim_draw L g of
     (Inl e, _) \<Rightarrow> Some (Err (claim_error_text e))
   | (Inr claimed, g') \<Rightarrow> if claimed \<noteq> reason then Some (Err (mismatch_text reason claimed)) else Some (Ok g'))"

fun replay_loop :: "'b chess_lib \<Rightarrow> chess_event list \<Rightarrow> 'b chess_game \<Rightarrow> (string, 'b chess_game) result option" where
  "replay_loop L [] g = Some (Ok g)"
| "replay_loop L (e # es) g = (case replay_event L e g of
     None \<Rightarrow> None | Some (Inl m) \<Rightarrow> Some (Err m) | Some (Inr g') \<Rightarrow> replay_loop L es g')"

definition from_events :: "'b chess_lib \<Rightarrow> chess_event list \<Rightarrow> (string, 'b chess_game) result option" where
  "from_events L es = replay_loop L es (new_chess L)"

datatype chess_load_error = LoadIo | LoadSyntax | LoadCorrupt string

text \<open>
  Saving and loading over an encoder and a decoder of histories (TOML). A save writes a
  temporary file and renames it; whichever of the three calls fails, the file is not touched.
\<close>

datatype chess_save_error = SaveIo | SaveSerialize

definition save_chess :: "(chess_event list \<Rightarrow> string option) \<Rightarrow> bool \<times> bool \<times> bool \<Rightarrow> 'b chess_game \<Rightarrow> string option
    \<Rightarrow> (chess_save_error, unit) result \<times> string option" where
  "save_chess encode works g file = (case encode (cg_events g) of
     None \<Rightarrow> (Err SaveSerialize, file)
   | Some text \<Rightarrow> (case works of (create, write, persist) \<Rightarrow>
       if \<not> create then (Err SaveIo, file)
       else if \<not> write then (Err SaveIo, file)
       else if \<not> persist then (Err SaveIo, file)
       else (Ok (), Some text)))"

definition load_chess :: "'b chess_lib \<Rightarrow> (string \<Rightarrow> chess_event list option) \<Rightarrow> string option
    \<Rightarrow> (chess_load_error, 'b chess_game) result option" where
  "load_chess L decode file = (case file of
     None \<Rightarrow> Some (Err LoadIo)
   | Some text \<Rightarrow> (case decode text of
       None \<Rightarrow> Some (Err LoadSyntax)
     | Some es \<Rightarrow> map_option (map_err LoadCorrupt) (from_events L es)))"

end
