(* ===== verification/ChessPlay.thy ===== *)
theory ChessPlay
  imports ChessGame
begin

text \<open>
  What a game of chess keeps. A history lists the positions a game went through, the latest
  first, with a mark on those a capture or a pawn move led to: the draw rules are stated on it
  (\<open>due\<close>, \<open>ended\<close>) in natural numbers, and the byte counters of the game are shown to follow
  it without overflow. The properties are about draws, saved games, legal destinations and
  the length of a game.
\<close>

section \<open>Histories\<close>

type_synonym 'b positions = "('b \<times> bool) list"

definition irreversible :: "chess_record \<Rightarrow> bool" where
  "irreversible r \<longleftrightarrow> cr_piece r = Pawn \<or> cr_captured r \<noteq> None"

inductive history :: "'b chess_lib \<Rightarrow> 'b chess_game \<Rightarrow> 'b positions \<Rightarrow> claimable option \<Rightarrow> bool" for L where
  start: "history L (new_chess L) [(cl_default L, True)] None"
| move: "history L g ps c \<Longrightarrow> apply_move L m g = Some (Ok r, g') \<Longrightarrow> history L g' ((cg_board g', irreversible r) # ps) c"
| claim: "history L g ps c \<Longrightarrow> claim_draw L g = (Ok d, g') \<Longrightarrow> history L g' ps (Some d)"

definition seen :: "'b chess_lib \<Rightarrow> 'b positions \<Rightarrow> repetition_key_t \<Rightarrow> nat" where
  "seen L ps k = length (filter (\<lambda>p. repetition_key L (fst p) = k) ps)"

definition quiet_moves :: "'b positions \<Rightarrow> nat" where
  "quiet_moves ps = length (takeWhile (\<lambda>p. \<not> snd p) ps)"

definition due :: "'b chess_lib \<Rightarrow> 'b positions \<Rightarrow> claimable option" where
  "due L ps = (if 3 \<le> seen L ps (repetition_key L (fst (hd ps))) then Some ThreefoldRepetition
     else if 100 \<le> quiet_moves ps then Some FiftyMoveRule else None)"

definition ended :: "'b chess_lib \<Rightarrow> 'b positions \<Rightarrow> chess_outcome option" where
  "ended L ps = (let b = fst (hd ps) in if tl ps = [] then None else (case cl_status L b of
     CheckmateStatus \<Rightarrow> Some (Checkmate (opponent (to_color (cl_side_to_move L b))))
   | StalemateStatus \<Rightarrow> Some Stalemate
   | Ongoing \<Rightarrow> if insufficient_material L b then Some InsufficientMaterial
       else if 5 \<le> seen L ps (repetition_key L b) then Some FivefoldRepetition
       else if 150 \<le> quiet_moves ps then Some SeventyFiveMoveRule else None))"

lemma seen_Cons: "seen L (p # ps) k = (if repetition_key L (fst p) = k then Suc (seen L ps k) else seen L ps k)"
  by (simp add: seen_def)

lemma quiet_Cons: "quiet_moves (p # ps) = (if snd p then 0 else Suc (quiet_moves ps))"
  by (simp add: quiet_moves_def)

section \<open>What accepting a move means\<close>

lemma apply_move_Ok:
  "apply_move L m g = Some (Ok r, g') \<longleftrightarrow> cg_outcome g = None \<and> (\<exists>moving chosen.
     cl_piece_on L (cg_board g) (to_lib_square (mv_from m)) = Some moving
     \<and> cl_color_on L (cg_board g) (to_lib_square (mv_from m)) = Some (cl_side_to_move L (cg_board g))
     \<and> chosen_candidate m (filter (\<lambda>c. lm_source c = to_lib_square (mv_from m) \<and> lm_dest c = to_lib_square (mv_to m))
         (cl_legal L (cg_board g))) = Ok chosen
     \<and> make_chess_move L m moving chosen g = (r, g'))"
  by (auto simp: apply_move_def split: option.splits sum.splits prod.splits if_splits)

lemma from_lib_piece_pawn [simp]: "from_lib_piece p = Pawn \<longleftrightarrow> p = LibPawn"
  by (cases p) simp_all

text \<open>The state after a move, over the numbers of the history.\<close>

lemma make_chess_move_state:
  assumes "make_chess_move L m moving chosen g = (r, g')"
  shows "cg_board g' = cl_make_move L (cg_board g) chosen"
    and "cg_clock g' = (if irreversible r then 0 else cg_clock g + 1)"
    and "cg_counts g' = (cg_counts g)(repetition_key L (cg_board g') :=
           Some ((case cg_counts g (repetition_key L (cg_board g')) of None \<Rightarrow> 0 | Some n \<Rightarrow> n) + 1))"
    and "cg_outcome g' = derive_automatic_outcome L g' (the (cg_counts g' (repetition_key L (cg_board g'))))"
    and "cg_events g' = cg_events g @ [event_of_move m]"
  using assms by (auto simp: make_chess_move_def Let_def irreversible_def derive_automatic_outcome_def
      split: board_status.splits option.splits)

section \<open>The counters\<close>

definition counted :: "nat \<Rightarrow> u8 option" where
  "counted n = (if n = 0 then None else Some (word_of_nat n))"

definition tracks :: "'b chess_lib \<Rightarrow> 'b chess_game \<Rightarrow> 'b positions \<Rightarrow> bool" where
  "tracks L g ps \<longleftrightarrow> ps \<noteq> [] \<and> fst (hd ps) = cg_board g \<and> cg_clock g = word_of_nat (quiet_moves ps)
     \<and> (\<forall>k. cg_counts g k = counted (seen L ps k))
     \<and> (\<forall>k. seen L ps k \<le> (if cg_outcome g = None then 4 else 5))
     \<and> quiet_moves ps \<le> (if cg_outcome g = None then 149 else 150)"

lemma counted_next:
  "n \<le> 4 \<Longrightarrow> Some ((case counted n of None \<Rightarrow> 0 | Some x \<Rightarrow> x) + 1) = counted (Suc n)"
  by (simp add: counted_def add.commute)

lemma small_byte: "n \<le> 200 \<Longrightarrow> m \<le> 200 \<Longrightarrow> (word_of_nat m :: u8) \<le> word_of_nat n \<longleftrightarrow> m \<le> n"
  by (simp add: word_le_nat_alt unat_of_nat)

lemma small_u32: "n \<le> 200 \<Longrightarrow> m \<le> 200 \<Longrightarrow> (word_of_nat m :: u32) \<le> word_of_nat n \<longleftrightarrow> m \<le> n"
  by (simp add: word_le_nat_alt unat_of_nat)

lemma fivefold: "n \<le> 5 \<Longrightarrow> FIVEFOLD_AUTOMATIC \<le> word_of_nat n \<longleftrightarrow> 5 \<le> n"
  using small_byte [of n 5] by (simp add: FIVEFOLD_AUTOMATIC_def)

lemma threefold: "n \<le> 5 \<Longrightarrow> THREEFOLD_CLAIM \<le> word_of_nat n \<longleftrightarrow> 3 \<le> n"
  using small_byte [of n 3] by (simp add: THREEFOLD_CLAIM_def)

lemma seventy_five: "n \<le> 150 \<Longrightarrow> SEVENTY_FIVE_MOVE_AUTOMATIC \<le> word_of_nat n \<longleftrightarrow> 150 \<le> n"
  using small_u32 [of n 150] by (simp add: SEVENTY_FIVE_MOVE_AUTOMATIC_def)

lemma fifty: "n \<le> 150 \<Longrightarrow> FIFTY_MOVE_CLAIM \<le> word_of_nat n \<longleftrightarrow> 100 \<le> n"
  using small_u32 [of n 100] by (simp add: FIFTY_MOVE_CLAIM_def)

lemma to_color_opponent: "to_color (lib_opponent c) = opponent (to_color c)"
  by (cases c) simp_all

lemma tracks_open:
  "tracks L g ps \<Longrightarrow> cg_outcome g = None \<Longrightarrow> seen L ps k \<le> 4"
  "tracks L g ps \<Longrightarrow> cg_outcome g = None \<Longrightarrow> quiet_moves ps \<le> 149"
  "tracks L g ps \<Longrightarrow> cg_counts g k = counted (seen L ps k)"
  unfolding tracks_def by metis+

lemma tracks_bound: "tracks L g ps \<Longrightarrow> seen L ps k \<le> 5"
proof -
  assume "tracks L g ps"
  then have "seen L ps k \<le> (if cg_outcome g = None then 4 else 5)" unfolding tracks_def by blast
  then show "seen L ps k \<le> 5" by (simp split: if_splits)
qed

text \<open>What ended a game, read off the counters.\<close>

lemma outcome_ended:
  assumes "fst (hd ps) = cg_board g" and "tl ps \<noteq> []" and "cg_clock g = word_of_nat (quiet_moves ps)"
    and "quiet_moves ps \<le> 150" and "n = word_of_nat (seen L ps (repetition_key L (cg_board g)))"
    and "seen L ps (repetition_key L (cg_board g)) \<le> 5"
  shows "derive_automatic_outcome L g n = ended L ps"
  using assms by (simp add: derive_automatic_outcome_def ended_def fivefold seventy_five to_color_opponent split: board_status.split)

lemma ended_None:
  "ended L ps = None \<Longrightarrow> tl ps \<noteq> [] \<Longrightarrow> seen L ps (repetition_key L (fst (hd ps))) < 5 \<and> quiet_moves ps < 150"
  by (auto simp: ended_def Let_def split: board_status.splits if_splits)

lemma tracks_move:
  assumes t: "tracks L g ps" and o: "cg_outcome g = None" and m: "make_chess_move L mv moving chosen g = (r, g')"
  shows "tracks L g' ((cg_board g', irreversible r) # ps) \<and> cg_outcome g' = ended L ((cg_board g', irreversible r) # ps)"
proof -
  let ?qs = "(cg_board g', irreversible r) # ps" and ?k = "repetition_key L (cg_board g')"
  note s = make_chess_move_state [OF m]
  have few: "seen L ps k \<le> 4" for k by (rule tracks_open(1) [OF t o])
  have five: "seen L ?qs k \<le> 5" for k using few [of k] by (simp add: seen_Cons)
  have q: "quiet_moves ps \<le> 149" using t o by (simp add: tracks_def)
  then have quiet: "quiet_moves ?qs \<le> 150" by (simp add: quiet_Cons)
  have clock: "cg_clock g' = word_of_nat (quiet_moves ?qs)"
    using t by (simp add: s(2) tracks_def quiet_Cons add.commute)
  have counts: "cg_counts g' k = counted (seen L ?qs k)" for k
    using counted_next [OF few] by (simp add: s(3) tracks_open(3) [OF t] seen_Cons)
  have two: "tl ?qs \<noteq> []" using t by (simp add: tracks_def)
  have "seen L ?qs ?k \<noteq> 0" by (simp add: seen_Cons)
  then have "the (cg_counts g' ?k) = word_of_nat (seen L ?qs ?k)" by (simp add: counts counted_def)
  then have ended: "cg_outcome g' = ended L ?qs"
    unfolding s(4) by (intro outcome_ended clock quiet five two) simp_all
  have less: "seen L ?qs ?k < 5 \<and> quiet_moves ?qs < 150" if "cg_outcome g' = None"
    using ended_None [OF _ two, of L] that ended by simp
  have "seen L ?qs k \<le> 4" if "cg_outcome g' = None" for k
    using less [OF that] few [of k] by (cases "k = ?k") (simp_all add: seen_Cons)
  then have "\<forall>k. seen L ?qs k \<le> (if cg_outcome g' = None then 4 else 5)" using five by simp
  moreover have "quiet_moves ?qs \<le> (if cg_outcome g' = None then 149 else 150)" using less quiet by fastforce
  ultimately have "tracks L g' ?qs" unfolding tracks_def using clock counts by simp
  with ended show ?thesis by blast
qed

lemma claimable_due:
  assumes t: "tracks L g ps" and o: "cg_outcome g = None"
  shows "claimable_draw L g = due L ps"
proof -
  let ?n = "seen L ps (repetition_key L (cg_board g))"
  have "?n \<le> 4" "quiet_moves ps \<le> 149" by (rule tracks_open(1,2) [OF t o])+
  then have "THREEFOLD_CLAIM \<le> word_of_nat ?n \<longleftrightarrow> 3 \<le> ?n"
    "FIFTY_MOVE_CLAIM \<le> word_of_nat (quiet_moves ps) \<longleftrightarrow> 100 \<le> quiet_moves ps"
    by (simp_all add: threefold fifty)
  moreover have "(case cg_counts g (repetition_key L (cg_board g)) of None \<Rightarrow> 0 | Some n \<Rightarrow> n) = (word_of_nat ?n :: u8)"
    by (simp add: tracks_open(3) [OF t] counted_def)
  moreover have "fst (hd ps) = cg_board g" "cg_clock g = word_of_nat (quiet_moves ps)" using t by (simp_all add: tracks_def)
  ultimately show ?thesis using o by (simp add: claimable_draw_def due_def)
qed

lemma history_tracks:
  assumes "history L g ps c"
  shows "tracks L g ps \<and> cg_outcome g = (case c of Some d \<Rightarrow> Some (Claimed d) | None \<Rightarrow> ended L ps)
    \<and> (c \<noteq> None \<longrightarrow> due L ps = c \<and> ended L ps = None)"
  using assms
proof induction
  case start
  show ?case
    by (simp add: tracks_def new_chess_def game_from_board_def seen_def quiet_moves_def counted_def ended_def Let_def)
next
  case (move g ps c m r g')
  then have "cg_outcome g = None" by (simp add: apply_move_Ok)
  with move show ?case using tracks_move by (fastforce simp: apply_move_Ok split: option.splits)
next
  case (claim g ps c d g')
  then have o: "cg_outcome g = None" and d: "claimable_draw L g = Some d"
    and g': "g' = g\<lparr>cg_outcome := Some (Claimed d), cg_events := cg_events g @ [ClaimEvent d]\<rparr>"
    by (auto simp: claim_draw_def split: if_splits option.splits)
  have t: "tracks L g ps" using claim by simp
  have "due L ps = Some d" using claimable_due [OF t o] d by simp
  moreover have "tracks L g' ps"
    using t tracks_bound [OF t] tracks_open(2) [OF t o] by (simp add: tracks_def g' del: split_paired_All)
  ultimately show ?case using claim o by (auto simp: g' split: option.splits)
qed

section \<open>Saved games\<close>

lemma replay_append:
  "replay_loop L (es @ fs) g = (case replay_loop L es g of
     None \<Rightarrow> None | Some (Inl m) \<Rightarrow> Some (Err m) | Some (Inr g') \<Rightarrow> replay_loop L fs g')"
  by (induction es arbitrary: g) (auto split: option.split sum.split)

lemma replay_event_plays:
  assumes "history L g ps c" and "replay_event L e g = Some (Ok g')"
  shows "(\<exists>ps' c'. history L g' ps' c') \<and> cg_events g' = cg_events g @ [e]"
proof (cases e)
  case (MoveEvent a b p)
  then obtain r where "apply_move L \<lparr>mv_from = a, mv_to = b, mv_promotion = p\<rparr> g = Some (Ok r, g')"
    using assms(2) by (auto split: option.splits sum.splits)
  moreover from this have "cg_events g' = cg_events g @ [e]"
    by (auto simp: apply_move_Ok make_chess_move_state(5) MoveEvent event_of_move_def)
  ultimately show ?thesis using history.move [OF assms(1)] by blast
next
  case (ClaimEvent d)
  then have "claim_draw L g = (Ok d, g')" using assms(2) by (auto split: prod.splits sum.splits if_splits)
  moreover from this have "cg_events g' = cg_events g @ [e]"
    by (auto simp: claim_draw_def ClaimEvent split: if_splits option.splits)
  ultimately show ?thesis using history.claim [OF assms(1)] by blast
qed

lemma replay_plays:
  "history L g ps c \<Longrightarrow> replay_loop L es g = Some (Ok g') \<Longrightarrow>
     (\<exists>ps' c'. history L g' ps' c') \<and> cg_events g' = cg_events g @ es"
proof (induction es arbitrary: g ps c)
  case (Cons e es)
  then obtain g1 where "replay_event L e g = Some (Ok g1)" "replay_loop L es g1 = Some (Ok g')"
    by (auto split: option.splits sum.splits)
  with Cons.IH replay_event_plays [OF Cons.prems(1)] show ?case by fastforce
qed auto

lemma history_replays: "history L g ps c \<Longrightarrow> from_events L (cg_events g) = Some (Ok g)"
proof (induction rule: history.induct)
  case start
  then show ?case by (simp add: from_events_def new_chess_def game_from_board_def)
next
  case (move g ps c m r g')
  then have "cg_events g' = cg_events g @ [event_of_move m]"
    by (auto simp: apply_move_Ok make_chess_move_state(5))
  with move show ?case by (cases m) (simp add: from_events_def replay_append event_of_move_def)
next
  case (claim g ps c d g')
  then have "cg_events g' = cg_events g @ [ClaimEvent d]"
    by (auto simp: claim_draw_def split: if_splits option.splits)
  then show ?case using claim by (simp add: from_events_def replay_append)
qed

text \<open>
  C39. A saved history loads as a game exactly when that game can be played from the start and
  its record is that history. So a game played from the start comes back whole, clock,
  repetition counts and outcome included, and no file loads as a position that cannot be
  reached by legal moves and granted claims.
\<close>

theorem saved_games_are_played_games:
  "from_events L es = Some (Ok g) \<longleftrightarrow> (\<exists>ps c. history L g ps c) \<and> cg_events g = es"
  using history_replays replay_plays [OF history.start, of L es g]
  by (auto simp: from_events_def new_chess_def game_from_board_def)

section \<open>An example\<close>

text \<open>
  A board with a white rook that goes from a1 to a2 and back and a black one that goes from
  h8 to h7 and back, so that every position recurs; \<open>example_moves n\<close> are the first \<open>n\<close> moves.
\<close>

definition example_hop :: "nat \<Rightarrow> lib_square \<times> lib_square" where
  "example_hop b = (let i = b mod 4 in if i = 0 then (LibSquare 0 0, LibSquare 1 0) else if i = 1 then (LibSquare 7 7, LibSquare 6 7)
     else if i = 2 then (LibSquare 1 0, LibSquare 0 0) else (LibSquare 6 7, LibSquare 7 7))"

definition example_color :: "nat \<Rightarrow> lib_square \<Rightarrow> lib_color option" where
  "example_color b s = (let i = b mod 4 in if s = LibSquare (if i = 1 \<or> i = 2 then 1 else 0) 0 then Some LibWhite
     else if s = LibSquare (if i = 2 \<or> i = 3 then 6 else 7) 7 then Some LibBlack else None)"

definition example_chess :: "nat chess_lib" where
  "example_chess = \<lparr>cl_default = 0, cl_from_str = (\<lambda>_. None), cl_side_to_move = (\<lambda>b. if b mod 2 = 0 then LibWhite else LibBlack),
     cl_piece_on = (\<lambda>b s. if example_color b s = None then None else Some LibRook), cl_color_on = example_color,
     cl_checkers = (\<lambda>_. 0), cl_pieces = (\<lambda>_ p. if p = LibRook then 2 else 0),
     cl_legal = (\<lambda>b. [\<lparr>lm_source = fst (example_hop b), lm_dest = snd (example_hop b), lm_promotion = None\<rparr>]),
     cl_make_move = (\<lambda>b _. Suc b), cl_status = (\<lambda>_. Ongoing), cl_hash = (\<lambda>b. word_of_nat (b mod 4)),
     cl_castle_rights = (\<lambda>_ _. NoRights), cl_en_passant = (\<lambda>_. None), cl_index = (\<lambda>_. 0)\<rparr>"

definition example_square :: "lib_square \<Rightarrow> square" where
  "example_square t = \<lparr>sq_file = BoardFile (word_of_nat (lib_file t)), sq_rank = BoardRank (word_of_nat (lib_rank t))\<rparr>"

definition example_moves :: "nat \<Rightarrow> chess_event list" where
  "example_moves n = map (\<lambda>b. MoveEvent (example_square (fst (example_hop b))) (example_square (snd (example_hop b))) None) [0..<n]"

definition replay_outcome :: "chess_event list \<Rightarrow> chess_outcome option option" where
  "replay_outcome es = (case from_events example_chess es of Some (Inr g) \<Rightarrow> Some (cg_outcome g) | _ \<Rightarrow> None)"

lemma example_claim: "replay_outcome (example_moves 8 @ [ClaimEvent ThreefoldRepetition]) = Some (Some (Claimed ThreefoldRepetition))"
  by code_simp

lemma replay_outcome_history:
  "replay_outcome es = Some out \<Longrightarrow> \<exists>g ps c. history example_chess g ps c \<and> cg_events g = es \<and> cg_outcome g = out"
  using replay_plays [OF history.start, of example_chess es]
  by (fastforce simp: replay_outcome_def from_events_def new_chess_def game_from_board_def split: option.splits sum.splits)

section \<open>Draws\<close>

text \<open>
  C40. The draw rules, read off the history of positions in unbounded numbers. In every game
  played from the start the claimable draw is the one that is due (the position three times,
  or a hundred half-moves without a capture or a pawn move), a game ends by itself exactly
  when the rules of the code say so of its history, and a claim is only granted when it was
  due and nothing had ended the game. The byte and word counters never overflow: no position
  counts more than five and the clock never passes 150.
\<close>

theorem draws_follow_history:
  assumes "history L g ps c"
  shows "claimable_draw L g = (if cg_outcome g \<noteq> None then None else due L ps)
    \<and> cg_outcome g = (case c of Some d \<Rightarrow> Some (Claimed d) | None \<Rightarrow> ended L ps)
    \<and> (c \<noteq> None \<longrightarrow> due L ps = c \<and> ended L ps = None)
    \<and> (\<forall>k. cg_counts g k = counted (seen L ps k) \<and> seen L ps k \<le> 5)
    \<and> unat (cg_clock g) = quiet_moves ps \<and> quiet_moves ps \<le> 150"
proof (intro conjI)
  note h = history_tracks [OF assms]
  then have t: "tracks L g ps" by blast
  show "claimable_draw L g = (if cg_outcome g \<noteq> None then None else due L ps)"
    using claimable_due [OF t] by (simp add: claimable_draw_def)
  show "\<forall>k. cg_counts g k = counted (seen L ps k) \<and> seen L ps k \<le> 5"
    using t tracks_bound [OF t] by (simp add: tracks_open(3) del: split_paired_All)
  show q: "quiet_moves ps \<le> 150" using t by (simp add: tracks_def split: if_splits)
  show "unat (cg_clock g) = quiet_moves ps" using t q by (simp add: tracks_def unat_of_nat)
qed (use history_tracks [OF assms] in blast)+

theorem draws_follow_history_witness:
  "\<exists>g ps. history example_chess g ps (Some ThreefoldRepetition) \<and> cg_outcome g = Some (Claimed ThreefoldRepetition)
     \<and> due example_chess ps = Some ThreefoldRepetition"
proof -
  obtain g ps c where h: "history example_chess g ps c" and o: "cg_outcome g = Some (Claimed ThreefoldRepetition)"
    using replay_outcome_history [OF example_claim] by blast
  note all = draws_follow_history [OF h]
  have "c = Some ThreefoldRepetition"
  proof (cases c)
    case None
    with all o have "ended example_chess ps = Some (Claimed ThreefoldRepetition)" by simp
    then show ?thesis by (auto simp: ended_def Let_def split: board_status.splits if_splits)
  qed (use all o in simp)
  with h o all show ?thesis by fastforce
qed

section \<open>Legal destinations\<close>

text \<open>
  What the crate documents of its boards: a legal move starts on a square with a piece of the
  side to move and ends on the board, and a square with a piece has a colour.
\<close>

definition lib_on_board :: "lib_square \<Rightarrow> bool" where
  "lib_on_board t \<longleftrightarrow> lib_rank t < 8 \<and> lib_file t < 8"

definition sound_lib :: "'b chess_lib \<Rightarrow> 'b \<Rightarrow> bool" where
  "sound_lib L b \<longleftrightarrow> (\<forall>c\<in>set (cl_legal L b). lib_on_board (lm_dest c)
       \<and> cl_piece_on L b (lm_source c) \<noteq> None \<and> cl_color_on L b (lm_source c) = Some (cl_side_to_move L b))
     \<and> (\<forall>s. cl_piece_on L b s \<noteq> None \<longrightarrow> cl_color_on L b s \<noteq> None)"

lemma from_to_lib_square: "on_board s \<Longrightarrow> from_lib_square (to_lib_square s) = Some s"
  by (cases s; cases "sq_file s"; cases "sq_rank s")
    (simp add: from_lib_square_def to_lib_square_def square_new_iff on_board_def)

lemma from_lib_square_on: "lib_on_board t \<Longrightarrow> \<exists>s. from_lib_square t = Some s \<and> to_lib_square s = t"
  by (cases t) (auto simp: lib_on_board_def from_lib_square_def to_lib_square_def square_new_iff word_less_nat_alt unat_of_nat)

lemma to_lib_square_inj: "on_board s \<Longrightarrow> on_board s' \<Longrightarrow> to_lib_square s = to_lib_square s' \<longleftrightarrow> s = s'"
  using from_to_lib_square by (metis option.inject)

lemma from_lib_square_to: "from_lib_square t = Some s \<Longrightarrow> lib_on_board t \<Longrightarrow> to_lib_square s = t"
  using from_lib_square_on by fastforce

lemma destinations_loop_set:
  assumes "\<forall>c\<in>set cs. lib_on_board (lm_dest c)" and "distinct found"
  shows "\<exists>ds. destinations_loop from cs found = Some ds \<and> distinct ds
    \<and> set ds = set found \<union> {s. \<exists>c\<in>set cs. lm_source c = from \<and> from_lib_square (lm_dest c) = Some s}"
  using assms
proof (induction cs arbitrary: found)
  case Nil
  then show ?case by simp
next
  case (Cons c cs)
  then obtain s where s: "from_lib_square (lm_dest c) = Some s" using from_lib_square_on by (metis list.set_intros(1))
  show ?case
  proof (cases "lm_source c = from")
    case True
    let ?found = "if s \<in> set found then found else found @ [s]"
    have "distinct ?found" using Cons.prems by simp
    moreover have "\<forall>c\<in>set cs. lib_on_board (lm_dest c)" using Cons.prems(1) by simp
    ultimately obtain ds where "destinations_loop from cs ?found = Some ds" "distinct ds"
      "set ds = set ?found \<union> {s. \<exists>c\<in>set cs. lm_source c = from \<and> from_lib_square (lm_dest c) = Some s}"
      using Cons.IH by blast
    with True s show ?thesis by auto
  next
    case False
    have "\<forall>c\<in>set cs. lib_on_board (lm_dest c)" using Cons.prems(1) by simp
    then obtain ds where "destinations_loop from cs found = Some ds" "distinct ds"
      "set ds = set found \<union> {s. \<exists>c\<in>set cs. lm_source c = from \<and> from_lib_square (lm_dest c) = Some s}"
      using Cons.IH Cons.prems(2) by blast
    with False show ?thesis by auto
  qed
qed

text \<open>Some promotion choice is accepted whenever there is a candidate.\<close>

lemma to_lib_piece_surj: "\<exists>k. to_lib_piece k = p"
  by (cases p) (metis to_lib_piece.simps)+

lemma some_candidate:
  assumes "cs \<noteq> []"
  shows "\<exists>p c. chosen_candidate \<lparr>mv_from = a, mv_to = b, mv_promotion = p\<rparr> cs = Ok c"
proof (cases "\<exists>c\<in>set cs. lm_promotion c \<noteq> None")
  case True
  then obtain c q where "c \<in> set cs" "lm_promotion c = Some q" by blast
  moreover obtain k where "to_lib_piece k = q" using to_lib_piece_surj by blast
  ultimately have "c \<in> set cs" "lm_promotion c = Some (to_lib_piece k)" by simp_all
  then have "List.find (\<lambda>c. lm_promotion c = Some (to_lib_piece k)) cs \<noteq> None" by (auto simp: find_None_iff)
  with True assms have "chosen_candidate \<lparr>mv_from = a, mv_to = b, mv_promotion = Some k\<rparr> cs
      = Ok (the (List.find (\<lambda>c. lm_promotion c = Some (to_lib_piece k)) cs))"
    by (auto simp: chosen_candidate_def Let_def split: option.split)
  then show ?thesis by blast
next
  case False
  with assms have "chosen_candidate \<lparr>mv_from = a, mv_to = b, mv_promotion = None\<rparr> cs = Ok (hd cs)"
    by (simp add: chosen_candidate_def)
  then show ?thesis by blast
qed

lemma chosen_nonempty: "chosen_candidate m cs = Ok c \<Longrightarrow> cs \<noteq> []"
  by (auto simp: chosen_candidate_def)

text \<open>
  The squares highlighted for a piece are the squares it can move to: while the game goes on,
  a square is listed exactly when a move there is accepted with some choice of promotion, each
  square once, and neither the listing nor a move panics.
\<close>

theorem highlighted_squares_are_moves:
  assumes "sound_lib L (cg_board g)" and "cg_outcome g = None" and "on_board a"
  shows "(\<exists>ds. legal_destinations L g a = Some ds \<and> distinct ds \<and> (\<forall>b. on_board b \<longrightarrow>
      (b \<in> set ds \<longleftrightarrow> (\<exists>p r g'. apply_move L \<lparr>mv_from = a, mv_to = b, mv_promotion = p\<rparr> g = Some (Ok r, g')))))
    \<and> (\<forall>m. apply_move L m g \<noteq> None)"
proof
  let ?cs = "cl_legal L (cg_board g)" and ?from = "to_lib_square a"
  have dest: "\<forall>c\<in>set ?cs. lib_on_board (lm_dest c)" using assms(1) by (simp add: sound_lib_def)
  then obtain ds where ds: "legal_destinations L g a = Some ds" "distinct ds"
    "set ds = {s. \<exists>c\<in>set ?cs. lm_source c = ?from \<and> from_lib_square (lm_dest c) = Some s}"
    using destinations_loop_set [OF dest, of "[]" ?from] assms(2) by (auto simp: legal_destinations_def)
  have "b \<in> set ds \<longleftrightarrow> (\<exists>p r g'. apply_move L \<lparr>mv_from = a, mv_to = b, mv_promotion = p\<rparr> g = Some (Ok r, g'))"
    if b: "on_board b" for b
  proof -
    let ?ms = "filter (\<lambda>c. lm_source c = ?from \<and> lm_dest c = to_lib_square b) ?cs"
    have "from_lib_square (lm_dest c) = Some b \<longleftrightarrow> lm_dest c = to_lib_square b" if "c \<in> set ?cs" for c
      using that dest from_to_lib_square [OF b] from_lib_square_to by metis
    then have listed: "b \<in> set ds \<longleftrightarrow> ?ms \<noteq> []" by (auto simp: ds(3) filter_empty_conv)
    have "\<exists>p r g'. apply_move L \<lparr>mv_from = a, mv_to = b, mv_promotion = p\<rparr> g = Some (Ok r, g')" if ms: "?ms \<noteq> []"
    proof -
      from ms obtain c where "c \<in> set ?cs" "lm_source c = ?from" by (auto simp: filter_empty_conv)
      then obtain moving where "cl_piece_on L (cg_board g) ?from = Some moving"
        "cl_color_on L (cg_board g) ?from = Some (cl_side_to_move L (cg_board g))"
        using assms(1) by (auto simp: sound_lib_def)
      moreover obtain p c where "chosen_candidate \<lparr>mv_from = a, mv_to = b, mv_promotion = p\<rparr> ?ms = Ok c"
        using some_candidate [OF ms] by blast
      ultimately have "apply_move L \<lparr>mv_from = a, mv_to = b, mv_promotion = p\<rparr> g
          = Some (Ok (fst (make_chess_move L \<lparr>mv_from = a, mv_to = b, mv_promotion = p\<rparr> moving c g)),
              snd (make_chess_move L \<lparr>mv_from = a, mv_to = b, mv_promotion = p\<rparr> moving c g))"
        using assms(2) by (simp add: apply_move_Ok)
      then show ?thesis by blast
    qed
    moreover have "?ms \<noteq> []" if "apply_move L \<lparr>mv_from = a, mv_to = b, mv_promotion = p\<rparr> g = Some (Ok r, g')" for p r g'
      using that chosen_nonempty by (fastforce simp: apply_move_Ok)
    ultimately show ?thesis using listed by blast
  qed
  with ds(1,2) show "\<exists>ds. legal_destinations L g a = Some ds \<and> distinct ds \<and> (\<forall>b. on_board b \<longrightarrow>
      (b \<in> set ds \<longleftrightarrow> (\<exists>p r g'. apply_move L \<lparr>mv_from = a, mv_to = b, mv_promotion = p\<rparr> g = Some (Ok r, g'))))"
    by blast
  show "\<forall>m. apply_move L m g \<noteq> None"
    using assms(1) by (auto simp: apply_move_def sound_lib_def split: option.splits sum.splits)
qed

theorem highlighted_squares_are_moves_witness:
  "\<exists>ds. legal_destinations example_chess (new_chess example_chess) (example_square (LibSquare 0 0)) = Some ds
     \<and> example_square (LibSquare 1 0) \<in> set ds \<and> (\<exists>p r g'. apply_move example_chess
         \<lparr>mv_from = example_square (LibSquare 0 0), mv_to = example_square (LibSquare 1 0), mv_promotion = p\<rparr>
         (new_chess example_chess) = Some (Ok r, g'))"
proof -
  have "sound_lib example_chess (cg_board (new_chess example_chess))" "cg_outcome (new_chess example_chess) = None"
    by (auto simp: sound_lib_def example_chess_def new_chess_def game_from_board_def example_hop_def example_color_def lib_on_board_def)
  moreover have on: "on_board (example_square (LibSquare 0 0))" "on_board (example_square (LibSquare 1 0))"
    by (simp_all add: on_board_def example_square_def)
  moreover have "legal_destinations example_chess (new_chess example_chess) (example_square (LibSquare 0 0))
      = Some [example_square (LibSquare 1 0)]"
    by code_simp
  ultimately show ?thesis
    using highlighted_squares_are_moves [of example_chess "new_chess example_chess"] by fastforce
qed

section \<open>Length\<close>

text \<open>
  A number of boards that no legal move raises and every capture and every pawn move lowers:
  the pieces on the board and the squares its pawns have left to go, for chess.
\<close>

definition spends :: "'b chess_lib \<Rightarrow> ('b \<Rightarrow> nat) \<Rightarrow> bool" where
  "spends L f \<longleftrightarrow> (\<forall>b c moving. c \<in> set (cl_legal L b) \<longrightarrow> cl_piece_on L b (lm_source c) = Some moving \<longrightarrow>
     f (cl_make_move L b c) \<le> f b
     \<and> (moving = LibPawn \<or> captured_piece L b moving (lm_source c) (lm_dest c) \<noteq> None \<longrightarrow> f (cl_make_move L b c) < f b))"

lemma find_in: "List.find P cs = Some c \<Longrightarrow> c \<in> set cs"
  by (induction cs) (auto split: if_splits)

lemma chosen_in: "chosen_candidate m cs = Ok c \<Longrightarrow> c \<in> set cs"
  by (auto simp: chosen_candidate_def Let_def dest: find_in split: option.splits if_splits bool.splits)

lemma move_spends:
  assumes "spends L f" and "apply_move L m g = Some (Ok r, g')"
  shows "f (cg_board g') \<le> f (cg_board g)" and "irreversible r \<Longrightarrow> f (cg_board g') < f (cg_board g)"
proof -
  obtain moving chosen where m: "cl_piece_on L (cg_board g) (to_lib_square (mv_from m)) = Some moving"
    "chosen \<in> set (cl_legal L (cg_board g))" "lm_source chosen = to_lib_square (mv_from m)"
    "lm_dest chosen = to_lib_square (mv_to m)" "make_chess_move L m moving chosen g = (r, g')"
    using assms(2) chosen_in by (fastforce simp: apply_move_Ok)
  have "irreversible r \<longleftrightarrow> moving = LibPawn
      \<or> captured_piece L (cg_board g) moving (to_lib_square (mv_from m)) (to_lib_square (mv_to m)) \<noteq> None"
    using m(5) by (auto simp: make_chess_move_def Let_def irreversible_def)
  with assms(1) m show "f (cg_board g') \<le> f (cg_board g)" "irreversible r \<Longrightarrow> f (cg_board g') < f (cg_board g)"
    by (auto simp: spends_def make_chess_move_state(1))
qed

lemma history_length:
  assumes "spends L f" and "history L g ps c"
  shows "length ps + 151 * f (cg_board g) \<le> quiet_moves ps + 1 + 151 * f (cl_default L)
    \<and> length (cg_events g) + 1 = length ps + (if c = None then 0 else 1)"
  using assms(2)
proof induction
  case start
  then show ?case by (simp add: new_chess_def game_from_board_def quiet_moves_def)
next
  case (move g ps c m r g')
  then have o: "cg_outcome g = None" and e: "cg_events g' = cg_events g @ [event_of_move m]"
    by (auto simp: apply_move_Ok make_chess_move_state(5))
  have q: "quiet_moves ps \<le> 149" using history_tracks [OF move.hyps(1)] tracks_open(2) o by blast
  show ?case
    using move.IH move_spends [OF assms(1) move.hyps(2)] q by (auto simp: e quiet_Cons)
next
  case (claim g ps c d g')
  then have g': "g' = g\<lparr>cg_outcome := Some (Claimed d), cg_events := cg_events g @ [ClaimEvent d]\<rparr>" "cg_outcome g = None"
    by (auto simp: claim_draw_def split: if_splits option.splits)
  then have "c = None" using history_tracks [OF claim.hyps(1)] by (auto split: option.splits)
  with claim.IH show ?case by (simp add: g')
qed

text \<open>
  Every game ends: with a bound on the captures and pawn moves that are left in the starting
  position, no game of moves and claims is longer than 151 entries for each of them and one
  more stretch, because the clock stops a quiet stretch after 150 half-moves.
\<close>

theorem games_end:
  assumes "spends L f" and "history L g ps c"
  shows "length (cg_events g) \<le> 151 * f (cl_default L) + 151"
  using history_length [OF assms] history_tracks [OF assms(2)] by (simp add: tracks_def split: if_splits)

theorem games_end_witness:
  "\<exists>g ps c. history example_chess g ps c \<and> length (cg_events g) = 9 \<and> length (cg_events g) \<le> 151"
proof -
  obtain g ps c where h: "history example_chess g ps c" and e: "cg_events g = example_moves 8 @ [ClaimEvent ThreefoldRepetition]"
    using replay_outcome_history [OF example_claim] by blast
  have "spends example_chess (\<lambda>_. 0)"
    by (auto simp: spends_def example_chess_def captured_piece_def example_hop_def example_color_def Let_def split: if_splits)
  from games_end [OF this h] h e show ?thesis
    by (intro exI [of _ g] exI [of _ ps] exI [of _ c]) (simp add: example_moves_def)
qed

end
