(* ===== verification/Signing.thy ===== *)
theory Signing
  imports Canonical
begin

text \<open>
  Digests, publisher keys and signatures (\<open>platform/packages/src/digest.rs\<close>, \<open>signing.rs\<close>):
  the text forms of digests, key ids, keys and signatures, the domain separators, and the check
  against the trusted keys. SHA-256 and Ed25519 are third-party: a hash function, the test
  for valid keys and \<open>verify_strict\<close> are arguments (\<open>crypto\<close>). Texts are lists of bytes,
  and white space other than ASCII is not trimmed.
\<close>

section \<open>Digests\<close>

record crypto =
  cy_sha256 :: "u8 list \<Rightarrow> u8 list"
  cy_valid_key :: "u8 list \<Rightarrow> bool"
  cy_verify :: "u8 list \<Rightarrow> u8 list \<Rightarrow> u8 list \<Rightarrow> bool"

definition DIGEST_PREFIX :: string where
  "DIGEST_PREFIX = ''sha256:''"

datatype digest = Digest (digest_bytes: "u8 list")

datatype digest_error = MissingAlgorithm | UnknownAlgorithm string | DigestLength nat | HexCharacter char

definition digest_of_bytes :: "crypto \<Rightarrow> u8 list \<Rightarrow> digest" where
  "digest_of_bytes cy bs = Digest (cy_sha256 cy bs)"

definition digest_text :: "digest \<Rightarrow> string" where
  "digest_text d = DIGEST_PREFIX @ encode_hex (digest_bytes d)"

fun unhex_all :: "string \<Rightarrow> (digest_error, u8 list) result" where
  "unhex_all (h # l # rest) = (case hex_value h of None \<Rightarrow> Err (HexCharacter h) | Some high \<Rightarrow>
     (case hex_value l of None \<Rightarrow> Err (HexCharacter l) | Some low \<Rightarrow>
       and_then (unhex_all rest) (\<lambda>bs. Ok ((push_bit 4 high OR low) # bs))))"
| "unhex_all _ = Ok []"

definition digest_parse :: "string \<Rightarrow> (digest_error, digest) result" where
  "digest_parse s = (case strip_prefix DIGEST_PREFIX s of
     None \<Rightarrow> Err (case split_once CHR '':'' s of None \<Rightarrow> MissingAlgorithm | Some (algorithm, _) \<Rightarrow> UnknownAlgorithm algorithm)
   | Some hex \<Rightarrow> if length hex \<noteq> 64 then Err (DigestLength (length hex)) else and_then (unhex_all hex) (\<lambda>bs. Ok (Digest bs)))"

lemma unhex_all_Ok: "unhex_all t = Ok bs \<longleftrightarrow> hex_pairs t = Some bs"
  by (induction t arbitrary: bs rule: unhex_all.induct) (auto simp: and_then_Ok_iff split: option.splits)

lemma digest_parse_Ok: "digest_parse s = Ok d \<longleftrightarrow> length (digest_bytes d) = 32 \<and> s = digest_text d"
proof -
  have "and_then (unhex_all hex) (\<lambda>bs. Ok (Digest bs)) = Ok d \<longleftrightarrow> hex = encode_hex (digest_bytes d)"
    if "length hex = 64" for hex
    using that by (cases d) (auto simp: and_then_Ok_iff unhex_all_Ok hex_pairs_iff)
  then show ?thesis
    by (auto simp: digest_parse_def digest_text_def strip_prefix_iff split: option.splits)
qed

interpretation digests: canonical_text "\<lambda>d. length (digest_bytes d) = 32" digest_text
    "\<lambda>t. ok_of (digest_parse t)"
  by unfold_locales (simp add: digest_parse_Ok)

section \<open>Domains\<close>

datatype domain = Domain (domain_bytes: "u8 list")

definition RELEASE :: domain where "RELEASE = Domain (bytes_of ''paperclip.release.v1'' @ [0])"
definition CATALOG :: domain where "CATALOG = Domain (bytes_of ''paperclip.catalog.v1'' @ [0])"
definition PLATFORM :: domain where "PLATFORM = Domain (bytes_of ''paperclip.platform.v1'' @ [0])"

definition domain_label :: "domain \<Rightarrow> string" where
  "domain_label d = (if domain_bytes d = [] then ''unknown''
     else (case from_utf8 (butlast (domain_bytes d)) of None \<Rightarrow> ''unknown'' | Some s \<Rightarrow> s))"

definition domain_message :: "domain \<Rightarrow> u8 list \<Rightarrow> u8 list" where
  "domain_message d document = domain_bytes d @ document"

section \<open>Keys and signatures\<close>

datatype key_id = KeyId (key_id_bytes: "u8 list")

datatype signature_error =
    WrongArmour string
  | NotASignature
  | Malformed
  | MalformedKeyId
  | MalformedKey
  | NotOneLine
  | UntrustedKey key_id nat
  | BadSignature key_id string

definition key_id_of :: "crypto \<Rightarrow> u8 list \<Rightarrow> key_id" where
  "key_id_of cy key = KeyId (take 8 (digest_bytes (digest_of_bytes cy key)))"

definition key_id_text :: "key_id \<Rightarrow> string" where
  "key_id_text k = encode_hex (key_id_bytes k)"

definition key_id_parse :: "string \<Rightarrow> (signature_error, key_id) result" where
  "key_id_parse s = (case decode_hex s 8 of None \<Rightarrow> Err MalformedKeyId | Some bs \<Rightarrow> Ok (KeyId bs))"

text \<open>\<open>single_line\<close> and \<open>armoured_body\<close>.\<close>

definition single_line :: "string \<Rightarrow> (signature_error, string) result" where
  "single_line t = (case filter (\<lambda>l. l \<noteq> [] \<and> hd l \<noteq> CHR ''#'') (map trim (lines t)) of
     [] \<Rightarrow> Err NotOneLine | [l] \<Rightarrow> Ok l | _ \<Rightarrow> Err NotOneLine)"

definition armoured_body :: "string \<Rightarrow> string \<Rightarrow> nat \<Rightarrow> (signature_error, u8 list) result" where
  "armoured_body t armour n = and_then (single_line t) (\<lambda>line.
     case Option.bind (strip_prefix armour line) (strip_prefix '' '') of
       None \<Rightarrow> Err (WrongArmour armour)
     | Some body \<Rightarrow> ok_or Malformed (decode_hex body n))"

record public_key =
  pk_inner :: "u8 list"
  pk_id :: key_id

definition KEY_ARMOUR :: string where "KEY_ARMOUR = ''paperclip-public-key-v1''"
definition SIGNATURE_ARMOUR :: string where "SIGNATURE_ARMOUR = ''paperclip-signature-v1''"

definition public_key_text :: "public_key \<Rightarrow> string" where
  "public_key_text k = KEY_ARMOUR @ '' '' @ encode_hex (pk_inner k) @ [newline]"

definition public_key_parse :: "crypto \<Rightarrow> string \<Rightarrow> (signature_error, public_key) result" where
  "public_key_parse cy s = and_then (armoured_body s KEY_ARMOUR 32) (\<lambda>raw.
     if cy_valid_key cy raw then Ok \<lparr>pk_inner = raw, pk_id = key_id_of cy raw\<rparr> else Err MalformedKey)"

record signature =
  sg_key :: key_id
  sg_raw :: "u8 list"

definition signature_text :: "signature \<Rightarrow> string" where
  "signature_text s = SIGNATURE_ARMOUR @ '' '' @ key_id_text (sg_key s) @ '' '' @ encode_hex (sg_raw s) @ [newline]"

definition signature_parse :: "string \<Rightarrow> (signature_error, signature) result" where
  "signature_parse t = and_then (single_line t) (\<lambda>line.
     let parts = split_on CHR '' '' line
     in if hd parts \<noteq> SIGNATURE_ARMOUR then Err NotASignature
        else (case tl parts of
            [] \<Rightarrow> Err MalformedKeyId
          | k # rest \<Rightarrow> and_then (key_id_parse k) (\<lambda>key. case rest of
              [] \<Rightarrow> Err Malformed
            | body # extra \<Rightarrow> if extra \<noteq> [] then Err Malformed
                else (case decode_hex body 64 of None \<Rightarrow> Err Malformed | Some raw \<Rightarrow> Ok \<lparr>sg_key = key, sg_raw = raw\<rparr>))))"

section \<open>Trust\<close>

text \<open>A \<open>BTreeMap\<close> from ids to keys, as a list with one entry for an id.\<close>

type_synonym trusted_keys = "(key_id \<times> public_key) list"

definition trust :: "trusted_keys \<Rightarrow> public_key \<Rightarrow> trusted_keys" where
  "trust ks k = (pk_id k, k) # filter (\<lambda>e. fst e \<noteq> pk_id k) ks"

record verified =
  vf_bytes :: "u8 list"
  vf_signer :: key_id
  vf_domain :: domain

definition verify_signature :: "crypto \<Rightarrow> trusted_keys \<Rightarrow> domain \<Rightarrow> u8 list \<Rightarrow> signature
    \<Rightarrow> (signature_error, verified) result" where
  "verify_signature cy ks d document s = (case map_of ks (sg_key s) of
     None \<Rightarrow> Err (UntrustedKey (sg_key s) (length ks))
   | Some key \<Rightarrow> if cy_verify cy (pk_inner key) (domain_message d document) (sg_raw s)
       then Ok \<lparr>vf_bytes = document, vf_signer = sg_key s, vf_domain = d\<rparr>
       else Err (BadSignature (sg_key s) (domain_label d)))"

section \<open>Round trips\<close>

lemma key_id_parse_Ok: "key_id_parse s = Ok k \<longleftrightarrow> length (key_id_bytes k) = 8 \<and> s = key_id_text k"
proof -
  have "key_id_parse s = Ok k \<longleftrightarrow> decode_hex s 8 = Some (key_id_bytes k)"
    by (cases k) (auto simp: key_id_parse_def split: option.splits)
  then show ?thesis by (simp add: decode_hex_iff key_id_text_def)
qed

interpretation key_ids: canonical_text "\<lambda>k. length (key_id_bytes k) = 8" key_id_text
    "\<lambda>t. ok_of (key_id_parse t)"
  by unfold_locales (simp add: key_id_parse_Ok)

text \<open>Hex digits are neither white space nor line ends.\<close>

lemma nibble_code: "v < 16 \<Longrightarrow> 48 \<le> (of_char (nibble v) :: nat)"
  using low_cases [of v] unfolding nibble_def code_byte_char by auto

lemma hex_chars: "c \<in> set (encode_hex bs) \<Longrightarrow> 48 \<le> (of_char c :: nat)"
proof (induction bs)
  case (Cons b bs)
  then show ?case using nibble_code [of "drop_bit 4 b"] nibble_code [of "b AND 0x0F"] halves_small [of b] by auto
qed simp

lemma hex_no_space:
  "c \<in> set (encode_hex bs) \<Longrightarrow> \<not> is_space c" "c \<in> set (encode_hex bs) \<Longrightarrow> c \<noteq> newline" "c \<in> set (encode_hex bs) \<Longrightarrow> c \<noteq> CHR '' ''"
  using hex_chars by (fastforce simp: is_space_def)+

text \<open>One line of text, with its end of line, is that line.\<close>

lemma trim_line:
  assumes "l \<noteq> []" and "\<not> is_space (hd l)" and "\<not> is_space (last l)"
  shows "trim l = l"
proof -
  have "dropWhile is_space l = l" "dropWhile is_space (rev l) = rev l"
    using assms by (simp_all add: dropWhile_eq_self_iff hd_rev)
  then show ?thesis by (simp add: trim_def trim_start_def)
qed

lemma single_line_line:
  assumes "newline \<notin> set l" and "l \<noteq> []" and "\<not> is_space (hd l)" and "\<not> is_space (last l)" and "hd l \<noteq> CHR ''#''"
  shows "single_line (l @ [newline]) = Ok l"
proof -
  have "split_on newline (l @ [newline]) = [l, []]" using split_on_append [OF assms(1), of "[]"] by simp
  moreover have "last l \<noteq> CHR 0x0D" using assms(4) by (auto simp: is_space_def)
  ultimately have "lines (l @ [newline]) = [l]" by (simp add: lines_def strip_cr_def)
  then show ?thesis using assms trim_line by (simp add: single_line_def)
qed

lemma last_hex: "bs \<noteq> [] \<Longrightarrow> last (encode_hex bs) \<in> set (encode_hex bs)"
proof -
  assume "bs \<noteq> []"
  then have "encode_hex bs \<noteq> []" by (cases bs) simp_all
  then show ?thesis by (rule last_in_set)
qed

lemma spaceless_hex: "CHR '' '' \<notin> set (encode_hex bs)" "newline \<notin> set (encode_hex bs)"
  using hex_no_space by blast+

lemma last_append_hex: "bs \<noteq> [] \<Longrightarrow> last (p @ encode_hex bs) = last (encode_hex bs)"
  by (cases bs) simp_all

text \<open>What an armoured line parses to.\<close>

lemma public_key_text_line:
  assumes "length (pk_inner k) = 32"
  shows "armoured_body (public_key_text k) KEY_ARMOUR 32 = Ok (pk_inner k)"
proof -
  let ?l = "KEY_ARMOUR @ '' '' @ encode_hex (pk_inner k)"
  have n: "pk_inner k \<noteq> []" using assms by auto
  have "single_line (?l @ [newline]) = Ok ?l"
  proof (rule single_line_line)
    show "newline \<notin> set ?l" by (simp add: KEY_ARMOUR_def spaceless_hex)
    have "last ?l = last (encode_hex (pk_inner k))" using last_append_hex [OF n, of "KEY_ARMOUR @ '' ''"] by simp
    then show "\<not> is_space (last ?l)" using hex_no_space(1) [OF last_hex [OF n]] by simp
  qed (simp_all add: KEY_ARMOUR_def is_space_def)
  then have "single_line (public_key_text k) = Ok ?l" by (simp add: public_key_text_def)
  moreover have "strip_prefix '' '' ('' '' @ encode_hex (pk_inner k)) = Some (encode_hex (pk_inner k))"
    by (rule strip_prefix_append)
  moreover have "decode_hex (encode_hex (pk_inner k)) 32 = Some (pk_inner k)" using assms by (simp add: decode_hex_iff)
  ultimately show ?thesis by (simp add: armoured_body_def del: append.simps)
qed

lemma signature_text_line:
  assumes "length (key_id_bytes (sg_key s)) = 8" and "length (sg_raw s) = 64"
  shows "signature_parse (signature_text s) = Ok s"
proof -
  let ?k = "key_id_text (sg_key s)" and ?b = "encode_hex (sg_raw s)"
  let ?l = "SIGNATURE_ARMOUR @ '' '' @ ?k @ '' '' @ ?b"
  have n: "sg_raw s \<noteq> []" using assms by auto
  have line: "single_line (?l @ [newline]) = Ok ?l"
  proof (rule single_line_line)
    show "newline \<notin> set ?l" by (simp add: SIGNATURE_ARMOUR_def spaceless_hex key_id_text_def)
    have "last ?l = last ?b" using last_append_hex [OF n, of "SIGNATURE_ARMOUR @ '' '' @ ?k @ '' ''"] by simp
    then show "\<not> is_space (last ?l)" using hex_no_space(1) [OF last_hex [OF n]] by simp
  qed (simp_all add: SIGNATURE_ARMOUR_def is_space_def)
  have a: "CHR '' '' \<notin> set SIGNATURE_ARMOUR" by (simp add: SIGNATURE_ARMOUR_def)
  have "split_on CHR '' '' ?l = [SIGNATURE_ARMOUR, ?k, ?b]"
    using split_on_append [OF a] split_on_append [of "CHR '' ''" ?k ?b] split_on_no_sep [of "CHR '' ''" ?b]
    by (simp add: spaceless_hex key_id_text_def)
  moreover have "key_id_parse ?k = Ok (sg_key s)" "decode_hex ?b 64 = Some (sg_raw s)"
    using assms by (simp_all add: key_id_parse_Ok decode_hex_iff)
  ultimately have "signature_parse (?l @ [newline]) = Ok s"
    unfolding signature_parse_def line by (simp del: append.simps)
  moreover have "signature_text s = ?l @ [newline]" by (simp add: signature_text_def)
  ultimately show ?thesis by (simp only:)
qed

section \<open>Domain separation\<close>

text \<open>No separator is a prefix of another, so a message says under which it was signed.\<close>

lemma message_separates:
  assumes "d \<in> {RELEASE, CATALOG, PLATFORM}" and "d' \<in> {RELEASE, CATALOG, PLATFORM}"
  shows "domain_message d x = domain_message d' y \<longleftrightarrow> d = d' \<and> x = y"
  using assms
  by (auto simp: domain_message_def RELEASE_def CATALOG_def PLATFORM_def bytes_of_def)

text \<open>With a scheme that nobody forges, what verifies was signed, under the domain asked for.\<close>

lemma published_only:
  assumes "\<And>key m r. key \<in> pk_inner ` snd ` set ks \<Longrightarrow> cy_verify cy key m r
      \<Longrightarrow> \<exists>d doc. (d, doc) \<in> published \<and> d \<in> {RELEASE, CATALOG, PLATFORM} \<and> m = domain_message d doc"
    and "d \<in> {RELEASE, CATALOG, PLATFORM}" and "verify_signature cy ks d document s = Ok v"
  shows "(d, document) \<in> published \<and> vf_bytes v = document \<and> vf_domain v = d \<and> vf_signer v \<in> fst ` set ks"
proof -
  from assms(3) obtain key where k: "map_of ks (sg_key s) = Some key"
    "cy_verify cy (pk_inner key) (domain_message d document) (sg_raw s)"
    and v: "v = \<lparr>vf_bytes = document, vf_signer = sg_key s, vf_domain = d\<rparr>"
    by (auto simp: verify_signature_def split: option.splits if_splits)
  have "key \<in> snd ` set ks" using map_of_SomeD [OF k(1)] by force
  then obtain d' doc where "(d', doc) \<in> published" "d' \<in> {RELEASE, CATALOG, PLATFORM}"
    "domain_message d document = domain_message d' doc"
    using assms(1) k(2) by blast
  moreover from this have "d = d' \<and> document = doc" using message_separates [OF assms(2)] by blast
  ultimately show ?thesis using map_of_SomeD [OF k(1)] by (auto simp: v intro: rev_image_eqI)
qed

text \<open>
  C37. What the publisher signed is what verifies. With a signature scheme in which whoever holds
  no secret key makes no signature that verifies (\<open>published\<close> are the pairs of domain and
  document the trusted keys were used on), a document that is accepted under a domain was
  published under that domain, byte for byte: a release cannot pass for a catalogue or for a
  platform, and its signer is a trusted key.
\<close>

theorem only_published_documents_verify:
  assumes "\<And>key m r. key \<in> pk_inner ` snd ` set ks \<Longrightarrow> cy_verify cy key m r
      \<Longrightarrow> \<exists>d doc. (d, doc) \<in> published \<and> d \<in> {RELEASE, CATALOG, PLATFORM} \<and> m = domain_message d doc"
    and "d \<in> {RELEASE, CATALOG, PLATFORM}" and "verify_signature cy ks d document s = Ok v"
  shows "(d, document) \<in> published \<and> vf_bytes v = document \<and> vf_domain v = d \<and> vf_signer v \<in> fst ` set ks"
  using assms by (rule published_only)

text \<open>A publisher with one key whose signature of a message is that message.\<close>

definition example_crypto :: crypto where
  "example_crypto = \<lparr>cy_sha256 = (\<lambda>_. replicate 32 7), cy_valid_key = (\<lambda>_. True),
     cy_verify = (\<lambda>key m r. key = [1] \<and> m = r \<and> r = domain_message CATALOG [5])\<rparr>"

theorem only_published_documents_verify_witness:
  "\<exists>v. verify_signature example_crypto [(KeyId [], \<lparr>pk_inner = [1], pk_id = KeyId []\<rparr>)] CATALOG [5]
       \<lparr>sg_key = KeyId [], sg_raw = domain_message CATALOG [5]\<rparr> = Ok v \<and> vf_bytes v = [5] \<and> vf_domain v = CATALOG"
proof -
  let ?ks = "[(KeyId [], \<lparr>pk_inner = [1], pk_id = KeyId []\<rparr>)]"
  have run: "verify_signature example_crypto ?ks CATALOG [5] \<lparr>sg_key = KeyId [], sg_raw = domain_message CATALOG [5]\<rparr>
      = Ok \<lparr>vf_bytes = [5], vf_signer = KeyId [], vf_domain = CATALOG\<rparr>"
    by (simp add: verify_signature_def example_crypto_def)
  have "(CATALOG, [5::u8]) \<in> {(CATALOG, [5])} \<and> vf_bytes \<lparr>vf_bytes = [5], vf_signer = KeyId [], vf_domain = CATALOG\<rparr> = [5]
      \<and> vf_domain \<lparr>vf_bytes = [5], vf_signer = KeyId [], vf_domain = CATALOG\<rparr> = CATALOG
      \<and> vf_signer \<lparr>vf_bytes = [5], vf_signer = KeyId [], vf_domain = CATALOG\<rparr> \<in> fst ` set ?ks"
    by (rule only_published_documents_verify [OF _ _ run]) (auto simp: example_crypto_def)
  with run show ?thesis by blast
qed

text \<open>
  Keys and signatures come back from their files: the text written for a signature parses as
  it, and the text of a valid key as that key with its id.
\<close>

theorem armour_round_trip:
  "length (key_id_bytes (sg_key s)) = 8 \<Longrightarrow> length (sg_raw s) = 64 \<Longrightarrow> length (pk_inner k) = 32
    \<Longrightarrow> cy_valid_key cy (pk_inner k) \<Longrightarrow> pk_id k = key_id_of cy (pk_inner k)
    \<Longrightarrow> signature_parse (signature_text s) = Ok s \<and> public_key_parse cy (public_key_text k) = Ok k"
  using public_key_text_line [of k] signature_text_line [of s] by (simp add: public_key_parse_def)

theorem armour_round_trip_witness:
  "\<exists>s k. signature_parse (signature_text s) = Ok s \<and> public_key_parse example_crypto (public_key_text k) = Ok k
     \<and> sg_raw s = replicate 64 9 \<and> pk_inner k = replicate 32 1"
proof -
  let ?s = "\<lparr>sg_key = KeyId (replicate 8 2), sg_raw = replicate 64 9\<rparr>"
    and ?k = "\<lparr>pk_inner = replicate 32 1, pk_id = key_id_of example_crypto (replicate 32 1)\<rparr>"
  have "signature_parse (signature_text ?s) = Ok ?s \<and> public_key_parse example_crypto (public_key_text ?k) = Ok ?k"
    by (rule armour_round_trip) (simp_all add: example_crypto_def)
  then show ?thesis by (intro exI [of _ ?s] exI [of _ ?k]) simp
qed

text \<open>The bytes of a signature file decode as its text.\<close>

lemma utf8_ascii: "\<forall>b\<in>set bs. b \<le> 0x7F \<Longrightarrow> utf8_ok bs"
  by (induction bs) simp_all

lemma ascii_code: "(of_char c :: nat) < 128 \<Longrightarrow> char_byte c \<le> 0x7F"
  by (simp add: char_byte_def word_le_nat_alt unat_of_nat)

lemma from_utf8_bytes: "\<forall>c\<in>set t. (of_char c :: nat) < 128 \<Longrightarrow> from_utf8 (bytes_of t) = Some t"
  by (simp add: from_utf8_def bytes_of_def utf8_ascii ascii_code comp_def)

lemma nibble_ascii: "v < 16 \<Longrightarrow> (of_char (nibble v) :: nat) < 128"
  using low_cases [of v] unfolding nibble_def code_byte_char by auto

lemma hex_ascii: "c \<in> set (encode_hex bs) \<Longrightarrow> (of_char c :: nat) < 128"
proof (induction bs)
  case (Cons b bs)
  then show ?case using nibble_ascii [of "drop_bit 4 b"] nibble_ascii [of "b AND 0x0F"] halves_small [of b] by auto
qed simp

lemma signature_file: "from_utf8 (bytes_of (signature_text s)) = Some (signature_text s)"
  by (rule from_utf8_bytes) (auto simp: signature_text_def SIGNATURE_ARMOUR_def key_id_text_def dest: hex_ascii)

end
