(* ===== verification/Paths.thy ===== *)
theory Paths
  imports Canonical
begin

text \<open>
  Relative paths (\<open>platform/protocol/src/path.rs\<close>), the resolution of a catalogue path in a
  directory (\<open>FileTransport\<close> of \<open>catalog.rs\<close>) and display names (\<open>packages/src/id.rs\<close>). A
  path text is a list of bytes, a resolved path the list of its components; a display name is
  a list of code points, with the white space and the control characters of Unicode.
\<close>

section \<open>Relative paths\<close>

datatype path_error =
    PathEmpty
  | PathAbsolute
  | NotPosix
  | ParentEscape
  | EmptyComponent
  | HomeExpansion
  | PathNul
  | PathTooLong nat nat

definition MAX_PATH_LEN :: nat where
  "MAX_PATH_LEN = 512"

fun check_components :: "string list \<Rightarrow> path_error option" where
  "check_components [] = None"
| "check_components (c # cs) = (if c = [] \<or> c = ''.'' then Some EmptyComponent
     else if c = ''..'' then Some ParentEscape else check_components cs)"

definition relative_path_parse :: "string \<Rightarrow> (path_error, string) result" where
  "relative_path_parse s =
     (if s = [] then Err PathEmpty
      else if MAX_PATH_LEN < length s then Err (PathTooLong (length s) MAX_PATH_LEN)
      else if CHR 0x00 \<in> set s then Err PathNul
      else if CHR 0x5C \<in> set s \<or> (1 < length s \<and> s ! 1 = CHR '':'') then Err NotPosix
      else if hd s = CHR ''/'' then Err PathAbsolute
      else if hd s = CHR ''~'' then Err HomeExpansion
      else (case check_components (split_on CHR ''/'' s) of Some e \<Rightarrow> Err e | None \<Rightarrow> Ok s))"

definition path_components :: "string \<Rightarrow> string list" where
  "path_components p = split_on CHR ''/'' p"

text \<open>\<open>PathBuf::push\<close>: an absolute path replaces what was there.\<close>

definition path_push :: "string list \<Rightarrow> string \<Rightarrow> string list" where
  "path_push r c = (if c \<noteq> [] \<and> hd c = CHR ''/'' then filter (\<lambda>x. x \<noteq> []) (split_on CHR ''/'' c)
     else if c = [] then r else r @ [c])"

definition resolve_within :: "string \<Rightarrow> string list \<Rightarrow> string list" where
  "resolve_within p root = foldl path_push root (path_components p)"

definition sibling :: "string \<Rightarrow> string \<Rightarrow> string" where
  "sibling descriptor file = join_with CHR ''/'' (butlast (path_components descriptor) @ [file])"

section \<open>A catalogue directory\<close>

datatype stat_answer = IsSymlink | IsThere | IsMissing | StatFailed

datatype transport_error = Unavailable string | UnsafePath string

text \<open>The walk that refuses a link at any component, as far as the path exists.\<close>

fun walk_components :: "(string list \<Rightarrow> stat_answer) \<Rightarrow> string \<Rightarrow> string list \<Rightarrow> string list \<Rightarrow> transport_error option" where
  "walk_components stat path walked [] = None"
| "walk_components stat path walked (c # cs) = (case stat (path_push walked c) of
     IsSymlink \<Rightarrow> Some (UnsafePath path)
   | IsThere \<Rightarrow> walk_components stat path (path_push walked c) cs
   | IsMissing \<Rightarrow> None
   | StatFailed \<Rightarrow> Some (Unavailable path))"

definition transport_resolve :: "(string list \<Rightarrow> stat_answer) \<Rightarrow> string list \<Rightarrow> string \<Rightarrow> (transport_error, string list) result" where
  "transport_resolve stat root path = (case relative_path_parse path of
     Inl _ \<Rightarrow> Err (UnsafePath path)
   | Inr relative \<Rightarrow> (case walk_components stat path root (path_components relative) of
       Some e \<Rightarrow> Err e | None \<Rightarrow> Ok (resolve_within relative root)))"

text \<open>\<open>FileTransport::fetch\<close>: one byte past the limit shows that a file is too long.\<close>

definition file_fetch :: "(string list \<Rightarrow> stat_answer) \<Rightarrow> (string list \<Rightarrow> u8 list option) \<Rightarrow> string list \<Rightarrow> string \<Rightarrow> nat
    \<Rightarrow> (transport_error, u8 list) result" where
  "file_fetch stat read root path limit = and_then (transport_resolve stat root path) (\<lambda>p.
     case read p of None \<Rightarrow> Err (Unavailable path) | Some bs \<Rightarrow> Ok (take (limit + 1) bs))"

section \<open>Display names\<close>

type_synonym chars = "nat list"

definition is_white :: "nat \<Rightarrow> bool" where
  "is_white c \<longleftrightarrow> 9 \<le> c \<and> c \<le> 13 \<or> 0x2000 \<le> c \<and> c \<le> 0x200A
     \<or> c \<in> set [32, 0x85, 0xA0, 0x1680, 0x2028, 0x2029, 0x202F, 0x205F, 0x3000]"

definition is_control :: "nat \<Rightarrow> bool" where
  "is_control c \<longleftrightarrow> c < 32 \<or> 127 \<le> c \<and> c \<le> 159"

definition trim_chars :: "chars \<Rightarrow> chars" where
  "trim_chars s = rev (dropWhile is_white (rev (dropWhile is_white s)))"

definition MAX_NAME_LEN :: nat where
  "MAX_NAME_LEN = 48"

datatype name_error = NameEmpty | NameTooLong nat nat | ControlCharacter

definition display_name_parse :: "chars \<Rightarrow> (name_error, chars) result" where
  "display_name_parse s = (let trimmed = trim_chars s in
     if trimmed = [] then Err NameEmpty
     else if MAX_NAME_LEN < length trimmed then Err (NameTooLong (length trimmed) MAX_NAME_LEN)
     else if \<exists>c\<in>set trimmed. is_control c then Err ControlCharacter
     else Ok trimmed)"

definition UNNAMED :: chars where
  "UNNAMED = map of_char ''Unnamed app''"

definition from_lossy :: "chars \<Rightarrow> chars" where
  "from_lossy s = (let cleaned = take MAX_NAME_LEN (trim_chars (filter (\<lambda>c. \<not> is_control c) s))
     in if cleaned = [] then UNNAMED else cleaned)"

section \<open>Paths stay inside\<close>

definition plain_component :: "string \<Rightarrow> bool" where
  "plain_component c \<longleftrightarrow> c \<noteq> [] \<and> c \<noteq> ''.'' \<and> c \<noteq> ''..'' \<and> CHR ''/'' \<notin> set c \<and> CHR 0x00 \<notin> set c \<and> CHR 0x5C \<notin> set c"

lemma check_components_None:
  "check_components cs = None \<longleftrightarrow> (\<forall>c\<in>set cs. c \<noteq> [] \<and> c \<noteq> ''.'' \<and> c \<noteq> ''..'')"
  by (induction cs) auto

text \<open>The characters of a piece are characters of the text.\<close>

lemma split_on_within: "p \<in> set (split_on d s) \<Longrightarrow> set p \<subseteq> set s"
proof (induction s arbitrary: p)
  case (Cons c cs)
  obtain q qs where qs: "split_on d cs = q # qs" by (cases "split_on d cs") auto
  with Cons show ?case by (fastforce split: if_splits)
qed simp

lemma parsed_components:
  assumes "relative_path_parse s = Ok p"
  shows "p = s" and "path_components p \<noteq> []" and "c \<in> set (path_components p) \<Longrightarrow> plain_component c"
  using assms split_on_within [of c "CHR ''/''" s] split_on_pieces [of c "CHR ''/''" s]
  by (auto simp: relative_path_parse_def path_components_def plain_component_def check_components_None
      split: if_splits option.splits)

lemma push_plain: "plain_component c \<Longrightarrow> path_push r c = r @ [c]"
  by (cases c) (auto simp: path_push_def plain_component_def)

lemma push_all_plain: "\<forall>c\<in>set cs. plain_component c \<Longrightarrow> foldl path_push r cs = r @ cs"
  by (induction cs arbitrary: r) (simp_all add: push_plain)

text \<open>Where a file system goes from a directory: a dot stays, two dots go up.\<close>

fun walk :: "string list \<Rightarrow> string list \<Rightarrow> string list" where
  "walk at [] = at"
| "walk at (c # cs) = (if c = [] \<or> c = ''.'' then walk at cs else if c = ''..'' then walk (butlast at) cs else walk (at @ [c]) cs)"

lemma walk_plain: "\<forall>c\<in>set cs. plain_component c \<Longrightarrow> walk r cs = r @ cs"
  by (induction cs arbitrary: r) (auto simp: plain_component_def)

lemma walked_no_link:
  assumes "walk_components stat path r cs = None" and "\<forall>c\<in>set cs. plain_component c"
    and "n \<le> length cs" and "0 < n" and "\<And>k. 0 < k \<Longrightarrow> k < n \<Longrightarrow> stat (r @ take k cs) = IsThere"
  shows "stat (r @ take n cs) \<in> {IsThere, IsMissing}"
  using assms
proof (induction cs arbitrary: r n)
  case (Cons c cs)
  then have p: "path_push r c = r @ [c]" by (simp add: push_plain)
  obtain m where n: "n = Suc m" using Cons.prems(4) by (cases n) auto
  show ?case
  proof (cases m)
    case 0
    with Cons.prems(1) n p show ?thesis by (auto split: stat_answer.splits)
  next
    case (Suc l)
    with Cons.prems(5) [of 1] n have "stat (r @ [c]) = IsThere" by simp
    with Cons.prems(1) p have "walk_components stat path (r @ [c]) cs = None" by simp
    moreover have "stat ((r @ [c]) @ take k cs) = IsThere" if "0 < k" "k < m" for k
      using Cons.prems(5) [of "Suc k"] that n by simp
    ultimately show ?thesis using Cons.IH [of "r @ [c]" m] Cons.prems(2,3) Suc n by simp
  qed
qed simp

lemma parsed_path_inside:
  assumes "relative_path_parse s = Ok p"
  shows "walk root (path_components s) = resolve_within p root" and "resolve_within p root = root @ path_components p"
proof -
  note c = parsed_components [OF assms]
  then have all: "\<forall>c\<in>set (path_components s). plain_component c" by simp
  show "walk root (path_components s) = resolve_within p root" "resolve_within p root = root @ path_components p"
    using walk_plain [OF all] push_all_plain [OF all] by (simp_all add: resolve_within_def c(1))
qed

text \<open>
  A path that a catalogue directory resolves stays inside it, however deep a file system
  follows its dots: it leads from the root through plain components only, and as far as
  they exist each of them is a file or a directory, never a link.
\<close>

theorem relative_paths_stay_inside:
  assumes "transport_resolve stat root s = Ok q"
  shows "walk root (path_components s) = q
    \<and> (\<exists>ns. q = root @ ns \<and> ns \<noteq> [] \<and> (\<forall>c\<in>set ns. plain_component c)
     \<and> (\<forall>n. 0 < n \<and> n \<le> length ns \<and> (\<forall>k. 0 < k \<and> k < n \<longrightarrow> stat (root @ take k ns) = IsThere)
          \<longrightarrow> stat (root @ take n ns) \<noteq> IsSymlink))"
proof -
  obtain p where p: "relative_path_parse s = Ok p" "walk_components stat s root (path_components p) = None"
    "q = resolve_within p root"
    using assms by (auto simp: transport_resolve_def split: sum.splits option.splits)
  then have all: "\<forall>c\<in>set (path_components p). plain_component c" using parsed_components(3) by blast
  have "stat (root @ take n (path_components p)) \<noteq> IsSymlink"
    if "0 < n" "n \<le> length (path_components p)" "\<forall>k. 0 < k \<and> k < n \<longrightarrow> stat (root @ take k (path_components p)) = IsThere" for n
    using walked_no_link [OF p(2) all that(2,1)] that(3) by auto
  with parsed_path_inside [OF p(1), of root] parsed_components(2) [OF p(1)] all p(3) show ?thesis by auto
qed

theorem relative_paths_stay_inside_witness:
  "\<exists>ns. [''r'', ''a'', ''b''] = [''r''] @ ns \<and> list_all plain_component ns"
proof -
  have "transport_resolve (\<lambda>_. IsThere) [''r''] ''a/b'' = Ok [''r'', ''a'', ''b'']" by code_simp
  from relative_paths_stay_inside [OF this] show ?thesis by (auto simp: list_all_iff)
qed

section \<open>Names\<close>

lemma trim_chars_set: "set (trim_chars s) \<subseteq> set s"
proof
  fix x assume "x \<in> set (trim_chars s)"
  then have "x \<in> set (dropWhile is_white (rev (dropWhile is_white s)))" by (simp only: trim_chars_def set_rev)
  then have "x \<in> set (rev (dropWhile is_white s))" by (rule set_dropWhileD)
  then have "x \<in> set (dropWhile is_white s)" by (simp only: set_rev)
  then show "x \<in> set s" by (rule set_dropWhileD)
qed

lemma trim_length: "length (trim_chars s) \<le> length s"
  using length_dropWhile_le [of is_white "rev (dropWhile is_white s)"] length_dropWhile_le [of is_white s]
  by (simp add: trim_chars_def)

lemma trim_shape: "trim_chars s = [] \<and> dropWhile is_white s = []
    \<or> (\<exists>c cs. trim_chars s = c # cs \<and> \<not> is_white c)"
proof (cases "dropWhile is_white s")
  case Nil
  then have "trim_chars s = []" by (simp only: trim_chars_def rev.simps dropWhile.simps)
  with Nil show ?thesis by blast
next
  case (Cons c cs)
  then have w: "\<not> is_white c" using hd_dropWhile [of is_white s] by simp
  then have "dropWhile is_white (rev cs @ [c]) = dropWhile is_white (rev cs) @ [c]"
    by (cases "\<forall>x\<in>set cs. is_white x") (simp_all add: dropWhile_append dropWhile_eq_Nil_conv)
  then have "trim_chars s = c # rev (dropWhile is_white (rev cs))" by (simp add: trim_chars_def Cons)
  with w show ?thesis by blast
qed

text \<open>A lossy name is always accepted as a name, but not always as itself.\<close>

lemma trim_empty_white: "trim_chars s = [] \<longleftrightarrow> (\<forall>c\<in>set s. is_white c)"
  using trim_shape [of s] trim_chars_set [of s] by (auto simp: dropWhile_eq_Nil_conv)

lemma trim_head: "trim_chars s = c # cs \<Longrightarrow> \<not> is_white c"
  using trim_shape [of s] by auto

lemma display_name_ok:
  "trim_chars n \<noteq> [] \<Longrightarrow> length (trim_chars n) \<le> MAX_NAME_LEN \<Longrightarrow> \<forall>c\<in>set (trim_chars n). \<not> is_control c
     \<Longrightarrow> display_name_parse n = Ok (trim_chars n)"
  by (simp add: display_name_parse_def Let_def)

lemma lossy_name_parses: "\<exists>n. display_name_parse (from_lossy s) = Ok n"
proof (cases "take MAX_NAME_LEN (trim_chars (filter (\<lambda>c. \<not> is_control c) s))")
  case Nil
  then have "from_lossy s = UNNAMED" by (simp add: from_lossy_def)
  moreover have "display_name_parse UNNAMED = Ok UNNAMED"
    by (simp add: display_name_parse_def UNNAMED_def trim_chars_def is_white_def is_control_def MAX_NAME_LEN_def)
  ultimately show ?thesis by simp
next
  case (Cons c cs)
  let ?t = "trim_chars (filter (\<lambda>c. \<not> is_control c) s)" and ?n = "take MAX_NAME_LEN (trim_chars (filter (\<lambda>c. \<not> is_control c) s))"
  have name: "from_lossy s = ?n" using Cons by (simp add: from_lossy_def)
  obtain ds where "?t = c # ds" using Cons by (cases ?t) (auto simp: MAX_NAME_LEN_def)
  then have "\<not> is_white c" by (rule trim_head)
  then have "trim_chars ?n \<noteq> []" using Cons by (simp add: trim_empty_white)
  moreover have "\<forall>c\<in>set (trim_chars ?n). \<not> is_control c"
  proof
    fix c assume "c \<in> set (trim_chars ?n)"
    then have "c \<in> set ?n" by (rule subsetD [OF trim_chars_set])
    then have "c \<in> set ?t" by (rule in_set_takeD)
    then have "c \<in> set (filter (\<lambda>c. \<not> is_control c) s)" by (rule subsetD [OF trim_chars_set])
    then show "\<not> is_control c" by simp
  qed
  moreover have "length (trim_chars ?n) \<le> MAX_NAME_LEN" using trim_length [of ?n] by simp
  ultimately show ?thesis unfolding name using display_name_ok by blast
qed

lemma trim_solid: "s \<noteq> [] \<Longrightarrow> \<not> is_white (hd s) \<Longrightarrow> \<not> is_white (last s) \<Longrightarrow> trim_chars s = s"
proof -
  assume "s \<noteq> []" "\<not> is_white (hd s)" "\<not> is_white (last s)"
  then have "dropWhile is_white s = s" "dropWhile is_white (rev s) = rev s"
    by (simp_all add: dropWhile_eq_self_iff hd_rev)
  then show ?thesis by (simp add: trim_chars_def)
qed

lemma lossy_name_untrimmed: "last (from_lossy (replicate 47 110 @ [32, 110])) = 32 \<and> is_white 32"
proof -
  let ?s = "replicate 47 110 @ [32, 110::nat]"
  have "filter (\<lambda>c. \<not> is_control c) ?s = ?s" by (simp add: is_control_def)
  moreover have "trim_chars ?s = ?s" by (rule trim_solid) (simp_all add: is_white_def)
  moreover have "take 48 ?s = replicate 47 110 @ [32]" by simp
  ultimately have "from_lossy ?s = replicate 47 110 @ [32]" unfolding from_lossy_def MAX_NAME_LEN_def by simp
  then show ?thesis by (simp add: is_white_def)
qed

end
