(* ===== verification/Catalog.thy ===== *)
theory Catalog
  imports Signing Paths Transaction PackageInstall
begin

text \<open>
  Catalogues (\<open>platform/packages/src/release.rs\<close>, \<open>catalog.rs\<close>): release descriptors and
  indexes parsed from signed bytes, choosing a version, and reading a catalogue through a
  transport that may answer anything, with the cache of the last index accepted. Versions are
  texts ordered by an argument (SemVer), and TOML is an argument that gives the raw records;
  the rest is as in the code.
\<close>

section \<open>Documents\<close>

definition MAX_RELEASE_BYTES :: nat where "MAX_RELEASE_BYTES = 16 * 1024"
definition MAX_INDEX_BYTES :: nat where "MAX_INDEX_BYTES = 1024 * 1024"
definition MAX_NOTES_BYTES :: nat where "MAX_NOTES_BYTES = 4096"
definition MAX_SIGNATURE_BYTES :: nat where "MAX_SIGNATURE_BYTES = 512"
definition MAX_CATALOG_NAME :: nat where "MAX_CATALOG_NAME = 64"
definition MAX_ENTRIES :: nat where "MAX_ENTRIES = 1024"
definition INDEX_FILE_NAME :: string where "INDEX_FILE_NAME = ''index.toml''"
definition SIGNATURE_SUFFIX :: string where "SIGNATURE_SUFFIX = ''.sig''"

record raw_release =
  rw_app :: string
  rw_name :: chars
  rw_version :: string
  rw_protocol :: string
  rw_archive :: string
  rw_size :: nat
  rw_digest :: string
  rw_published :: nat
  rw_notes :: string

record raw_entry =
  re_app :: string
  re_name :: chars
  re_version :: string
  re_descriptor :: string

record raw_index =
  ri_name :: string
  ri_serial :: nat
  ri_generated :: nat
  ri_entries :: "raw_entry list"

text \<open>The third-party parsers: TOML with the schema of each document, and SemVer.\<close>

record formats =
  fm_release :: "string \<Rightarrow> raw_release option"
  fm_index :: "string \<Rightarrow> raw_index option"
  fm_version :: "string \<Rightarrow> pkg_version option"
  fm_older :: "pkg_version \<Rightarrow> pkg_version \<Rightarrow> bool"
  fm_prerelease :: "pkg_version \<Rightarrow> bool"

datatype release_error =
    WrongDomain string
  | TooLarge nat nat
  | NotUtf8
  | Schema
  | NotesTooLong nat nat
  | BadField string
  | CatalogName nat nat
  | TooManyEntries nat nat

record release =
  rl_app :: app_id
  rl_name :: chars
  rl_version :: pkg_version
  rl_protocol :: protocol_version
  rl_archive :: string
  rl_size :: nat
  rl_digest :: digest
  rl_published :: nat
  rl_notes :: string

record verified_release =
  vr_release :: release
  vr_signer :: key_id

record index_entry =
  en_app :: app_id
  en_name :: chars
  en_version :: pkg_version
  en_descriptor :: string

record catalog_index =
  ci_catalog :: string
  ci_serial :: nat
  ci_generated :: nat
  ci_entries :: "index_entry list"

record verified_index =
  vi_index :: catalog_index
  vi_signer :: key_id

definition document_text :: "u8 list \<Rightarrow> nat \<Rightarrow> (release_error, string) result" where
  "document_text bs limit = (if limit < length bs then Err (TooLarge (length bs) limit)
     else ok_or NotUtf8 (from_utf8 bs))"

definition field_of :: "string \<Rightarrow> ('e, 'a) result \<Rightarrow> (release_error, 'a) result" where
  "field_of name r = map_err (\<lambda>_. BadField name) r"

definition parse_release :: "formats \<Rightarrow> verified \<Rightarrow> (release_error, verified_release) result" where
  "parse_release fm v =
     (if vf_domain v \<noteq> RELEASE then Err (WrongDomain (domain_label (vf_domain v)))
      else and_then (document_text (vf_bytes v) MAX_RELEASE_BYTES) (\<lambda>text.
        and_then (ok_or Schema (fm_release fm text)) (\<lambda>raw.
        if MAX_NOTES_BYTES < length (rw_notes raw) then Err (NotesTooLong (length (rw_notes raw)) MAX_NOTES_BYTES)
        else and_then (field_of ''app'' (app_id_parse (rw_app raw))) (\<lambda>app.
          and_then (field_of ''name'' (display_name_parse (rw_name raw))) (\<lambda>name.
          and_then (ok_or (BadField ''version'') (fm_version fm (rw_version raw))) (\<lambda>version.
          and_then (field_of ''protocol'' (version_parse (rw_protocol raw))) (\<lambda>protocol.
          and_then (field_of ''archive'' (relative_path_parse (rw_archive raw))) (\<lambda>archive.
          and_then (field_of ''digest'' (digest_parse (rw_digest raw))) (\<lambda>digest.
            Ok \<lparr>vr_release = \<lparr>rl_app = app, rl_name = name, rl_version = version, rl_protocol = protocol,
                  rl_archive = archive, rl_size = rw_size raw, rl_digest = digest, rl_published = rw_published raw,
                  rl_notes = rw_notes raw\<rparr>, vr_signer = vf_signer v\<rparr>)))))))))"

fun parse_entries :: "formats \<Rightarrow> raw_entry list \<Rightarrow> (release_error, index_entry list) result" where
  "parse_entries fm [] = Ok []"
| "parse_entries fm (e # es) =
     and_then (field_of ''app'' (app_id_parse (re_app e))) (\<lambda>app.
     and_then (field_of ''name'' (display_name_parse (re_name e))) (\<lambda>name.
     and_then (ok_or (BadField ''version'') (fm_version fm (re_version e))) (\<lambda>version.
     and_then (field_of ''descriptor'' (relative_path_parse (re_descriptor e))) (\<lambda>descriptor.
     and_then (parse_entries fm es) (\<lambda>rest.
       Ok (\<lparr>en_app = app, en_name = name, en_version = version, en_descriptor = descriptor\<rparr> # rest))))))"

definition check_index :: "catalog_index \<Rightarrow> (release_error, unit) result" where
  "check_index i = (if ci_catalog i = [] \<or> MAX_CATALOG_NAME < length (ci_catalog i)
     then Err (CatalogName (length (ci_catalog i)) MAX_CATALOG_NAME)
     else if MAX_ENTRIES < length (ci_entries i) then Err (TooManyEntries (length (ci_entries i)) MAX_ENTRIES)
     else Ok ())"

text \<open>What the bytes of an index say, whoever signed them.\<close>

definition index_of :: "formats \<Rightarrow> u8 list \<Rightarrow> (release_error, catalog_index) result" where
  "index_of fm bs = and_then (document_text bs MAX_INDEX_BYTES) (\<lambda>text.
     and_then (ok_or Schema (fm_index fm text)) (\<lambda>raw.
     and_then (parse_entries fm (ri_entries raw)) (\<lambda>entries.
       let index = \<lparr>ci_catalog = ri_name raw, ci_serial = ri_serial raw, ci_generated = ri_generated raw, ci_entries = entries\<rparr>
       in and_then (check_index index) (\<lambda>_. Ok index))))"

definition parse_index :: "formats \<Rightarrow> verified \<Rightarrow> (release_error, verified_index) result" where
  "parse_index fm v = (if vf_domain v \<noteq> CATALOG then Err (WrongDomain (domain_label (vf_domain v)))
     else and_then (index_of fm (vf_bytes v)) (\<lambda>index. Ok \<lparr>vi_index = index, vi_signer = vf_signer v\<rparr>))"

section \<open>Choosing a version\<close>

text \<open>\<open>sort_by\<close> with the newest first, which is stable.\<close>

fun insert_newest :: "formats \<Rightarrow> index_entry \<Rightarrow> index_entry list \<Rightarrow> index_entry list" where
  "insert_newest fm e [] = [e]"
| "insert_newest fm e (x # xs) = (if fm_older fm (en_version e) (en_version x) then x # insert_newest fm e xs else e # x # xs)"

definition versions_of :: "formats \<Rightarrow> catalog_index \<Rightarrow> app_id \<Rightarrow> index_entry list" where
  "versions_of fm i app = foldr (insert_newest fm) (filter (\<lambda>e. en_app e = app) (ci_entries i)) []"

definition newest_stable :: "formats \<Rightarrow> catalog_index \<Rightarrow> app_id \<Rightarrow> index_entry option" where
  "newest_stable fm i app = List.find (\<lambda>e. \<not> fm_prerelease fm (en_version e)) (versions_of fm i app)"

definition newest_any :: "formats \<Rightarrow> catalog_index \<Rightarrow> app_id \<Rightarrow> index_entry option" where
  "newest_any fm i app = (case versions_of fm i app of [] \<Rightarrow> None | e # _ \<Rightarrow> Some e)"

definition exact_entry :: "catalog_index \<Rightarrow> app_id \<Rightarrow> pkg_version \<Rightarrow> index_entry option" where
  "exact_entry i app v = List.find (\<lambda>e. en_app e = app \<and> en_version e = v) (ci_entries i)"

section \<open>The cache\<close>

text \<open>Files of the cache directory, by name: documents, and signatures by the name of their document.\<close>

record catalog_cache =
  cc_documents :: "(string \<times> u8 list) list"
  cc_signatures :: "(string \<times> u8 list) list"

datatype cache_event = WriteDocument string "u8 list" | WriteSignature string "u8 list"

fun put_cache :: "catalog_cache \<Rightarrow> cache_event \<Rightarrow> catalog_cache" where
  "put_cache d (WriteDocument n bs) = d\<lparr>cc_documents := dir_put n bs (cc_documents d)\<rparr>"
| "put_cache d (WriteSignature n bs) = d\<lparr>cc_signatures := dir_put n bs (cc_signatures d)\<rparr>"

datatype catalog_error =
    TransportFailed transport_error
  | MalformedSignatureFile
  | BadSignatureFile signature_error
  | BadDocument release_error
  | IndexDisagreement app_id pkg_version app_id pkg_version
  | RollbackRefused string nat nat
  | StalledSerial string nat
  | CacheIo

record catalog_config =
  cf_crypto :: crypto
  cf_formats :: formats
  cf_keys :: trusted_keys
  cf_cached :: bool

text \<open>What the outside answers: the transport, the file system, and whether a cached file can be read.\<close>

record catalog_env =
  ct_fetch :: "nat \<Rightarrow> string \<Rightarrow> nat \<Rightarrow> (transport_error, u8 list) result"
  ct_io :: "nat \<Rightarrow> io_answer"
  ct_readable :: "nat \<Rightarrow> bool"

type_synonym 'a catalog_tx = "(catalog_cache, cache_event, catalog_error, 'a) tx"

record catalog_view =
  cv_index :: catalog_index
  cv_signer :: key_id
  cv_stale :: bool

definition cache_char :: "char \<Rightarrow> bool" where
  "cache_char c \<longleftrightarrow> is_ascii_lowercase c \<or> 65 \<le> (of_char c :: nat) \<and> (of_char c :: nat) \<le> 90 \<or> is_digit c
     \<or> c = CHR ''-'' \<or> c = CHR ''_''"

definition cache_name :: "string \<Rightarrow> string" where
  "cache_name catalog = map (\<lambda>c. if cache_char c then c else CHR ''_'') catalog @ ''.toml''"

definition fetch_file :: "catalog_env \<Rightarrow> string \<Rightarrow> nat \<Rightarrow> (catalog_cache, cache_event, transport_error, u8 list) tx" where
  "fetch_file env path limit = tx_bind (tx_ask (\<lambda>n. ct_fetch env n path limit)) tx_lift"

definition verify_index :: "catalog_config \<Rightarrow> u8 list \<Rightarrow> u8 list \<Rightarrow> (catalog_error, verified_index) result" where
  "verify_index cf bs sig = and_then (ok_or MalformedSignatureFile (from_utf8 sig)) (\<lambda>text.
     and_then (map_err BadSignatureFile (signature_parse text)) (\<lambda>signature.
     and_then (map_err BadSignatureFile (verify_signature (cf_crypto cf) (cf_keys cf) CATALOG bs signature)) (\<lambda>v.
       map_err BadDocument (parse_index (cf_formats cf) v))))"

text \<open>Both files, or nothing when either cannot be read.\<close>

definition cached_pair :: "catalog_cache \<Rightarrow> bool \<Rightarrow> bool \<Rightarrow> string \<Rightarrow> (u8 list \<times> u8 list) option" where
  "cached_pair d r1 r2 name = (case (if r1 then map_of (cc_documents d) name else None,
       if r2 then map_of (cc_signatures d) name else None) of
     (Some bs, Some sig) \<Rightarrow> Some (bs, sig) | _ \<Rightarrow> None)"

definition read_cache :: "catalog_env \<Rightarrow> string \<Rightarrow> (u8 list \<times> u8 list) option catalog_tx" where
  "read_cache env catalog = tx_bind (tx_ask (ct_readable env)) (\<lambda>r1. tx_bind (tx_ask (ct_readable env)) (\<lambda>r2.
     tx_get (\<lambda>d. cached_pair d r1 r2 (cache_name catalog))))"

definition check_serial :: "catalog_config \<Rightarrow> catalog_index \<Rightarrow> u8 list \<Rightarrow> (u8 list \<times> u8 list) option \<Rightarrow> (catalog_error, unit) result" where
  "check_serial cf index bs previous = (case previous of
     None \<Rightarrow> Ok ()
   | Some (cached_bytes, cached_sig) \<Rightarrow> and_then (verify_index cf cached_bytes cached_sig) (\<lambda>cached.
       if ci_serial index < ci_serial (vi_index cached)
       then Err (RollbackRefused (ci_catalog index) (ci_serial index) (ci_serial (vi_index cached)))
       else if ci_serial index = ci_serial (vi_index cached) \<and> bs \<noteq> cached_bytes
       then Err (StalledSerial (ci_catalog index) (ci_serial index))
       else Ok ()))"

definition accept_index :: "catalog_config \<Rightarrow> catalog_env \<Rightarrow> catalog_index \<Rightarrow> u8 list \<Rightarrow> u8 list \<Rightarrow> unit catalog_tx" where
  "accept_index cf env index bs sig = (if \<not> cf_cached cf then tx_ok ()
     else tx_bind (read_cache env (ci_catalog index)) (\<lambda>previous.
       tx_bind (tx_lift (check_serial cf index bs previous)) (\<lambda>_.
       tx_bind (tx_probe (ct_io env) CacheIo) (\<lambda>_.
       tx_bind (tx_io put_cache (ct_io env) CacheIo (WriteDocument (cache_name (ci_catalog index)) bs)) (\<lambda>_.
         tx_io put_cache (ct_io env) CacheIo (WriteSignature (cache_name (ci_catalog index)) sig))))))"

text \<open>The entries of the directory, in its order; the first that can be read decides.\<close>

fun cached_loop :: "catalog_config \<Rightarrow> catalog_env \<Rightarrow> transport_error \<Rightarrow> string list \<Rightarrow> catalog_view catalog_tx" where
  "cached_loop cf env unavailable [] = tx_err (TransportFailed unavailable)"
| "cached_loop cf env unavailable (name # names) =
     tx_bind (tx_ask (ct_readable env)) (\<lambda>r1. tx_bind (tx_ask (ct_readable env)) (\<lambda>r2.
     tx_bind (tx_get (\<lambda>d. cached_pair d r1 r2 name)) (\<lambda>pair. case pair of
         None \<Rightarrow> cached_loop cf env unavailable names
       | Some (bs, sig) \<Rightarrow> tx_bind (tx_lift (verify_index cf bs sig)) (\<lambda>verified.
           tx_ok \<lparr>cv_index = vi_index verified, cv_signer = vi_signer verified, cv_stale = True\<rparr>))))"

definition cached_view :: "catalog_config \<Rightarrow> catalog_env \<Rightarrow> transport_error \<Rightarrow> catalog_view catalog_tx" where
  "cached_view cf env unavailable = (if \<not> cf_cached cf then tx_err (TransportFailed unavailable)
     else tx_bind (tx_probe (ct_io env) (TransportFailed unavailable)) (\<lambda>_.
       tx_bind (tx_get (\<lambda>d. map fst (cc_documents d))) (cached_loop cf env unavailable)))"

definition fetch_index :: "catalog_env \<Rightarrow> (catalog_cache, cache_event, transport_error, u8 list \<times> u8 list) tx" where
  "fetch_index env = tx_bind (fetch_file env INDEX_FILE_NAME MAX_INDEX_BYTES) (\<lambda>bs.
     tx_bind (fetch_file env (INDEX_FILE_NAME @ SIGNATURE_SUFFIX) MAX_SIGNATURE_BYTES) (\<lambda>sig. tx_ok (bs, sig)))"

definition view_catalog :: "catalog_config \<Rightarrow> catalog_env \<Rightarrow> catalog_view catalog_tx" where
  "view_catalog cf env = tx_match (fetch_index env) (cached_view cf env) (\<lambda>(bs, sig).
     tx_bind (tx_lift (verify_index cf bs sig)) (\<lambda>verified.
     tx_bind (accept_index cf env (vi_index verified) bs sig) (\<lambda>_.
       tx_ok \<lparr>cv_index = vi_index verified, cv_signer = vi_signer verified, cv_stale = False\<rparr>)))"

section \<open>Release descriptors\<close>

definition fetch_or :: "catalog_env \<Rightarrow> string \<Rightarrow> nat \<Rightarrow> u8 list catalog_tx" where
  "fetch_or env path limit = tx_match (fetch_file env path limit) (\<lambda>e. tx_err (TransportFailed e)) tx_ok"

definition verify_release :: "catalog_config \<Rightarrow> index_entry \<Rightarrow> u8 list \<Rightarrow> u8 list \<Rightarrow> (catalog_error, verified_release) result" where
  "verify_release cf entry bs sig = and_then (ok_or MalformedSignatureFile (from_utf8 sig)) (\<lambda>text.
     and_then (map_err BadSignatureFile (signature_parse text)) (\<lambda>signature.
     and_then (map_err BadSignatureFile (verify_signature (cf_crypto cf) (cf_keys cf) RELEASE bs signature)) (\<lambda>v.
     and_then (map_err BadDocument (parse_release (cf_formats cf) v)) (\<lambda>release.
       if rl_app (vr_release release) \<noteq> en_app entry \<or> rl_version (vr_release release) \<noteq> en_version entry
       then Err (IndexDisagreement (en_app entry) (en_version entry) (rl_app (vr_release release)) (rl_version (vr_release release)))
       else Ok release))))"

definition catalog_release :: "catalog_config \<Rightarrow> catalog_env \<Rightarrow> index_entry \<Rightarrow> verified_release catalog_tx" where
  "catalog_release cf env entry = tx_bind (fetch_or env (en_descriptor entry) MAX_RELEASE_BYTES) (\<lambda>bs.
     tx_bind (fetch_or env (en_descriptor entry @ SIGNATURE_SUFFIX) MAX_SIGNATURE_BYTES) (\<lambda>sig.
       tx_lift (verify_release cf entry bs sig)))"

text \<open>What the installer reads of a verified release.\<close>

definition descriptor_of :: "verified_release \<Rightarrow> app_release_descriptor" where
  "descriptor_of v = (let r = vr_release v in \<lparr>rd_app = rl_app r, rd_version = rl_version r, rd_protocol = rl_protocol r,
     rd_size = rl_size r, rd_digest = digest_text (rl_digest r), rd_signer = key_id_text (vr_signer v)\<rparr>)"

definition archive_path :: "index_entry \<Rightarrow> verified_release \<Rightarrow> string" where
  "archive_path entry v = sibling (en_descriptor entry) (rl_archive (vr_release v))"

end
