(* ===== verification/CatalogTrust.thy ===== *)
theory CatalogTrust
  imports Catalog
begin

text \<open>
  What a device can rely on when it reads a catalogue through a transport that may answer
  anything: which version is chosen, that the accepted indexes of a catalogue never go back,
  and what a cache torn between its two files leads to.
\<close>

section \<open>The newest version\<close>

text \<open>SemVer precedence, as the crate documents it: a strict weak order.\<close>

definition precedence :: "formats \<Rightarrow> bool" where
  "precedence fm \<longleftrightarrow> (\<forall>a b. fm_older fm a b \<longrightarrow> \<not> fm_older fm b a)
     \<and> (\<forall>a b c. fm_older fm a c \<longrightarrow> fm_older fm a b \<or> fm_older fm b c)"

abbreviation newest_first :: "formats \<Rightarrow> index_entry list \<Rightarrow> bool" where
  "newest_first fm \<equiv> sorted_wrt (\<lambda>x y. \<not> fm_older fm (en_version x) (en_version y))"

lemma set_insert_newest: "set (insert_newest fm e xs) = insert e (set xs)"
  by (induction xs) auto

lemma insert_newest_sorted: "precedence fm \<Longrightarrow> newest_first fm xs \<Longrightarrow> newest_first fm (insert_newest fm e xs)"
proof (induction xs)
  case (Cons x xs)
  then show ?case
    by (auto simp: set_insert_newest precedence_def) (meson)+
qed simp

lemma versions_of_sorted:
  assumes "precedence fm"
  shows "newest_first fm (versions_of fm i app)" and "set (versions_of fm i app) = {e \<in> set (ci_entries i). en_app e = app}"
proof -
  have "newest_first fm (foldr (insert_newest fm) es [])" "set (foldr (insert_newest fm) es []) = set es" for es
    by (induction es) (simp_all add: set_insert_newest insert_newest_sorted [OF assms])
  then show "newest_first fm (versions_of fm i app)" "set (versions_of fm i app) = {e \<in> set (ci_entries i). en_app e = app}"
    by (auto simp: versions_of_def)
qed

lemma find_first:
  "sorted_wrt P xs \<Longrightarrow> List.find q xs = Some x \<Longrightarrow> x \<in> set xs \<and> q x \<and> (\<forall>y\<in>set xs. q y \<longrightarrow> y = x \<or> P x y)"
  by (induction xs) (auto split: if_splits)

text \<open>
  A publisher of one catalogue: the document with the single byte \<open>n\<close> is its index of serial
  \<open>n\<close>, and a signature is good for the document its bytes repeat.
\<close>

definition example_index :: "nat \<Rightarrow> catalog_index" where
  "example_index n = \<lparr>ci_catalog = ''home'', ci_serial = n, ci_generated = 0, ci_entries = []\<rparr>"

definition example_formats :: formats where
  "example_formats = \<lparr>fm_release = (\<lambda>_. None), fm_index = (\<lambda>t. Some \<lparr>ri_name = ''home'', ri_serial = of_char (hd t),
     ri_generated = 0, ri_entries = []\<rparr>), fm_version = Some, fm_older = (\<lambda>a b. length a < length b),
     fm_prerelease = (\<lambda>v. length v = 3)\<rparr>"

definition example_config :: catalog_config where
  "example_config = \<lparr>cf_crypto = example_crypto\<lparr>cy_verify := (\<lambda>_ m r. last m = last r)\<rparr>, cf_formats = example_formats,
     cf_keys = [(KeyId (replicate 8 0), \<lparr>pk_inner = [1], pk_id = KeyId (replicate 8 0)\<rparr>)], cf_cached = True\<rparr>"

definition example_sig :: "u8 \<Rightarrow> u8 list" where
  "example_sig b = bytes_of (signature_text \<lparr>sg_key = KeyId (replicate 8 0), sg_raw = replicate 64 b\<rparr>)"

definition example_answers :: "u8 \<Rightarrow> catalog_env" where
  "example_answers b = \<lparr>ct_fetch = (\<lambda>_ path _. if path = INDEX_FILE_NAME then Ok [b] else Ok (example_sig b)),
     ct_io = (\<lambda>_. IoOk), ct_readable = (\<lambda>_. True)\<rparr>"

definition example_cache :: catalog_cache where
  "example_cache = \<lparr>cc_documents = [], cc_signatures = []\<rparr>"

text \<open>
  The version installed when none is named: a stable one that the index lists for the app,
  with no newer stable one listed; there is none exactly when no stable version is listed, so
  a prerelease is never chosen by itself.
\<close>

theorem newest_stable_is_newest:
  assumes "precedence fm"
  shows "(case newest_stable fm i app of
      None \<Rightarrow> \<forall>e\<in>set (ci_entries i). en_app e = app \<longrightarrow> fm_prerelease fm (en_version e)
    | Some e \<Rightarrow> e \<in> set (ci_entries i) \<and> en_app e = app \<and> \<not> fm_prerelease fm (en_version e)
        \<and> (\<forall>e'\<in>set (ci_entries i). en_app e' = app \<and> \<not> fm_prerelease fm (en_version e')
             \<longrightarrow> \<not> fm_older fm (en_version e) (en_version e')))"
proof (cases "newest_stable fm i app")
  case None
  then have "\<forall>e\<in>set (versions_of fm i app). fm_prerelease fm (en_version e)"
    by (auto simp: newest_stable_def find_None_iff)
  with None show ?thesis by (auto simp: versions_of_sorted(2) [OF assms])
next
  case (Some e)
  note f = find_first [OF versions_of_sorted(1) [OF assms] Some [unfolded newest_stable_def]]
  have "\<not> fm_older fm (en_version e) (en_version e)" using assms by (auto simp: precedence_def)
  with f Some show ?thesis by (auto simp: versions_of_sorted(2) [OF assms])
qed

theorem newest_stable_is_newest_witness:
  "\<exists>e. newest_stable example_formats (example_index 1\<lparr>ci_entries := map (\<lambda>v. \<lparr>en_app = ''a.b'', en_name = [], en_version = v, en_descriptor = ''d''\<rparr>)
       [''1'', ''333'', ''22'']\<rparr>) ''a.b'' = Some e \<and> en_version e = ''22'' \<and> \<not> fm_prerelease example_formats (en_version e)"
proof -
  let ?i = "example_index 1\<lparr>ci_entries := map (\<lambda>v. \<lparr>en_app = ''a.b'', en_name = [], en_version = v, en_descriptor = ''d''\<rparr>)
       [''1'', ''333'', ''22'']\<rparr>"
  have "precedence example_formats" by (auto simp: precedence_def example_formats_def)
  note all = newest_stable_is_newest [OF this, of ?i "''a.b''"]
  have "newest_stable example_formats ?i ''a.b'' = Some \<lparr>en_app = ''a.b'', en_name = [], en_version = ''22'', en_descriptor = ''d''\<rparr>"
    by (simp add: newest_stable_def versions_of_def example_formats_def example_index_def)
  with all show ?thesis by auto
qed

section \<open>Reading a catalogue\<close>

definition reads_back :: "catalog_env \<Rightarrow> bool" where
  "reads_back env \<longleftrightarrow> (\<forall>n. ct_readable env n)"

abbreviation pair_at :: "catalog_cache \<Rightarrow> string \<Rightarrow> (u8 list \<times> u8 list) option" where
  "pair_at d name \<equiv> cached_pair d True True name"

lemma pair_at_iff: "pair_at d f = Some (bs, sig) \<longleftrightarrow> map_of (cc_documents d) f = Some bs \<and> map_of (cc_signatures d) f = Some sig"
  by (auto simp: cached_pair_def split: option.splits)

lemma pair_at_put [simp]:
  "f \<noteq> n \<Longrightarrow> pair_at (put_cache d (WriteDocument n bs)) f = pair_at d f"
  "f \<noteq> n \<Longrightarrow> pair_at (put_cache d (WriteSignature n bs)) f = pair_at d f"
  by (simp_all add: cached_pair_def)

lemma verify_index_of: "verify_index cf bs sig = Ok vi \<Longrightarrow> index_of (cf_formats cf) bs = Ok (vi_index vi)"
  by (auto simp: verify_index_def and_then_Ok_iff parse_index_def verify_signature_def split: if_splits option.splits)

text \<open>Fetching and looking at the cache changes nothing.\<close>

lemma fetch_keeps [keep]: "keeps put_cache P (fetch_index env)"
  by (auto simp: fetch_index_def fetch_file_def intro!: keep)

lemma cached_loop_keeps [keep]: "keeps put_cache P (cached_loop cf env e names)"
  by (induction names) (auto intro!: keep split: option.splits)

lemma read_cache_reads:
  assumes "reads_back env"
  shows "triple put_cache P P (read_cache env c) (\<lambda>prev d. prev = pair_at d (cache_name c) \<and> P d) P"
  unfolding read_cache_def using assms
  by (intro triple_bind_eq [where b = True and Q = P] triple_ask triple_get) (simp_all add: reads_back_def)

text \<open>
  One view: whatever a predicate says of the cache is kept, if each of the two writes of an
  accepted index keeps it, and \<open>Q\<close> holds of what was accepted.
\<close>

lemma view_triple:
  assumes env: "reads_back env" and cached: "cf_cached cf"
    and doc: "\<And>bs sig vi d. P d \<Longrightarrow> verify_index cf bs sig = Ok vi \<Longrightarrow>
        check_serial cf (vi_index vi) bs (pair_at d (cache_name (ci_catalog (vi_index vi)))) = Ok () \<Longrightarrow>
        P (put_cache d (WriteDocument (cache_name (ci_catalog (vi_index vi))) bs))
        \<and> P (put_cache (put_cache d (WriteDocument (cache_name (ci_catalog (vi_index vi))) bs))
             (WriteSignature (cache_name (ci_catalog (vi_index vi))) sig))
        \<and> Q (vi_index vi) (put_cache (put_cache d (WriteDocument (cache_name (ci_catalog (vi_index vi))) bs))
             (WriteSignature (cache_name (ci_catalog (vi_index vi))) sig))"
  shows "triple put_cache P P (view_catalog cf env) (\<lambda>v d. P d \<and> (\<not> cv_stale v \<longrightarrow> Q (cv_index v) d)) P"
proof -
  have stale: "triple put_cache P P (cached_loop cf env e names) (\<lambda>v d. P d \<and> cv_stale v) P" for e names
    by (induction names)
      (auto intro!: triple_err triple_ok triple_bind [where Q = "\<lambda>_. P"] triple_ask triple_get triple_lift split: option.splits)
  have unreachable: "triple put_cache P P (cached_view cf env e) (\<lambda>v d. P d \<and> (\<not> cv_stale v \<longrightarrow> Q (cv_index v) d)) P" for e
    unfolding cached_view_def
    by (rule triple_if, rule triple_err, simp, rule triple_bind [where Q = "\<lambda>_. P"], rule triple_probe, simp,
        rule triple_bind [where Q = "\<lambda>_. P"], rule triple_get, simp, rule triple_conseq [OF stale]) auto
  have accept: "triple put_cache P P (accept_index cf env (vi_index vi) bs sig) (\<lambda>_ d. P d \<and> Q (vi_index vi) d) P"
    if v: "verify_index cf bs sig = Ok vi" for vi bs sig
  proof -
    let ?f = "cache_name (ci_catalog (vi_index vi))"
    let ?ok = "\<lambda>d. P d \<and> check_serial cf (vi_index vi) bs (pair_at d ?f) = Ok ()"
    have lift: "triple put_cache P (\<lambda>d. prev = pair_at d ?f \<and> P d) (tx_lift (check_serial cf (vi_index vi) bs prev)) (\<lambda>_. ?ok) P" for prev
      by (rule triple_lift) auto
    have first: "triple put_cache P ?ok (tx_io put_cache (ct_io env) CacheIo (WriteDocument ?f bs))
        (\<lambda>_ d. P d \<and> P (put_cache d (WriteSignature ?f sig)) \<and> Q (vi_index vi) (put_cache d (WriteSignature ?f sig))) P"
      by (rule triple_io) (use doc v in blast)
    have second: "triple put_cache P (\<lambda>d. P d \<and> P (put_cache d (WriteSignature ?f sig)) \<and> Q (vi_index vi) (put_cache d (WriteSignature ?f sig)))
        (tx_io put_cache (ct_io env) CacheIo (WriteSignature ?f sig)) (\<lambda>_ d. P d \<and> Q (vi_index vi) d) P"
      by (rule triple_io) auto
    show ?thesis
      unfolding accept_index_def
      by (rule triple_if, use cached in simp, rule triple_bind [OF read_cache_reads [OF env]], rule triple_bind [OF lift],
          rule triple_bind [where Q = "\<lambda>_. ?ok"], rule triple_probe, simp, rule triple_bind [OF first second])
  qed
  show ?thesis
    unfolding view_catalog_def
  proof (rule triple_match [OF keeps_triple [OF fetch_keeps] unreachable])
    fix a :: "u8 list \<times> u8 list"
    obtain bs sig where a: "a = (bs, sig)" by (cases a)
    have lift: "triple put_cache P P (tx_lift (verify_index cf bs sig)) (\<lambda>vi d. verify_index cf bs sig = Ok vi \<and> P d) P"
      by (rule triple_lift) simp
    show "triple put_cache P P (case a of (bs, sig) \<Rightarrow> tx_bind (tx_lift (verify_index cf bs sig)) (\<lambda>verified.
        tx_bind (accept_index cf env (vi_index verified) bs sig) (\<lambda>_.
          tx_ok \<lparr>cv_index = vi_index verified, cv_signer = vi_signer verified, cv_stale = False\<rparr>)))
        (\<lambda>v d. P d \<and> (\<not> cv_stale v \<longrightarrow> Q (cv_index v) d)) P"
      unfolding a prod.case
      by (rule triple_bind [OF lift], rule triple_pure_left, rule triple_bind [OF accept], assumption, rule triple_ok) simp
  qed
qed

section \<open>Example runs\<close>

lemma example_verify:
  assumes "b \<le> 0x7F"
  shows "verify_index example_config [b] (example_sig c)
    = (if b = c then Ok \<lparr>vi_index = example_index (unat b), vi_signer = KeyId (replicate 8 0)\<rparr>
       else Err (BadSignatureFile (BadSignature (KeyId (replicate 8 0)) (domain_label CATALOG))))"
proof -
  let ?s = "\<lparr>sg_key = KeyId (replicate 8 0), sg_raw = replicate 64 c\<rparr>"
  have "signature_parse (signature_text ?s) = Ok ?s" by (rule signature_text_line) simp_all
  have "from_utf8 [b] = Some [byte_char b]" using assms by (simp add: from_utf8_def)
  then have "index_of example_formats [b] = Ok (example_index (unat b))"
    by (simp add: index_of_def document_text_def MAX_INDEX_BYTES_def example_formats_def example_index_def check_index_def
        MAX_CATALOG_NAME_def MAX_ENTRIES_def code_byte_char)
  moreover have "last (replicate 64 c) = c" by simp
  ultimately show ?thesis
    using \<open>signature_parse (signature_text ?s) = Ok ?s\<close>
    by (cases "b = c") (simp_all add: verify_index_def example_sig_def signature_file verify_signature_def parse_index_def domain_message_def
        example_config_def)
qed

lemma example_run:
  assumes "b \<le> 0x7F" and "pair_at d ''home.toml'' = prev"
    and "prev = None \<or> (\<exists>c. prev = Some ([c], example_sig c) \<and> c < b)"
  shows "view_catalog example_config (example_answers b) (tx_start d) =
    (Ok \<lparr>cv_index = example_index (unat b), cv_signer = KeyId (replicate 8 0), cv_stale = False\<rparr>,
     \<lparr>tx_disk = put_cache (put_cache d (WriteDocument ''home.toml'' [b])) (WriteSignature ''home.toml'' (example_sig b)),
       tx_log = [WriteDocument ''home.toml'' [b], WriteSignature ''home.toml'' (example_sig b)], tx_asked = 7\<rparr>)"
proof -
  have name: "cache_name (ci_catalog (example_index (unat b))) = ''home.toml''" by code_simp
  have "check_serial example_config (example_index (unat b)) [b] prev = Ok ()"
  proof (cases prev)
    case (Some p)
    with assms(3) obtain c where c: "prev = Some ([c], example_sig c)" "c < b" by auto
    then have "c \<le> 0x7F" using assms(1) by simp
    from example_verify [OF this, of c] c show ?thesis
      by (simp add: check_serial_def example_index_def word_less_nat_alt)
  qed (simp add: check_serial_def)
  moreover have "cf_cached example_config" by (simp add: example_config_def)
  ultimately show ?thesis
    using example_verify [OF assms(1), of b] assms(2) name
    by (simp add: view_catalog_def fetch_index_def fetch_file_def tx_run example_answers_def INDEX_FILE_NAME_def
        SIGNATURE_SUFFIX_def accept_index_def read_cache_def 
        del: put_cache.simps)
qed

section \<open>Runs\<close>

text \<open>
  A device over time: views that accepted an index (the latest first), and views that did
  anything else, a power cut in them included. The environment of each view is arbitrary,
  but the cache can be read when it is there.
\<close>

inductive catalog_run :: "catalog_config \<Rightarrow> catalog_cache \<Rightarrow> catalog_cache \<Rightarrow> catalog_index list \<Rightarrow> bool" for cf d0 where
  start: "catalog_run cf d0 d0 []"
| accepted: "catalog_run cf d0 d xs \<Longrightarrow> reads_back env \<Longrightarrow> view_catalog cf env (tx_start d) = (Ok v, u) \<Longrightarrow> \<not> cv_stale v
    \<Longrightarrow> catalog_run cf d0 (tx_disk u) (cv_index v # xs)"
| other: "catalog_run cf d0 d xs \<Longrightarrow> reads_back env \<Longrightarrow> d' \<in> cuts put_cache (view_catalog cf env) d \<Longrightarrow> catalog_run cf d0 d' xs"

definition same_file :: "catalog_index \<Rightarrow> catalog_index \<Rightarrow> bool" where
  "same_file x y \<longleftrightarrow> cache_name (ci_catalog x) = cache_name (ci_catalog y)"

definition supersedes :: "catalog_index \<Rightarrow> catalog_index \<Rightarrow> bool" where
  "supersedes x y \<longleftrightarrow> ci_serial y < ci_serial x \<or> x = y"

definition remembered :: "catalog_config \<Rightarrow> catalog_index list \<Rightarrow> catalog_cache \<Rightarrow> bool" where
  "remembered cf xs d \<longleftrightarrow> (\<forall>x\<in>set xs. \<exists>bs sig i. pair_at d (cache_name (ci_catalog x)) = Some (bs, sig)
     \<and> index_of (cf_formats cf) bs = Ok i \<and> supersedes i x)"

lemma check_serial_supersedes:
  assumes "check_serial cf index bs (Some (bs0, sig0)) = Ok ()" and "index_of (cf_formats cf) bs = Ok index"
    and "index_of (cf_formats cf) bs0 = Ok i"
  shows "supersedes index i"
proof -
  from assms(1) obtain vi where vi: "verify_index cf bs0 sig0 = Ok vi" "\<not> ci_serial index < ci_serial (vi_index vi)"
    "ci_serial index = ci_serial (vi_index vi) \<longrightarrow> bs = bs0"
    by (auto simp: check_serial_def and_then_Ok_iff split: if_splits)
  have "vi_index vi = i" using verify_index_of [OF vi(1)] assms(3) by simp
  with vi assms show ?thesis by (auto simp: supersedes_def)
qed

lemma supersedes_trans: "supersedes x y \<Longrightarrow> supersedes y z \<Longrightarrow> supersedes x z"
  by (auto simp: supersedes_def)

lemma accepting_remembers:
  fixes bs sig cf
  defines "d' vi d \<equiv> put_cache d (WriteDocument (cache_name (ci_catalog (vi_index vi))) bs)"
  assumes r: "remembered cf xs d" and v: "verify_index cf bs sig = Ok vi"
    and c: "check_serial cf (vi_index vi) bs (pair_at d (cache_name (ci_catalog (vi_index vi)))) = Ok ()"
  shows "remembered cf xs (d' vi d)"
    and "remembered cf (vi_index vi # xs) (put_cache (d' vi d) (WriteSignature (cache_name (ci_catalog (vi_index vi))) sig))"
    and "\<forall>x\<in>set xs. same_file (vi_index vi) x \<longrightarrow> supersedes (vi_index vi) x"
proof -
  let ?f = "cache_name (ci_catalog (vi_index vi))"
  have i: "index_of (cf_formats cf) bs = Ok (vi_index vi)" by (rule verify_index_of [OF v])
  have over: "supersedes (vi_index vi) x \<and> map_of (cc_signatures d) ?f \<noteq> None" if "x \<in> set xs" "cache_name (ci_catalog x) = ?f" for x
  proof -
    from r that obtain bs0 sig0 j where j: "pair_at d ?f = Some (bs0, sig0)" "index_of (cf_formats cf) bs0 = Ok j" "supersedes j x"
      by (fastforce simp: remembered_def)
    have "supersedes (vi_index vi) j" by (rule check_serial_supersedes [OF _ i j(2)]) (use c j(1) in simp)
    with j show ?thesis by (auto simp: pair_at_iff intro: supersedes_trans)
  qed
  then show "\<forall>x\<in>set xs. same_file (vi_index vi) x \<longrightarrow> supersedes (vi_index vi) x" by (auto simp: same_file_def)
  have keep: "\<exists>b s j. pair_at d'' (cache_name (ci_catalog x)) = Some (b, s) \<and> index_of (cf_formats cf) b = Ok j \<and> supersedes j x"
    if x: "x \<in> set xs" and f: "cache_name (ci_catalog x) = ?f \<Longrightarrow> \<exists>s. pair_at d'' ?f = Some (bs, s)"
      and other: "cache_name (ci_catalog x) \<noteq> ?f \<Longrightarrow> pair_at d'' (cache_name (ci_catalog x)) = pair_at d (cache_name (ci_catalog x))" for x d''
  proof (cases "cache_name (ci_catalog x) = ?f")
    case True
    with f over [OF x] i show ?thesis by fastforce
  next
    case False
    with other r x show ?thesis by (simp add: remembered_def)
  qed
  have one: "\<exists>s. pair_at (d' vi d) ?f = Some (bs, s)" if "x \<in> set xs" "cache_name (ci_catalog x) = ?f" for x
    using over [OF that] by (auto simp: d'_def pair_at_iff)
  show "remembered cf xs (d' vi d)"
    unfolding remembered_def using one by (intro ballI keep) (auto simp: d'_def simp del: put_cache.simps)
  have two: "pair_at (put_cache (d' vi d) (WriteSignature ?f sig)) ?f = Some (bs, sig)" by (simp add: d'_def pair_at_iff)
  have "remembered cf xs (put_cache (d' vi d) (WriteSignature ?f sig))"
    unfolding remembered_def using two by (intro ballI keep) (auto simp: d'_def simp del: put_cache.simps)
  with two i show "remembered cf (vi_index vi # xs) (put_cache (d' vi d) (WriteSignature ?f sig))"
    by (simp add: remembered_def supersedes_def)
qed

lemma view_remembers:
  assumes "reads_back env" and "cf_cached cf"
  shows "triple put_cache (remembered cf xs) (remembered cf xs) (view_catalog cf env)
    (\<lambda>v d. remembered cf xs d \<and> (\<not> cv_stale v \<longrightarrow> remembered cf (cv_index v # xs) d
       \<and> (\<forall>x\<in>set xs. same_file (cv_index v) x \<longrightarrow> supersedes (cv_index v) x))) (remembered cf xs)"
  by (rule view_triple [OF assms]) (use accepting_remembers in \<open>fastforce simp: remembered_def\<close>)

lemma run_remembers:
  assumes "cf_cached cf" and "catalog_run cf d0 d xs"
  shows "remembered cf xs d \<and> sorted_wrt (\<lambda>x y. same_file x y \<longrightarrow> supersedes x y) xs"
  using assms(2)
proof induction
  case start
  show ?case by (simp add: remembered_def)
next
  case (accepted d xs env v u)
  then show ?case
    using triple_result [OF view_remembers [OF accepted.hyps(2) assms(1), of xs] _ accepted.hyps(3)]
    by (simp add: tx_start_def)
next
  case (other d xs env d')
  then show ?case using triple_cuts [OF view_remembers [OF other.hyps(2) assms(1)]] by blast
qed

text \<open>
  C38. With a cache, the indexes a device accepts never go back, whoever serves the bytes and
  wherever power fails: of two accepted indexes of a catalogue (or of two whose names share a
  cache file) the later one has the higher serial, or it is the same index again.
\<close>

theorem catalog_never_goes_back:
  assumes "cf_cached cf" and "catalog_run cf d0 d xs"
  shows "sorted_wrt (\<lambda>later earlier. cache_name (ci_catalog later) = cache_name (ci_catalog earlier)
    \<longrightarrow> ci_serial earlier < ci_serial later \<or> later = earlier) xs"
  using run_remembers [OF assms] by (simp add: same_file_def supersedes_def)

definition example_first :: catalog_cache where
  "example_first = put_cache (put_cache example_cache (WriteDocument ''home.toml'' [1])) (WriteSignature ''home.toml'' (example_sig 1))"

lemma example_pairs:
  "pair_at example_cache ''home.toml'' = None" "pair_at example_first ''home.toml'' = Some ([1], example_sig 1)"
  by (simp_all add: example_first_def example_cache_def cached_pair_def)

lemma example_reads: "reads_back (example_answers b)" "cf_cached example_config"
  by (simp_all add: reads_back_def example_answers_def example_config_def)

theorem catalog_never_goes_back_witness:
  "\<exists>d. catalog_run example_config example_cache d [example_index 2, example_index 1]
     \<and> ci_serial (example_index 1) < ci_serial (example_index 2)"
proof -
  have one: "catalog_run example_config example_cache example_first [example_index 1]"
    using catalog_run.accepted [OF catalog_run.start example_reads(1)
        example_run [OF _ example_pairs(1), of 1]] by (simp add: example_first_def)
  obtain d where two: "catalog_run example_config example_cache d [example_index 2, example_index 1]"
    using catalog_run.accepted [OF one example_reads(1) example_run [OF _ example_pairs(2), of 2]] by auto
  from catalog_never_goes_back [OF example_reads(2) two] two show ?thesis by (auto simp: example_index_def)
qed

section \<open>A torn cache\<close>

text \<open>The two files of a catalogue do not belong together.\<close>

definition torn :: "catalog_config \<Rightarrow> string \<Rightarrow> catalog_cache \<Rightarrow> bool" where
  "torn cf f d \<longleftrightarrow> (\<exists>bs sig e. pair_at d f = Some (bs, sig) \<and> verify_index cf bs sig = Err e)"

lemma view_torn:
  assumes "reads_back env" and "cf_cached cf"
  shows "triple put_cache (torn cf f) (torn cf f) (view_catalog cf env)
    (\<lambda>v d. torn cf f d \<and> (\<not> cv_stale v \<longrightarrow> cache_name (ci_catalog (cv_index v)) \<noteq> f)) (torn cf f)"
proof (rule view_triple [OF assms])
  fix bs sig vi d
  let ?n = "cache_name (ci_catalog (vi_index vi))"
  assume t: "torn cf f d" and c: "check_serial cf (vi_index vi) bs (pair_at d ?n) = Ok ()"
  have "?n \<noteq> f" using t c by (auto simp: torn_def check_serial_def)
  with t show "torn cf f (put_cache d (WriteDocument ?n bs))
      \<and> torn cf f (put_cache (put_cache d (WriteDocument ?n bs)) (WriteSignature ?n sig)) \<and> ?n \<noteq> f"
    unfolding torn_def by (metis pair_at_put)
qed

text \<open>
  The document and its signature are two writes. Power failing between them leaves the new
  document with the old signature, and from then on the catalogue is lost: every view of it
  that reaches the transport fails on the cached pair, nothing repairs the cache, and no
  index of that catalogue is ever accepted again.
\<close>

theorem torn_cache_is_forever:
  assumes "cf_cached cf" and "torn cf f d0" and "catalog_run cf d0 d xs"
  shows "torn cf f d \<and> (\<forall>x\<in>set xs. cache_name (ci_catalog x) \<noteq> f)"
  using assms(3)
proof induction
  case start
  show ?case using assms(2) by simp
next
  case (accepted d xs env v u)
  then show ?case
    using triple_result [OF view_torn [OF accepted.hyps(2) assms(1), of f] _ accepted.hyps(3)] by (simp add: tx_start_def)
next
  case (other d xs env d')
  then show ?case using triple_cuts [OF view_torn [OF other.hyps(2) assms(1), of f]] by blast
qed

definition example_torn :: catalog_cache where
  "example_torn = put_cache example_first (WriteDocument ''home.toml'' [2])"

theorem torn_cache_is_forever_witness:
  "example_torn \<in> cuts put_cache (view_catalog example_config (example_answers 2)) example_first
     \<and> torn example_config ''home.toml'' example_torn
     \<and> torn example_config ''home.toml''
          (apply_writes put_cache example_torn (tx_log (snd (view_catalog example_config (example_answers 2) (tx_start example_torn)))))"
proof (intro conjI)
  have "tx_log (snd (view_catalog example_config (example_answers 2) (tx_start example_first)))
      = [WriteDocument ''home.toml'' [2], WriteSignature ''home.toml'' (example_sig 2)]"
    using example_run [OF _ example_pairs(2), of 2] by simp
  then show "example_torn \<in> cuts put_cache (view_catalog example_config (example_answers 2)) example_first"
    by (simp add: cuts_def crash_points_Cons example_torn_def del: put_cache.simps)
  have "pair_at example_torn ''home.toml'' = Some ([2], example_sig 1)"
    by (simp add: example_torn_def example_first_def cached_pair_def)
  then show t: "torn example_config ''home.toml'' example_torn"
    using example_verify [of 2 1] by (simp add: torn_def)
  have "apply_writes put_cache example_torn (tx_log (snd (view_catalog example_config (example_answers 2) (tx_start example_torn))))
      \<in> cuts put_cache (view_catalog example_config (example_answers 2)) example_torn"
    unfolding cuts_def by (rule crash_points_end)
  from torn_cache_is_forever [OF example_reads(2) t catalog_run.other [OF catalog_run.start example_reads(1) this]]
  show "torn example_config ''home.toml''
      (apply_writes put_cache example_torn (tx_log (snd (view_catalog example_config (example_answers 2) (tx_start example_torn)))))" by blast
qed

end
