(* ===== verification/Delivery.thy ===== *)
theory Delivery
  imports CatalogTrust PackageAtomic
begin

text \<open>
  From a signed catalogue to an installed release: the descriptor that \<open>Catalog::release\<close>
  verifies is what \<open>PackageManager::install\<close> checks the archive against.
\<close>

section \<open>A release that stays where it was committed\<close>

text \<open>The release that is there has a property; a marker that names the digest is the least of them.\<close>

definition holds :: "app_id \<Rightarrow> pkg_version \<Rightarrow> (app_release \<Rightarrow> bool) \<Rightarrow> package_store \<Rightarrow> bool" where
  "holds a v P d \<longleftrightarrow> (\<exists>r. release_at d a v = Some r \<and> P r)"

definition stamped :: "string \<Rightarrow> app_release \<Rightarrow> bool" where
  "stamped dg r \<longleftrightarrow> (\<exists>mk. ar_marker r = HasMarker mk \<and> mk_digest mk = dg)"

text \<open>What a fresh install leaves: the whole archive it was given, checked against the descriptor.\<close>

definition made_from :: "install_env \<Rightarrow> app_release_descriptor \<Rightarrow> app_release \<Rightarrow> bool" where
  "made_from env desc r \<longleftrightarrow> sound_release (ie_sha env) (rd_app desc) (rd_version desc) r \<and> stamped (rd_digest desc) r
     \<and> ar_archive r = ie_archive env \<and> ie_sha env (ar_archive r) = rd_digest desc"

lemma made_from_stamped: "holds a v (made_from env desc) d \<Longrightarrow> holds a v (stamped (rd_digest desc)) d"
  by (auto simp: holds_def made_from_def)

lemma stable_holds: "stable (holds a v P)" "journal_free (holds a v P)"
  by (simp_all add: stable_def journal_free_def holds_def aside_releases)

lemma holds_marker: "marker_at d a v = HasMarker mk \<Longrightarrow> holds a v (stamped (mk_digest mk)) d"
  by (auto simp: marker_at_def holds_def stamped_def split: option.splits)

lemma holds_selection [keep]: "preserves (holds a v P) (st_write env (WriteSelection f b w))"
  by (rule keeps_io, cases f) (simp_all add: holds_def)

lemma holds_remove [keep]:
  assumes "w \<noteq> v"
  shows "preserves (holds a v P) (remove_app_release env b w)"
  by (rule preserves_remove_release) (use assms in \<open>simp_all add: holds_def del: put_store.simps(10,11)\<close>)

lemma holds_prune [keep]: "preserves (holds a v P) (prune_app env b v)"
proof -
  have "preserves (holds a v P) (prune_app_loop env b ks vs)" if "v \<in> set ks" for ks vs
  proof (induction vs)
    case (Cons w vs)
    show ?case
    proof (cases "w \<in> set ks")
      case False
      with that have "w \<noteq> v" by blast
      with False Cons show ?thesis by (auto intro!: keep)
    qed (simp add: Cons)
  qed (auto intro!: keep)
  then have "preserves (holds a v P) (prune_app_loop env b (List.map_filter id [c, p, Some v]) vs)" for c p vs
    by (auto simp: List.map_filter_def)
  then show ?thesis unfolding prune_app_def by (intro keep)
qed

lemma holds_finish: "preserves (holds a v P) (finish_install env opts b v current act present)"
  unfolding finish_install_def apply_selection_def by (intro keep stable_holds) simp

section \<open>The result of an install\<close>

definition selected_if :: "pkg_version option \<Rightarrow> app_id \<Rightarrow> pkg_version \<Rightarrow> package_store \<Rightarrow> bool" where
  "selected_if pv a v d \<longleftrightarrow> (pv = Some v \<longrightarrow> current_is a v d)"

lemma stable_selected: "stable (selected_if pv a v)" "journal_free (selected_if pv a v)"
  using stable_current [of a v] by (simp_all add: stable_def journal_free_def selected_if_def)

lemma runs_finished:
  "runs (\<lambda>d. holds a v P d \<and> selected_if pv a v d) (finish_install env opts a v pv act present)
     (\<lambda>i d. holds a v P d \<and> (in_activated i \<longrightarrow> current_is a v d) \<and> in_already_present i = present)"
proof -
  have "runs (selected_if pv a v) (finish_install env opts a v pv act present)
     (\<lambda>i d. (in_activated i \<longrightarrow> current_is a v d) \<and> in_already_present i = present)"
  proof (cases act)
    case True
    then show ?thesis unfolding selected_if_def by (auto intro: triple_conseq [OF runs_finish])
  next
    case False
    have "preserves (\<lambda>_. True) (prune_app env a v)"
      unfolding prune_app_def
    proof (intro keep)
      fix ks vs
      show "preserves (\<lambda>_. True) (prune_app_loop env a ks vs)"
        by (induction vs) (auto intro!: keep preserves_remove_release)
    qed
    then have "runs (\<lambda>_. True) (if op_prune opts then prune_app env a v else tx_ok []) (\<lambda>_ _. True)"
      by (intro runs_keeps) (auto intro!: keep)
    then have "runs (\<lambda>_. True) (tx_bind (if op_prune opts then prune_app env a v else tx_ok []) (\<lambda>pruned.
       tx_ok \<lparr>in_app = a, in_version = v, in_previous = pv, in_activated = False,
         in_already_present = present, in_pruned = pruned\<rparr>)) (\<lambda>i d. (in_activated i \<longrightarrow> current_is a v d) \<and> in_already_present i = present)"
      by (rule triple_bind) (rule triple_ok, simp)
    moreover have "finish_install env opts a v pv act present = tx_bind (if op_prune opts then prune_app env a v else tx_ok []) (\<lambda>pruned.
       tx_ok \<lparr>in_app = a, in_version = v, in_previous = pv, in_activated = False,
         in_already_present = present, in_pruned = pruned\<rparr>)"
      using False by (simp add: finish_install_def tx_bind_def tx_ok_def fun_eq_iff)
    ultimately show ?thesis by (simp add: triple_def)
  qed
  from triple_conj [OF runs_keeps [OF holds_finish [where a = a and P = P]] this] show ?thesis
    by simp
qed

lemma runs_committed:
  assumes "P r"
  shows "runs (\<lambda>d. selected_if pv a v d \<and> staged d t r) (commit_stage env t a v)
    (\<lambda>_ d. holds a v P d \<and> selected_if pv a v d)"
proof -
  let ?A = "\<lambda>d. selected_if pv a v d \<and> staged d t r"
  have app: "?A (put_store d (MakeApp a))" if "?A d" for d
    using that by (simp add: staged_def selected_if_def current_is_def)
  have put: "holds a v P (put_store d (CommitStage t a v)) \<and> selected_if pv a v (put_store d (CommitStage t a v))"
    if "?A d" for d
    using that assms by (auto simp: staged_def holds_def selected_if_def current_is_def)
  show ?thesis
    unfolding commit_stage_def
    by (rule triple_bind [where Q = "\<lambda>_. ?A"], rule triple_probe, simp,
        rule triple_bind [where Q = "\<lambda>_. ?A"], rule triple_io, use app in simp,
        rule triple_bind [where Q = "\<lambda>_. ?A"], rule triple_get, simp,
        rule triple_if, rule triple_err, simp, rule triple_io)
      (use put in \<open>simp del: put_store.simps\<close>)
qed

text \<open>The result of an install that was not there before.\<close>

definition fresh_result :: "install_env \<Rightarrow> app_release_descriptor \<Rightarrow> installed \<Rightarrow> package_store \<Rightarrow> bool" where
  "fresh_result env desc i d \<longleftrightarrow> holds (rd_app desc) (rd_version desc) (made_from env desc) d
     \<and> (in_activated i \<longrightarrow> current_is (rd_app desc) (rd_version desc) d) \<and> \<not> in_already_present i"

lemma runs_staged:
  "runs (selected_if pv (rd_app desc) (rd_version desc)) (install_staged env opts desc t pv) (fresh_result env desc)"
proof -
  let ?a = "rd_app desc" and ?v = "rd_version desc"
  let ?mk = "\<lparr>mk_digest = rd_digest desc, mk_signer = rd_signer desc\<rparr>"
  let ?S = "selected_if pv ?a ?v"
  have stamp: "runs (\<lambda>d. ?S d \<and> staged d t (payload env NoMarker m)) (st_write env (StampStage t ?mk))
      (\<lambda>_ d. ?S d \<and> staged d t (payload env (HasMarker ?mk) m))" for m
    by (rule triple_io) (use staged_stamp stable_selected in \<open>auto simp: stable_def simp del: put_store.simps\<close>)
  have made: "made_from env desc (payload env (HasMarker ?mk) m)"
    if "check_agreement desc m = Ok ()" "ie_sha env (ie_archive env) = rd_digest desc" for m
    using that by (simp add: made_from_def sound_release_def stamped_def payload_def agreement)
  have fin: "runs (\<lambda>d. holds ?a ?v (made_from env desc) d \<and> ?S d) (finish_install env opts ?a ?v pv act False) (fresh_result env desc)" for act
    by (rule triple_conseq [OF runs_finished]) (auto simp: fresh_result_def)
  show ?thesis
    unfolding install_staged_def
  proof (rule triple_bind [OF triple_stage_archive [OF stable_selected(1) TrueI]], rule triple_pure, goal_cases)
    case (1 m)
    let ?A = "\<lambda>d. ?S d \<and> staged d t (payload env NoMarker m)"
    show ?case
      by (rule triple_bind [where Q = "\<lambda>_ d. ?A d \<and> check_agreement desc m = Ok ()"], rule triple_lift, simp,
          rule triple_pure, rule triple_bind [where Q = "\<lambda>_. ?A"], rule triple_lift, simp,
          rule triple_bind [OF stamp], rule triple_bind [OF runs_committed [where P = "made_from env desc", OF made]], assumption, rule 1, rule fin)
  qed
qed

lemma stable_fresh: "stable (fresh_result env desc i)" "journal_free (fresh_result env desc i)"
  using stable_holds [of "rd_app desc" "rd_version desc" "made_from env desc"] stable_current [of "rd_app desc" "rd_version desc"]
  by (simp_all add: stable_def journal_free_def fresh_result_def)

lemma runs_fresh:
  "runs (selected_if pv (rd_app desc) (rd_version desc)) (fresh_install env opts desc pv) (fresh_result env desc)"
proof -
  let ?Q = "fresh_result env desc"
  have "preserves (\<lambda>_. True) (finish_transaction env tr)" for tr
    by (intro keep) (simp_all add: stable_def journal_free_def)
  then have undo: "runs (\<lambda>_. True) (then_tx (tx_try (finish_transaction env tr)) (tx_err e)) ?Q" for tr e
    by (intro triple_bind [OF runs_keeps] keep triple_err) (simp_all add: stable_def journal_free_def)
  have fin: "runs (?Q i) (then_tx (finish_transaction env tr) (tx_ok i)) ?Q" for tr i
    by (rule triple_bind [OF runs_keeps], intro keep stable_fresh, rule triple_ok) simp
  show ?thesis
    unfolding fresh_install_def
    by (rule triple_bind [OF runs_keeps], intro keep stable_selected, rule triple_match [OF runs_staged undo fin])
qed

text \<open>The result of any install: a release with the signed digest, and a fresh one unless it was there.\<close>

definition install_result :: "install_env \<Rightarrow> app_release_descriptor \<Rightarrow> installed \<Rightarrow> package_store \<Rightarrow> bool" where
  "install_result env desc i d \<longleftrightarrow> holds (rd_app desc) (rd_version desc) (stamped (rd_digest desc)) d
     \<and> (in_activated i \<longrightarrow> current_is (rd_app desc) (rd_version desc) d)
     \<and> (in_already_present i \<or> holds (rd_app desc) (rd_version desc) (made_from env desc) d)"

lemma runs_install: "runs (\<lambda>_. True) (install_release env opts desc) (install_result env desc)"
proof -
  let ?a = "rd_app desc" and ?v = "rd_version desc"
  let ?Q = "install_result env desc"
  have q: "stable (?Q i)" for i
    using stable_holds(1) [of ?a ?v "stamped (rd_digest desc)"] stable_holds(1) [of ?a ?v "made_from env desc"]
      stable_current(1) [of ?a ?v] by (auto simp: stable_def install_result_def)
  have cur: "runs (\<lambda>_. True) (usable_selection env CurrentFile ?a) (\<lambda>pv. selected_if pv ?a ?v)"
    by (rule triple_conseq [OF reads_usable [rule_format, of "\<lambda>_. True"]]) (auto simp: selected_if_def dest: usable_current)
  have seen: "runs (selected_if pv ?a ?v) (existing_marker env ?a ?v)
      (\<lambda>m d. selected_if pv ?a ?v d \<and> (\<forall>mk. m = Some mk \<longrightarrow> holds ?a ?v (stamped (mk_digest mk)) d))" for pv
    by (rule triple_conseq [OF triple_weaken [OF reads_marker [rule_format, of "selected_if pv ?a ?v"]]])
      (auto intro: holds_marker)
  have reuse: "runs (\<lambda>d. selected_if pv ?a ?v d \<and> holds ?a ?v (stamped (rd_digest desc)) d)
      (tx_bind (tx_get f) (\<lambda>m. case m of None \<Rightarrow> tx_err UnreadableManifest
         | Some _ \<Rightarrow> finish_install env opts ?a ?v pv (op_activate opts) True)) ?Q" for pv and f :: "package_store \<Rightarrow> 'm option"
    by (rule triple_bind [where Q = "\<lambda>_ d. selected_if pv ?a ?v d \<and> holds ?a ?v (stamped (rd_digest desc)) d"], rule triple_get, simp)
      (auto split: option.split simp: install_result_def intro!: triple_err triple_conseq [OF runs_finished])
  have new: "runs (selected_if pv ?a ?v) (fresh_install env opts desc pv) ?Q" for pv
    by (rule triple_conseq [OF runs_fresh]) (auto simp: fresh_result_def install_result_def intro: made_from_stamped)
  have body: "runs (\<lambda>_. True) (install_locked env opts desc) ?Q"
    unfolding install_locked_def
  proof (rule triple_bind [OF cur], rule triple_if, rule triple_err, simp, rule triple_bind [OF seen], goal_cases)
    case (1 pv found)
    show ?case
    proof (cases found)
      case None
      then show ?thesis by (auto intro: triple_conseq [OF new])
    next
      case (Some mk)
      then show ?thesis
        by (auto intro!: triple_err intro: triple_conseq [OF reuse])
    qed
  qed
  have t: "stable (\<lambda>_. True)" by (simp add: stable_def)
  show ?thesis
    unfolding install_release_def
    by (rule triple_bind [OF runs_keeps], rule keep, rule locked_triple [OF body t _ q]) (simp_all add: t)
qed

section \<open>From the publisher to the device\<close>

lemma verify_release_iff: "verify_release cf entry bs sig = Ok v \<Longrightarrow>
    \<exists>s. verify_signature (cf_crypto cf) (cf_keys cf) RELEASE bs s = Ok \<lparr>vf_bytes = bs, vf_signer = vr_signer v, vf_domain = RELEASE\<rparr>
      \<and> parse_release (cf_formats cf) \<lparr>vf_bytes = bs, vf_signer = vr_signer v, vf_domain = RELEASE\<rparr> = Ok v
      \<and> rl_app (vr_release v) = en_app entry \<and> rl_version (vr_release v) = en_version entry"
  by (auto simp: verify_release_def and_then_Ok_iff verify_signature_def parse_release_def split: if_splits option.splits)

lemma catalog_release_verifies: "catalog_release cf env entry c = (Ok v, c') \<Longrightarrow> \<exists>bs sig. verify_release cf entry bs sig = Ok v"
  by (auto simp: catalog_release_def tx_bind_def tx_lift_def split: prod.splits sum.splits)

text \<open>A publisher that signed one release document, and a mirror that serves it.\<close>

definition delivery_digest :: digest where
  "delivery_digest = Digest (replicate 32 0)"

definition delivery_raw :: raw_release where
  "delivery_raw = \<lparr>rw_app = ''a.b'', rw_name = [65], rw_version = ''2'', rw_protocol = version_text CURRENT, rw_archive = ''f'',
     rw_size = 1, rw_digest = digest_text delivery_digest, rw_published = 0, rw_notes = []\<rparr>"

definition delivery_config :: catalog_config where
  "delivery_config = example_config\<lparr>cf_formats := example_formats\<lparr>fm_release := (\<lambda>_. Some delivery_raw)\<rparr>,
     cf_crypto := example_crypto\<lparr>cy_verify := (\<lambda>_ m _. m = domain_message RELEASE [5])\<rparr>\<rparr>"

definition delivery_mirror :: catalog_env where
  "delivery_mirror = (example_answers 5)\<lparr>ct_fetch := (\<lambda>_ path _. if path = ''d'' then Ok [5] else Ok (example_sig 5))\<rparr>"

definition delivery_entry :: index_entry where
  "delivery_entry = \<lparr>en_app = ''a.b'', en_name = [65], en_version = ''2'', en_descriptor = ''d''\<rparr>"

definition delivery_release :: verified_release where
  "delivery_release = \<lparr>vr_release = \<lparr>rl_app = ''a.b'', rl_name = [65], rl_version = ''2'', rl_protocol = CURRENT, rl_archive = ''f'',
     rl_size = 1, rl_digest = delivery_digest, rl_published = 0, rl_notes = []\<rparr>, vr_signer = KeyId (replicate 8 0)\<rparr>"

definition delivery_store :: package_store where
  "delivery_store = \<lparr>ps_apps = [], ps_releases = [], ps_current = [], ps_previous = [], ps_journal = [], ps_staging = [], ps_locks = []\<rparr>"

definition delivery_env :: install_env where
  "delivery_env = example_install_env\<lparr>ie_sha := (\<lambda>_. digest_text delivery_digest),
     ie_extract := (\<lambda>_. Ok \<lparr>am_id = ''a.b'', am_version = ''2'', am_protocol = CURRENT\<rparr>)\<rparr>"

lemma delivery_fields:
  "app_id_parse ''a.b'' = Ok ''a.b''" "display_name_parse [65] = Ok [65]" "version_parse (version_text CURRENT) = Ok CURRENT"
  "relative_path_parse ''f'' = Ok ''f''" "digest_parse (digest_text delivery_digest) = Ok delivery_digest"
  using version_round_trip [of CURRENT]
  by (simp_all add: app_id_parse_def MAX_ID_LEN_def id_char_def is_ascii_lowercase_def Let_def display_name_parse_def trim_chars_def
      is_white_def is_control_def MAX_NAME_LEN_def relative_path_parse_def MAX_PATH_LEN_def
      digest_parse_Ok delivery_digest_def) (simp add: CURRENT_def)

lemma delivery_published: "catalog_release delivery_config delivery_mirror delivery_entry (tx_start example_cache)
    = (Ok delivery_release, \<lparr>tx_disk = example_cache, tx_log = [], tx_asked = 2\<rparr>)"
proof -
  let ?s = "\<lparr>sg_key = KeyId (replicate 8 0), sg_raw = replicate 64 5\<rparr>"
  have s: "signature_parse (signature_text ?s) = Ok ?s" by (rule signature_text_line) simp_all
  have "from_utf8 [5] = Some [byte_char 5]" by (simp add: from_utf8_def)
  then have "parse_release (cf_formats delivery_config) \<lparr>vf_bytes = [5], vf_signer = KeyId (replicate 8 0), vf_domain = RELEASE\<rparr>
      = Ok delivery_release"
    by (simp add: parse_release_def document_text_def MAX_RELEASE_BYTES_def delivery_config_def delivery_raw_def
        MAX_NOTES_BYTES_def delivery_fields field_of_def example_formats_def delivery_release_def)
  with s show ?thesis
    by (simp add: catalog_release_def fetch_or_def fetch_file_def tx_run delivery_mirror_def delivery_entry_def SIGNATURE_SUFFIX_def
        verify_release_def example_sig_def signature_file verify_signature_def delivery_release_def [symmetric]
        delivery_config_def example_config_def) (simp add: delivery_release_def)
qed

lemma delivery_installs: "fst (install_release delivery_env default_options (descriptor_of delivery_release) (tx_start delivery_store))
    = Ok \<lparr>in_app = ''a.b'', in_version = ''2'', in_previous = None, in_activated = True, in_already_present = False, in_pruned = []\<rparr>"
  by (simp add: tx_run install_run delivery_env_def example_install_env_def delivery_store_def delivery_release_def
      descriptor_of_def default_options_def runs_current List.map_filter_def del: append.simps)

text \<open>
  C33. An install that succeeds on a descriptor of the catalogue, over any store whatever, leaves
  the app and version the index listed under a marker with the digest that stands in a release
  document which the publisher signed for that app and version; and when it reports the
  release activated, that release is selected. Unless it reports that the release was already
  present, what is there is the whole of the archive it was given, whose digest is that one and
  whose manifest names that app and version. An install that finds the version present trusts
  its marker (\<open>reinstall_trusts_marker\<close> shows one that lies): there the same holds if every marker of
  the store meant what it says before the install.
\<close>

theorem delivered_release_is_signed:
  assumes "\<And>key m r. key \<in> pk_inner ` snd ` set (cf_keys cf) \<Longrightarrow> cy_verify (cf_crypto cf) key m r
      \<Longrightarrow> \<exists>dm doc. (dm, doc) \<in> published \<and> dm \<in> {RELEASE, CATALOG, PLATFORM} \<and> m = domain_message dm doc"
    and "catalog_release cf env entry c = (Ok v, c')"
    and "install_release ienv opts (descriptor_of v) (tx_start d) = (Ok i, u)"
  shows "\<exists>doc r. (RELEASE, doc) \<in> published
    \<and> parse_release (cf_formats cf) \<lparr>vf_bytes = doc, vf_signer = vr_signer v, vf_domain = RELEASE\<rparr> = Ok v
    \<and> rl_app (vr_release v) = en_app entry \<and> rl_version (vr_release v) = en_version entry
    \<and> release_at (tx_disk u) (en_app entry) (en_version entry) = Some r
    \<and> (\<exists>mk. ar_marker r = HasMarker mk \<and> mk_digest mk = digest_text (rl_digest (vr_release v)))
    \<and> (in_activated i \<longrightarrow> selection_at (tx_disk u) CurrentFile (en_app entry) = Some (Some (en_version entry)))
    \<and> (\<not> in_already_present i \<longrightarrow> ar_archive r = ie_archive ienv)
    \<and> (\<not> in_already_present i \<or> store_sound (ie_sha ienv) d \<longrightarrow>
         sound_release (ie_sha ienv) (en_app entry) (en_version entry) r
       \<and> ie_sha ienv (ar_archive r) = digest_text (rl_digest (vr_release v)))"
proof -
  obtain bs sig where "verify_release cf entry bs sig = Ok v" using catalog_release_verifies [OF assms(2)] by blast
  then obtain s where sig: "verify_signature (cf_crypto cf) (cf_keys cf) RELEASE bs s = Ok \<lparr>vf_bytes = bs, vf_signer = vr_signer v, vf_domain = RELEASE\<rparr>"
    and doc: "parse_release (cf_formats cf) \<lparr>vf_bytes = bs, vf_signer = vr_signer v, vf_domain = RELEASE\<rparr> = Ok v"
    and entry: "rl_app (vr_release v) = en_app entry" "rl_version (vr_release v) = en_version entry"
    using verify_release_iff by blast
  have pub: "(RELEASE, bs) \<in> published" using published_only [OF assms(1) _ sig] by simp
  let ?a = "en_app entry" and ?v = "en_version entry" and ?dg = "digest_text (rl_digest (vr_release v))"
  have desc: "rd_app (descriptor_of v) = ?a" "rd_version (descriptor_of v) = ?v" "rd_digest (descriptor_of v) = ?dg"
    by (simp_all add: descriptor_of_def entry Let_def)
  from triple_result [OF runs_install _ assms(3)]
  have res: "install_result ienv (descriptor_of v) i (tx_disk u)" by simp
  then obtain r mk where r: "release_at (tx_disk u) ?a ?v = Some r" "ar_marker r = HasMarker mk" "mk_digest mk = ?dg"
    and act: "in_activated i \<longrightarrow> current_is ?a ?v (tx_disk u)"
    by (auto simp: install_result_def holds_def stamped_def desc)
  have fresh: "\<not> in_already_present i \<longrightarrow> made_from ienv (descriptor_of v) r"
    using res r(1) by (auto simp: install_result_def holds_def desc)
  have kept: "sound_release (ie_sha ienv) ?a ?v r" if "store_sound (ie_sha ienv) d"
  proof -
    have "store_sound (ie_sha ienv) (tx_disk u)"
      using triple_result [OF sound_install [where C = "nearly_sound (ie_sha ienv) (rd_app (descriptor_of v)) (rd_version (descriptor_of v))"]
          _ assms(3)] that
      by (simp add: tx_start_def store_nearly_sound stable_nearly_sound)
    with r show ?thesis unfolding store_sound_def by (metis marker_file.distinct(3))
  qed
  have "sound_release (ie_sha ienv) ?a ?v r \<Longrightarrow> ie_sha ienv (ar_archive r) = ?dg"
    using r by (simp add: sound_release_def)
  with pub doc entry r act fresh kept show ?thesis by (auto simp: made_from_def desc current_is_def)
qed

theorem delivered_release_is_signed_witness:
  "\<exists>u r. snd (install_release delivery_env default_options (descriptor_of delivery_release) (tx_start delivery_store)) = u
     \<and> release_at (tx_disk u) ''a.b'' ''2'' = Some r \<and> ar_archive r = ie_archive delivery_env
     \<and> ie_sha delivery_env (ar_archive r) = digest_text delivery_digest
     \<and> selection_at (tx_disk u) CurrentFile ''a.b'' = Some (Some ''2'')"
proof -
  have unforged: "\<exists>dm doc. (dm, doc) \<in> {(RELEASE, [5])} \<and> dm \<in> {RELEASE, CATALOG, PLATFORM} \<and> m = domain_message dm doc"
    if "key \<in> pk_inner ` snd ` set (cf_keys delivery_config)" "cy_verify (cf_crypto delivery_config) key m r" for key m r
    using that(2) by (simp add: delivery_config_def)
  obtain i u where run: "install_release delivery_env default_options (descriptor_of delivery_release) (tx_start delivery_store) = (Ok i, u)"
    and act: "in_activated i" "\<not> in_already_present i" using delivery_installs
    by (cases "install_release delivery_env default_options (descriptor_of delivery_release) (tx_start delivery_store)") simp
  obtain r where "release_at (tx_disk u) (en_app delivery_entry) (en_version delivery_entry) = Some r"
    "ie_sha delivery_env (ar_archive r) = digest_text (rl_digest (vr_release delivery_release))" "ar_archive r = ie_archive delivery_env"
    "in_activated i \<longrightarrow> selection_at (tx_disk u) CurrentFile (en_app delivery_entry) = Some (Some (en_version delivery_entry))"
    by (rule exE, rule delivered_release_is_signed [OF _ delivery_published run], erule (1) unforged,
        elim exE conjE, rule that) (use act(2) in blast)+
  with act run show ?thesis by (simp add: delivery_entry_def delivery_release_def)
qed

end
