(* ===== verification/Processes.thy ===== *)
theory Processes
  imports Supervisor Canonical
begin

text \<open>
  Emptying a session's process tree (\<open>platform/host/src/linux/process.rs\<close>): whom the sweep may
  signal, how it reads a tree from a cgroup or from \<open>/proc\<close>, and the escalation from
  \<open>SIGTERM\<close> to \<open>SIGKILL\<close>. What the kernel shows at each read, and how long the read took, is
  the environment's; it may answer to the signals in any way. \<open>BTreeSet\<close> is a set.
\<close>

section \<open>Reading a tree\<close>

text \<open>A cgroup directory: its \<open>cgroup.procs\<close>, if that can be read, and its subdirectories.\<close>

datatype cgroup = Cgroup "string option" "cgroup list"

definition pids_in :: "string \<Rightarrow> nat set" where
  "pids_in raw = set (List.map_filter (\<lambda>l. parse_uint u32_max (trim l)) (lines raw))"

definition procs_of :: "string option \<Rightarrow> nat set" where
  "procs_of procs = (case procs of None \<Rightarrow> {} | Some raw \<Rightarrow> pids_in raw)"

text \<open>The stack of directories, its top first.\<close>

function cgroup_walk :: "cgroup list \<Rightarrow> nat set \<Rightarrow> nat set" where
  "cgroup_walk [] found = found"
| "cgroup_walk (Cgroup procs dirs # pending) found = cgroup_walk (rev dirs @ pending) (found \<union> procs_of procs)"
  by pat_completeness auto

lemma size_rev: "size_list size (rev xs) = size_list size xs"
  by (simp add: size_list_conv_sum_list rev_map [symmetric])

termination cgroup_walk
  by (relation "measure (\<lambda>(pending, _). size_list size pending)") (simp_all add: size_rev)

definition cgroup_members :: "cgroup \<Rightarrow> nat set" where
  "cgroup_members g = cgroup_walk [g] {}"

text \<open>A directory of \<open>/proc\<close>: its name, its \<open>status\<close>, and what its descriptors point at.\<close>

record proc_entry =
  pe_name :: string
  pe_status :: "string option"
  pe_links :: "string list option"

definition proc_pid :: "proc_entry \<Rightarrow> nat option" where
  "proc_pid e = parse_uint u32_max (pe_name e)"

definition parent_of :: "proc_entry \<Rightarrow> nat option" where
  "parent_of e = Option.bind (pe_status e) (\<lambda>status.
     Option.bind (find_map (strip_prefix ''PPid:'') (lines status)) (\<lambda>v. parse_uint u32_max (trim v)))"

definition parents_of :: "proc_entry list \<Rightarrow> (nat \<times> nat) list" where
  "parents_of entries = List.map_filter (\<lambda>e. Option.bind (proc_pid e) (\<lambda>n. map_option (Pair n) (parent_of e))) entries"

text \<open>One pass over the pairs of a child and its parent, and passes until none is new.\<close>

fun adopt :: "(nat \<times> nat) list \<Rightarrow> nat set \<Rightarrow> nat set" where
  "adopt [] found = found"
| "adopt ((child, parent) # ps) found = adopt ps (if parent \<in> found then insert child found else found)"

lemma adopt_grows: "found \<subseteq> adopt ps found \<and> adopt ps found \<subseteq> found \<union> fst ` set ps"
proof (induction ps arbitrary: found)
  case Nil
  then show ?case by simp
next
  case (Cons q ps)
  obtain c p where q: "q = (c, p)" by (cases q)
  let ?f = "if p \<in> found then insert c found else found"
  from Cons.IH [of ?f] show ?case by (auto simp: q split: if_splits)
qed

function close_over :: "(nat \<times> nat) list \<Rightarrow> nat set \<Rightarrow> nat set" where
  "close_over ps found = (let found' = adopt ps found in
     if card found' = card found then found' else close_over ps found')"
  by pat_completeness auto

termination close_over
proof (relation "measure (\<lambda>(ps, found). card (fst ` set ps - found))")
  fix ps and found found' :: "nat set"
  assume "found' = adopt ps found" and "card found' \<noteq> card found"
  then have "found \<subset> found'" "found' \<subseteq> found \<union> fst ` set ps" using adopt_grows [of found ps] by auto
  then have "fst ` set ps - found' \<subset> fst ` set ps - found" by blast
  then show "((ps, found'), ps, found) \<in> measure (\<lambda>(ps, found). card (fst ` set ps - found))"
    by (simp add: psubset_card_mono)
qed simp

declare close_over.simps [simp del]

definition descendants :: "proc_entry list \<Rightarrow> nat \<Rightarrow> nat set" where
  "descendants entries pid = close_over (parents_of entries) {pid}"

definition drm_holders :: "nat \<Rightarrow> proc_entry list \<Rightarrow> nat set" where
  "drm_holders own entries = set (List.map_filter (\<lambda>e. Option.bind (proc_pid e) (\<lambda>pid.
     if pid = own then None
     else Option.bind (pe_links e) (\<lambda>links. if list_ex (\<lambda>l. text_contains l ''/dri/'') links then Some pid else None))) entries)"

section \<open>Who may be signalled\<close>

datatype tree_source = InCgroup | Descendants nat | Explicit "nat set"

text \<open>What a read finds: \<open>/proc\<close>, unless it cannot be listed, and the session's cgroup.\<close>

record proc_world =
  pw_entries :: "proc_entry list option"
  pw_cgroup :: cgroup

record session_tree =
  st_source :: tree_source
  st_protected :: "nat set"
  st_own :: nat

datatype proc_error = CannotList

definition members :: "session_tree \<Rightarrow> proc_world \<Rightarrow> (proc_error, nat set) result" where
  "members t w = map_sum id (\<lambda>found. {p \<in> found. 1 < p \<and> p \<noteq> st_own t \<and> p \<notin> st_protected t})
     (case st_source t of
        InCgroup \<Rightarrow> Ok (cgroup_members (pw_cgroup w))
      | Descendants pid \<Rightarrow> (case pw_entries w of None \<Rightarrow> Err CannotList | Some es \<Rightarrow> Ok (descendants es pid))
      | Explicit pids \<Rightarrow> Ok (case pw_entries w of None \<Rightarrow> {} | Some es \<Rightarrow> {p \<in> pids. \<exists>e\<in>set es. pe_name e = show_nat p}))"

section \<open>The escalation\<close>

datatype signal = SigTerm nat | SigKill nat

fun signal_pid :: "signal \<Rightarrow> nat" where
  "signal_pid (SigTerm p) = p"
| "signal_pid (SigKill p) = p"

text \<open>The world at each read with the time the read takes; the clock, in nanoseconds.\<close>

record sweep_env =
  sw_world :: "nat \<Rightarrow> proc_world"
  sw_delay :: "nat \<Rightarrow> nat"

record sweep =
  sw_reads :: nat
  sw_now :: duration
  sw_sent :: "signal list"

definition POLL :: duration where "POLL = from_millis 40"

definition read_members :: "sweep_env \<Rightarrow> session_tree \<Rightarrow> sweep \<Rightarrow> (proc_error, nat set) result \<times> sweep" where
  "read_members env t s = (members t (sw_world env (sw_reads s)),
     s\<lparr>sw_reads := Suc (sw_reads s), sw_now := sw_now s + sw_delay env (sw_reads s)\<rparr>)"

text \<open>A pid that is no \<open>pid_t\<close> is not signalled.\<close>

definition send :: "(nat \<Rightarrow> signal) \<Rightarrow> nat set \<Rightarrow> sweep \<Rightarrow> sweep" where
  "send mk pids s = s\<lparr>sw_sent := sw_sent s @ map mk (filter (\<lambda>p. p \<le> 2 ^ 31 - 1) (sorted_list_of_set pids))\<rparr>"

text \<open>\<open>settle\<close> with its deadline: the members left when it came, or none.\<close>

function settle_tree_until :: "sweep_env \<Rightarrow> session_tree \<Rightarrow> duration \<Rightarrow> sweep \<Rightarrow> (proc_error, nat set option) result \<times> sweep" where
  "settle_tree_until env t deadline s = (case read_members env t s of
     (Inl e, s') \<Rightarrow> (Err e, s')
   | (Inr remaining, s') \<Rightarrow>
       if remaining = {} then (Ok None, s')
       else if deadline \<le> sw_now s' then (Ok (Some remaining), s')
       else settle_tree_until env t deadline (s'\<lparr>sw_now := sw_now s' + POLL\<rparr>))"
  by pat_completeness auto

termination settle_tree_until
  by (relation "measure (\<lambda>(env, t, deadline, s). deadline - sw_now s)")
    (auto simp: read_members_def POLL_def from_millis_def)

declare settle_tree_until.simps [simp del]

definition settle_tree :: "sweep_env \<Rightarrow> session_tree \<Rightarrow> duration \<Rightarrow> sweep \<Rightarrow> (proc_error, nat set option) result \<times> sweep" where
  "settle_tree env t budget s = settle_tree_until env t (sw_now s + budget) s"

record swept =
  tm_emptied :: bool
  tm_signalled :: "nat set"
  tm_killed :: "nat set"
  tm_survivors :: "nat set"
  tm_took :: duration

text \<open>The repeated \<open>SIGKILL\<close> pass.\<close>

partial_function (option) kill_loop :: "sweep_env \<Rightarrow> session_tree \<Rightarrow> escalation \<Rightarrow> duration \<Rightarrow> nat set \<Rightarrow> sweep
    \<Rightarrow> ((proc_error, nat set \<times> nat set) result \<times> sweep) option" where
  "kill_loop env t esc started killed s = (case settle_tree env t (force esc) s of
     (Inl e, s') \<Rightarrow> Some (Err e, s')
   | (Inr None, s') \<Rightarrow> Some (Ok ({}, killed), s')
   | (Inr (Some remaining), s') \<Rightarrow>
       if grace esc + force esc \<le> sw_now s' - started then Some (Ok (remaining, killed), s')
       else kill_loop env t esc started (killed \<union> remaining) (send SigKill remaining s'))"

definition terminate :: "sweep_env \<Rightarrow> session_tree \<Rightarrow> escalation \<Rightarrow> sweep \<Rightarrow> ((proc_error, swept) result \<times> sweep) option" where
  "terminate env t esc s0 = (case read_members env t s0 of
     (Inl e, s) \<Rightarrow> Some (Err e, s)
   | (Inr pids, s) \<Rightarrow> (case settle_tree env t (grace esc) (send SigTerm pids s) of
       (Inl e, s') \<Rightarrow> Some (Err e, s')
     | (Inr None, s') \<Rightarrow> Some (Ok \<lparr>tm_emptied = True, tm_signalled = pids, tm_killed = {}, tm_survivors = {}, tm_took = sw_now s' - sw_now s0\<rparr>, s')
     | (Inr (Some remaining), s') \<Rightarrow>
         (case kill_loop env t esc (sw_now s0) remaining (send SigKill remaining s') of
            None \<Rightarrow> None
          | Some (Inl e, s'') \<Rightarrow> Some (Err e, s'')
          | Some (Inr (survivors, killed), s'') \<Rightarrow> Some (Ok \<lparr>tm_emptied = (survivors = {}), tm_signalled = pids, tm_killed = killed,
               tm_survivors = survivors, tm_took = sw_now s'' - sw_now s0\<rparr>, s''))))"

definition sweep_start :: "duration \<Rightarrow> sweep" where
  "sweep_start now = \<lparr>sw_reads = 0, sw_now = now, sw_sent = []\<rparr>"

section \<open>Cgroups and descendants\<close>

fun below_cgroup :: "cgroup \<Rightarrow> nat set" where
  "below_cgroup (Cgroup procs dirs) = procs_of procs \<union> (\<Union>d\<in>set dirs. below_cgroup d)"

lemma cgroup_walk_all: "cgroup_walk pending found = found \<union> (\<Union>g\<in>set pending. below_cgroup g)"
  by (induction pending found rule: cgroup_walk.induct) auto

text \<open>The walk over the directories finds exactly the processes of the cgroup and all cgroups below it.\<close>

theorem cgroup_members_are_all_below: "cgroup_members g = below_cgroup g"
  by (simp add: cgroup_members_def cgroup_walk_all)

definition child_of :: "(nat \<times> nat) list \<Rightarrow> (nat \<times> nat) set" where
  "child_of ps = {(p, c). (c, p) \<in> set ps}"

lemma adopt_step: "adopt ps found = found \<Longrightarrow> (p, c) \<in> child_of ps \<Longrightarrow> p \<in> found \<Longrightarrow> c \<in> found"
proof (induction ps arbitrary: found)
  case (Cons q ps)
  obtain a b where q: "q = (a, b)" by (cases q)
  let ?f = "if b \<in> found then insert a found else found"
  from Cons.prems(1) have f: "adopt ps ?f = found" by (simp add: q)
  with adopt_grows [of ?f ps] have "?f = found" by (auto split: if_splits)
  with Cons f q show ?case by (auto simp: child_of_def split: if_splits)
qed (simp add: child_of_def)

lemma adopt_sound: "adopt ps found \<subseteq> (child_of ps)\<^sup>* `` found"
proof (induction ps arbitrary: found)
  case (Cons q ps)
  obtain c p where q: "q = (c, p)" by (cases q)
  let ?f = "if p \<in> found then insert c found else found" and ?R = "(child_of (q # ps))\<^sup>*"
  have "?f \<subseteq> ?R `` found" by (auto simp: q child_of_def)
  moreover have "(child_of ps)\<^sup>* \<subseteq> ?R" by (rule rtrancl_mono) (auto simp: child_of_def)
  ultimately have "(child_of ps)\<^sup>* `` ?f \<subseteq> ?R `` found" by (blast intro: rtrancl_trans)
  with Cons.IH [of ?f] show ?case by (simp add: q subset_trans)
qed (auto intro: rtrancl_refl)

lemma close_over_closure: "finite found \<Longrightarrow> close_over ps found = (child_of ps)\<^sup>* `` found"
proof (induction ps found rule: close_over.induct)
  case (1 ps found)
  let ?next = "adopt ps found"
  have fin: "finite ?next" using 1(2) adopt_grows [of found ps] by (meson finite_Un finite_imageI finite_subset finite_set)
  show ?case
  proof (cases "card ?next = card found")
    case True
    then have same: "?next = found" using adopt_grows [of found ps] fin by (metis card_subset_eq)
    have "(child_of ps)\<^sup>* `` found \<subseteq> found"
    proof
      fix c assume "c \<in> (child_of ps)\<^sup>* `` found"
      then obtain p where "(p, c) \<in> (child_of ps)\<^sup>*" "p \<in> found" by blast
      then show "c \<in> found" by (induction rule: rtrancl_induct) (auto dest: adopt_step [OF same])
    qed
    then have "(child_of ps)\<^sup>* `` found = found" by blast
    with same show ?thesis by (simp add: close_over.simps [of ps found])
  next
    case False
    have "(child_of ps)\<^sup>* `` ?next = (child_of ps)\<^sup>* `` found"
      using adopt_sound [of ps found] adopt_grows [of found ps] by (blast intro: rtrancl_trans)
    with False 1(1) [OF refl False fin] show ?thesis by (simp add: close_over.simps [of ps found])
  qed
qed

text \<open>
  Repeated passes over one snapshot of \<open>/proc\<close> find exactly the process and everything that
  descends from it in the snapshot.
\<close>

theorem descendants_are_the_closure:
  "descendants entries pid = {c. (pid, c) \<in> (child_of (parents_of entries))\<^sup>*}"
  by (auto simp: descendants_def close_over_closure)

section \<open>Whom the sweep spares\<close>

definition spares :: "session_tree \<Rightarrow> nat set \<Rightarrow> bool" where
  "spares t pids \<longleftrightarrow> pids \<inter> ({0, 1, st_own t} \<union> st_protected t) = {}"

definition spared_log :: "session_tree \<Rightarrow> sweep \<Rightarrow> bool" where
  "spared_log t s \<longleftrightarrow> spares t (signal_pid ` set (sw_sent s))"

lemma members_spared: "members t w = Ok pids \<Longrightarrow> spares t pids"
  by (auto simp: members_def spares_def split: tree_source.splits option.splits)

lemma read_spared: "read_members env t s = (Ok pids, s') \<Longrightarrow> spares t pids \<and> sw_sent s' = sw_sent s"
  by (auto simp: read_members_def dest: members_spared)

lemma settle_until_spared:
  "settle_tree_until env t deadline s = (r, s') \<Longrightarrow> sw_sent s' = sw_sent s \<and> sw_now s \<le> sw_now s' \<and>
     (\<forall>left. r = Ok (Some left) \<longrightarrow> spares t left \<and> deadline \<le> sw_now s')"
proof (induction env t deadline s rule: settle_tree_until.induct)
  case (1 env t deadline s)
  obtain q s1 where r: "read_members env t s = (q, s1)" by (cases "read_members env t s")
  then have s1: "sw_sent s1 = sw_sent s" "sw_now s \<le> sw_now s1" by (auto simp: read_members_def)
  show ?case
  proof (cases q)
    case (Inl e)
    with 1(2) r s1 show ?thesis by (auto simp: settle_tree_until.simps [of env t deadline s])
  next
    case (Inr left)
    then have sp: "spares t left" using r read_spared by blast
    show ?thesis
    proof (cases "left = {} \<or> deadline \<le> sw_now s1")
      case True
      with 1(2) r s1 Inr sp show ?thesis by (auto simp: settle_tree_until.simps [of env t deadline s] split: if_splits)
    next
      case False
      with 1(2) r Inr have "settle_tree_until env t deadline (s1\<lparr>sw_now := sw_now s1 + POLL\<rparr>) = (r, s')"
        by (simp add: settle_tree_until.simps [of env t deadline s])
      from 1(1) [OF r [symmetric] Inr _ _ this] False s1 show ?thesis by auto
    qed
  qed
qed

lemma settle_spared:
  "settle_tree env t budget s = (r, s') \<Longrightarrow> sw_sent s' = sw_sent s \<and> sw_now s \<le> sw_now s' \<and>
     (\<forall>left. r = Ok (Some left) \<longrightarrow> spares t left \<and> sw_now s + budget \<le> sw_now s')"
  unfolding settle_tree_def by (rule settle_until_spared)

lemma send_sent: "sw_sent (send mk pids s) = sw_sent s @ map mk (filter (\<lambda>p. p \<le> 2 ^ 31 - 1) (sorted_list_of_set pids))"
  "sw_now (send mk pids s) = sw_now s"
  by (simp_all add: send_def)

lemma spared_send: "(\<And>p. signal_pid (mk p) = p) \<Longrightarrow> spared_log t s \<Longrightarrow> spares t pids \<Longrightarrow> spared_log t (send mk pids s)"
proof -
  assume mk: "\<And>p. signal_pid (mk p) = p" and "spared_log t s" "spares t pids"
  moreover have "set (sorted_list_of_set pids) \<subseteq> pids"
    by (cases "finite pids") simp_all
  ultimately show ?thesis by (auto simp: spared_log_def spares_def send_sent mk)
qed

text \<open>
  By the time the first settle after the kill has seen its deadline, both budgets have passed:
  the loop takes no second turn.
\<close>

lemma kill_loop_once:
  assumes "started + grace esc \<le> sw_now s"
  shows "kill_loop env t esc started killed s = (case settle_tree env t (force esc) s of
     (Inl e, s') \<Rightarrow> Some (Err e, s')
   | (Inr None, s') \<Rightarrow> Some (Ok ({}, killed), s')
   | (Inr (Some remaining), s') \<Rightarrow> Some (Ok (remaining, killed), s'))"
proof -
  obtain r s' where r: "settle_tree env t (force esc) s = (r, s')" by (cases "settle_tree env t (force esc) s")
  from settle_spared [OF r] assms have "r = Ok (Some left) \<Longrightarrow> grace esc + force esc \<le> sw_now s' - started" for left by auto
  then show ?thesis using r by (subst kill_loop.simps) (auto split: sum.split option.split)
qed

text \<open>The escalation without the loop.\<close>

definition terminate_once :: "sweep_env \<Rightarrow> session_tree \<Rightarrow> escalation \<Rightarrow> sweep \<Rightarrow> (proc_error, swept) result \<times> sweep" where
  "terminate_once env t esc s0 = (case read_members env t s0 of
     (Inl e, s) \<Rightarrow> (Err e, s)
   | (Inr pids, s) \<Rightarrow> (case settle_tree env t (grace esc) (send SigTerm pids s) of
       (Inl e, s') \<Rightarrow> (Err e, s')
     | (Inr None, s') \<Rightarrow> (Ok \<lparr>tm_emptied = True, tm_signalled = pids, tm_killed = {}, tm_survivors = {}, tm_took = sw_now s' - sw_now s0\<rparr>, s')
     | (Inr (Some remaining), s') \<Rightarrow> (case settle_tree env t (force esc) (send SigKill remaining s') of
         (Inl e, s'') \<Rightarrow> (Err e, s'')
       | (Inr left, s'') \<Rightarrow> (Ok \<lparr>tm_emptied = (left = None), tm_signalled = pids, tm_killed = remaining,
             tm_survivors = (case left of None \<Rightarrow> {} | Some l \<Rightarrow> l), tm_took = sw_now s'' - sw_now s0\<rparr>, s''))))"

lemma settle_some: "settle_tree_until env t deadline s = (Ok (Some left), s') \<Longrightarrow> left \<noteq> {}"
proof (induction env t deadline s rule: settle_tree_until.induct)
  case (1 env t deadline s)
  then show ?case by (simp add: settle_tree_until.simps [of env t deadline s] split: prod.splits sum.splits if_splits)
qed

lemma terminate_is_once: "terminate env t esc s0 = Some (terminate_once env t esc s0)"
proof -
  obtain q s where r: "read_members env t s0 = (q, s)" by (cases "read_members env t s0")
  then have s: "sw_now s0 \<le> sw_now s" by (auto simp: read_members_def)
  show ?thesis
  proof (cases q)
    case (Inl e)
    with r show ?thesis by (simp add: terminate_def terminate_once_def)
  next
    case (Inr pids)
    obtain q' s' where g: "settle_tree env t (grace esc) (send SigTerm pids s) = (q', s')"
      by (cases "settle_tree env t (grace esc) (send SigTerm pids s)")
    consider (e) e where "q' = Err e" | (n) "q' = Ok None" | (some) left where "q' = Ok (Some left)"
      by (cases q'; cases "projr q'") auto
    then show ?thesis
    proof cases
      case some
      let ?k = "send SigKill left s'"
      have "sw_now s0 + grace esc \<le> sw_now ?k" using settle_spared [OF g] s some by (auto simp: send_sent)
      note k = kill_loop_once [OF this, of env t left]
      obtain f s'' where f: "settle_tree env t (force esc) ?k = (f, s'')" by (cases "settle_tree env t (force esc) ?k")
      consider (fe) e where "f = Err e" | (fn) "f = Ok None" | (fl) l where "f = Ok (Some l)" "l \<noteq> {}"
        using f settle_some by (cases f; cases "projr f") (auto simp: settle_tree_def)
      then show ?thesis
        by cases (use r Inr g some k f in \<open>simp_all add: terminate_def terminate_once_def\<close>)
    qed (use r Inr g in \<open>simp_all add: terminate_def terminate_once_def\<close>)
  qed
qed

lemma sent_distinct: "distinct (map SigTerm (filter p (sorted_list_of_set a)) @ map SigKill (filter q (sorted_list_of_set b)))"
  by (auto simp: distinct_map inj_on_def)

lemma once_distinct: "distinct (sw_sent (snd (terminate_once env t esc \<lparr>sw_reads = n, sw_now = now, sw_sent = []\<rparr>)))"
proof -
  let ?s0 = "\<lparr>sw_reads = n, sw_now = now, sw_sent = []\<rparr>"
  obtain q s where r: "read_members env t ?s0 = (q, s)" by (cases "read_members env t ?s0")
  then have s: "sw_sent s = []" by (auto simp: read_members_def)
  show ?thesis
  proof (cases q)
    case (Inl e)
    with r s show ?thesis by (simp add: terminate_once_def)
  next
    case (Inr pids)
    obtain q' s' where g: "settle_tree env t (grace esc) (send SigTerm pids s) = (q', s')"
      by (cases "settle_tree env t (grace esc) (send SigTerm pids s)")
    have s': "sw_sent s' = map SigTerm (filter (\<lambda>p. p \<le> 2 ^ 31 - 1) (sorted_list_of_set pids))"
      using settle_spared [OF g] s by (simp add: send_sent)
    consider (e) e where "q' = Err e" | (n) "q' = Ok None" | (some) left where "q' = Ok (Some left)"
      by (cases q'; cases "projr q'") auto
    then show ?thesis
    proof cases
      case some
      obtain f s'' where f: "settle_tree env t (force esc) (send SigKill left s') = (f, s'')"
        by (cases "settle_tree env t (force esc) (send SigKill left s')")
      from settle_spared [OF f] s' have "distinct (sw_sent s'')" by (simp only: send_sent sent_distinct)
      with r Inr g some f show ?thesis by (cases f) (simp_all add: terminate_once_def)
    qed (use r Inr g s' in \<open>simp_all add: terminate_once_def distinct_map inj_on_def\<close>)
  qed
qed

text \<open>
  C11. Emptying a tree always ends, whatever the processes do, and is one \<open>SIGTERM\<close> pass, one wait,
  one \<open>SIGKILL\<close> pass and one wait, in which no process gets the same signal twice: the loop
  written to repeat the last pass never does.
\<close>

theorem terminate_ends_after_one_kill:
  "terminate env t esc (sweep_start now) = Some (terminate_once env t esc (sweep_start now))
   \<and> distinct (sw_sent (snd (terminate_once env t esc (sweep_start now))))"
  unfolding sweep_start_def using terminate_is_once once_distinct by blast

lemma terminate_spared:
  assumes "spared_log t s0"
  shows "spared_log t (snd (terminate_once env t esc s0))"
proof -
  obtain q s where r: "read_members env t s0 = (q, s)" by (cases "read_members env t s0")
  show ?thesis
  proof (cases q)
    case (Inl e)
    with r assms show ?thesis by (auto simp: terminate_once_def read_members_def spared_log_def)
  next
    case (Inr pids)
    with read_spared [of env t s0 pids s] r assms have 1: "spared_log t (send SigTerm pids s)"
      by (intro spared_send) (auto simp: spared_log_def)
    obtain q' s' where g: "settle_tree env t (grace esc) (send SigTerm pids s) = (q', s')" by (metis surj_pair)
    from settle_spared [OF g] 1 have 2: "spared_log t s'" by (simp add: spared_log_def)
    consider (e) e where "q' = Err e" | (n) "q' = Ok None" | (some) left where "q' = Ok (Some left)"
      by (cases q'; cases "projr q'") auto
    then show ?thesis
    proof cases
      case some
      let ?k = "send SigKill left s'"
      have 3: "spared_log t ?k" using settle_spared [OF g] 2 some by (intro spared_send) auto
      obtain f s'' where f: "settle_tree env t (force esc) ?k = (f, s'')" by (cases "settle_tree env t (force esc) ?k")
      from settle_spared [OF f] 3 have "spared_log t s''" by (simp add: spared_log_def)
      with r Inr g some f show ?thesis by (simp add: terminate_once_def split: sum.split)
    qed (use r Inr g 2 in \<open>simp_all add: terminate_once_def\<close>)
  qed
qed

text \<open>
  C12. No signal ever goes to pid 0 or 1, to the supervisor itself, or to a protected process (the
  stock software), whatever the trees that were read contain.
\<close>

theorem sweep_spares_the_protected:
  assumes "terminate env t esc (sweep_start now) = Some (r, s)" and "p = 0 \<or> p = 1 \<or> p = st_own t \<or> p \<in> st_protected t"
  shows "SigTerm p \<notin> set (sw_sent s) \<and> SigKill p \<notin> set (sw_sent s)"
proof -
  have "spared_log t (sweep_start now)" by (simp add: spared_log_def spares_def sweep_start_def)
  from terminate_spared [OF this, of env esc] assms(1) have "spared_log t s" by (simp add: terminate_is_once)
  then have "signal_pid ` set (sw_sent s) \<inter> ({0, 1, st_own t} \<union> st_protected t) = {}" by (simp only: spared_log_def spares_def)
  with assms(2) have "p \<notin> signal_pid ` set (sw_sent s)" by blast
  then show ?thesis by (metis image_eqI signal_pid.simps)
qed

lemma pids_written: "\<forall>n\<in>set ns. n \<le> u32_max \<Longrightarrow> pids_in (write_lines (map show_nat ns)) = set ns"
proof -
  assume "\<forall>n\<in>set ns. n \<le> u32_max"
  then have "List.map_filter (\<lambda>l. parse_uint u32_max (trim l)) (map show_nat ns) = ns"
    by (induction ns) (simp_all add: List.map_filter_simps parse_show_nat)
  then show ?thesis unfolding pids_in_def by (subst lines_written) simp_all
qed

text \<open>A cgroup with some processes first and others from the third read on; each read takes ten seconds.\<close>

definition forking :: "nat list \<Rightarrow> nat list \<Rightarrow> sweep_env" where
  "forking early late = \<lparr>sw_world = \<lambda>n. \<lparr>pw_entries = None, pw_cgroup = Cgroup (Some (write_lines (map show_nat (if n < 2 then early else late)))) []\<rparr>,
     sw_delay = \<lambda>_. from_secs 10\<rparr>"

definition sample_tree :: session_tree where
  "sample_tree = \<lparr>st_source = InCgroup, st_protected = {3}, st_own = 7\<rparr>"

definition sample_escalation :: escalation where
  "sample_escalation = \<lparr>grace = from_secs 5, force = from_secs 2\<rparr>"

lemma forking_runs:
  assumes "\<forall>n\<in>set early \<union> set late. n \<le> u32_max" and "spares sample_tree (set early \<union> set late)" and "early \<noteq> []" and "late \<noteq> []"
  shows "terminate (forking early late) sample_tree sample_escalation (sweep_start 0) =
    Some (Ok \<lparr>tm_emptied = False, tm_signalled = set early, tm_killed = set early, tm_survivors = set late, tm_took = from_secs 30\<rparr>,
      \<lparr>sw_reads = 3, sw_now = from_secs 30, sw_sent = map SigTerm (filter (\<lambda>p. p \<le> 2 ^ 31 - 1) (sorted_list_of_set (set early)))
         @ map SigKill (filter (\<lambda>p. p \<le> 2 ^ 31 - 1) (sorted_list_of_set (set early)))\<rparr>)"
proof -
  have gt: "(Suc 0 < x) = (x \<noteq> 0 \<and> x \<noteq> Suc 0)" for x by auto
  have m: "members sample_tree (sw_world (forking early late) n) = Ok (set (if n < 2 then early else late))" for n
    using assms(1,2) by (auto simp: members_def sample_tree_def forking_def cgroup_members_def procs_of_def pids_written spares_def gt intro: gr0I)
  have d: "sw_delay (forking early late) n = from_secs 10" for n by (simp add: forking_def)
  show ?thesis
    using assms(3,4) by (simp add: terminate_is_once terminate_once_def read_members_def settle_tree_def settle_tree_until.simps m d sweep_start_def send_def
        sample_escalation_def from_secs_def)
qed

text \<open>
  So a process that appears after the \<open>SIGKILL\<close> pass, which the second pass is there for, is
  never signalled, and is reported as a survivor.
\<close>

theorem late_child_is_not_killed:
  "\<exists>r s. terminate (forking [5] [9]) sample_tree sample_escalation (sweep_start 0) = Some (Ok r, s)
     \<and> tm_survivors r = {9} \<and> sw_sent s = [SigTerm 5, SigKill 5]"
  using forking_runs [of "[5]" "[9]"] by (simp add: spares_def sample_tree_def)

theorem sweep_spares_the_protected_witness:
  "\<exists>s. (\<exists>r. terminate (forking [5] [9]) sample_tree sample_escalation (sweep_start 0) = Some (r, s))
     \<and> SigKill 5 \<in> set (sw_sent s) \<and> SigTerm 3 \<notin> set (sw_sent s) \<and> SigKill 3 \<notin> set (sw_sent s)"
proof -
  obtain r s where run: "terminate (forking [5] [9]) sample_tree sample_escalation (sweep_start 0) = Some (Ok r, s)"
    and log: "sw_sent s = [SigTerm 5, SigKill 5]"
    using forking_runs [of "[5]" "[9]"] by (simp add: spares_def sample_tree_def)
  from sweep_spares_the_protected [OF run, of 3] log run show ?thesis by (auto simp: sample_tree_def)
qed

end
