(* ===== verification/Stock.thy ===== *)
theory Stock
  imports Transaction
begin

text \<open>
  Stopping and restoring the stock software without ever letting its unit fail
  (\<open>platform/device/src/stock.rs\<close>) and the locks a session takes (\<open>session.rs\<close>). The tablet is
  what these operations change: the unit, systemd's start limiter, the shared record of
  starts, the kernel wakelocks, the two vendor lock files, and the detached watchdog of
  \<open>takeover.rs\<close>. A process can be killed between any two of the operations, which is what a
  cut of a program is here. What systemd and the file system answer is asked of
  \<open>tablet_env\<close>. The texts of errors are reduced to the values they show.
\<close>

section \<open>The tablet\<close>

definition START_LIMIT_WINDOW :: nat where "START_LIMIT_WINDOW = 600"
definition START_LIMIT_BURST :: nat where "START_LIMIT_BURST = 4"
definition START_BUDGET :: nat where "START_BUDGET = 3"
definition RESTORE_TIMEOUT :: duration where "RESTORE_TIMEOUT = from_secs 25"

record tablet =
  tb_active :: bool
  tb_limiter :: nat
  tb_stranded :: bool
  tb_starts :: "string option"
  tb_wake :: "string list"
  tb_registry :: "string option"
  tb_epd :: bool
  tb_guard :: "nat option"
  tb_found :: "string option list"

datatype tablet_event =
    StopUnit
  | ResetFailed
  | StartUnit bool
  | WriteStarts string
  | TakeWake string
  | DropWake string
  | WriteRegistry string
  | RemoveRegistry
  | RemoveEpd
  | ArmGuard nat
  | KillGuard

text \<open>
  A start past the burst limit fails the unit, which is what strands the tablet; otherwise
  the environment decides whether the start brings the unit up. What each start found in the
  vendor registry is kept in \<open>tb_found\<close>: the stock that starts reads it at once.
\<close>

fun put_tablet :: "tablet \<Rightarrow> tablet_event \<Rightarrow> tablet" where
  "put_tablet d StopUnit = d\<lparr>tb_active := False\<rparr>"
| "put_tablet d ResetFailed = d\<lparr>tb_limiter := 0\<rparr>"
| "put_tablet d (StartUnit up) = (if START_LIMIT_BURST \<le> tb_limiter d
     then d\<lparr>tb_stranded := True, tb_active := False, tb_found := tb_found d @ [tb_registry d]\<rparr>
     else d\<lparr>tb_limiter := Suc (tb_limiter d), tb_active := up, tb_found := tb_found d @ [tb_registry d]\<rparr>)"
| "put_tablet d (WriteStarts t) = d\<lparr>tb_starts := Some t\<rparr>"
| "put_tablet d (TakeWake t) = d\<lparr>tb_wake := List.insert t (tb_wake d)\<rparr>"
| "put_tablet d (DropWake t) = d\<lparr>tb_wake := removeAll t (tb_wake d)\<rparr>"
| "put_tablet d (WriteRegistry t) = d\<lparr>tb_registry := Some t\<rparr>"
| "put_tablet d RemoveRegistry = d\<lparr>tb_registry := None\<rparr>"
| "put_tablet d RemoveEpd = d\<lparr>tb_epd := False\<rparr>"
| "put_tablet d (ArmGuard n) = d\<lparr>tb_guard := Some n\<rparr>"
| "put_tablet d KillGuard = d\<lparr>tb_guard := None\<rparr>"

datatype device_error =
    DeviceIo string
  | NotHealthy
  | BudgetSpent nat
  | RestartsLeft nat
  | DidNotComeBack
  | EpdVanished
  | NotConfirmedFree "device_error option"
  | BadTag string
  | DisplayBusy string
  | BlankFrame
  | Refused string

record stock_health =
  sh_active :: bool
  sh_pid :: "nat option"
  sh_failed :: "string list"
  sh_home :: bool
  sh_notebooks :: "nat option"
  sh_restarts :: "nat option"
  sh_main_start :: "string option"

text \<open>
  The answers: whether an operation works (\<open>te_io\<close>), whether the record can be read, whether \<open>reset-failed\<close> had an effect, whether
  a start brings the unit up, whether the clock has passed a deadline, what another process
  has written to the registry since, the process of the unit, and the readings of its health.
\<close>

record tablet_env =
  te_io :: "nat \<Rightarrow> io_answer"
  te_reads :: "nat \<Rightarrow> bool"
  te_resets :: "nat \<Rightarrow> bool"
  te_up :: "nat \<Rightarrow> bool"
  te_late :: "nat \<Rightarrow> bool"
  te_foreign :: "nat \<Rightarrow> string option"
  te_pid :: "nat \<Rightarrow> nat option"
  te_health :: "nat \<Rightarrow> stock_health"

type_synonym 'a tablet_tx = "(tablet, tablet_event, device_error, 'a) tx"

abbreviation tb_write :: "tablet_env \<Rightarrow> string \<Rightarrow> tablet_event \<Rightarrow> unit tablet_tx" where
  "tb_write env what w \<equiv> tx_io put_tablet (te_io env) (DeviceIo what) w"

abbreviation tb_probe :: "tablet_env \<Rightarrow> string \<Rightarrow> unit tablet_tx" where
  "tb_probe env what \<equiv> tx_probe (te_io env) (DeviceIo what)"

abbreviation tb_then :: "('d, 'e, 'x, 'b) tx \<Rightarrow> ('d, 'e, 'x, 'a) tx \<Rightarrow> ('d, 'e, 'x, 'a) tx" where
  "tb_then m k \<equiv> tx_bind m (\<lambda>_. k)"

section \<open>The service\<close>

definition is_active :: "tablet_env \<Rightarrow> bool tablet_tx" where
  "is_active env = tb_then (tb_probe env ''run systemctl for'') (tx_get tb_active)"

definition stop_unit :: "tablet_env \<Rightarrow> unit tablet_tx" where
  "stop_unit env = tb_write env ''run systemctl for'' StopUnit"

text \<open>Only running \<open>systemctl\<close> can fail here; what it reports is discarded.\<close>

definition reset_failed :: "tablet_env \<Rightarrow> unit tablet_tx" where
  "reset_failed env = tb_then (tb_probe env ''run systemctl for'')
     (tx_bind (tx_ask (te_resets env)) (\<lambda>r. if r then tx_emit put_tablet ResetFailed else tx_ok ()))"

text \<open>
  Another process may have written the registry: what a session ran, or the stock software,
  which claims it early in its own start.
\<close>

definition foreign_write :: "tablet_env \<Rightarrow> unit tablet_tx" where
  "foreign_write env = tx_bind (tx_ask (te_foreign env)) (\<lambda>f. case f of
     None \<Rightarrow> tx_ok () | Some c \<Rightarrow> tx_emit put_tablet (WriteRegistry c))"

definition start_unit :: "tablet_env \<Rightarrow> unit tablet_tx" where
  "start_unit env = tb_then (tb_probe env ''run systemctl for'')
     (tx_bind (tx_ask (te_up env)) (\<lambda>up. tb_then (tx_emit put_tablet (StartUnit up)) (foreign_write env)))"

definition wait_active :: "tablet_env \<Rightarrow> bool tablet_tx" where
  "wait_active env = is_active env"

section \<open>The start record\<close>

definition stamps_in :: "string \<Rightarrow> nat list" where
  "stamps_in contents = List.map_filter (\<lambda>l. parse_uint u64_max (trim l)) (lines contents)"

definition within_window :: "nat \<Rightarrow> nat \<Rightarrow> bool" where
  "within_window now stamp \<longleftrightarrow> now - stamp < START_LIMIT_WINDOW"

text \<open>A record that cannot be read counts nothing.\<close>

definition recent_in :: "nat \<Rightarrow> string option \<Rightarrow> nat" where
  "recent_in now file = (case file of None \<Rightarrow> 0
     | Some contents \<Rightarrow> length (filter (within_window now) (stamps_in contents)))"

definition readable :: "tablet_env \<Rightarrow> string option tablet_tx" where
  "readable env = tx_bind (tx_ask (te_reads env)) (\<lambda>r. tx_get (\<lambda>d. if r then tb_starts d else None))"

definition recent :: "tablet_env \<Rightarrow> nat \<Rightarrow> nat tablet_tx" where
  "recent env now = tx_bind (readable env) (\<lambda>file. tx_ok (recent_in now file))"

definition record_text :: "nat \<Rightarrow> string option \<Rightarrow> string" where
  "record_text now file = write_lines (map show_nat
     (filter (within_window now) (stamps_in (case file of None \<Rightarrow> [] | Some c \<Rightarrow> c)) @ [now]))"

definition record_start :: "tablet_env \<Rightarrow> nat \<Rightarrow> unit tablet_tx" where
  "record_start env now = tx_bind (readable env) (\<lambda>file. tb_write env ''write to'' (WriteStarts (record_text now file)))"

definition allows_session :: "tablet_env \<Rightarrow> nat \<Rightarrow> unit tablet_tx" where
  "allows_session env now = tx_bind (recent env now) (\<lambda>n. if START_BUDGET \<le> n then tx_err (BudgetSpent n) else tx_ok ())"

section \<open>Health\<close>

datatype regression =
    NotActive
  | HomeUnmounted
  | FailedUnits "string list"
  | NotebooksFell nat nat
  | Restarted nat nat nat

definition regressions_from :: "stock_health \<Rightarrow> stock_health \<Rightarrow> regression list" where
  "regressions_from after earlier =
     (if sh_active earlier \<and> \<not> sh_active after then [NotActive] else [])
   @ (if sh_home earlier \<and> \<not> sh_home after then [HomeUnmounted] else [])
   @ (if sh_failed after \<noteq> [] then [FailedUnits (sh_failed after)] else [])
   @ (case (sh_notebooks earlier, sh_notebooks after) of (Some b, Some a) \<Rightarrow> if a < b then [NotebooksFell b a] else [] | _ \<Rightarrow> [])
   @ (case (sh_restarts earlier, sh_restarts after) of (Some b, Some a) \<Rightarrow> if b < a then [Restarted (a - b) b a] else [] | _ \<Rightarrow> [])"

definition is_healthy :: "stock_health \<Rightarrow> bool" where
  "is_healthy h \<longleftrightarrow> sh_active h \<and> sh_home h \<and> sh_failed h = []"

definition restarts_remaining :: "stock_health \<Rightarrow> nat option" where
  "restarts_remaining h = map_option (\<lambda>used. START_LIMIT_BURST - used) (sh_restarts h)"

definition allows_takeover :: "stock_health \<Rightarrow> (device_error, unit) result" where
  "allows_takeover h = (case restarts_remaining h of None \<Rightarrow> Ok ()
     | Some r \<Rightarrow> if r \<le> 2 then Err (RestartsLeft r) else Ok ())"

section \<open>Stopping and restoring\<close>

text \<open>Gives whether this code stopped the unit and owes it a restore.\<close>

definition stop_for_session :: "tablet_env \<Rightarrow> nat \<Rightarrow> bool tablet_tx" where
  "stop_for_session env now = tb_then (allows_session env now)
     (tx_bind (is_active env) (\<lambda>active. if \<not> active then tx_ok False
        else tb_then (stop_unit env) (tx_ok True)))"

definition start_once :: "tablet_env \<Rightarrow> nat \<Rightarrow> unit tablet_tx" where
  "start_once env now = tb_then (reset_failed env) (tb_then (record_start env now) (start_unit env))"

definition restore_stock :: "tablet_env \<Rightarrow> nat \<Rightarrow> unit tablet_tx" where
  "restore_stock env now = tx_bind (is_active env) (\<lambda>active. if active then tx_ok ()
     else tb_then (start_once env now) (tx_bind (wait_active env) (\<lambda>up. if up then tx_ok ()
       else tb_then (start_once env now) (tx_bind (wait_active env) (\<lambda>up. if up then tx_ok ()
         else tx_err DidNotComeBack)))))"

section \<open>Wakelocks and the vendor locks\<close>

definition WAKELOCK_TAG :: string where "WAKELOCK_TAG = ''paperclip-takeover''"

definition validate_tag :: "string \<Rightarrow> (device_error, string) result" where
  "validate_tag tag = (if tag = [] \<or> list_ex is_space tag then Err (BadTag tag) else Ok tag)"

definition acquire_wake :: "tablet_env \<Rightarrow> string \<Rightarrow> string tablet_tx" where
  "acquire_wake env tag = tx_bind (tx_lift (validate_tag tag)) (\<lambda>t. tb_then (tb_write env ''write to'' (TakeWake t)) (tx_ok t))"

text \<open>The destructor: what it says is discarded.\<close>

definition drop_wake :: "tablet_env \<Rightarrow> string \<Rightarrow> unit tablet_tx" where
  "drop_wake env tag = tx_try (tb_write env ''write to'' (DropWake tag))"

record vendor_locks =
  vl_registry :: "string option"
  vl_epd :: bool

definition capture_locks :: "tablet_env \<Rightarrow> vendor_locks tablet_tx" where
  "capture_locks env = tb_then (tb_probe env ''read'') (tx_get (\<lambda>d. \<lparr>vl_registry = tb_registry d, vl_epd = tb_epd d\<rparr>))"

definition restore_locks :: "tablet_env \<Rightarrow> vendor_locks \<Rightarrow> unit tablet_tx" where
  "restore_locks env l = tb_then
     (case vl_registry l of Some c \<Rightarrow> tb_write env ''write to'' (WriteRegistry c) | None \<Rightarrow> tb_write env ''remove'' RemoveRegistry)
     (tx_bind (tx_get tb_epd) (\<lambda>there. if vl_epd l \<and> \<not> there then tx_err EpdVanished else tx_ok ()))"

text \<open>A registry that cannot be read compares as a missing one.\<close>

definition locks_clear :: "tablet_env \<Rightarrow> vendor_locks \<Rightarrow> bool tablet_tx" where
  "locks_clear env l = tx_bind (tx_match (tb_probe env ''read'') (\<lambda>_. tx_ok None) (\<lambda>_. tx_get tb_registry))
     (\<lambda>current. tx_ok (current = vl_registry l))"

record lock_holder =
  lh_pid :: "int option"
  lh_process :: "string option"
  lh_hostname :: "string option"
  lh_machine :: "string option"
  lh_boot :: "string option"

text \<open>\<open>parse::<i32>\<close>: an optional sign and digits, within the range.\<close>

definition parse_i32 :: "string \<Rightarrow> int option" where
  "parse_i32 s = (if s \<noteq> [] \<and> hd s = CHR ''-''
     then (if tl s \<noteq> [] \<and> hd (tl s) = CHR ''+'' then None else map_option (\<lambda>n. - int n) (parse_uint (2 ^ 31) (tl s)))
     else map_option int (parse_uint (2 ^ 31 - 1) s))"

definition nth_line :: "string list \<Rightarrow> nat \<Rightarrow> string option" where
  "nth_line ls n = (if n < length ls then Some (ls ! n) else None)"

definition holder_parse :: "string \<Rightarrow> lock_holder" where
  "holder_parse contents = (let ls = filter (\<lambda>l. l \<noteq> []) (map trim (lines contents)) in
     \<lparr>lh_pid = Option.bind (nth_line ls 0) parse_i32, lh_process = nth_line ls 1, lh_hostname = nth_line ls 2,
      lh_machine = nth_line ls 3, lh_boot = nth_line ls 4\<rparr>)"

definition ascii_lower :: "char \<Rightarrow> char" where
  "ascii_lower c = (if 65 \<le> (of_char c :: nat) \<and> (of_char c :: nat) \<le> 90 then char_of (of_char c + (32 :: nat)) else c)"

definition from_another_boot :: "lock_holder \<Rightarrow> string \<Rightarrow> bool" where
  "from_another_boot h boot = (case lh_boot h of None \<Rightarrow> False
     | Some r \<Rightarrow> map ascii_lower r \<noteq> map ascii_lower (trim boot))"

definition show_i32 :: "int \<Rightarrow> string" where
  "show_i32 n = (if n < 0 then CHR ''-'' # show_nat (nat (- n)) else show_nat (nat n))"

definition describe_holder :: "lock_holder \<Rightarrow> string" where
  "describe_holder h = (case (lh_process h, lh_pid h) of
     (Some p, Some n) \<Rightarrow> p @ '' (pid '' @ show_i32 n @ '')''
   | (Some p, None) \<Rightarrow> p
   | (None, Some n) \<Rightarrow> ''pid '' @ show_i32 n
   | (None, None) \<Rightarrow> ''an unnamed holder'')"

definition ensure_free :: "lock_holder option \<Rightarrow> string \<Rightarrow> (device_error, unit) result" where
  "ensure_free holder boot = (case holder of None \<Rightarrow> Ok ()
     | Some h \<Rightarrow> if from_another_boot h boot then Ok () else Err (DisplayBusy (describe_holder h)))"

end
