(* ===== verification/Takeover.thy ===== *)
theory Takeover
  imports Stock
begin

text \<open>
  Taking the display from the stock software and giving it back
  (\<open>platform/device/src/takeover.rs\<close>), and the sessions around it (\<open>hold.rs\<close>). The destructors are
  written out where Rust runs them: dropping a \<open>Takeover\<close> drops the wakelock it still holds and
  the watchdog, and dropping the watchdog kills its guardian.
\<close>

section \<open>The watchdog\<close>

definition disarm :: "tablet_env \<Rightarrow> unit tablet_tx" where
  "disarm env = tx_bind (tx_get tb_guard) (\<lambda>g. if g = None then tx_ok () else tx_emit put_tablet KillGuard)"

definition arm :: "tablet_env \<Rightarrow> nat \<Rightarrow> unit tablet_tx" where
  "arm env budget = tb_then (disarm env) (tb_then (tb_probe env ''spawn a watchdog for'') (tx_emit put_tablet (ArmGuard budget)))"

text \<open>What the guardian does by itself when its time is up.\<close>

definition guard_fires :: "tablet_env \<Rightarrow> unit tablet_tx" where
  "guard_fires env =
     tb_then (tx_bind (tx_ask (te_resets env)) (\<lambda>r. if r then tx_emit put_tablet ResetFailed else tx_ok ()))
    (tb_then (tx_bind (tx_get tb_active) (\<lambda>active. if active then tx_ok ()
        else tx_bind (tx_ask (te_up env)) (\<lambda>up. tb_then (tx_emit put_tablet (StartUnit up)) (foreign_write env))))
    (tb_then (drop_wake env WAKELOCK_TAG) (tx_emit put_tablet KillGuard)))"

section \<open>Acquire and release\<close>

record takeover =
  tk_locks :: vendor_locks
  tk_owes :: bool

definition wait_until_safe_to_stop :: "stock_health \<Rightarrow> (device_error, unit) result" where
  "wait_until_safe_to_stop h = (if \<not> is_healthy h then Err NotHealthy else allows_takeover h)"

definition acquire_takeover :: "tablet_env \<Rightarrow> stock_health \<Rightarrow> (device_error, unit) result \<Rightarrow> nat \<Rightarrow> nat \<Rightarrow> takeover tablet_tx" where
  "acquire_takeover env health preflight budget now =
     tb_then (tx_lift (wait_until_safe_to_stop health))
    (tb_then (tx_lift preflight)
    (tx_bind (capture_locks env) (\<lambda>locks.
     tx_bind (acquire_wake env WAKELOCK_TAG) (\<lambda>tag.
     tx_match (arm env budget)
       (\<lambda>e. tb_then (drop_wake env tag) (tb_then (disarm env) (tx_err e)))
       (\<lambda>_. tx_match (stop_for_session env now)
          (\<lambda>e. tb_then (disarm env) (tb_then (drop_wake env tag) (tx_err e)))
          (\<lambda>owes. tx_ok \<lparr>tk_locks = locks, tk_owes = owes\<rparr>))))))"

text \<open>Five seconds in steps of a tenth: look 51 comes after the deadline whatever the clock says.\<close>

definition PANEL_FREE_POLLS :: nat where "PANEL_FREE_POLLS = 50"

fun wait_for_free_panel :: "tablet_env \<Rightarrow> vendor_locks \<Rightarrow> nat \<Rightarrow> bool tablet_tx" where
  "wait_for_free_panel env l n = tb_then (foreign_write env) (tx_bind (locks_clear env l) (\<lambda>clear.
     if clear then tx_ok True
     else tx_bind (tx_ask (te_late env)) (\<lambda>late. case n of
         0 \<Rightarrow> tx_ok False
       | Suc m \<Rightarrow> if late then tx_ok False else wait_for_free_panel env l m)))"

declare wait_for_free_panel.simps [simp del]

text \<open>
  \<open>release_inner\<close> gives its result and whether the wakelock is still in the \<open>Takeover\<close>. The
  first argument is why the locks could not be put back, if so.
\<close>

definition release_unfreed :: "tablet_env \<Rightarrow> device_error option \<Rightarrow> nat \<Rightarrow> ((device_error, unit) result \<times> bool) tablet_tx" where
  "release_unfreed env why now = tx_match (restore_stock env now)
     (\<lambda>e. tx_ok (Err e, True)) (\<lambda>_. tx_ok (Err (NotConfirmedFree why), True))"

definition release_inner :: "tablet_env \<Rightarrow> takeover \<Rightarrow> nat \<Rightarrow> ((device_error, unit) result \<times> bool) tablet_tx" where
  "release_inner env t now = tx_match (restore_locks env (tk_locks t))
     (\<lambda>e. release_unfreed env (Some e) now)
     (\<lambda>_. tx_bind (wait_for_free_panel env (tk_locks t) PANEL_FREE_POLLS) (\<lambda>freed.
        if \<not> freed then release_unfreed env None now
        else tx_match (restore_stock env now)
          (\<lambda>e. tb_then (drop_wake env WAKELOCK_TAG) (tx_ok (Err e, False)))
          (\<lambda>_. tb_then (drop_wake env WAKELOCK_TAG) (tb_then (disarm env) (tx_ok (Ok (), False))))))"

definition drop_takeover :: "tablet_env \<Rightarrow> bool \<Rightarrow> unit tablet_tx" where
  "drop_takeover env held = tb_then (if held then drop_wake env WAKELOCK_TAG else tx_ok ()) (disarm env)"

definition release_takeover :: "tablet_env \<Rightarrow> takeover \<Rightarrow> nat \<Rightarrow> unit tablet_tx" where
  "release_takeover env t now = tx_bind (release_inner env t now) (\<lambda>(r, held).
     tb_then (drop_takeover env held) (tx_lift r))"

section \<open>Sessions\<close>

record registry_check =
  rc_holder :: "int option"
  rc_unit :: "nat option"

definition registry_agrees :: "registry_check \<Rightarrow> bool" where
  "registry_agrees c = (case (rc_holder c, rc_unit c) of (Some h, Some u) \<Rightarrow> h = int u | _ \<Rightarrow> False)"

text \<open>Fifteen seconds in steps of a quarter.\<close>

definition REGISTRY_POLLS :: nat where "REGISTRY_POLLS = 60"

fun wait_for_registry :: "tablet_env \<Rightarrow> nat \<Rightarrow> registry_check tablet_tx" where
  "wait_for_registry env n = tb_then (foreign_write env)
     (tx_bind (tx_match (tb_probe env ''read'') (\<lambda>_. tx_ok None) (\<lambda>_. tx_get tb_registry)) (\<lambda>file.
     tx_bind (tx_ask (te_pid env)) (\<lambda>pid.
     tx_bind (tx_ask (te_late env)) (\<lambda>late.
     let check = \<lparr>rc_holder = Option.bind file (\<lambda>c. lh_pid (holder_parse c)), rc_unit = pid\<rparr>
     in if registry_agrees check \<or> late then tx_ok check
        else case n of 0 \<Rightarrow> tx_ok check | Suc m \<Rightarrow> wait_for_registry env m))))"

declare wait_for_registry.simps [simp del]

record panel_record =
  pr_real :: bool
  pr_digest :: string
  pr_holds :: "bool option"
  pr_lines :: "string list"

record hold_report =
  hr_before :: stock_health
  hr_after :: stock_health
  hr_panel :: panel_record
  hr_registry :: registry_check
  hr_regressions :: "regression list"

definition restored_cleanly :: "hold_report \<Rightarrow> bool" where
  "restored_cleanly r \<longleftrightarrow> hr_regressions r = [] \<and> is_healthy (hr_after r)"

definition WATCHDOG_MARGIN :: nat where "WATCHDOG_MARGIN = 120"

definition session_report :: "tablet_env \<Rightarrow> stock_health \<Rightarrow> panel_record \<Rightarrow> hold_report tablet_tx" where
  "session_report env earlier panel = tx_bind (wait_for_registry env REGISTRY_POLLS) (\<lambda>registry.
     tx_bind (tx_ask (te_health env)) (\<lambda>after.
     tx_ok \<lparr>hr_before = earlier, hr_after = after, hr_panel = panel, hr_registry = registry,
       hr_regressions = regressions_from after earlier\<rparr>))"

text \<open>
  Both sessions: the health is read first, the presenter runs in a process of its own that
  has ended when \<open>present\<close> returns, and the display is released whatever it returned.
\<close>

definition run_session :: "tablet_env \<Rightarrow> (device_error, unit) result \<Rightarrow> nat \<Rightarrow> nat \<Rightarrow> nat
    \<Rightarrow> (device_error, panel_record) result \<Rightarrow> (stock_health \<times> panel_record) tablet_tx" where
  "run_session env preflight budget started ended present =
     tx_bind (tx_ask (te_health env)) (\<lambda>earlier.
     tx_bind (acquire_takeover env earlier preflight budget started) (\<lambda>t.
     tb_then (foreign_write env)
    (tb_then (release_takeover env t ended)
     (tx_bind (tx_lift present) (\<lambda>panel. tx_ok (earlier, panel))))))"

definition open_and_run :: "tablet_env \<Rightarrow> nat \<Rightarrow> nat \<Rightarrow> nat \<Rightarrow> (device_error, panel_record) result \<Rightarrow> hold_report tablet_tx" where
  "open_and_run env budget started ended present =
     tx_bind (run_session env (Ok ()) (budget + WATCHDOG_MARGIN) started ended present) (\<lambda>(earlier, panel).
     session_report env earlier panel)"

text \<open>\<open>frame\<close> is the digest of the rendered frame and its ink per mille, or why it has none.\<close>

definition looks_drawn :: "nat \<Rightarrow> bool" where
  "looks_drawn ink \<longleftrightarrow> 10 \<le> ink"

definition open_and_hold :: "tablet_env \<Rightarrow> (device_error, string \<times> nat) result \<Rightarrow> nat \<Rightarrow> nat \<Rightarrow> nat
    \<Rightarrow> (device_error, panel_record) result \<Rightarrow> hold_report tablet_tx" where
  "open_and_hold env frame hold started ended present =
     tx_bind (run_session env (and_then frame (\<lambda>(digest, ink). if looks_drawn ink then Ok () else Err BlankFrame))
       (hold + WATCHDOG_MARGIN) started ended present) (\<lambda>(earlier, panel).
     if (case frame of Inr (digest, ink) \<Rightarrow> pr_digest panel \<noteq> digest | Inl _ \<Rightarrow> True) then tx_err (Refused (pr_digest panel))
     else session_report env earlier panel)"

end
