(* ===== verification/TakeoverSafe.thy ===== *)
theory TakeoverSafe
  imports Takeover
begin

text \<open>
  What a session promises about the stock software, at every point at which its process can
  be killed: while stock is down something outside the process is armed to bring it back, with
  the two exceptions the code has. The triples on taking and releasing the display are the base
  of StartBudget.
\<close>

section \<open>Steps that leave something alone\<close>

lemma keeps_quiet [keep]:
  "keeps put_tablet P (tb_probe env what)" "keeps put_tablet P (is_active env)" "keeps put_tablet P (readable env)"
  "keeps put_tablet P (recent env now)" "keeps put_tablet P (allows_session env now)" "keeps put_tablet P (capture_locks env)"
  by (auto simp: is_active_def readable_def recent_def allows_session_def capture_locks_def intro!: keep)

lemma keeps_emit_tablet: "(\<And>d. P d \<Longrightarrow> P (put_tablet d w)) \<Longrightarrow> keeps put_tablet P (tx_emit put_tablet w)"
  unfolding keeps_def by (rule triple_emit) simp

text \<open>An assertion that starting the unit, and what the started stock does, do not touch.\<close>

definition start_free :: "(tablet \<Rightarrow> bool) \<Rightarrow> bool" where
  "start_free P \<longleftrightarrow> (\<forall>d x. P d \<longrightarrow> P (d\<lparr>tb_active := x\<rparr>)) \<and> (\<forall>d x. P d \<longrightarrow> P (d\<lparr>tb_limiter := x\<rparr>))
     \<and> (\<forall>d x. P d \<longrightarrow> P (d\<lparr>tb_stranded := x\<rparr>)) \<and> (\<forall>d x. P d \<longrightarrow> P (d\<lparr>tb_starts := x\<rparr>))
     \<and> (\<forall>d x. P d \<longrightarrow> P (d\<lparr>tb_registry := x\<rparr>)) \<and> (\<forall>d x. P d \<longrightarrow> P (d\<lparr>tb_found := x\<rparr>))"

lemma start_free_put: "start_free P \<Longrightarrow> P d \<Longrightarrow> P (put_tablet d (StartUnit up))"
  unfolding start_free_def by (simp add: put_tablet.simps(3) split: if_splits)

lemma start_free_once [keep]: "start_free P \<Longrightarrow> keeps put_tablet P (start_once env now)"
  unfolding start_once_def reset_failed_def record_start_def start_unit_def foreign_write_def
  by (intro keep keeps_emit_tablet keeps_io) (simp_all add: start_free_put start_free_def)

lemma start_free_restore [keep]: "start_free P \<Longrightarrow> keeps put_tablet P (restore_stock env now)"
  unfolding restore_stock_def wait_active_def by (intro keep)

lemma is_active_reads: "(\<And>d. P d \<Longrightarrow> C d \<and> R d) \<Longrightarrow> triple put_tablet C P (is_active env) (\<lambda>a d. P d \<and> a = tb_active d) R"
  unfolding is_active_def
  by (rule triple_bind [where Q = "\<lambda>_. P"], rule triple_probe, simp, rule triple_get, simp)

lemma restore_active:
  assumes "start_free P" and "\<And>d. P d \<Longrightarrow> C d"
  shows "triple put_tablet C P (restore_stock env now) (\<lambda>_ d. P d \<and> tb_active d) P"
proof -
  have act: "triple put_tablet C P (is_active env) (\<lambda>a d. P d \<and> a = tb_active d) P"
    by (rule is_active_reads) (simp add: assms(2))
  have once: "triple put_tablet C P (start_once env now) (\<lambda>_. P) P"
    by (rule triple_weaken [OF keeps_triple [OF start_free_once [OF assms(1)]]]) (rule assms(2))
  have branch: "triple put_tablet C P (tx_bind (is_active env) (\<lambda>a. if a then tx_ok () else m)) (\<lambda>_ d. P d \<and> tb_active d) P"
    if "triple put_tablet C P m (\<lambda>_ d. P d \<and> tb_active d) P" for m
    by (rule triple_bind [OF act], rule triple_if, rule triple_ok, simp add: assms(2), rule triple_conseq [OF that]) simp_all
  show ?thesis
    unfolding restore_stock_def wait_active_def
    by (rule branch, rule triple_bind [OF once], rule branch, rule triple_bind [OF once], rule branch, rule triple_err)
      (simp add: assms(2))
qed

section \<open>Guarded at every moment\<close>

definition armed :: "tablet \<Rightarrow> bool" where
  "armed d \<longleftrightarrow> tb_guard d \<noteq> None"

definition awake :: "tablet \<Rightarrow> bool" where
  "awake d \<longleftrightarrow> WAKELOCK_TAG \<in> set (tb_wake d)"

text \<open>An operation that reports failure had no effect.\<close>

definition honest :: "tablet_env \<Rightarrow> bool" where
  "honest env \<longleftrightarrow> (\<forall>n. te_io env n \<noteq> IoFailedAfter)"

lemma triple_io_honest:
  assumes "honest env" and "\<And>d. P d \<Longrightarrow> C d \<and> R d \<and> C (put_tablet d w) \<and> Q () (put_tablet d w)"
  shows "triple put_tablet C P (tb_write env what w) Q R"
  unfolding tx_io_def
proof (rule triple_bind [where Q = "\<lambda>a d. P d \<and> a \<noteq> IoFailedAfter"])
  show "triple put_tablet C P (tx_ask (te_io env)) (\<lambda>a d. P d \<and> a \<noteq> IoFailedAfter) R"
    using assms(1) by (intro triple_ask) (auto simp: honest_def dest: assms(2))
qed (use assms(2) in \<open>auto split: io_answer.split simp: triple_def [of _ _ "\<lambda>_. False"] intro!: triple_pure triple_emit triple_err\<close>)

lemma stop_when_armed:
  assumes "honest env"
  shows "triple put_tablet (\<lambda>d. tb_active d \<or> armed d \<and> awake d) (\<lambda>d. tb_active d \<and> armed d \<and> awake d)
    (stop_for_session env now) (\<lambda>_ d. armed d \<and> awake d) (\<lambda>d. tb_active d \<and> armed d \<and> awake d)"
proof -
  let ?P = "\<lambda>d. tb_active d \<and> armed d \<and> awake d" and ?C = "\<lambda>d. tb_active d \<or> armed d \<and> awake d"
  have weak: "triple put_tablet ?C ?P m (\<lambda>_. ?P) ?P" if "keeps put_tablet ?P m" for m
    by (rule triple_weaken [OF keeps_triple [OF that]]) simp
  show ?thesis
    unfolding stop_for_session_def stop_unit_def
    by (rule triple_bind [OF weak], rule keep, rule triple_bind [OF is_active_reads], simp, rule triple_if, rule triple_ok, simp,
        rule triple_bind [where Q = "\<lambda>_ d. armed d \<and> awake d"], rule triple_io_honest [OF assms])
      (auto simp: armed_def awake_def intro!: triple_ok)
qed

lemma disarm_triple: "(\<And>d. P d \<Longrightarrow> C d \<and> C (d\<lparr>tb_guard := None\<rparr>) \<and> Q (d\<lparr>tb_guard := None\<rparr>)) \<Longrightarrow> triple put_tablet C P (disarm env) (\<lambda>_. Q) R"
  unfolding disarm_def
proof (rule triple_bind [where Q = "\<lambda>g d. P d \<and> tb_guard d = g"], rule triple_get, goal_cases)
  case (2 g)
  have "P d \<and> tb_guard d = g \<Longrightarrow> C d \<and> Q d" if "g = None" for d
    using 2 [of d] that by (cases d) auto
  moreover have "P d \<Longrightarrow> C d \<and> C (put_tablet d KillGuard) \<and> Q (put_tablet d KillGuard)" for d
    using 2 [of d] by simp
  ultimately show ?case by (intro triple_if triple_ok triple_emit) simp_all
qed auto

lemma drop_wake_keeps [keep]: "(\<And>d x. P d \<Longrightarrow> P (d\<lparr>tb_wake := x\<rparr>)) \<Longrightarrow> keeps put_tablet P (drop_wake env tag)"
  unfolding drop_wake_def by (intro keep keeps_io) simp

lemma acquire_guarded:
  assumes "honest env"
  shows "triple put_tablet (\<lambda>d. tb_active d \<or> armed d \<and> awake d) tb_active (acquire_takeover env h p budget now)
    (\<lambda>_ d. armed d \<and> awake d) (\<lambda>d. tb_active d)"
proof -
  let ?C = "\<lambda>d. tb_active d \<or> armed d \<and> awake d" and ?A = "\<lambda>d. tb_active d \<and> awake d"
  have dw: "triple put_tablet ?C tb_active (drop_wake env tag) (\<lambda>_. tb_active) tb_active" for tag
    by (rule triple_weaken [OF keeps_triple], intro keep) simp_all
  have da: "triple put_tablet ?C tb_active (disarm env) (\<lambda>_. tb_active) tb_active"
    by (rule disarm_triple) simp
  have take: "triple put_tablet ?C tb_active (acquire_wake env WAKELOCK_TAG) (\<lambda>_. ?A) tb_active"
    unfolding acquire_wake_def
    by (rule triple_bind [where Q = "\<lambda>t d. tb_active d \<and> t = WAKELOCK_TAG"], rule triple_lift,
        simp add: validate_tag_def, rule triple_pure, rule triple_bind [where Q = "\<lambda>_. ?A"], rule triple_io)
      (auto simp: awake_def intro!: triple_ok)
  have armw: "triple put_tablet ?C ?A (arm env budget) (\<lambda>_ d. tb_active d \<and> armed d \<and> awake d) tb_active"
    unfolding arm_def
    by (rule triple_bind [where Q = "\<lambda>_. ?A"], rule disarm_triple, simp add: awake_def,
        rule triple_bind [where Q = "\<lambda>_. ?A"], rule triple_probe, simp, rule triple_emit) (simp add: armed_def awake_def)
  have fail1: "triple put_tablet ?C tb_active (tb_then (drop_wake env tag) (tb_then (disarm env) (tx_err e)))
      Q tb_active" for tag e and Q :: "takeover \<Rightarrow> tablet \<Rightarrow> bool"
    by (rule triple_bind [OF dw], rule triple_bind [OF da], rule triple_err) simp
  have fail2: "triple put_tablet ?C (\<lambda>d. tb_active d \<and> armed d \<and> awake d) (tb_then (disarm env) (tb_then (drop_wake env tag) (tx_err e)))
      Q tb_active" for tag e and Q :: "takeover \<Rightarrow> tablet \<Rightarrow> bool"
    by (rule triple_conseq [where P' = tb_active], rule triple_bind [OF da], rule triple_bind [OF dw], rule triple_err) simp_all
  show ?thesis
    unfolding acquire_takeover_def
    by (rule triple_bind [where Q = "\<lambda>_. tb_active"], rule triple_lift, simp,
        rule triple_bind [where Q = "\<lambda>_. tb_active"], rule triple_lift, simp,
        rule triple_bind [OF triple_weaken [OF keeps_triple]], rule keep, simp, rule triple_bind [OF take],
        rule triple_match [OF armw fail1], rule triple_match [OF stop_when_armed [OF assms] fail2], rule triple_ok) simp
qed

lemma start_free_some: "start_free armed" "start_free awake" "start_free (\<lambda>_. True)"
  by (simp_all add: start_free_def armed_def awake_def)

definition lock_free :: "(tablet \<Rightarrow> bool) \<Rightarrow> bool" where
  "lock_free P \<longleftrightarrow> (\<forall>d x. P d \<longrightarrow> P (d\<lparr>tb_registry := x\<rparr>))"

lemma lock_free_some: "lock_free armed" "lock_free tb_active" "lock_free (\<lambda>_. True)"
  by (simp_all add: lock_free_def armed_def)

lemma lock_free_keeps [keep]:
  "lock_free P \<Longrightarrow> keeps put_tablet P (foreign_write env)"
  "lock_free P \<Longrightarrow> keeps put_tablet P (restore_locks env l)"
  by (auto simp: foreign_write_def restore_locks_def lock_free_def intro!: keep keeps_io keeps_emit_tablet)

lemma lock_free_wait [keep]: "lock_free P \<Longrightarrow> keeps put_tablet P (wait_for_free_panel env l n)"
proof (induction n)
  case 0
  then show ?case by (subst wait_for_free_panel.simps) (auto simp: locks_clear_def intro!: keep)
next
  case (Suc n)
  then show ?case by (subst wait_for_free_panel.simps) (auto simp: locks_clear_def intro!: keep)
qed

lemma release_unfreed_triple:
  assumes "start_free P" and "\<And>d. P d \<Longrightarrow> C d"
  shows "triple put_tablet C P (release_unfreed env why now) (\<lambda>rh d. P d \<and> fst rh \<noteq> Ok ()) R"
proof -
  have "triple put_tablet C P (restore_stock env now) (\<lambda>_. P) P"
    by (rule triple_conseq [OF restore_active [OF assms]]) auto
  then show ?thesis
    unfolding release_unfreed_def by (rule triple_match) (auto intro!: triple_ok simp: assms(2))
qed

lemma release_guarded:
  "triple put_tablet (\<lambda>d. tb_active d \<or> armed d) armed (release_inner env t now)
     (\<lambda>rh d. if fst rh = Ok () then tb_active d \<and> \<not> armed d else armed d) armed"
proof -
  let ?C = "\<lambda>d. tb_active d \<or> armed d"
  let ?Q = "\<lambda>rh d. if fst rh = Ok () then tb_active d \<and> \<not> armed d else armed d"
  have weak: "triple put_tablet ?C armed m (\<lambda>_. armed) armed" if "keeps put_tablet armed m" for m :: "'z tablet_tx"
    by (rule triple_weaken [OF keeps_triple [OF that]]) simp
  have un: "triple put_tablet ?C armed (release_unfreed env why now) ?Q R" for why R
    by (rule triple_conseq [OF release_unfreed_triple [OF start_free_some(1)], where R' = R]) auto
  have locks: "triple put_tablet ?C armed (restore_locks env l) (\<lambda>_. armed) armed" for l
    by (rule weak) (intro keep lock_free_some)
  have wait: "triple put_tablet ?C armed (wait_for_free_panel env l n) (\<lambda>_. armed) armed" for l n
    by (rule weak) (intro keep lock_free_some)
  have stock: "triple put_tablet ?C armed (restore_stock env now) (\<lambda>_ d. armed d \<and> tb_active d) armed"
    by (rule restore_active [OF start_free_some(1)]) simp
  have dw: "triple put_tablet ?C P (drop_wake env tag) (\<lambda>_. P) P" if "\<And>d x. P d \<Longrightarrow> P (d\<lparr>tb_wake := x\<rparr>)" "\<And>d. P d \<Longrightarrow> ?C d" for P tag
    by (rule triple_weaken [OF keeps_triple]) (use that in \<open>auto intro!: keep\<close>)
  have ended: "triple put_tablet ?C armed (tb_then (drop_wake env tag) (tx_ok (Err e, False))) ?Q armed" for tag e
    by (rule triple_bind [OF dw]) (auto simp: armed_def intro!: triple_ok)
  have wake: "triple put_tablet ?C (\<lambda>d. armed d \<and> tb_active d) (drop_wake env tag) (\<lambda>_ d. armed d \<and> tb_active d) armed" for tag
    by (rule triple_conseq [OF triple_weaken [OF keeps_triple [OF drop_wake_keeps [where P = "\<lambda>d. armed d \<and> tb_active d"]]]])
      (auto simp: armed_def)
  have won: "triple put_tablet ?C (\<lambda>d. armed d \<and> tb_active d) (tb_then (drop_wake env tag) (tb_then (disarm env) (tx_ok (Ok (), False)))) ?Q armed" for tag
    by (rule triple_bind [OF wake], rule triple_bind [where Q = "\<lambda>_ d. tb_active d \<and> \<not> armed d"], rule disarm_triple)
      (auto simp: armed_def intro!: triple_ok)
  show ?thesis
    unfolding release_inner_def
    by (rule triple_match [OF locks un], rule triple_bind [OF wait], rule triple_if, rule un, rule triple_match [OF stock ended won])
qed

lemma release_result:
  "triple put_tablet (\<lambda>_. True) armed (release_takeover env t now) (\<lambda>_ d. tb_active d \<and> \<not> armed d) (\<lambda>_. True)"
proof -
  have inner: "triple put_tablet (\<lambda>_. True) armed (release_inner env t now)
     (\<lambda>rh d. if fst rh = Ok () then tb_active d \<and> \<not> armed d else armed d) (\<lambda>_. True)"
    by (rule triple_conseq [OF triple_weaken [OF release_guarded]]) auto
  let ?P = "\<lambda>d. tb_active d \<and> \<not> armed d"
  have dd: "keeps put_tablet ?P (drop_takeover env h)" for h
    unfolding drop_takeover_def disarm_def
    by (intro keep keeps_emit_tablet) (simp_all add: armed_def)
  have dd': "keeps put_tablet (\<lambda>_. True) (drop_takeover env h)" for h
    unfolding drop_takeover_def disarm_def by (intro keep keeps_emit_tablet) simp_all
  have last: "triple put_tablet (\<lambda>_. True) (\<lambda>d. if r = Ok () then ?P d else armed d)
      (tb_then (drop_takeover env h) (tx_lift r)) (\<lambda>_. ?P) (\<lambda>_. True)" for r :: "(device_error, unit) result" and h
  proof (cases "r = Ok ()")
    case True
    have "triple put_tablet (\<lambda>_. True) ?P (drop_takeover env h) (\<lambda>_. ?P) (\<lambda>_. True)"
      by (rule triple_conseq [OF triple_weaken [OF keeps_triple [OF dd]]]) auto
    then show ?thesis using True by (auto intro!: triple_bind [where Q = "\<lambda>_. ?P"] triple_lift)
  next
    case False
    then obtain e where e: "r = Err e" by (cases r) auto
    have "triple put_tablet (\<lambda>_. True) armed (drop_takeover env h) (\<lambda>_ _. True) (\<lambda>_. True)"
      by (rule triple_conseq [OF triple_weaken [OF keeps_triple [OF dd']]]) auto
    then show ?thesis using e by (auto intro!: triple_bind [where Q = "\<lambda>_ _. True"] triple_lift)
  qed
  show ?thesis
    unfolding release_takeover_def
    by (rule triple_bind [OF inner], simp only: split_def, rule last)
qed

section \<open>How a release ends\<close>

text \<open>Programs without a failing branch.\<close>

definition returns :: "('d, 'e, 'x, 'a) tx \<Rightarrow> bool" where
  "returns m \<longleftrightarrow> (\<forall>u. \<exists>a u'. m u = (Ok a, u'))"

named_theorems returning

lemma returns_steps [returning]:
  "returns (tx_ok a)" "returns (tx_get f)" "returns (tx_ask q)" "returns (tx_emit eff w)" "returns (tx_try m)"
  by (auto simp: returns_def tx_ok_def tx_get_def tx_ask_def tx_emit_def tx_try_def tx_match_def split: prod.split sum.split)

lemma returns_bind [returning]: "returns m \<Longrightarrow> (\<And>a. returns (f a)) \<Longrightarrow> returns (tx_bind m f)"
  unfolding returns_def
proof
  fix u assume m: "\<forall>u. \<exists>a u'. m u = (Ok a, u')" and f: "\<And>a. \<forall>u. \<exists>b u'. f a u = (Ok b, u')"
  obtain a u' where "m u = (Ok a, u')" using m by blast
  then show "\<exists>b u'. tx_bind m f u = (Ok b, u')" using f by (simp add: tx_bind_def)
qed

lemma returns_match [returning]: "(\<And>e. returns (h e)) \<Longrightarrow> (\<And>a. returns (f a)) \<Longrightarrow> returns (tx_match m h f)"
  unfolding returns_def
proof
  fix u assume h: "\<And>e. \<forall>u. \<exists>b u'. h e u = (Ok b, u')" and f: "\<And>a. \<forall>u. \<exists>b u'. f a u = (Ok b, u')"
  obtain r u' where "m u = (r, u')" by (cases "m u")
  then show "\<exists>b u'. tx_match m h f u = (Ok b, u')" using h f by (cases r) (simp_all add: tx_match_def)
qed

lemma returns_cases [returning]:
  "returns m \<Longrightarrow> returns n \<Longrightarrow> returns (if b then m else n)"
  "returns m \<Longrightarrow> (\<And>a. returns (f a)) \<Longrightarrow> returns (case x of None \<Rightarrow> m | Some a \<Rightarrow> f a)"
  "(\<And>a b. returns (g a b)) \<Longrightarrow> returns (case y of (a, b) \<Rightarrow> g a b)"
  by (auto split: option.split prod.split)

lemma returns_error: "returns m \<Longrightarrow> triple eff C P m Q R \<Longrightarrow> triple eff C P m Q R'"
  unfolding returns_def triple_def by (metis (no_types, lifting) fst_conv sum.simps(6))

lemma returns_wait [returning]: "returns (wait_for_free_panel env l n)"
proof (induction n)
  case 0
  show ?case by (subst wait_for_free_panel.simps) (auto simp: locks_clear_def foreign_write_def intro!: returning)
next
  case (Suc n)
  then show ?case by (subst wait_for_free_panel.simps) (auto simp: locks_clear_def foreign_write_def intro!: returning)
qed

lemma returns_parts [returning]: "returns (disarm env)" "returns (drop_wake env tag)" "returns (release_unfreed env why now)"
  by (auto simp: disarm_def drop_wake_def release_unfreed_def intro!: returning)

lemma returns_release [returning]: "returns (release_inner env t now)" "returns (drop_takeover env h)"
  by (auto simp: release_inner_def drop_takeover_def intro!: returning)

abbreviation does :: "(tablet \<Rightarrow> bool) \<Rightarrow> 'a tablet_tx \<Rightarrow> ('a \<Rightarrow> tablet \<Rightarrow> bool) \<Rightarrow> (tablet \<Rightarrow> bool) \<Rightarrow> bool" where
  "does P m Q R \<equiv> triple put_tablet (\<lambda>_. True) P m Q R"

lemma does_keeps: "keeps put_tablet P m \<Longrightarrow> does P m (\<lambda>_. P) P"
  by (rule triple_weaken, erule keeps_triple) simp

lemma disarmed_after: "does (\<lambda>_. True) (disarm env) (\<lambda>_ d. \<not> armed d) R"
  by (rule disarm_triple) (simp add: armed_def)

lemma anything_keeps [keep]:
  "keeps put_tablet (\<lambda>_. True) (tb_write env what w)" "keeps put_tablet (\<lambda>_. True) (disarm env)"
  by (auto simp: disarm_def intro!: keep keeps_io keeps_emit_tablet)

lemma release_disarms: "does (\<lambda>_. True) (release_takeover env t now) (\<lambda>_ d. \<not> armed d) (\<lambda>d. \<not> armed d)"
proof -
  note K = keeps_match keeps_bind keeps_if keeps_still keeps_try
    lock_free_keeps [OF lock_free_some(3)] lock_free_wait [OF lock_free_some(3)] start_free_restore [OF start_free_some(3)] anything_keeps
  have "keeps put_tablet (\<lambda>_. True) (release_inner env t now)"
    unfolding release_inner_def release_unfreed_def drop_wake_def by (intro K)
  then have inner: "does (\<lambda>_. True) (release_inner env t now) (\<lambda>_ _. True) (\<lambda>d. \<not> armed d)"
    by (rule returns_error [OF returns_release(1) does_keeps])
  have "does (\<lambda>_. True) (if h then drop_wake env tag else tx_ok ()) (\<lambda>_ _. True) (\<lambda>d. \<not> armed d)" for h tag
    unfolding drop_wake_def by (rule returns_error [OF _ does_keeps], intro returning, intro K)
  then have last: "does (\<lambda>_. True) (drop_takeover env h) (\<lambda>_ d. \<not> armed d) (\<lambda>d. \<not> armed d)" for h
    unfolding drop_takeover_def by (rule triple_bind) (rule disarmed_after)
  show ?thesis
    unfolding release_takeover_def
    by (rule triple_bind [OF inner], simp only: split_def, rule triple_bind [OF last], rule triple_lift) simp
qed

section \<open>The guardian\<close>

text \<open>What systemd is documented to do: \<open>reset-failed\<close> clears the limiter, a start comes up.\<close>

definition working :: "tablet_env \<Rightarrow> bool" where
  "working g \<longleftrightarrow> (\<forall>n. te_io g n = IoOk \<and> te_resets g n \<and> te_up g n)"

definition recovered :: "tablet \<Rightarrow> bool" where
  "recovered d \<longleftrightarrow> tb_active d \<and> \<not> awake d"

lemma foreign_result: "\<exists>ws n. foreign_write env u = (Ok (), u\<lparr>tx_disk := apply_writes put_tablet (tx_disk u) ws, tx_log := tx_log u @ ws, tx_asked := n\<rparr>)
    \<and> (\<forall>w\<in>set ws. \<exists>c. w = WriteRegistry c)"
proof (cases "te_foreign env (tx_asked u)")
  case None
  then show ?thesis
    by (cases u) (auto simp: foreign_write_def tx_run intro!: exI [of _ "[]"])
next
  case (Some c)
  then show ?thesis
    by (cases u) (auto simp: foreign_write_def tx_run intro!: exI [of _ "[WriteRegistry c]"])
qed

lemma guard_recovers:
  assumes "working g"
  shows "\<exists>u. guard_fires g (tx_start d) = (Ok (), u) \<and> recovered (tx_disk u)"
  using assms
  by (auto simp: guard_fires_def foreign_write_def working_def drop_wake_def recovered_def awake_def START_LIMIT_BURST_def tx_run
      split: option.split)

text \<open>Stock runs, or something outside the process is armed that brings it back.\<close>

definition guarded :: "tablet_env \<Rightarrow> tablet \<Rightarrow> bool" where
  "guarded g d \<longleftrightarrow> tb_active d \<or> tb_guard d \<noteq> None \<and> (\<exists>v. guard_fires g (tx_start d) = (Ok (), v) \<and> recovered (tx_disk v))"

lemma guardedI: "working g \<Longrightarrow> tb_active d \<or> armed d \<Longrightarrow> guarded g d"
  using guard_recovers [of g d] by (auto simp: guarded_def armed_def)

text \<open>A handler that always fails: a program with it that succeeds never ran it.\<close>

definition fails :: "('d, 'e, 'x, 'a) tx \<Rightarrow> bool" where
  "fails m \<longleftrightarrow> (\<forall>u. \<exists>e v. m u = (Err e, v))"

lemma fails_then: "fails k \<Longrightarrow> fails (tb_then m k)"
  unfolding fails_def tx_bind_def by (auto split: prod.split sum.split)

lemma fails_err: "fails (tx_err e)"
  by (simp add: fails_def tx_err_def)

lemma match_won:
  assumes "tx_match m h f u = (Ok a, v)" and "\<And>e. fails (h e)"
  shows "tx_bind m f u = (Ok a, v)"
proof -
  obtain r w where m: "m u = (r, w)" by (cases "m u")
  show ?thesis
  proof (cases r)
    case (Inl e)
    from assms(2) [of e] obtain x y where "h e w = (Err x, y)" unfolding fails_def by blast
    with assms(1) m Inl show ?thesis by (simp add: tx_match_def)
  qed (use assms(1) m in \<open>simp add: tx_match_def tx_bind_def\<close>)
qed

lemma bind_won:
  assumes "tx_bind m f u = (Ok a, v)"
  obtains b w where "m u = (Ok b, w)" and "f b w = (Ok a, v)"
  using assms by (auto simp: tx_bind_def split: prod.splits sum.splits)

text \<open>\<open>acquire\<close> without what it does when it fails.\<close>

definition straight_acquire :: "tablet_env \<Rightarrow> stock_health \<Rightarrow> (device_error, unit) result \<Rightarrow> nat \<Rightarrow> nat \<Rightarrow> takeover tablet_tx" where
  "straight_acquire env health preflight budget now =
     tb_then (tx_lift (wait_until_safe_to_stop health))
    (tb_then (tx_lift preflight)
    (tx_bind (capture_locks env) (\<lambda>locks.
     tb_then (acquire_wake env WAKELOCK_TAG)
    (tb_then (arm env budget)
    (tx_bind (stop_for_session env now) (\<lambda>owes. tx_ok \<lparr>tk_locks = locks, tk_owes = owes\<rparr>))))))"

lemma bind_mono: "tx_bind m f u = (Ok a, v) \<Longrightarrow> (\<And>b w. f b w = (Ok a, v) \<Longrightarrow> f' b w = (Ok a, v)) \<Longrightarrow> tx_bind m f' u = (Ok a, v)"
  by (erule bind_won) (simp add: tx_bind_def)

lemma acquire_straight:
  assumes "acquire_takeover env h p budget now u = (Ok t, v)"
  shows "straight_acquire env h p budget now u = (Ok t, v)"
proof -
  have F: "fails (tb_then a (tb_then b (tx_err e)))" for a b :: "unit tablet_tx" and e
    by (intro fails_then fails_err)
  show ?thesis
    unfolding straight_acquire_def
    by (rule bind_mono [OF assms [unfolded acquire_takeover_def]], erule bind_mono, erule bind_mono, erule bind_mono,
        drule match_won, rule F, erule bind_mono, erule match_won, rule F)
qed

lemma straight_guarded:
  "triple put_tablet (\<lambda>d. tb_active d \<or> armed d) tb_active (straight_acquire env h p budget now) (\<lambda>_. armed) (\<lambda>_. True)"
proof -
  let ?C = "\<lambda>d. tb_active d \<or> armed d" and ?B = "\<lambda>d. tb_active d \<and> armed d"
  have quiet: "triple put_tablet ?C P m (\<lambda>_. P) (\<lambda>_. True)" if "keeps put_tablet P m" "\<And>d. P d \<Longrightarrow> ?C d" for P and m :: "'z tablet_tx"
    by (rule triple_conseq [OF triple_weaken [OF keeps_triple [OF that(1)]]]) (simp_all add: that(2))
  have wake: "keeps put_tablet tb_active (acquire_wake env WAKELOCK_TAG)"
    unfolding acquire_wake_def by (intro keep keeps_io) simp
  have armw: "triple put_tablet ?C tb_active (arm env budget) (\<lambda>_. ?B) (\<lambda>_. True)"
    unfolding arm_def
    by (rule triple_bind [where Q = "\<lambda>_. tb_active"], rule disarm_triple, simp,
        rule triple_bind [where Q = "\<lambda>_. tb_active"], rule triple_probe, simp, rule triple_emit) (simp add: armed_def)
  have stop: "triple put_tablet ?C ?B (stop_for_session env now) (\<lambda>_. armed) (\<lambda>_. True)"
    unfolding stop_for_session_def stop_unit_def
    by (rule triple_bind [OF quiet [of ?B]], rule keep, simp, rule triple_bind [OF quiet [of ?B]], rule keep, simp,
        rule triple_if, rule triple_ok, simp, rule triple_bind [where Q = "\<lambda>_. armed"], rule triple_io)
      (auto simp: armed_def intro!: triple_ok)
  show ?thesis
    unfolding straight_acquire_def
    by (rule triple_bind [OF quiet [of tb_active]], rule keep, simp, rule triple_bind [OF quiet [of tb_active]], rule keep, simp,
        rule triple_bind [OF quiet [of tb_active]], rule keep, simp, rule triple_bind [OF quiet [of tb_active]], rule wake, simp,
        rule triple_bind [OF armw], rule triple_bind [OF stop], rule triple_ok) simp
qed

text \<open>What is logged by a program that never starts the unit leaves it running unless it stops it.\<close>

fun unit_starts :: "tablet_event \<Rightarrow> nat" where
  "unit_starts (StartUnit _) = 1"
| "unit_starts _ = 0"

lemma still_active:
  assumes "d' \<in> crash_points put_tablet d ws" and "tb_active d" and "sum_list (map unit_starts ws) = 0" and "StopUnit \<notin> set ws"
  shows "tb_active d'"
  using assms
proof (induction ws arbitrary: d)
  case (Cons w ws)
  then have "tb_active (put_tablet d w)" by (cases w) auto
  with Cons show ?case by (auto simp: crash_points_Cons)
qed simp

lemma acquire_starts_nothing: "costs unit_starts 0 (acquire_takeover env h p budget now)"
  unfolding acquire_takeover_def capture_locks_def acquire_wake_def arm_def disarm_def drop_wake_def stop_for_session_def
    allows_session_def recent_def readable_def is_active_def stop_unit_def
  by (intro cost; simp)

lemma acquire_cuts:
  assumes "tb_active d" and "acquire_takeover env h p budget now (tx_start d) = (r, u)"
    and "d' \<in> cuts put_tablet (acquire_takeover env h p budget now) d"
  shows "tb_active d' \<or> armed d' \<or> (\<exists>e n. r = Err e \<and> StopUnit \<in> set (tx_log u) \<and> te_io env n = IoFailedAfter)"
proof (cases r)
  case (Inr t)
  from acquire_straight [OF assms(2) [unfolded Inr]]
  have "d' \<in> cuts put_tablet (straight_acquire env h p budget now) d"
    using assms(2,3) Inr by (simp add: cuts_def)
  from triple_cuts [OF straight_guarded assms(1) this] show ?thesis by blast
next
  case (Inl e)
  have d': "d' \<in> crash_points put_tablet d (tx_log u)" using assms(2,3) by (simp add: cuts_def)
  have "sum_list (map unit_starts (tx_log u)) = 0"
    using costs_start [OF acquire_starts_nothing, of env h p budget now d] assms(2) by simp
  with still_active [OF d' assms(1)] have "tb_active d' \<or> StopUnit \<in> set (tx_log u)" by blast
  moreover have "tb_active d' \<or> armed d'" if "honest env"
    using triple_cuts [OF acquire_guarded [OF that] assms(1,3)] by blast
  ultimately show ?thesis using Inl unfolding honest_def by blast
qed

text \<open>\<open>release\<close> up to the end of its watchdog.\<close>

definition undropped_release :: "tablet_env \<Rightarrow> takeover \<Rightarrow> nat \<Rightarrow> (device_error, unit) result tablet_tx" where
  "undropped_release env t now = tb_then (foreign_write env) (tx_bind (release_inner env t now) (\<lambda>(r, held).
     tb_then (if held then drop_wake env WAKELOCK_TAG else tx_ok ()) (tx_ok r)))"

lemma release_drops: "tb_then (foreign_write env) (release_takeover env t now) =
    tx_bind (undropped_release env t now) (\<lambda>r. tb_then (disarm env) (tx_lift r))"
  by (auto simp: undropped_release_def release_takeover_def drop_takeover_def tx_bind_def tx_ok_def fun_eq_iff split: prod.split sum.split)

lemma undropped_guarded:
  "triple put_tablet (\<lambda>d. tb_active d \<or> armed d) armed (undropped_release env t now)
     (\<lambda>r d. if r = Ok () then tb_active d \<and> \<not> armed d else armed d) (\<lambda>_. False)"
proof -
  let ?C = "\<lambda>d. tb_active d \<or> armed d"
  let ?Q = "\<lambda>r d. if r = Ok () then tb_active d \<and> \<not> armed d else armed d"
  have R: "returns (undropped_release env t now)"
    unfolding undropped_release_def foreign_write_def by (intro returning)
  have drop: "triple put_tablet ?C (?Q r) (tb_then (if held then drop_wake env WAKELOCK_TAG else tx_ok ()) (tx_ok r)) ?Q armed"
    for r :: "(device_error, unit) result" and held
  proof -
    have K: "keeps put_tablet (?Q r) (if held then drop_wake env WAKELOCK_TAG else tx_ok ())"
      by (intro keep) (auto simp: armed_def split: if_splits)
    have "triple put_tablet ?C (?Q r) (if held then drop_wake env WAKELOCK_TAG else tx_ok ()) (\<lambda>_. ?Q r) armed"
      by (rule returns_error, intro returning, rule triple_weaken [OF keeps_triple [OF K]]) (auto split: if_splits)
    then show ?thesis by (rule triple_bind) (auto intro!: triple_ok split: if_splits)
  qed
  have "triple put_tablet ?C armed (undropped_release env t now) ?Q armed"
    unfolding undropped_release_def
    by (rule triple_bind [OF triple_weaken [OF keeps_triple [OF lock_free_keeps(1) [OF lock_free_some(1)]]]], simp,
        rule triple_bind [OF release_guarded], simp only: split_def, rule drop)
  then show ?thesis by (rule returns_error [OF R])
qed

lemma release_cuts:
  assumes "armed d" and "d' \<in> cuts put_tablet (tb_then (foreign_write env) (release_takeover env t now)) d"
  shows "tb_active d' \<or> armed d'
    \<or> (\<exists>e v. tb_then (foreign_write env) (release_takeover env t now) (tx_start d) = (Err e, v) \<and> d' = tx_disk v)"
proof -
  have s: "armed (tx_disk (tx_start d))" using assms(1) by (simp add: tx_start_def)
  from triple_returns [OF undropped_guarded s]
  obtain r v where m: "undropped_release env t now (tx_start d) = (Ok r, v)"
    and q: "if r = Ok () then tb_active (tx_disk v) \<and> \<not> armed (tx_disk v) else armed (tx_disk v)" by blast
  have ok: "x \<in> crash_points put_tablet d (tx_log v) \<Longrightarrow> tb_active x \<or> armed x" for x
    using triple_cuts [OF undropped_guarded assms(1), of x env t now] m by (simp add: cuts_def)
  have v: "tx_disk v = apply_writes put_tablet d (tx_log v)"
    using undropped_guarded s m unfolding triple_def advanced_def
    by (metis (no_types, lifting) append_Nil snd_conv tx_start_def tx_state.select_convs(1,2))
  show ?thesis
  proof (cases "armed (tx_disk v)")
    case False
    with q have "r = Ok ()" by (auto split: if_splits)
    with False have "tb_then (foreign_write env) (release_takeover env t now) (tx_start d) = (Ok (), v)"
      by (simp add: release_drops tx_bind_def m disarm_def tx_get_def tx_ok_def tx_lift_def armed_def)
    with ok assms(2) show ?thesis by (simp add: cuts_def)
  next
    case True
    with q obtain e where e: "r = Err e" by (cases r) auto
    let ?v = "v\<lparr>tx_disk := put_tablet (tx_disk v) KillGuard, tx_log := tx_log v @ [KillGuard]\<rparr>"
    have fin: "tb_then (foreign_write env) (release_takeover env t now) (tx_start d) = (Err e, ?v)"
      using True e by (auto simp: release_drops tx_bind_def m disarm_def tx_get_def tx_emit_def tx_lift_def armed_def)
    then have "d' \<in> crash_points put_tablet d (tx_log v) \<or> d' = tx_disk ?v"
      using assms(2) v by (auto simp: cuts_def crash_points_append crash_points_Cons crash_points_end)
    with ok fin show ?thesis by blast
  qed
qed

text \<open>
  C1. Killed at any moment of taking the display or of giving it back, destructors included, a
  session leaves stock running, or a guardian armed which, when its time is up, brings stock
  back and lets the tablet sleep again, whatever the operations answered. There are exactly
  two exceptions. Taking the display fails although its \<open>systemctl stop\<close> took effect: the
  guardian is then disarmed with stock down. And the last step of a release that failed, which
  drops the watchdog (see C5).
\<close>

theorem stock_is_always_guarded:
  assumes "tb_active d" and "working g" and "acquire_takeover env h p budget now (tx_start d) = (r, u)"
  shows "(\<forall>d'. d' \<in> cuts put_tablet (acquire_takeover env h p budget now) d \<longrightarrow>
      guarded g d' \<or> (\<exists>e n. r = Err e \<and> StopUnit \<in> set (tx_log u) \<and> te_io env n = IoFailedAfter))
    \<and> (\<forall>t env' now' d'. r = Ok t \<longrightarrow> d' \<in> cuts put_tablet (tb_then (foreign_write env') (release_takeover env' t now')) (tx_disk u) \<longrightarrow>
      guarded g d' \<or> (\<exists>e v. tb_then (foreign_write env') (release_takeover env' t now') (tx_start (tx_disk u)) = (Err e, v)
        \<and> d' = tx_disk v))"
proof -
  have "armed (tx_disk u)" if "r = Ok t" for t
    using triple_result [OF straight_guarded _ acquire_straight [OF assms(3) [unfolded that]]] assms(1) by (simp add: tx_start_def)
  then show ?thesis
    using acquire_cuts [OF assms(1,3)] release_cuts guardedI [OF assms(2)] by blast
qed

definition good_health :: stock_health where
  "good_health = \<lparr>sh_active = True, sh_pid = Some 10, sh_failed = [], sh_home = True, sh_notebooks = Some 3,
     sh_restarts = Some 0, sh_main_start = None\<rparr>"

definition calm_env :: tablet_env where
  "calm_env = \<lparr>te_io = \<lambda>_. IoOk, te_reads = \<lambda>_. True, te_resets = \<lambda>_. True, te_up = \<lambda>_. True, te_late = \<lambda>_. False,
     te_foreign = \<lambda>_. None, te_pid = \<lambda>_. Some 10, te_health = \<lambda>_. good_health\<rparr>"

definition dead_env :: tablet_env where
  "dead_env = calm_env\<lparr>te_up := \<lambda>_. False\<rparr>"

definition running_tablet :: tablet where
  "running_tablet = \<lparr>tb_active = True, tb_limiter = 0, tb_stranded = False, tb_starts = None, tb_wake = [],
     tb_registry = Some ''10'', tb_epd = True, tb_guard = None, tb_found = []\<rparr>"

definition held_tablet :: tablet where
  "held_tablet = running_tablet\<lparr>tb_active := False, tb_wake := [WAKELOCK_TAG], tb_guard := Some 300\<rparr>"

definition held_takeover :: takeover where
  "held_takeover = \<lparr>tk_locks = \<lparr>vl_registry = Some ''10'', vl_epd = True\<rparr>, tk_owes = True\<rparr>"

lemmas concrete = calm_env_def running_tablet_def held_tablet_def held_takeover_def good_health_def

lemma acquire_runs: "\<exists>n. acquire_takeover calm_env good_health (Ok ()) 300 0 (tx_start running_tablet) = (Ok held_takeover,
    \<lparr>tx_disk = held_tablet, tx_log = [TakeWake WAKELOCK_TAG, ArmGuard 300, StopUnit], tx_asked = n\<rparr>)"
  by (simp add: concrete acquire_takeover_def wait_until_safe_to_stop_def is_healthy_def allows_takeover_def restarts_remaining_def
      START_LIMIT_BURST_def capture_locks_def acquire_wake_def validate_tag_def WAKELOCK_TAG_def is_space_def arm_def disarm_def
      stop_for_session_def allows_session_def recent_def recent_in_def readable_def START_BUDGET_def is_active_def stop_unit_def tx_run)

theorem stock_is_always_guarded_witness:
  "\<not> tb_active held_tablet \<and> guarded calm_env held_tablet
   \<and> held_tablet \<in> cuts put_tablet (tb_then (foreign_write dead_env) (release_takeover dead_env held_takeover 0)) held_tablet"
proof -
  obtain n where r: "acquire_takeover calm_env good_health (Ok ()) 300 0 (tx_start running_tablet) = (Ok held_takeover,
    \<lparr>tx_disk = held_tablet, tx_log = [TakeWake WAKELOCK_TAG, ArmGuard 300, StopUnit], tx_asked = n\<rparr>)"
    using acquire_runs by blast
  have "tb_active running_tablet" "working calm_env" "\<not> tb_active held_tablet"
    by (simp_all add: working_def concrete)
  moreover have "held_tablet \<in> cuts put_tablet (acquire_takeover calm_env good_health (Ok ()) 300 0) running_tablet"
    unfolding cuts_def r by (simp add: crash_points_Cons concrete)
  moreover have "held_tablet \<in> cuts put_tablet (tb_then (foreign_write dead_env) (release_takeover dead_env held_takeover 0)) held_tablet"
    using crash_point_take [of put_tablet held_tablet 0] by (simp add: cuts_def)
  ultimately show ?thesis
    using stock_is_always_guarded [OF _ _ r, of calm_env] by blast
qed

text \<open>The first exception happens: \<open>acquire\<close> fails, stock is down, and nothing is armed.\<close>

theorem failed_stop_is_unguarded:
  "\<exists>u. acquire_takeover (calm_env\<lparr>te_io := \<lambda>n. if n = 5 then IoFailedAfter else IoOk\<rparr>) good_health (Ok ()) 300 0 (tx_start running_tablet)
      = (Err (DeviceIo ''run systemctl for''), u) \<and> \<not> tb_active (tx_disk u) \<and> tb_guard (tx_disk u) = None"
  by (simp add: concrete acquire_takeover_def wait_until_safe_to_stop_def is_healthy_def allows_takeover_def restarts_remaining_def
      START_LIMIT_BURST_def capture_locks_def acquire_wake_def validate_tag_def WAKELOCK_TAG_def is_space_def arm_def disarm_def drop_wake_def
      stop_for_session_def allows_session_def recent_def recent_in_def readable_def START_BUDGET_def is_active_def stop_unit_def tx_run)

text \<open>
  C5. A release that fails leaves no guardian: \<open>release_inner\<close> keeps it armed ("the watchdog is the
  remaining hope and must be left armed"), but the takeover is dropped at the end of \<open>release\<close>, and
  dropping the watchdog kills it, whether or not stock came back.
\<close>

theorem failed_release_leaves_nothing_armed:
  assumes "release_takeover env t now s = (Err e, u)"
  shows "tb_guard (tx_disk u) = None"
  using triple_error [OF release_disarms _ assms] by (simp add: armed_def)

theorem failed_release_leaves_nothing_armed_witness:
  "\<exists>u. release_takeover dead_env held_takeover 0 (tx_start held_tablet) = (Err DidNotComeBack, u)
     \<and> \<not> tb_active (tx_disk u) \<and> tb_guard (tx_disk u) = None"
proof -
  have "\<exists>u. release_takeover dead_env held_takeover 0 (tx_start held_tablet) = (Err DidNotComeBack, u) \<and> \<not> tb_active (tx_disk u)"
    by (simp add: dead_env_def concrete release_takeover_def release_inner_def restore_locks_def PANEL_FREE_POLLS_def
        wait_for_free_panel.simps foreign_write_def locks_clear_def restore_stock_def is_active_def wait_active_def start_once_def
        reset_failed_def record_start_def readable_def start_unit_def START_LIMIT_BURST_def drop_wake_def drop_takeover_def disarm_def tx_run)
  then show ?thesis using failed_release_leaves_nothing_armed by blast
qed

end
