(* ===== verification/StartBudget.thy ===== *)
theory StartBudget
  imports TakeoverSafe
begin

text \<open>
  The start budget over any history of sessions, each of which may be killed at any moment
  and followed by its guardian: the shared record never holds more than the unit's own limit
  of starts. And what a session that reports
  success leaves behind.
\<close>

section \<open>The record of starts\<close>

lemma stamps_bound: "n \<in> set (stamps_in c) \<Longrightarrow> n \<le> u64_max"
  by (auto simp: stamps_in_def List.map_filter_def dest: parse_uint_bound)

lemma stamps_written: "(\<forall>n\<in>set ns. n \<le> u64_max) \<Longrightarrow> stamps_in (write_lines (map show_nat ns)) = ns"
proof -
  assume ns: "\<forall>n\<in>set ns. n \<le> u64_max"
  then have "List.map_filter (\<lambda>l. parse_uint u64_max (trim l)) (map show_nat ns) = ns"
    by (induction ns) (simp_all add: List.map_filter_simps parse_show_nat)
  then show ?thesis unfolding stamps_in_def by (subst lines_written) simp_all
qed

lemma recent_recorded:
  assumes "now \<le> u64_max"
  shows "recent_in now (Some (record_text now file)) = Suc (recent_in now file)"
proof -
  let ?ns = "filter (within_window now) (stamps_in (case file of None \<Rightarrow> [] | Some c \<Rightarrow> c))"
  have "\<forall>n\<in>set (?ns @ [now]). n \<le> u64_max" using assms stamps_bound by auto
  then have "stamps_in (record_text now file) = ?ns @ [now]"
    unfolding record_text_def by (rule stamps_written)
  moreover have "within_window now now" by (simp add: within_window_def START_LIMIT_WINDOW_def)
  moreover have "stamps_in [] = []" by (simp add: stamps_in_def lines_def List.map_filter_def)
  ultimately show ?thesis by (simp add: recent_in_def split: option.split)
qed

lemma recent_antimono: "now \<le> later \<Longrightarrow> recent_in later file \<le> recent_in now file"
proof -
  assume "now \<le> later"
  then have "length (filter (within_window later) xs) \<le> length (filter (within_window now) xs)" for xs
    by (induction xs) (auto simp: within_window_def)
  then show ?thesis by (auto simp: recent_in_def split: option.split)
qed

section \<open>What a session does to it\<close>

definition at_most :: "nat \<Rightarrow> nat \<Rightarrow> tablet \<Rightarrow> bool" where
  "at_most now k d \<longleftrightarrow> recent_in now (tb_starts d) \<le> k"

text \<open>An assertion about the record alone.\<close>

definition of_starts :: "(tablet \<Rightarrow> bool) \<Rightarrow> bool" where
  "of_starts P \<longleftrightarrow> (\<forall>d d'. tb_starts d = tb_starts d' \<longrightarrow> P d = P d')"

lemma of_starts_at_most [simp]: "of_starts (at_most now k)"
  by (simp add: of_starts_def at_most_def)

lemma of_starts_put: "of_starts P \<Longrightarrow> (\<And>t. w \<noteq> WriteStarts t) \<Longrightarrow> P d \<Longrightarrow> P (put_tablet d w)"
proof -
  assume P: "of_starts P" "P d" and w: "\<And>t. w \<noteq> WriteStarts t"
  have "tb_starts (put_tablet d w) = tb_starts d" using w by (cases w) auto
  with P show ?thesis unfolding of_starts_def by blast
qed

lemma of_starts_keeps:
  assumes "of_starts P"
  shows "keeps put_tablet P (tb_write env what (TakeWake t))" "keeps put_tablet P (tb_write env what (DropWake t))"
    "keeps put_tablet P (tb_write env what (WriteRegistry c))" "keeps put_tablet P (tb_write env what RemoveRegistry)"
    "keeps put_tablet P (tb_write env what StopUnit)" "keeps put_tablet P (tx_emit put_tablet (WriteRegistry c))"
    "keeps put_tablet P (tx_emit put_tablet KillGuard)" "keeps put_tablet P (tx_emit put_tablet (ArmGuard n))"
    "keeps put_tablet P (tx_emit put_tablet ResetFailed)" "keeps put_tablet P (tx_emit put_tablet (StartUnit up))"
  by (rule keeps_io keeps_emit_tablet, rule of_starts_put [OF assms], simp_all)+

lemmas start_steps = keeps_bind keeps_match keeps_try keeps_if keeps_option keeps_prod keeps_still keeps_probe keeps_quiet of_starts_keeps

lemma of_starts_waits:
  assumes "of_starts P"
  shows "keeps put_tablet P (foreign_write env)" "keeps put_tablet P (wait_for_free_panel env l n)"
proof -
  show f: "keeps put_tablet P (foreign_write env)"
    unfolding foreign_write_def by (intro start_steps assms)
  show "keeps put_tablet P (wait_for_free_panel env l n)"
  proof (induction n)
    case 0
    show ?case by (subst wait_for_free_panel.simps) (auto simp: locks_clear_def intro!: start_steps f)
  next
    case (Suc n)
    then show ?case by (subst wait_for_free_panel.simps) (auto simp: locks_clear_def intro!: start_steps f)
  qed
qed

lemma of_starts_parts:
  assumes "of_starts P"
  shows "keeps put_tablet P (drop_wake env tag)" "keeps put_tablet P (disarm env)" "keeps put_tablet P (restore_locks env l)"
    "keeps put_tablet P (arm env n)" "keeps put_tablet P (acquire_wake env tag)" "keeps put_tablet P (stop_unit env)"
    "keeps put_tablet P (guard_fires env)" "keeps put_tablet P (start_unit env)"
  unfolding start_unit_def foreign_write_def drop_wake_def disarm_def restore_locks_def arm_def acquire_wake_def stop_unit_def guard_fires_def
  by (intro start_steps assms)+

lemma record_adds:
  assumes "\<forall>n. te_reads env n" and "now \<le> u64_max"
  shows "triple put_tablet (at_most now (Suc k)) (at_most now k) (start_once env now) (\<lambda>_. at_most now (Suc k)) (at_most now (Suc k))"
proof -
  let ?P = "at_most now k" and ?C = "at_most now (Suc k)"
  have r: "triple put_tablet ?C ?P (readable env) (\<lambda>f d. ?P d \<and> f = tb_starts d) ?C"
    unfolding readable_def
    by (rule triple_bind [where Q = "\<lambda>r d. ?P d \<and> r"], rule triple_ask, simp add: assms at_most_def, rule triple_get)
      (simp add: at_most_def)
  have rec: "triple put_tablet ?C ?P (record_start env now) (\<lambda>_. ?C) ?C"
    unfolding record_start_def
    by (rule triple_bind [OF r], rule triple_io) (auto simp: at_most_def recent_recorded [OF assms(2)])
  have q: "triple put_tablet ?C ?P (reset_failed env) (\<lambda>_. ?P) ?C"
    unfolding reset_failed_def
    by (rule triple_conseq [OF triple_weaken [OF keeps_triple [where P = ?P]]]) (auto simp: at_most_def intro!: start_steps)
  have st: "triple put_tablet ?C ?C (start_unit env) (\<lambda>_. ?C) ?C"
    unfolding start_unit_def by (intro keeps_triple start_steps of_starts_at_most of_starts_waits(1))
  show ?thesis unfolding start_once_def by (rule triple_bind [OF q], rule triple_bind [OF rec], rule st)
qed

lemma restore_adds:
  assumes "\<forall>n. te_reads env n" and "now \<le> u64_max"
  shows "triple put_tablet (at_most now 4) (at_most now 2) (restore_stock env now) (\<lambda>_. at_most now 4) (at_most now 4)"
proof -
  have act: "triple put_tablet (at_most now 4) (at_most now k) (is_active env) (\<lambda>_. at_most now k) (at_most now 4)" if "k \<le> 4" for k
    by (rule triple_conseq [OF triple_weaken [OF keeps_triple [OF keeps_quiet(2) [where P = "at_most now k"]]]]) (use that in \<open>auto simp: at_most_def\<close>)
  have once: "triple put_tablet (at_most now 4) (at_most now k) (start_once env now) (\<lambda>_. at_most now (Suc k)) (at_most now 4)" if "k < 4" for k
    by (rule triple_conseq [OF triple_weaken [OF record_adds [OF assms, of k]]]) (use that in \<open>auto simp: at_most_def\<close>)
  have fin: "triple put_tablet (at_most now 4) (at_most now k) (tx_ok ()) (\<lambda>_. at_most now 4) (at_most now 4)" if "k \<le> 4" for k
    by (rule triple_ok) (use that in \<open>auto simp: at_most_def\<close>)
  have bad: "triple put_tablet (at_most now 4) (at_most now k) (tx_err e) (\<lambda>_. at_most now 4) (at_most now 4)" if "k \<le> 4" for k e
    by (rule triple_err) (use that in \<open>auto simp: at_most_def\<close>)
  show ?thesis
    unfolding restore_stock_def wait_active_def
    by (rule triple_bind [OF act], simp, rule triple_if, rule fin, simp,
        rule triple_bind [OF once], simp, rule triple_bind [OF act], simp, rule triple_if, rule fin, simp,
        rule triple_bind [OF once], simp, rule triple_bind [OF act], simp, rule triple_if, rule fin, simp, rule bad, simp)
qed

lemma spent_refuses:
  assumes "\<forall>n. te_reads env n"
  shows "triple put_tablet (at_most now 4) (at_most now 4) (allows_session env now) (\<lambda>_. at_most now 2) (at_most now 4)"
proof -
  have r: "triple put_tablet (at_most now 4) (at_most now 4) (readable env) (\<lambda>f d. at_most now 4 d \<and> f = tb_starts d) (at_most now 4)"
    unfolding readable_def
    by (rule triple_bind [where Q = "\<lambda>r d. at_most now 4 d \<and> r"], rule triple_ask, simp add: assms at_most_def, rule triple_get)
      (simp add: at_most_def)
  show ?thesis
    unfolding allows_session_def recent_def
    by (rule triple_bind [where Q = "\<lambda>n d. at_most now 4 d \<and> n = recent_in now (tb_starts d)"], rule triple_bind [OF r], rule triple_ok,
        simp, rule triple_if, rule triple_err, simp, rule triple_ok) (simp add: at_most_def START_BUDGET_def)
qed

lemma acquire_budget:
  assumes "\<forall>n. te_reads env n"
  shows "triple put_tablet (at_most now 4) (at_most now 4) (acquire_takeover env h p budget now) (\<lambda>_. at_most now 2) (at_most now 4)"
proof -
  let ?C = "at_most now 4"
  have weak: "triple put_tablet ?C ?C m (\<lambda>_. ?C) ?C" if "keeps put_tablet ?C m" for m :: "'z tablet_tx"
    by (rule keeps_triple [OF that])
  have two: "triple put_tablet ?C (at_most now 2) m (\<lambda>_. at_most now 2) ?C" if "keeps put_tablet (at_most now 2) m" for m :: "'z tablet_tx"
    by (rule triple_conseq [OF triple_weaken [OF keeps_triple [OF that]]]) (auto simp: at_most_def)
  have stop: "triple put_tablet ?C ?C (stop_for_session env now) (\<lambda>_. at_most now 2) ?C"
    unfolding stop_for_session_def
    by (rule triple_bind [OF spent_refuses [OF assms]], rule two) (intro start_steps of_starts_parts of_starts_at_most)
  have fail: "triple put_tablet ?C ?C (tb_then a (tb_then b (tx_err e))) Q ?C"
    if "keeps put_tablet ?C a" "keeps put_tablet ?C b" for a b :: "unit tablet_tx" and e and Q :: "takeover \<Rightarrow> tablet \<Rightarrow> bool"
    by (rule triple_bind [OF weak [OF that(1)]], rule triple_bind [OF weak [OF that(2)]], rule triple_err) simp
  show ?thesis
    unfolding acquire_takeover_def
    by (rule triple_bind [OF weak], rule keeps_still, rule triple_bind [OF weak], rule keeps_still,
        rule triple_bind [OF weak], rule keeps_quiet, rule triple_bind [OF weak], rule of_starts_parts, simp,
        rule triple_match [OF weak], rule of_starts_parts, simp, rule fail, (rule of_starts_parts, simp)+,
        rule triple_match [OF stop], rule fail, (rule of_starts_parts, simp)+, rule triple_ok) (simp add: at_most_def)
qed

lemma release_budget:
  assumes "\<forall>n. te_reads env n" and "now \<le> u64_max"
  shows "triple put_tablet (at_most now 4) (at_most now 2) (release_takeover env t now) (\<lambda>_. at_most now 4) (at_most now 4)"
proof -
  let ?C = "at_most now 4"
  have two: "triple put_tablet ?C (at_most now 2) m (\<lambda>_. at_most now 2) (at_most now 2)" if "keeps put_tablet (at_most now 2) m" for m :: "'z tablet_tx"
    by (rule triple_weaken [OF keeps_triple [OF that]]) (auto simp: at_most_def)
  have weak: "triple put_tablet ?C ?C m (\<lambda>_. ?C) ?C" if "keeps put_tablet ?C m" for m :: "'z tablet_tx"
    by (rule keeps_triple [OF that])
  note restore = restore_adds [OF assms]
  have un: "triple put_tablet ?C (at_most now 2) (release_unfreed env why now) (\<lambda>_. ?C) ?C" for why
    unfolding release_unfreed_def by (rule triple_match [OF restore]) (auto intro!: triple_ok)
  have ends: "triple put_tablet ?C ?C (tb_then (drop_wake env tag) k) (\<lambda>_. ?C) ?C" if "keeps put_tablet ?C k" for tag and k :: "'z tablet_tx"
    by (rule triple_bind [OF weak weak [OF that]]) (rule of_starts_parts, simp)
  have inner: "triple put_tablet ?C (at_most now 2) (release_inner env t now) (\<lambda>_. ?C) ?C"
    unfolding release_inner_def
    by (rule triple_match [OF two un], rule of_starts_parts, simp, rule triple_bind,
        rule returns_error [OF returns_wait two], rule of_starts_waits, simp, rule triple_if, rule un,
        rule triple_match [OF restore], rule ends, rule keeps_still, rule ends, (intro start_steps of_starts_parts of_starts_at_most))
  show ?thesis
    unfolding release_takeover_def
    by (rule triple_bind [OF inner], simp only: split_def, rule weak, unfold drop_takeover_def, intro start_steps of_starts_parts of_starts_at_most)
qed

lemma session_budget:
  assumes "\<forall>n. te_reads env n" and "started \<le> ended" and "ended \<le> u64_max"
  shows "triple put_tablet (at_most ended 4) (at_most started 4) (run_session env p budget started ended present)
     (\<lambda>_. at_most ended 4) (at_most ended 4)"
proof -
  have later: "at_most started k d \<Longrightarrow> at_most ended k d" for k d
    using recent_antimono [OF assms(2)] by (auto simp: at_most_def intro: le_trans)
  have ask: "triple put_tablet (at_most ended 4) (at_most started 4) (tx_ask (te_health env)) (\<lambda>_. at_most started 4) (at_most ended 4)"
    by (rule triple_ask) (simp add: later)
  have acq: "triple put_tablet (at_most ended 4) (at_most started 4) (acquire_takeover env h p budget started) (\<lambda>_. at_most ended 2) (at_most ended 4)" for h
    by (rule triple_conseq [OF triple_weaken [OF acquire_budget [OF assms(1)]]]) (auto intro: later)
  have two: "triple put_tablet (at_most ended 4) (at_most ended 2) (foreign_write env) (\<lambda>_. at_most ended 2) (at_most ended 4)"
    by (rule triple_conseq [OF triple_weaken [OF keeps_triple [OF of_starts_waits(1) [where P = "at_most ended 2"]]]]) (auto simp: at_most_def)
  show ?thesis
    unfolding run_session_def
    by (rule triple_bind [OF ask], rule triple_bind [OF acq], rule triple_bind [OF two], rule triple_bind [OF release_budget [OF assms(1,3)]],
        rule keeps_triple, intro start_steps)
qed

section \<open>The limiter\<close>

definition sound_unit :: "tablet \<Rightarrow> bool" where
  "sound_unit d \<longleftrightarrow> \<not> tb_stranded d"

text \<open>Everything but a start leaves the limiter's verdict alone.\<close>

lemma sound_put: "(\<And>up. w \<noteq> StartUnit up) \<Longrightarrow> sound_unit d \<Longrightarrow> sound_unit (put_tablet d w)"
  by (cases w) (auto simp: sound_unit_def)

lemma sound_keeps:
  "(\<And>up. w \<noteq> StartUnit up) \<Longrightarrow> keeps put_tablet sound_unit (tb_write env what w)"
  "(\<And>up. w \<noteq> StartUnit up) \<Longrightarrow> keeps put_tablet sound_unit (tx_emit put_tablet w)"
  by (rule keeps_io keeps_emit_tablet, rule sound_put, simp_all)+

lemmas sound_steps = keeps_bind keeps_match keeps_try keeps_if keeps_option keeps_prod keeps_still keeps_probe keeps_quiet sound_keeps

lemma sound_foreign: "keeps put_tablet sound_unit (foreign_write env)"
  unfolding foreign_write_def by (intro sound_steps) simp

lemma reset_then_start:
  assumes "\<forall>n. te_resets env n"
  shows "keeps put_tablet sound_unit (start_once env now)"
proof -
  let ?Z = "\<lambda>d. sound_unit d \<and> tb_limiter d = 0"
  have reset: "triple put_tablet sound_unit sound_unit (reset_failed env) (\<lambda>_. ?Z) sound_unit"
    unfolding reset_failed_def
    by (rule triple_bind [OF keeps_triple [OF keeps_probe]], rule triple_bind [where Q = "\<lambda>r d. sound_unit d \<and> r"],
        rule triple_ask, simp add: assms, rule triple_pure, simp, rule triple_emit)
      (simp add: sound_unit_def)
  have rec: "triple put_tablet sound_unit ?Z (record_start env now) (\<lambda>_. ?Z) sound_unit"
    by (rule triple_conseq [OF triple_weaken [OF keeps_triple [where P = ?Z]]])
      (auto simp: record_start_def sound_unit_def intro!: keep keeps_io)
  have st: "triple put_tablet sound_unit ?Z (start_unit env) (\<lambda>_. sound_unit) sound_unit"
    unfolding start_unit_def
    by (rule triple_bind [where Q = "\<lambda>_. ?Z"], rule triple_probe, simp, rule triple_bind [where Q = "\<lambda>_. ?Z"], rule triple_ask, simp,
        rule triple_bind [where Q = "\<lambda>_. sound_unit"], rule triple_emit, simp add: sound_unit_def START_LIMIT_BURST_def,
        rule keeps_triple, rule sound_foreign)
  show ?thesis
    unfolding keeps_def start_once_def by (rule triple_bind [OF reset], rule triple_bind [OF rec], rule st)
qed

lemma sound_waits: "keeps put_tablet sound_unit (foreign_write env)" "keeps put_tablet sound_unit (wait_for_free_panel env l n)"
proof -
  show f: "keeps put_tablet sound_unit (foreign_write env)" by (rule sound_foreign)
  show "keeps put_tablet sound_unit (wait_for_free_panel env l n)"
  proof (induction n)
    case 0
    show ?case by (subst wait_for_free_panel.simps) (auto simp: locks_clear_def intro!: sound_steps f)
  next
    case (Suc n)
    then show ?case by (subst wait_for_free_panel.simps) (auto simp: locks_clear_def intro!: sound_steps f)
  qed
qed

lemma sound_parts:
  "keeps put_tablet sound_unit (drop_wake env tag)" "keeps put_tablet sound_unit (disarm env)"
  "keeps put_tablet sound_unit (restore_locks env l)" "keeps put_tablet sound_unit (arm env n)"
  "keeps put_tablet sound_unit (acquire_takeover env h p budget now)"
  unfolding acquire_takeover_def drop_wake_def disarm_def restore_locks_def arm_def acquire_wake_def stop_for_session_def stop_unit_def
  by (intro sound_steps; simp)+

lemma sound_stock_restore:
  assumes "\<forall>n. te_resets env n"
  shows "keeps put_tablet sound_unit (restore_stock env now)"
  unfolding restore_stock_def wait_active_def by (intro sound_steps reset_then_start assms)

lemma sound_session:
  assumes "\<forall>n. te_resets env n"
  shows "keeps put_tablet sound_unit (run_session env p budget started ended present)"
  unfolding run_session_def release_takeover_def release_inner_def release_unfreed_def drop_takeover_def
  by (intro sound_steps sound_waits sound_parts sound_stock_restore assms)

lemma sound_guard:
  assumes "\<forall>n. te_resets env n"
  shows "keeps put_tablet sound_unit (guard_fires env)"
proof -
  let ?Z = "\<lambda>d. sound_unit d \<and> tb_limiter d = 0"
  have reset: "triple put_tablet sound_unit sound_unit (tx_bind (tx_ask (te_resets env)) (\<lambda>r. if r then tx_emit put_tablet ResetFailed else tx_ok ()))
      (\<lambda>_. ?Z) sound_unit"
    by (rule triple_bind [where Q = "\<lambda>r d. sound_unit d \<and> r"],
        rule triple_ask, simp add: assms, rule triple_pure, simp, rule triple_emit) (simp add: sound_unit_def)
  have start: "triple put_tablet sound_unit ?Z (tx_bind (tx_get tb_active) (\<lambda>active. if active then tx_ok ()
        else tx_bind (tx_ask (te_up env)) (\<lambda>up. tb_then (tx_emit put_tablet (StartUnit up)) (foreign_write env)))) (\<lambda>_. sound_unit) sound_unit"
    by (rule triple_bind [where Q = "\<lambda>_. ?Z"], rule triple_get, simp, rule triple_if, rule triple_ok, simp,
        rule triple_bind [where Q = "\<lambda>_. ?Z"], rule triple_ask, simp,
        rule triple_bind [where Q = "\<lambda>_. sound_unit"], rule triple_emit, simp add: sound_unit_def START_LIMIT_BURST_def,
        rule keeps_triple, rule sound_foreign)
  show ?thesis
    unfolding keeps_def guard_fires_def
    by (rule triple_bind [OF reset], rule triple_bind [OF start], rule keeps_triple) (intro sound_steps sound_parts; simp)
qed

section \<open>Histories\<close>

text \<open>
  Sessions one after another on one boot's clock, each of which ran to its end or was killed
  at any moment, and the guardian of any of them.
\<close>

inductive tablet_history :: "nat \<Rightarrow> tablet \<Rightarrow> bool" where
  Booted: "tb_starts d = None \<Longrightarrow> \<not> tb_stranded d \<Longrightarrow> tablet_history now d"
| Session: "tablet_history now d \<Longrightarrow> \<forall>n. te_reads env n \<Longrightarrow> \<forall>n. te_resets env n \<Longrightarrow> now \<le> started \<Longrightarrow> started \<le> ended
    \<Longrightarrow> ended \<le> u64_max \<Longrightarrow> d' \<in> cuts put_tablet (run_session env p budget started ended present) d \<Longrightarrow> tablet_history ended d'"
| Guardian: "tablet_history now d \<Longrightarrow> \<forall>n. te_resets env n \<Longrightarrow> d' \<in> cuts put_tablet (guard_fires env) d \<Longrightarrow> tablet_history now d'"

lemma history_within: "tablet_history now d \<Longrightarrow> at_most now 4 d \<and> sound_unit d"
proof (induction rule: tablet_history.induct)
  case (Booted d now)
  then show ?case by (simp add: at_most_def recent_in_def sound_unit_def)
next
  case (Session now d env started ended d' p budget present)
  then have "at_most started 4 d"
    using recent_antimono [of now started] by (auto simp: at_most_def intro: le_trans)
  from triple_cuts [OF session_budget this] triple_cuts [OF keeps_triple [OF sound_session]] Session
  show ?case by blast
next
  case (Guardian now d env d')
  from triple_cuts [OF keeps_triple [OF of_starts_parts(7) [OF of_starts_at_most]]]
    triple_cuts [OF keeps_triple [OF sound_guard]] Guardian
  show ?case by blast
qed

definition calm_session :: "(stock_health \<times> panel_record) tablet_tx" where
  "calm_session = run_session calm_env (Ok ()) 300 100 200 (Err BlankFrame)"

definition after_session :: tablet where
  "after_session = running_tablet\<lparr>tb_limiter := 1, tb_starts := Some (show_nat 200 @ [newline]), tb_found := [Some ''10'']\<rparr>"

lemmas session_steps = run_session_def release_takeover_def release_inner_def restore_locks_def PANEL_FREE_POLLS_def
  wait_for_free_panel.simps [of _ _ "numeral _"] foreign_write_def locks_clear_def restore_stock_def is_active_def wait_active_def start_once_def
  reset_failed_def record_start_def readable_def start_unit_def drop_wake_def drop_takeover_def disarm_def
  acquire_takeover_def wait_until_safe_to_stop_def is_healthy_def allows_takeover_def restarts_remaining_def
  capture_locks_def acquire_wake_def validate_tag_def is_space_def arm_def stop_for_session_def allows_session_def recent_def
  stop_unit_def tx_run

lemma calm_session_runs: "\<exists>n. calm_session (tx_start running_tablet) = (Err BlankFrame, \<lparr>tx_disk = after_session,
    tx_log = [TakeWake WAKELOCK_TAG, ArmGuard 300, StopUnit, WriteRegistry ''10'', ResetFailed,
      WriteStarts (show_nat 200 @ [newline]), StartUnit True, DropWake WAKELOCK_TAG, KillGuard], tx_asked = n\<rparr>)"
  by (simp add: calm_session_def session_steps concrete after_session_def WAKELOCK_TAG_def START_LIMIT_BURST_def START_BUDGET_def
      recent_in_def record_text_def write_lines_def stamps_in_def lines_def List.map_filter_simps)

lemma after_session_cut: "after_session \<in> cuts put_tablet calm_session running_tablet"
proof -
  obtain n where r: "calm_session (tx_start running_tablet) = (Err BlankFrame, \<lparr>tx_disk = after_session,
    tx_log = [TakeWake WAKELOCK_TAG, ArmGuard 300, StopUnit, WriteRegistry ''10'', ResetFailed,
      WriteStarts (show_nat 200 @ [newline]), StartUnit True, DropWake WAKELOCK_TAG, KillGuard], tx_asked = n\<rparr>)"
    using calm_session_runs by blast
  show ?thesis
    unfolding cuts_def r by (simp add: crash_points_Cons concrete after_session_def START_LIMIT_BURST_def)
qed

lemma after_session_history: "tablet_history 200 after_session"
proof -
  have "tablet_history 0 running_tablet" by (rule Booted) (simp_all add: concrete)
  then show ?thesis
    by (rule Session [OF _ _ _ _ _ _ after_session_cut [unfolded calm_session_def]]) (simp_all add: calm_env_def)
qed

text \<open>
  C3. Whatever a boot's sessions did and wherever they were killed, the shared record holds at
  most as many recent starts as the unit's own limit.
\<close>

theorem starts_stay_within_limit:
  assumes "tablet_history now d"
  shows "recent_in now (tb_starts d) \<le> START_LIMIT_BURST"
  using history_within [OF assms] by (simp add: at_most_def START_LIMIT_BURST_def)

theorem starts_stay_within_limit_witness:
  "recent_in 200 (tb_starts after_session) \<le> 4 \<and> recent_in 200 (tb_starts after_session) = 1"
proof -
  have "stamps_in (write_lines (map show_nat [200])) = [200]" by (rule stamps_written) simp
  then have "recent_in 200 (tb_starts after_session) = 1"
    by (simp add: after_session_def recent_in_def write_lines_def within_window_def START_LIMIT_WINDOW_def)
  then show ?thesis
    using starts_stay_within_limit [OF after_session_history] by (simp add: START_LIMIT_BURST_def)
qed

section \<open>What a session gives back\<close>

lemma does_anything: "keeps put_tablet (\<lambda>_. True) m \<Longrightarrow> does P m (\<lambda>_ _. True) (\<lambda>_. True)"
  by (rule triple_conseq [OF keeps_triple]) simp_all

text \<open>A session whose display was taken: stock is down, and the starts before it are on record.\<close>

definition taken :: "string option list \<Rightarrow> tablet \<Rightarrow> bool" where
  "taken found d \<longleftrightarrow> \<not> tb_active d \<and> armed d \<and> tb_found d = found"

definition untouched :: "string option \<Rightarrow> string option list \<Rightarrow> tablet \<Rightarrow> bool" where
  "untouched c found d \<longleftrightarrow> tb_registry d = c \<and> tb_found d = found"

lemma stop_takes:
  "does (\<lambda>d. armed d \<and> tb_found d = found) (stop_for_session env now) (\<lambda>_. taken found) (\<lambda>_. True)"
proof -
  let ?P = "\<lambda>d. armed d \<and> tb_found d = found"
  have allow: "does ?P (allows_session env now) (\<lambda>_. ?P) (\<lambda>_. True)"
    by (rule triple_conseq [OF does_keeps [OF keeps_quiet(5)]]) auto
  have act: "does ?P (is_active env) (\<lambda>a d. ?P d \<and> a = tb_active d) (\<lambda>_. True)"
    by (rule is_active_reads) simp
  show ?thesis
    unfolding stop_for_session_def stop_unit_def
    by (rule triple_bind [OF allow], rule triple_bind [OF act], rule triple_if, rule triple_ok, simp add: taken_def,
        rule triple_bind [where Q = "\<lambda>_. taken found"], rule triple_io) (auto simp: taken_def armed_def intro!: triple_ok)
qed

lemma acquire_captures:
  "does (untouched c found) (acquire_takeover env h p budget now) (\<lambda>t d. vl_registry (tk_locks t) = c \<and> taken found d) (\<lambda>_. True)"
proof -
  let ?P = "untouched c found" and ?F = "\<lambda>d. tb_found d = found"
  have lift: "does ?P (tx_lift r) (\<lambda>_. ?P) (\<lambda>_. True)" for r :: "(device_error, unit) result"
    by (rule triple_lift) simp
  have cap: "does ?P (capture_locks env) (\<lambda>l d. ?F d \<and> vl_registry l = c) (\<lambda>_. True)"
    unfolding capture_locks_def
    by (rule triple_bind [where Q = "\<lambda>_. ?P"], rule triple_probe, simp, rule triple_get) (simp add: untouched_def)
  have wake: "does ?F (acquire_wake env tag) (\<lambda>_. ?F) (\<lambda>_. True)" for tag
    by (rule triple_conseq [OF does_keeps [where P = ?F]]) (auto simp: acquire_wake_def intro!: keep keeps_io)
  have dis: "does ?F (disarm env) (\<lambda>_. ?F) (\<lambda>_. True)"
    by (rule disarm_triple) simp
  have armw: "does ?F (arm env budget) (\<lambda>_ d. armed d \<and> ?F d) (\<lambda>_. True)"
    unfolding arm_def
    by (rule triple_bind [OF dis], rule triple_bind [where Q = "\<lambda>_. ?F"], rule triple_probe, simp, rule triple_emit) (simp add: armed_def)
  have fail: "does P (tb_then a (tb_then b (tx_err e))) Q (\<lambda>_. True)" if "keeps put_tablet (\<lambda>_. True) a" "keeps put_tablet (\<lambda>_. True) b"
    for P and a b :: "unit tablet_tx" and e and Q :: "takeover \<Rightarrow> tablet \<Rightarrow> bool"
    by (rule triple_bind [OF does_anything [OF that(1)]], rule triple_bind [OF does_anything [OF that(2)]], rule triple_err) simp
  have dw: "keeps put_tablet (\<lambda>_. True) (drop_wake env tag)" for tag by (intro keep) simp
  have rest: "does ?F (tx_bind (acquire_wake env WAKELOCK_TAG) (\<lambda>tag. tx_match (arm env budget)
       (\<lambda>e. tb_then (drop_wake env tag) (tb_then (disarm env) (tx_err e)))
       (\<lambda>_. tx_match (stop_for_session env now) (\<lambda>e. tb_then (disarm env) (tb_then (drop_wake env tag) (tx_err e)))
          (\<lambda>owes. tx_ok \<lparr>tk_locks = l, tk_owes = owes\<rparr>)))) (\<lambda>t d. vl_registry (tk_locks t) = c \<and> taken found d) (\<lambda>_. True)"
    if "vl_registry l = c" for l
    by (rule triple_bind [OF wake], rule triple_match [OF armw fail], rule dw, rule anything_keeps,
        rule triple_match [OF stop_takes fail], rule anything_keeps, rule dw, rule triple_ok) (simp add: that)
  show ?thesis
    unfolding acquire_takeover_def
    by (rule triple_bind [OF lift], rule triple_bind [OF lift], rule triple_bind [OF cap], rule triple_pure, rule rest)
qed

lemma waited_for:
  assumes "lock_free P"
  shows "does P (wait_for_free_panel env l n) (\<lambda>freed d. P d \<and> (freed \<longrightarrow> (\<forall>c. vl_registry l = Some c \<longrightarrow> tb_registry d = Some c))) R"
proof -
  let ?Q = "\<lambda>freed d. P d \<and> (freed \<longrightarrow> (\<forall>c. vl_registry l = Some c \<longrightarrow> tb_registry d = Some c))"
  have f: "does P (foreign_write env) (\<lambda>_. P) R"
    by (rule returns_error [OF _ does_keeps [OF lock_free_keeps(1) [OF assms]]]) (auto simp: foreign_write_def intro!: returning)
  have c: "does P (locks_clear env l) ?Q R"
    unfolding locks_clear_def
    by (rule triple_bind [where Q = "\<lambda>f d. P d \<and> (f = None \<or> f = tb_registry d)"],
        rule triple_match [where Q = "\<lambda>_. P" and E = P], rule triple_probe, simp, rule triple_ok, simp, rule triple_get, simp,
        rule triple_ok) auto
  show ?thesis
  proof (induction n)
    case 0
    show ?case
      by (subst wait_for_free_panel.simps, rule triple_bind [OF f], rule triple_bind [OF c], rule triple_if, rule triple_ok, simp,
          rule triple_bind [where Q = "\<lambda>_. P"], rule triple_ask, simp, simp, rule triple_ok) simp
  next
    case (Suc n)
    show ?case
      by (subst wait_for_free_panel.simps, rule triple_bind [OF f], rule triple_bind [OF c], rule triple_if, rule triple_ok, simp,
          rule triple_bind [where Q = "\<lambda>_. P"], rule triple_ask, simp, unfold nat.case, rule triple_if, rule triple_ok, simp, rule Suc)
  qed
qed

text \<open>A start of the unit after the registry was put back: whatever happens later, that is what it found.\<close>

definition started_on :: "string option \<Rightarrow> string option list \<Rightarrow> tablet \<Rightarrow> bool" where
  "started_on c found d \<longleftrightarrow> (\<exists>later. tb_found d = found @ c # later)"

lemma started_on_free: "lock_free (started_on c found)" "lock_free (taken found)" "lock_free (\<lambda>d. tb_found d = found)"
  by (simp_all add: lock_free_def started_on_def taken_def armed_def)

lemma started_on_start: "started_on c found d \<Longrightarrow> started_on c found (put_tablet d (StartUnit up))"
  by (auto simp: started_on_def)

lemma starts_on:
  "does (untouched c found) (start_once env now) (\<lambda>_. started_on c found) (\<lambda>_. True)"
  "does (started_on c found) (start_once env now) (\<lambda>_. started_on c found) (\<lambda>_. True)"
proof -
  have quiet: "does P (reset_failed env) (\<lambda>_. P) (\<lambda>_. True)" "does P (record_start env now) (\<lambda>_. P) (\<lambda>_. True)"
    if "\<And>d x. P d \<Longrightarrow> P (d\<lparr>tb_limiter := x\<rparr>)" "\<And>d x. P d \<Longrightarrow> P (d\<lparr>tb_starts := x\<rparr>)" for P
    by (rule triple_conseq [OF does_keeps [where P = P]];
      use that in \<open>auto simp: reset_failed_def record_start_def intro!: keep keeps_io keeps_emit_tablet\<close>)+
  have start: "does P (start_unit env) (\<lambda>_. started_on c found) (\<lambda>_. True)"
    if "\<And>d up. P d \<Longrightarrow> started_on c found (put_tablet d (StartUnit up))" for P
    unfolding start_unit_def
    by (rule triple_bind [where Q = "\<lambda>_. P"], rule triple_probe, simp, rule triple_bind [where Q = "\<lambda>_. P"], rule triple_ask, simp,
        rule triple_bind [where Q = "\<lambda>_. started_on c found"], rule triple_emit, simp only: that simp_thms,
        rule triple_conseq [OF does_keeps [OF lock_free_keeps(1) [OF started_on_free(1)]]]) simp_all
  have once: "does P (start_once env now) (\<lambda>_. started_on c found) (\<lambda>_. True)"
    if "\<And>d x. P d \<Longrightarrow> P (d\<lparr>tb_limiter := x\<rparr>)" "\<And>d x. P d \<Longrightarrow> P (d\<lparr>tb_starts := x\<rparr>)"
      "\<And>d up. P d \<Longrightarrow> started_on c found (put_tablet d (StartUnit up))" for P
    unfolding start_once_def by (rule triple_bind [OF quiet(1)], fact, fact, rule triple_bind [OF quiet(2)], fact, fact, rule start, fact)
  show "does (untouched c found) (start_once env now) (\<lambda>_. started_on c found) (\<lambda>_. True)"
    by (rule once) (auto simp: untouched_def started_on_def)
  show "does (started_on c found) (start_once env now) (\<lambda>_. started_on c found) (\<lambda>_. True)"
    by (rule once, simp add: started_on_def, simp add: started_on_def, erule started_on_start)
qed

lemma restore_starts_on:
  "does (\<lambda>d. \<not> tb_active d \<and> untouched c found d) (restore_stock env now) (\<lambda>_. started_on c found) (\<lambda>_. True)"
proof -
  let ?P = "\<lambda>d. \<not> tb_active d \<and> untouched c found d" and ?S = "started_on c found"
  have act: "does ?P (is_active env) (\<lambda>a d. untouched c found d \<and> \<not> a) (\<lambda>_. True)"
    by (rule triple_conseq [OF is_active_reads [where P = ?P and R = "\<lambda>_. True"]]) auto
  have again: "does ?S (is_active env) (\<lambda>_. ?S) (\<lambda>_. True)"
    by (rule triple_conseq [OF does_keeps [OF keeps_quiet(2)]]) auto
  show ?thesis
    unfolding restore_stock_def wait_active_def
    by (rule triple_bind [OF act], rule triple_pure, simp only: if_False simp_thms, rule triple_bind [OF starts_on(1)], rule triple_bind [OF again],
        rule triple_if, rule triple_ok, simp, rule triple_bind [OF starts_on(2)], rule triple_bind [OF again], rule triple_if, rule triple_ok, simp,
        rule triple_err, simp)
qed

lemma release_finds:
  assumes "vl_registry (tk_locks t) = Some c"
  shows "does (taken found) (release_takeover env t now) (\<lambda>_. started_on (Some c) found) (\<lambda>_. True)"
proof -
  let ?S = "started_on (Some c) found"
  let ?Q = "\<lambda>(rh :: (device_error, unit) result \<times> bool) d. fst rh = Ok () \<longrightarrow> ?S d"
  let ?N = "\<lambda>d. \<not> tb_active d \<and> tb_found d = found"
  have nf: "lock_free ?N" by (simp add: lock_free_def)
  have un: "does (\<lambda>_. True) (release_unfreed env why now) ?Q (\<lambda>_. True)" for why
    by (rule triple_conseq [OF release_unfreed_triple [where P = "\<lambda>_. True", OF start_free_some(3)], where R' = "\<lambda>_. True"]) auto
  have locks: "does (taken found) (restore_locks env l) (\<lambda>_. ?N) (\<lambda>_. True)" for l
    by (rule triple_conseq [OF does_keeps [OF lock_free_keeps(2) [OF nf]]]) (auto simp: taken_def)
  have wait: "does ?N (wait_for_free_panel env (tk_locks t) n)
      (\<lambda>freed d. ?N d \<and> (freed \<longrightarrow> tb_registry d = Some c)) (\<lambda>_. True)" for n
    by (rule triple_conseq [OF waited_for [OF nf, where R = "\<lambda>_. True"]]) (use assms in auto)
  have stock: "does (\<lambda>d. ?N d \<and> tb_registry d = Some c) (restore_stock env now) (\<lambda>_. ?S) (\<lambda>_. True)"
    by (rule triple_conseq [OF restore_starts_on [of "Some c" found]]) (auto simp: untouched_def)
  have K: "keeps put_tablet ?S (drop_wake env tag)" "keeps put_tablet ?S (disarm env)" for tag
    by (auto simp: disarm_def started_on_def intro!: keep keeps_emit_tablet)
  have dk: "does ?S m (\<lambda>_. ?S) (\<lambda>_. True)" if "keeps put_tablet ?S m" for m :: "'z tablet_tx"
    by (rule triple_conseq [OF does_keeps [OF that]]) auto
  have ended: "does (\<lambda>_. True) (tb_then (drop_wake env tag) (tx_ok (Err e, False))) ?Q (\<lambda>_. True)" for tag e
    by (rule triple_bind [OF does_anything]) (auto intro!: triple_ok keep)
  have won: "does ?S (tb_then (drop_wake env tag) (tb_then (disarm env) (tx_ok (Ok (), False)))) ?Q (\<lambda>_. True)" for tag
    by (rule triple_bind [OF dk [OF K(1)]], rule triple_bind [OF dk [OF K(2)]], rule triple_ok) simp
  have freed: "does (\<lambda>d. ?N d \<and> (b \<longrightarrow> tb_registry d = Some c)) (if \<not> b then release_unfreed env None now
        else tx_match (restore_stock env now) (\<lambda>e. tb_then (drop_wake env WAKELOCK_TAG) (tx_ok (Err e, False)))
          (\<lambda>_. tb_then (drop_wake env WAKELOCK_TAG) (tb_then (disarm env) (tx_ok (Ok (), False))))) ?Q (\<lambda>_. True)" for b
    using triple_match [OF stock ended won] by (cases b) (auto intro: triple_conseq [OF un])
  have inner: "does (taken found) (release_inner env t now) ?Q (\<lambda>_. True)"
    unfolding release_inner_def by (rule triple_match [OF locks un], rule triple_bind [OF wait], rule freed)
  have last: "does (\<lambda>d. r = Ok () \<longrightarrow> ?S d) (tb_then (drop_takeover env h) (tx_lift r)) (\<lambda>_. ?S) (\<lambda>_. True)"
    for r :: "(device_error, unit) result" and h
  proof (cases "r = Ok ()")
    case True
    have "does ?S (drop_takeover env h) (\<lambda>_. ?S) (\<lambda>_. True)"
      unfolding drop_takeover_def by (rule dk) (intro keep K)
    then show ?thesis using True by (auto intro!: triple_bind [where Q = "\<lambda>_. ?S"] triple_lift)
  next
    case False
    have "does (\<lambda>d. r = Ok () \<longrightarrow> ?S d) (drop_takeover env h) (\<lambda>_ _. True) (\<lambda>_. True)"
      unfolding drop_takeover_def by (rule does_anything) (auto intro!: keep)
    then show ?thesis using False by (cases r) (auto intro!: triple_bind [where Q = "\<lambda>_ _. True"] triple_lift)
  qed
  show ?thesis
    unfolding release_takeover_def by (rule triple_bind [OF inner], simp only: split_def, rule last)
qed

lemma session_triple:
  "does (untouched (Some c) found) (run_session env p budget started ended present)
     (\<lambda>_ d. tb_active d \<and> \<not> armed d \<and> started_on (Some c) found d) (\<lambda>_. True)"
proof -
  let ?E = "\<lambda>_ d. tb_active d \<and> \<not> armed d \<and> started_on (Some c) found d"
  have acq: "does (untouched (Some c) found) (acquire_takeover env h p budget started)
      (\<lambda>t d. taken found d \<and> vl_registry (tk_locks t) = Some c) (\<lambda>_. True)" for h
    by (rule triple_conseq [OF acquire_captures [of "Some c" found]]) auto
  have f: "does (taken found) (foreign_write env) (\<lambda>_. taken found) (\<lambda>_. True)"
    by (rule triple_conseq [OF does_keeps [OF lock_free_keeps(1) [OF started_on_free(2)]]]) auto
  have rel: "does (taken found) (release_takeover env t now) ?E (\<lambda>_. True)" if "vl_registry (tk_locks t) = Some c" for t now
    by (rule triple_conseq [OF triple_weaken [OF triple_conj [OF release_result release_finds [OF that, of found]]]]) (auto simp: taken_def)
  show ?thesis
    unfolding run_session_def
    by (rule triple_bind [where Q = "\<lambda>_. untouched (Some c) found"], rule triple_ask, simp, rule triple_bind [OF acq], rule triple_pure,
        rule triple_bind [OF f], rule triple_bind [OF rel], simp, rule triple_bind [where Q = ?E],
        rule triple_lift, simp, rule triple_ok) simp
qed

text \<open>
  C4. A session that reports success, whatever was answered and whoever wrote to the vendor
  registry in the meantime, leaves stock running and no guardian, and it started stock on the
  registry as the session had found it: the first start of the unit read the contents from
  before the takeover, not the name of a process of the session. (What the started stock then
  writes to it is its own. A second start comes only when the first does not come up.)
\<close>

theorem session_gives_the_display_back:
  assumes "run_session env p budget started ended present (tx_start d) = (Ok x, u)" and "tb_registry d = Some c"
  shows "tb_active (tx_disk u) \<and> tb_guard (tx_disk u) = None \<and> (\<exists>later. tb_found (tx_disk u) = tb_found d @ Some c # later)"
  using triple_result [OF session_triple [of c "tb_found d"] _ assms(1)] assms(2)
  by (simp add: armed_def tx_start_def untouched_def started_on_def)

text \<open>
  And on a tablet that answers, with stock healthy and starts to spare, a session does take the
  display and does give it back, whatever the presenter reported: stock runs, nothing is left
  armed, the tablet can sleep, one start is on record, and it found the registry as it was.
\<close>

theorem healthy_session_completes:
  assumes "working env" and "\<forall>n. te_reads env n" and "\<forall>n. te_foreign env n = None" and "is_healthy (te_health env 0)"
    and "allows_takeover (te_health env 0) = Ok ()" and "p = Ok ()"
    and "tb_active d" and "tb_epd d" and "tb_guard d = None" and "tb_registry d = Some c"
    and "recent_in started (tb_starts d) < START_BUDGET"
  shows "\<exists>u. run_session env p budget started ended present (tx_start d) = (map_sum id (\<lambda>x. (te_health env 0, x)) present, u)
    \<and> tb_active (tx_disk u) \<and> tb_guard (tx_disk u) = None \<and> \<not> awake (tx_disk u) \<and> tb_found (tx_disk u) = tb_found d @ [Some c]
    \<and> tb_starts (tx_disk u) = Some (record_text ended (tb_starts d))"
proof -
  have io: "te_io env n = IoOk" "te_resets env n" "te_up env n" "te_reads env n" "te_foreign env n = None" for n
    using assms(1-3) by (simp_all add: working_def)
  show ?thesis
    using assms(4-) by (cases present) (simp_all add: session_steps io WAKELOCK_TAG_def awake_def START_BUDGET_def START_LIMIT_BURST_def)
qed

definition shown_panel :: panel_record where
  "shown_panel = \<lparr>pr_real = True, pr_digest = ''d1'', pr_holds = Some True, pr_lines = []\<rparr>"

text \<open>A session that leaves its own number in the registry, and a stock that claims it again.\<close>

definition reclaiming_env :: tablet_env where
  "reclaiming_env = calm_env\<lparr>te_foreign := \<lambda>n. if n = 7 then Some ''4242'' else if 18 \<le> n then Some ''11'' else None\<rparr>"

theorem session_gives_the_display_back_witness:
  "\<exists>x u. run_session reclaiming_env (Ok ()) 300 100 200 (Ok shown_panel) (tx_start running_tablet) = (Ok x, u)
     \<and> tb_active (tx_disk u) \<and> tb_guard (tx_disk u) = None \<and> hd (tb_found (tx_disk u)) = Some ''10''
     \<and> tb_registry (tx_disk u) = Some ''11''"
proof -
  have "\<exists>x u. run_session reclaiming_env (Ok ()) 300 100 200 (Ok shown_panel) (tx_start running_tablet) = (Ok x, u)
      \<and> tb_registry (tx_disk u) = Some ''11''"
    by (simp add: reclaiming_env_def session_steps concrete WAKELOCK_TAG_def START_LIMIT_BURST_def START_BUDGET_def recent_in_def)
  then obtain x u where r: "run_session reclaiming_env (Ok ()) 300 100 200 (Ok shown_panel) (tx_start running_tablet) = (Ok x, u)"
    "tb_registry (tx_disk u) = Some ''11''" by blast
  have "tb_registry running_tablet = Some ''10''" "tb_found running_tablet = []" by (simp_all add: running_tablet_def)
  with session_gives_the_display_back [OF r(1)] r show ?thesis by auto
qed

theorem healthy_session_completes_witness:
  "\<exists>u. run_session calm_env (Ok ()) 300 100 200 (Ok shown_panel) (tx_start running_tablet) = (Ok (good_health, shown_panel), u)
     \<and> tb_active (tx_disk u) \<and> tb_starts (tx_disk u) = Some (record_text 200 None)"
proof -
  have "working calm_env" "is_healthy good_health" "allows_takeover good_health = Ok ()"
    by (simp_all add: working_def concrete is_healthy_def allows_takeover_def restarts_remaining_def START_LIMIT_BURST_def)
  then show ?thesis
    using healthy_session_completes [of calm_env "Ok ()" running_tablet "''10''" 100 300 200 "Ok shown_panel"]
    by (auto simp: calm_env_def running_tablet_def recent_in_def START_BUDGET_def)
qed

end
