(* ===== verification/Recovery.thy ===== *)
theory Recovery
  imports StartBudget
begin

text \<open>
  The independent way back to stock (\<open>platform/host/src/linux/recovery.rs\<close>), which runs in a
  process of its own when the supervisor is gone, over the same tablet and the same record of
  starts as a session. Reaping the processes that still hold the display (\<open>process.rs\<close>, see
  Processes) changes nothing of the tablet; what the unit's journal shows is asked of the
  environment. \<open>DeviceError\<close> is wrapped where the code converts it.
\<close>

section \<open>The recovery\<close>

datatype restored = AlreadyRunning | Started

datatype recovery_error = RecoveryStock device_error | DisplayNotOwned

type_synonym 'a recovery_tx = "(tablet, tablet_event, recovery_error, 'a) tx"

definition restored_summary :: "restored \<Rightarrow> string" where
  "restored_summary r = (case r of AlreadyRunning \<Rightarrow> ''stock Xochitl was already running'' | Started \<Rightarrow> ''stock Xochitl restored'')"

text \<open>The question mark on a device error, and \<open>let _ =\<close> on one.\<close>

definition stock_step :: "'a tablet_tx \<Rightarrow> 'a recovery_tx" where
  "stock_step m = tx_match m (\<lambda>e. tx_err (RecoveryStock e)) tx_ok"

definition best_effort :: "unit tablet_tx \<Rightarrow> unit recovery_tx" where
  "best_effort m = tx_match m (\<lambda>_. tx_ok ()) (\<lambda>_. tx_ok ())"

definition release_wakelock :: "tablet_env \<Rightarrow> unit recovery_tx" where
  "release_wakelock env = best_effort (tb_write env ''write to'' (DropWake WAKELOCK_TAG))"

definition clear_stale_locks :: "tablet_env \<Rightarrow> unit recovery_tx" where
  "clear_stale_locks env = tb_then (best_effort (tb_write env ''remove'' RemoveRegistry)) (best_effort (tb_write env ''remove'' RemoveEpd))"

definition ATOMIC_COMMIT_FAILURE :: string where "ATOMIC_COMMIT_FAILURE = ''Atomic commit failed''"

definition restore_recovery :: "tablet_env \<Rightarrow> (nat \<Rightarrow> string) \<Rightarrow> nat \<Rightarrow> restored recovery_tx" where
  "restore_recovery env journal now = tx_bind (stock_step (is_active env)) (\<lambda>active.
     if active then tb_then (release_wakelock env) (tx_ok AlreadyRunning)
     else tb_then (clear_stale_locks env)
         (tb_then (stock_step (restore_stock env now))
         (tx_bind (tx_ask journal) (\<lambda>log.
            if text_contains log ATOMIC_COMMIT_FAILURE then tx_err DisplayNotOwned
            else tb_then (release_wakelock env) (tx_ok Started)))))"

section \<open>Order\<close>

lemma keeps_recovery [keep]:
  "keeps put_tablet P m \<Longrightarrow> keeps put_tablet P (stock_step m)"
  "keeps put_tablet P n \<Longrightarrow> keeps put_tablet P (best_effort n)"
  by (auto simp: stock_step_def best_effort_def intro!: keep)

lemma stock_step_triple: "triple put_tablet C P m Q R \<Longrightarrow> (\<And>d. R d \<Longrightarrow> C d) \<Longrightarrow> (\<And>a d. Q a d \<Longrightarrow> C d) \<Longrightarrow> triple put_tablet C P (stock_step m) Q R"
  unfolding stock_step_def by (erule triple_match) (auto intro!: triple_err triple_ok)

text \<open>Clearing the locks does not touch what is said of the rest.\<close>

lemma clear_keeps [keep]:
  assumes "\<And>d x. P d \<Longrightarrow> P (d\<lparr>tb_registry := x\<rparr>)" and "\<And>d x. P d \<Longrightarrow> P (d\<lparr>tb_epd := x\<rparr>)"
  shows "keeps put_tablet P (clear_stale_locks env)"
  unfolding clear_stale_locks_def by (intro keep keeps_io) (simp_all add: assms)

lemma release_triple:
  assumes "\<And>d. P d \<Longrightarrow> C d \<and> Q d" and "\<And>d x. P d \<Longrightarrow> P (d\<lparr>tb_wake := x\<rparr>)"
  shows "triple put_tablet C P (tb_then (release_wakelock env) (tx_ok a)) (\<lambda>_. Q) R"
  unfolding release_wakelock_def best_effort_def
  by (rule triple_bind [where Q = "\<lambda>_. P"], rule triple_match [where Q = "\<lambda>_. P" and E = P], rule triple_io)
    (auto simp: assms intro!: triple_ok)

definition ordered :: "tablet \<Rightarrow> tablet \<Rightarrow> bool" where
  "ordered d d' \<longleftrightarrow> tb_wake d' = tb_wake d \<or> tb_active d'"

lemma recovery_ordered:
  "triple put_tablet (ordered d) (\<lambda>x. x = d) (restore_recovery env journal now) (\<lambda>_. tb_active) (\<lambda>x. tb_wake x = tb_wake d)"
proof -
  let ?W = "\<lambda>x. tb_wake x = tb_wake d"
  let ?finish = "tb_then (clear_stale_locks env) (tb_then (stock_step (restore_stock env now))
    (tx_bind (tx_ask journal) (\<lambda>log. if text_contains log ATOMIC_COMMIT_FAILURE then tx_err DisplayNotOwned
       else tb_then (release_wakelock env) (tx_ok Started))))"
  have W: "start_free ?W" by (simp add: start_free_def)
  have act: "triple put_tablet (ordered d) (\<lambda>x. x = d) (stock_step (is_active env)) (\<lambda>a x. x = d \<and> a = tb_active d) ?W"
    by (rule triple_conseq [OF stock_step_triple [OF is_active_reads [where P = "\<lambda>x. x = d" and R = "\<lambda>x. x = d"]]]) (auto simp: ordered_def)
  have clear: "triple put_tablet (ordered d) (\<lambda>x. x = d) (clear_stale_locks env) (\<lambda>_. ?W) ?W"
    by (rule triple_conseq [OF triple_weaken [OF keeps_triple [OF clear_keeps [where P = ?W]]]]) (auto simp: ordered_def)
  have stock: "triple put_tablet (ordered d) ?W (stock_step (restore_stock env now)) (\<lambda>_ x. ?W x \<and> tb_active x) ?W"
    by (rule stock_step_triple, rule restore_active [OF W]) (auto simp: ordered_def)
  have freed: "triple put_tablet (ordered d) (\<lambda>x. ?W x \<and> tb_active x) (tb_then (release_wakelock env) (tx_ok Started)) (\<lambda>_. tb_active) ?W"
    by (rule triple_conseq [OF release_triple [where P = tb_active]]) (auto simp: ordered_def)
  have rest: "triple put_tablet (ordered d) (\<lambda>x. x = d) ?finish (\<lambda>_. tb_active) ?W"
    by (rule triple_bind [OF clear], rule triple_bind [OF stock], rule triple_bind [where Q = "\<lambda>_ x. ?W x \<and> tb_active x"], rule triple_ask,
        simp add: ordered_def, rule triple_if, rule triple_err, simp add: ordered_def, rule freed)
  have up: "triple put_tablet (ordered d) tb_active (tb_then (release_wakelock env) (tx_ok AlreadyRunning)) (\<lambda>_. tb_active) ?W"
    by (rule release_triple) (simp_all add: ordered_def)
  have branch: "triple put_tablet (ordered d) (\<lambda>x. x = d \<and> a = tb_active d)
      (if a then tb_then (release_wakelock env) (tx_ok AlreadyRunning) else ?finish) (\<lambda>_. tb_active) ?W" for a
    by (rule triple_if, rule triple_conseq [OF up], auto, rule triple_conseq [OF rest], auto)
  show ?thesis unfolding restore_recovery_def by (rule triple_bind [OF act branch])
qed

text \<open>
  C7. The wakelock outlives the danger: at every moment of a recovery the tablet is kept awake as
  before, or stock is running; and a recovery that fails has released nothing, so that the
  tablet stays reachable, while one that reports success has stock running.
\<close>

theorem wakelock_kept_until_stock_runs:
  assumes "restore_recovery env journal now (tx_start d) = (r, u)"
    and "d' \<in> cuts put_tablet (restore_recovery env journal now) d"
  shows "(tb_wake d' = tb_wake d \<or> tb_active d')
    \<and> (case r of Inl _ \<Rightarrow> tb_wake (tx_disk u) = tb_wake d | Inr _ \<Rightarrow> tb_active (tx_disk u))"
proof -
  have start: "tx_disk (tx_start d) = d" by (simp add: tx_start_def)
  have "case r of Inl _ \<Rightarrow> tb_wake (tx_disk u) = tb_wake d | Inr _ \<Rightarrow> tb_active (tx_disk u)"
  proof (cases r)
    case (Inl e)
    from triple_error [OF recovery_ordered start assms(1) [unfolded Inl]] Inl show ?thesis by simp
  next
    case (Inr a)
    from triple_result [OF recovery_ordered start assms(1) [unfolded Inr]] Inr show ?thesis by simp
  qed
  moreover have "tb_wake d' = tb_wake d \<or> tb_active d'"
    using triple_cuts [OF recovery_ordered refl assms(2)] by (simp add: ordered_def)
  ultimately show ?thesis by blast
qed

text \<open>What removes a lock.\<close>

fun unlocks :: "tablet_event \<Rightarrow> nat" where
  "unlocks RemoveRegistry = 1"
| "unlocks RemoveEpd = 1"
| "unlocks _ = 0"

lemma recovery_costs [cost]:
  "costs w k m \<Longrightarrow> costs w k (stock_step m)" "costs w k n \<Longrightarrow> costs w k (best_effort n)"
  using costs_match_plus [of w k m 0 "\<lambda>e. tx_err (RecoveryStock e)" tx_ok] costs_match_plus [of w k n 0 "\<lambda>_. tx_ok ()" "\<lambda>_. tx_ok ()"]
  by (auto simp: stock_step_def best_effort_def costs_still)

lemma costs_at: "costs w k m \<Longrightarrow> \<exists>ys. tx_log (snd (m u)) = tx_log u @ ys \<and> sum_list (map w ys) \<le> k"
  by (simp add: costs_def)

lemma locks_kept_later:
  "costs unlocks 0 (tb_then (stock_step (restore_stock env now)) (tx_bind (tx_ask journal) (\<lambda>log.
     if text_contains log ATOMIC_COMMIT_FAILURE then tx_err DisplayNotOwned else tb_then (release_wakelock env) (tx_ok Started))))"
  unfolding restore_stock_def start_once_def wait_active_def is_active_def reset_failed_def record_start_def readable_def start_unit_def foreign_write_def release_wakelock_def
  by (intro cost; simp)

lemma clear_log: "\<exists>xs n. clear_stale_locks env u = (Ok (), u\<lparr>tx_disk := apply_writes put_tablet (tx_disk u) xs, tx_log := tx_log u @ xs, tx_asked := n\<rparr>)
    \<and> set xs \<subseteq> {RemoveRegistry, RemoveEpd}"
  by (cases "te_io env (tx_asked u)"; cases "te_io env (Suc (tx_asked u))"; cases u)
    (auto simp: clear_stale_locks_def best_effort_def tx_run)

text \<open>
  The locks are removed only while stock is down: nothing but the wakelock is touched when it
  runs, and what is removed is removed before anything else is done.
\<close>

theorem locks_cleared_only_while_stock_is_down:
  "\<exists>xs ys. tx_log (snd (restore_recovery env journal now (tx_start d))) = xs @ ys \<and> set xs \<subseteq> {RemoveRegistry, RemoveEpd}
     \<and> RemoveRegistry \<notin> set ys \<and> RemoveEpd \<notin> set ys
     \<and> (\<not> tb_active d \<or> xs = [] \<and> set ys \<subseteq> {DropWake WAKELOCK_TAG})"
proof (cases "te_io env 0 = IoOk")
  case False
  then show ?thesis by (auto simp: restore_recovery_def stock_step_def is_active_def tx_run)
next
  case ok: True
  show ?thesis
  proof (cases "tb_active d")
    case True
    with ok show ?thesis
      by (cases "te_io env 1") (auto simp: restore_recovery_def stock_step_def is_active_def release_wakelock_def best_effort_def tx_run)
  next
    case False
    let ?rest = "tb_then (stock_step (restore_stock env now)) (tx_bind (tx_ask journal) (\<lambda>log.
       if text_contains log ATOMIC_COMMIT_FAILURE then tx_err DisplayNotOwned else tb_then (release_wakelock env) (tx_ok Started)))"
    let ?u = "\<lparr>tx_disk = d, tx_log = [], tx_asked = 1\<rparr>"
    have "restore_recovery env journal now (tx_start d) = tb_then (clear_stale_locks env) ?rest ?u"
      using ok False by (simp add: restore_recovery_def stock_step_def is_active_def tx_match_def tx_bind_def tx_probe_def tx_ask_def tx_ok_def tx_get_def tx_start_def)
    moreover obtain xs n where xs: "clear_stale_locks env ?u = (Ok (), ?u\<lparr>tx_disk := apply_writes put_tablet d xs, tx_log := xs, tx_asked := n\<rparr>)"
      "set xs \<subseteq> {RemoveRegistry, RemoveEpd}"
      using clear_log [of env ?u] by auto
    moreover obtain ys where ys: "tx_log (snd (?rest (?u\<lparr>tx_disk := apply_writes put_tablet d xs, tx_log := xs, tx_asked := n\<rparr>))) = xs @ ys"
      "sum_list (map unlocks ys) = 0"
      using costs_at [OF locks_kept_later [of env now journal], where u = "?u\<lparr>tx_disk := apply_writes put_tablet d xs, tx_log := xs, tx_asked := n\<rparr>"]
      by auto
    ultimately have "tx_log (snd (restore_recovery env journal now (tx_start d))) = xs @ ys"
      by (simp add: tx_bind_def)
    moreover from ys(2) have "RemoveRegistry \<notin> set ys" "RemoveEpd \<notin> set ys" by auto
    ultimately show ?thesis using False xs(2) by blast
  qed
qed

section \<open>The last resort works\<close>

lemma recovery_works:
  assumes "working env" and "\<forall>n. \<not> text_contains (journal n) ATOMIC_COMMIT_FAILURE"
  shows "\<exists>u'. restore_recovery env journal now u = (Ok (if tb_active (tx_disk u) then AlreadyRunning else Started), u')
    \<and> tb_active (tx_disk u') \<and> \<not> awake (tx_disk u') \<and> tb_stranded (tx_disk u') = tb_stranded (tx_disk u)
    \<and> (\<not> tb_active (tx_disk u) \<longrightarrow> tb_found (tx_disk u') = tb_found (tx_disk u) @ [None]
        \<and> tb_registry (tx_disk u') \<in> insert None (range (te_foreign env)))"
proof -
  have io: "te_io env n = IoOk" "te_resets env n" "te_up env n" for n
    using assms(1) by (simp_all add: working_def)
  show ?thesis
    by (cases "tb_active (tx_disk u)")
      (auto simp: restore_recovery_def stock_step_def best_effort_def release_wakelock_def clear_stale_locks_def io assms(2)
        restore_stock_def is_active_def wait_active_def start_once_def reset_failed_def record_start_def readable_def start_unit_def
        foreign_write_def START_LIMIT_BURST_def awake_def tx_run split: option.split intro: range_eqI sym)
qed

text \<open>
  C6. From any state whatever, in particular wherever a session or the supervisor was killed, the
  recovery brings stock back, gives the start limiter no reason, and lets the tablet sleep
  again, if systemd and the file system do what they are documented to do and the journal
  does not show that the display was refused. Stock that had to be started was started once,
  on a registry that names nobody, and what the registry holds after that is what stock wrote.
\<close>

theorem recovery_brings_stock_back:
  assumes "working env" and "\<forall>n. \<not> text_contains (journal n) ATOMIC_COMMIT_FAILURE"
  shows "\<exists>u. restore_recovery env journal now (tx_start d) = (Ok (if tb_active d then AlreadyRunning else Started), u)
    \<and> tb_active (tx_disk u) \<and> \<not> awake (tx_disk u) \<and> tb_stranded (tx_disk u) = tb_stranded d
    \<and> (\<not> tb_active d \<longrightarrow> tb_found (tx_disk u) = tb_found d @ [None] \<and> tb_registry (tx_disk u) \<in> insert None (range (te_foreign env)))"
  using recovery_works [OF assms, of now "tx_start d"] by (simp add: tx_start_def)

theorem recovery_brings_stock_back_witness:
  "\<exists>u. restore_recovery calm_env (\<lambda>_. ''xochitl started'') 0 (tx_start held_tablet) = (Ok Started, u)
     \<and> tb_active (tx_disk u) \<and> \<not> awake (tx_disk u)"
proof -
  have "\<not> text_contains ''xochitl started'' ATOMIC_COMMIT_FAILURE"
    by (simp add: text_contains_def ATOMIC_COMMIT_FAILURE_def atMost_Suc)
  moreover have "working calm_env" by (simp add: working_def calm_env_def)
  ultimately show ?thesis
    using recovery_brings_stock_back [of calm_env "\<lambda>_. ''xochitl started''" 0 held_tablet] by (auto simp: concrete)
qed

theorem wakelock_kept_until_stock_runs_witness:
  "\<exists>u. restore_recovery dead_env (\<lambda>_. []) 0 (tx_start held_tablet) = (Err (RecoveryStock DidNotComeBack), u)
     \<and> tb_wake (tx_disk u) = [WAKELOCK_TAG]"
proof -
  have "\<exists>u. restore_recovery dead_env (\<lambda>_. []) 0 (tx_start held_tablet) = (Err (RecoveryStock DidNotComeBack), u)"
    by (simp add: restore_recovery_def stock_step_def best_effort_def release_wakelock_def clear_stale_locks_def dead_env_def concrete
        restore_stock_def is_active_def wait_active_def start_once_def reset_failed_def record_start_def readable_def start_unit_def
        foreign_write_def START_LIMIT_BURST_def tx_run)
  then obtain u where u: "restore_recovery dead_env (\<lambda>_. []) 0 (tx_start held_tablet) = (Err (RecoveryStock DidNotComeBack), u)" by blast
  have "held_tablet \<in> cuts put_tablet (restore_recovery dead_env (\<lambda>_. []) 0) held_tablet"
    using crash_point_take [of put_tablet held_tablet 0] by (simp add: cuts_def)
  from wakelock_kept_until_stock_runs [OF u this] u show ?thesis by (simp add: held_tablet_def)
qed

end
