(* ===== verification/Runtime.thy ===== *)
theory Runtime
  imports Supervisor Readiness Recovery Canonical
begin

text \<open>
  The supervisor's loop (\<open>platform/host/src/linux/runtime.rs\<close>): what each pass observes, how the
  machine's actions are executed, and the status file it keeps. The loop runs on the tablet of
  Stock, with the recovery of Recovery: starting the session target stops stock (its unit says
  \<open>Conflicts=\<close>), and restoring it is \<open>restore_recovery\<close>. What the other units, the files and
  the clocks answer is the environment's. What the loop asks of Paperclip's own units, and the
  sweeps and captures it makes, are recorded in the order it makes them.
\<close>

section \<open>Names\<close>

definition SESSION_TARGET :: string where "SESSION_TARGET = ''paperclip-session.target''"
definition COMPOSITOR_UNIT :: string where "COMPOSITOR_UNIT = ''paperclip-compositor.service''"

definition is_ours :: "string \<Rightarrow> bool" where
  "is_ours u \<longleftrightarrow> strip_prefix ''paperclip'' u \<noteq> None"

fun session_unit_name :: "foreground \<Rightarrow> string" where
  "session_unit_name FgStock = SESSION_TARGET"
| "session_unit_name FgHome = ''paperclip-app@home.service''"
| "session_unit_name (FgApp a) = ''paperclip-app@'' @ a @ ''.service''"

section \<open>State and environment\<close>

datatype operation =
    OpStart string bool
  | OpStop string bool
  | OpSweep stop_reason escalation
  | OpCapture string
  | OpRestore nat
  | OpRelease

datatype outcome = StoppedAtStock | Halted diagnosis

record host =
  sv_machine :: machine
  sv_progress :: "progress_watch option"
  sv_unit :: "string option"
  sv_queued :: "event list"
  sv_incoming :: "foreground option"
  sv_ladder :: ladder
  sv_note :: string
  sv_status :: string
  sv_ops :: "operation list"

record host_env =
  su_tablet :: tablet_env
  su_journal :: "nat \<Rightarrow> string"
  su_active :: "nat \<Rightarrow> string \<Rightarrow> bool"
  su_accepts :: "nat \<Rightarrow> string \<Rightarrow> bool"
  su_property :: "nat \<Rightarrow> string \<Rightarrow> string option"
  su_command :: "nat \<Rightarrow> string option"
  su_compositor :: "nat \<Rightarrow> string option"
  su_witness :: "nat \<Rightarrow> string option"
  su_stop :: "nat \<Rightarrow> bool"
  su_wall :: "nat \<Rightarrow> instant"
  su_clock :: "nat \<Rightarrow> instant"

type_synonym 'a host_tx = "(tablet, tablet_event, recovery_error, 'a) tx"

definition new_host :: "budget \<Rightarrow> failure_policy \<Rightarrow> host" where
  "new_host b p = \<lparr>sv_machine = new_machine b p, sv_progress = None, sv_unit = None, sv_queued = [], sv_incoming = None,
     sv_ladder = ladder_new, sv_note = [], sv_status = [], sv_ops = []\<rparr>"

definition wall_secs :: "instant \<Rightarrow> nat" where
  "wall_secs t = as_secs t"

section \<open>The status file\<close>

definition bool_text :: "bool \<Rightarrow> string" where
  "bool_text b = (if b then ''true'' else ''false'')"

definition status_lines :: "host \<Rightarrow> string list" where
  "status_lines s =
     [''state='' @ state_name (m_state (sv_machine s)),
      ''foreground='' @ fg_label (m_foreground (sv_machine s)),
      ''may_relaunch='' @ bool_text (may_relaunch (sv_machine s)),
      ''diagnosis='' @ (case m_diagnosis (sv_machine s) of None \<Rightarrow> [] | Some d \<Rightarrow> diagnosis_summary d),
      ''ready='' @ rung_label (highest (sv_ladder s)),
      ''ready_note='' @ sv_note s,
      ''protocol='' @ version_text CURRENT]"

definition write_status :: "host \<Rightarrow> host" where
  "write_status s = s\<lparr>sv_status := write_lines (status_lines s)\<rparr>"

section \<open>The climb\<close>

text \<open>What the climb meets: the command file, the probe, and the header of the Home binary.\<close>

record climb_env =
  ce_command :: "string option"
  ce_probe :: "string option"
  ce_path :: string
  ce_home :: "(string, nat) result"
  ce_machine :: nat

definition hex_digit :: "nat \<Rightarrow> char" where
  "hex_digit n = (if n < 10 then digit_char n else char_of (87 + n))"

fun show_hex :: "nat \<Rightarrow> string" where
  "show_hex n = (if n < 16 then [hex_digit n] else show_hex (n div 16) @ [hex_digit (n mod 16)])"

declare show_hex.simps [simp del]

definition claim :: "rung \<Rightarrow> host \<Rightarrow> host" where
  "claim r s = write_status (s\<lparr>sv_ladder := reached (sv_ladder s) r\<rparr>)"

definition stall :: "rung \<Rightarrow> string \<Rightarrow> host \<Rightarrow> host" where
  "stall r why s = write_status (s\<lparr>sv_note := rung_label r @ '': '' @ why\<rparr>)"

definition climb :: "climb_env \<Rightarrow> host \<Rightarrow> host" where
  "climb e s = (let s = s\<lparr>sv_ladder := reached (sv_ladder s) Process\<rparr> in
     case ce_command e of Some error \<Rightarrow> stall Control (''command file: '' @ error) s | None \<Rightarrow>
     let s = claim ProtocolRung (claim Control s) in
     case ce_probe e of Some error \<Rightarrow> stall DeviceAdapter (''facilities probe: '' @ error) s | None \<Rightarrow>
     let s = claim DeviceAdapter s in
     case ce_home e of
       Inl error \<Rightarrow> stall HomeRung (ce_path e @ '': '' @ error) s
     | Inr m \<Rightarrow> if m = ce_machine e then claim Ready (claim HomeRung s)
         else stall HomeRung (ce_path e @ '' is built for machine 0x'' @ show_hex m @ '', this is 0x'' @ show_hex (ce_machine e)) s)"

section \<open>Observing\<close>

definition take_command :: "string option \<Rightarrow> string option" where
  "take_command raw = (case raw of None \<Rightarrow> None | Some text \<Rightarrow> if trim text = [] then None else Some (trim text))"

definition command_event :: "string \<Rightarrow> event list" where
  "command_event c =
     (if c = ''stock'' \<or> c = ''stop'' then [SwitchRequested FgStock]
      else if c = ''home'' then [SwitchRequested FgHome]
      else case strip_prefix ''app '' c of None \<Rightarrow> []
        | Some i \<Rightarrow> (case app_id_parse (trim i) of Inl _ \<Rightarrow> [] | Inr a \<Rightarrow> [SwitchRequested (FgApp a)]))"

definition client_foreground :: "string option \<Rightarrow> bool" where
  "client_foreground raw = (case raw of None \<Rightarrow> False
     | Some text \<Rightarrow> (case find_map (strip_prefix ''foreground='') (lines text) of None \<Rightarrow> False
         | Some v \<Rightarrow> strip_prefix ''client:'' v \<noteq> None))"

definition exit_kind_of :: "(string \<Rightarrow> string option) \<Rightarrow> exit_kind" where
  "exit_kind_of prop = (let number = (\<lambda>name. case Option.bind (prop name) parse_i32 of None \<Rightarrow> 0 | Some n \<Rightarrow> n);
       outcome = (case prop ''Result'' of None \<Rightarrow> [] | Some r \<Rightarrow> r)
     in if number ''ExecMainCode'' = 2 \<or> number ''ExecMainCode'' = 3 then ExitSignal
        else if outcome \<in> {''signal'', ''core-dump'', ''watchdog'', ''oom-kill''} then ExitSignal
        else if outcome = ''timeout'' then ForcedByDeadline
        else if outcome = ''success'' \<and> number ''ExecMainStatus'' = 0 then ExitClean
        else ExitError)"

definition owner :: "host \<Rightarrow> foreground" where
  "owner s = (if m_state (sv_machine s) = Switching
     then (case sv_incoming s of Some f \<Rightarrow> f | None \<Rightarrow> m_foreground (sv_machine s))
     else m_foreground (sv_machine s))"

text \<open>What a session whose unit is up shows, given whether a client holds the panel and its witness.\<close>

definition session_events :: "host \<Rightarrow> bool \<Rightarrow> string option \<Rightarrow> instant \<Rightarrow> event list \<times> progress_watch option" where
  "session_events s client raw wall =
     (if \<not> owns_display (m_state (sv_machine s))
      then (ProcessReady (owner s) # (if client then [DisplayOwned (owner s)] else []), sv_progress s)
      else if \<not> client then ([DisplayHostLost], sv_progress s)
      else case sv_progress s of None \<Rightarrow> ([], None)
        | Some w \<Rightarrow> (case poll w raw wall (b_progress_stall (m_budget (sv_machine s))) of
            (w', Inr (Stalled d)) \<Rightarrow> ([ProgressStalled (owner s) d], Some w')
          | (w', _) \<Rightarrow> ([], Some w')))"

definition observe_session :: "host_env \<Rightarrow> host \<Rightarrow> (event list \<times> progress_watch option) host_tx" where
  "observe_session env s = (case sv_unit s of None \<Rightarrow> tx_ok ([], sv_progress s)
     | Some u \<Rightarrow> tx_bind (tx_ask (su_active env)) (\<lambda>active.
         if active u then tx_bind (tx_ask (su_compositor env)) (\<lambda>c. tx_bind (tx_ask (su_witness env)) (\<lambda>raw.
           tx_bind (tx_ask (su_wall env)) (\<lambda>wall. tx_ok (session_events s (client_foreground c) raw wall))))
         else if owns_display (m_state (sv_machine s)) \<or> m_state (sv_machine s) = Switching
         then tx_bind (tx_ask (su_property env)) (\<lambda>prop. tx_ok ([SessionExited (owner s) (exit_kind_of prop)], sv_progress s))
         else tx_ok ([], sv_progress s)))"

text \<open>\<open>systemctl\<close> that cannot be run says that stock is not active.\<close>

definition stock_active :: "host_env \<Rightarrow> bool host_tx" where
  "stock_active env = tx_match (is_active (su_tablet env)) (\<lambda>_. tx_ok False) tx_ok"

definition observe_stock :: "host_env \<Rightarrow> host \<Rightarrow> event list host_tx" where
  "observe_stock env s = (if m_state (sv_machine s) = Switching \<and> m_foreground (sv_machine s) \<noteq> FgStock
     then tx_bind (stock_active env) (\<lambda>a. tx_ok (if a then [StockRunning] else []))
     else tx_ok [])"

definition collect :: "host_env \<Rightarrow> host \<Rightarrow> (event list \<times> host) host_tx" where
  "collect env s = tx_bind (tx_ask (su_command env)) (\<lambda>raw.
     tx_bind (observe_session env s) (\<lambda>(seen, w).
     tx_bind (observe_stock env s) (\<lambda>stock.
     tx_ok (sv_queued s @ [Tick] @ (case take_command raw of None \<Rightarrow> [] | Some c \<Rightarrow> command_event c) @ seen @ stock,
       s\<lparr>sv_queued := [], sv_progress := w\<rparr>))))"

section \<open>Executing\<close>

definition note_op :: "operation \<Rightarrow> host \<Rightarrow> host" where
  "note_op x s = s\<lparr>sv_ops := sv_ops s @ [x]\<rparr>"

text \<open>Only Paperclip's own units are operated; the guard refuses any other.\<close>

definition unit_start :: "host_env \<Rightarrow> string \<Rightarrow> host \<Rightarrow> (bool \<times> host) host_tx" where
  "unit_start env u s = (if \<not> is_ours u then tx_ok (False, s)
     else tx_bind (tx_ask (su_accepts env)) (\<lambda>ok.
       tb_then (if ok u \<and> u = SESSION_TARGET then tx_emit put_tablet StopUnit else tx_ok ())
         (tx_ok (ok u, note_op (OpStart u (ok u)) s))))"

definition unit_stop :: "host_env \<Rightarrow> string \<Rightarrow> host \<Rightarrow> (bool \<times> host) host_tx" where
  "unit_stop env u s = (if \<not> is_ours u then tx_ok (False, s)
     else tx_bind (tx_ask (su_accepts env)) (\<lambda>ok. tx_ok (ok u, note_op (OpStop u (ok u)) s)))"

definition error_text :: "recovery_error \<Rightarrow> string" where
  "error_text e = (case e of
     RecoveryStock _ \<Rightarrow> ''stock could not be brought back''
   | DisplayNotOwned \<Rightarrow> ''xochitl.service is active but its journal shows '' @ [CHR 0x27] @ ATOMIC_COMMIT_FAILURE @ [CHR 0x27]
       @ ''; it does not own the display. Something still holds DRM master.'')"

definition queue :: "event list \<Rightarrow> host \<Rightarrow> host" where
  "queue es s = s\<lparr>sv_queued := sv_queued s @ es\<rparr>"

definition do_restore :: "host_env \<Rightarrow> nat \<Rightarrow> host \<Rightarrow> host host_tx" where
  "do_restore env attempt s = tx_bind (tx_ask (su_wall env)) (\<lambda>wall.
     tx_match (restore_recovery (su_tablet env) (su_journal env) (wall_secs wall))
       (\<lambda>e. tx_ok (queue [RestoreFailed (error_text e)]
          (note_op (OpCapture (''restore attempt '' @ show_nat attempt @ '': '' @ error_text e)) (note_op (OpRestore attempt) s))))
       (\<lambda>_. tx_ok (queue [StockRunning, DisplayReleased] (note_op (OpRestore attempt) s))))"

text \<open>A session that failed to start.\<close>

definition refused :: "foreground \<Rightarrow> host \<Rightarrow> host" where
  "refused target s = queue [SessionExited target ExitError] s"

definition start_session :: "host_env \<Rightarrow> foreground \<Rightarrow> host \<Rightarrow> host host_tx" where
  "start_session env target s = tx_bind (tx_ask (su_wall env)) (\<lambda>wall.
     tx_match (stock_step (allows_session (su_tablet env) (wall_secs wall)))
       (\<lambda>_. tx_ok (refused target s\<lparr>sv_incoming := Some target\<rparr>))
       (\<lambda>_. let u = session_unit_name target;
               s = s\<lparr>sv_incoming := Some target, sv_progress := Some watch_new, sv_unit := Some u\<rparr>
         in tx_bind (unit_start env SESSION_TARGET s) (\<lambda>(ok, s). if \<not> ok then tx_ok (refused target s)
         else tx_bind (unit_start env COMPOSITOR_UNIT s) (\<lambda>(ok, s). if \<not> ok then tx_ok (refused target s)
         else tx_bind (unit_start env u s) (\<lambda>(ok, s). tx_ok (if \<not> ok then refused target s else s))))))"

definition start_foreground :: "host_env \<Rightarrow> foreground \<Rightarrow> host \<Rightarrow> host host_tx" where
  "start_foreground env target s = (if target = FgStock
     then tx_bind (unit_stop env COMPOSITOR_UNIT (s\<lparr>sv_unit := None, sv_progress := None, sv_incoming := Some FgStock\<rparr>))
       (\<lambda>(_, s). do_restore env 1 s)
     else start_session env target s)"

text \<open>The sweep of the session's processes is \<open>terminate\<close> of Processes.\<close>

definition terminate_session :: "host_env \<Rightarrow> stop_reason \<Rightarrow> escalation \<Rightarrow> host \<Rightarrow> host host_tx" where
  "terminate_session env reason esc s = (case sv_unit s of None \<Rightarrow> tx_ok s
     | Some u \<Rightarrow> tx_bind (unit_stop env u s) (\<lambda>(_, s). tx_ok (note_op (OpSweep reason esc) s\<lparr>sv_progress := None\<rparr>)))"

text \<open>Removing the lock files, what comes of it discarded.\<close>

definition release_display :: "host_env \<Rightarrow> host \<Rightarrow> host host_tx" where
  "release_display env s = tb_then (clear_stale_locks (su_tablet env)) (tx_ok (note_op OpRelease s))"

fun execute :: "host_env \<Rightarrow> action \<Rightarrow> host \<Rightarrow> (host \<times> outcome option) host_tx" where
  "execute env (StartForeground target _) s = tx_bind (start_foreground env target s) (\<lambda>s. tx_ok (s, None))"
| "execute env (TerminateSession reason esc) s = tx_bind (terminate_session env reason esc s) (\<lambda>s. tx_ok (s, None))"
| "execute env ReleaseDisplay s = tx_bind (release_display env s) (\<lambda>s. tx_ok (s, None))"
| "execute env (RestoreStock attempt _) s = tx_bind (do_restore env attempt s) (\<lambda>s. tx_ok (s, None))"
| "execute env (CaptureDiagnostics reason) s = tx_ok (note_op (OpCapture (stop_description reason)) s, None)"
| "execute env (Halt d) s = tx_ok (note_op (OpCapture (diagnosis_summary d)) s, Some (Halted d))"

section \<open>The loop\<close>

fun execute_all :: "host_env \<Rightarrow> action list \<Rightarrow> host \<Rightarrow> (host \<times> outcome option) host_tx" where
  "execute_all env [] s = tx_ok (s, None)"
| "execute_all env (a # as) s = tx_bind (execute env a s) (\<lambda>(s, out). case out of
     Some r \<Rightarrow> tx_ok (write_status s, Some r) | None \<Rightarrow> execute_all env as s)"

fun handle_all :: "host_env \<Rightarrow> event list \<Rightarrow> host \<Rightarrow> (host \<times> outcome option) host_tx" where
  "handle_all env [] s = tx_ok (s, None)"
| "handle_all env (e # es) s = tx_bind (tx_ask (su_clock env)) (\<lambda>now.
     let (m, actions) = handle (sv_machine s) e now in
     tx_bind (execute_all env actions (write_status (s\<lparr>sv_machine := m\<rparr>))) (\<lambda>(s, out). case out of
       Some r \<Rightarrow> tx_ok (s, Some r) | None \<Rightarrow> handle_all env es s))"

definition pass :: "host_env \<Rightarrow> host \<Rightarrow> (host \<times> outcome option) host_tx" where
  "pass env s = tx_bind (collect env s) (\<lambda>(es, s).
     tx_bind (handle_all env es s) (\<lambda>(s, out). case out of
       Some r \<Rightarrow> tx_ok (s, Some r)
     | None \<Rightarrow> tx_bind (tx_ask (su_stop env)) (\<lambda>stop.
         tx_ok (write_status s, if stop \<and> m_state (sv_machine s) = Stock then Some StoppedAtStock else None))))"

text \<open>The loop for a number of passes, which the supervisor never gives up.\<close>

fun passes :: "nat \<Rightarrow> host_env \<Rightarrow> host \<Rightarrow> (host \<times> outcome option) host_tx" where
  "passes 0 env s = tx_ok (s, None)"
| "passes (Suc n) env s = tx_bind (pass env s) (\<lambda>(s, out). case out of
     Some r \<Rightarrow> tx_ok (s, Some r) | None \<Rightarrow> passes n env s)"

definition supervise :: "host_env \<Rightarrow> climb_env \<Rightarrow> nat \<Rightarrow> budget \<Rightarrow> failure_policy \<Rightarrow> (host \<times> outcome option) host_tx" where
  "supervise env ce n b p = passes n env (climb ce (write_status (new_host b p)))"

text \<open>How long the loop sleeps.\<close>

definition pass_sleep :: "machine \<Rightarrow> instant \<Rightarrow> duration" where
  "pass_sleep m now = max (from_millis 20) (min (from_millis 500)
     (case next_deadline m of None \<Rightarrow> from_millis 500 | Some deadline \<Rightarrow> deadline - now))"

end
