(* ===== verification/RuntimeSafe.thy ===== *)
theory RuntimeSafe
  imports Runtime
begin

text \<open>
  What the supervisor's loop promises: it runs the machine of Supervisor and nothing else, it
  starts units in the order their ownership of the panel needs, it never takes the display
  when the start budget refuses, a request for stock and a crash both end with stock running
  within two passes, and nothing it does trips the start limiter.
\<close>

section \<open>The limiter over every way a start can happen\<close>

text \<open>A boot's sessions, their guardians, recoveries and supervisors, each of them killed anywhere.\<close>

inductive device_history :: "tablet \<Rightarrow> bool" where
  Fresh: "\<not> tb_stranded d \<Longrightarrow> device_history d"
| Sessions: "device_history d \<Longrightarrow> \<forall>n. te_resets env n \<Longrightarrow> d' \<in> cuts put_tablet (run_session env p budget started ended present) d
    \<Longrightarrow> device_history d'"
| Guardians: "device_history d \<Longrightarrow> \<forall>n. te_resets env n \<Longrightarrow> d' \<in> cuts put_tablet (guard_fires env) d \<Longrightarrow> device_history d'"
| Recoveries: "device_history d \<Longrightarrow> \<forall>n. te_resets env n \<Longrightarrow> d' \<in> cuts put_tablet (restore_recovery env journal now) d
    \<Longrightarrow> device_history d'"
| Supervised: "device_history d \<Longrightarrow> \<forall>n. te_resets (su_tablet henv) n \<Longrightarrow> d' \<in> cuts put_tablet (passes n henv host) d
    \<Longrightarrow> device_history d'"

lemma sound_recovery:
  assumes "\<forall>n. te_resets env n"
  shows "keeps put_tablet sound_unit (restore_recovery env journal now)"
  unfolding restore_recovery_def release_wakelock_def
  by (intro keeps_recovery keeps_bind keeps_if keeps_still keeps_quiet clear_keeps sound_stock_restore assms sound_keeps)
    (simp_all add: sound_unit_def)

lemma sound_host:
  assumes "\<forall>n. te_resets (su_tablet env) n"
  shows "keeps put_tablet sound_unit (execute env a s)"
proof -
  have stop: "keeps put_tablet sound_unit (tx_emit put_tablet StopUnit)" by (rule sound_keeps) simp
  have start: "keeps put_tablet sound_unit (unit_start env u s)" for u s
    unfolding unit_start_def by (intro keep stop)
  have restore: "keeps put_tablet sound_unit (do_restore env k s)" for k s
    unfolding do_restore_def by (intro keep sound_recovery assms)
  show ?thesis
    by (cases a) (auto simp: start_foreground_def start_session_def terminate_session_def release_display_def unit_stop_def Let_def sound_unit_def [symmetric]
        intro!: keep start restore stop, simp_all add: sound_unit_def)
qed

lemma sound_execute_all:
  assumes "\<forall>n. te_resets (su_tablet env) n"
  shows "keeps put_tablet sound_unit (execute_all env as s)"
  by (induction as arbitrary: s) (auto intro!: keep sound_host assms)

lemma sound_handle_all:
  assumes "\<forall>n. te_resets (su_tablet env) n"
  shows "keeps put_tablet sound_unit (handle_all env es s)"
  by (induction es arbitrary: s) (auto simp: Let_def intro!: keep sound_execute_all assms)

lemma sound_passes:
  assumes "\<forall>n. te_resets (su_tablet env) n"
  shows "keeps put_tablet sound_unit (passes n env s)"
proof (induction n arbitrary: s)
  case (Suc n)
  have "keeps put_tablet sound_unit (collect env s)" for s
    unfolding collect_def observe_session_def observe_stock_def stock_active_def by (intro keep)
  then show ?case
    by (auto simp: pass_def intro!: keep sound_handle_all assms Suc)
qed (auto intro: keep)

lemma device_history_sound: "device_history d \<Longrightarrow> sound_unit d"
proof (induction rule: device_history.induct)
  case (Fresh d)
  then show ?case by (simp add: sound_unit_def)
next
  case (Sessions d env d' p budget started ended present)
  then show ?case using triple_cuts [OF keeps_triple [OF sound_session]] by blast
next
  case (Guardians d env d')
  then show ?case using triple_cuts [OF keeps_triple [OF sound_guard]] by blast
next
  case (Recoveries d env d' journal now)
  then show ?case using triple_cuts [OF keeps_triple [OF sound_recovery]] by blast
next
  case (Supervised d henv d' n host)
  then show ?case using triple_cuts [OF keeps_triple [OF sound_passes]] by blast
qed

text \<open>
  C2. The unit is never failed by the start limiter, which would drop the tablet to an emergency
  shell: every start that a session, its guardian, a recovery or the supervisor makes, however they follow one
  another and wherever they are killed, comes right after a \<open>reset-failed\<close>.
\<close>

theorem unit_is_never_failed_by_the_limiter:
  assumes "device_history d"
  shows "\<not> tb_stranded d"
  using device_history_sound [OF assms] by (simp add: sound_unit_def)

theorem unit_is_never_failed_by_the_limiter_witness:
  "tb_limiter after_session = 1 \<and> \<not> tb_stranded after_session"
proof -
  have "device_history running_tablet" by (rule Fresh) (simp add: running_tablet_def)
  then have "device_history after_session"
    by (rule Sessions [OF _ _ after_session_cut [unfolded calm_session_def]]) (simp add: calm_env_def)
  then show ?thesis
    using unit_is_never_failed_by_the_limiter by (simp add: after_session_def)
qed

section \<open>What the loop returns\<close>

text \<open>A program that always returns, and returns something good.\<close>

definition yields :: "('a \<Rightarrow> bool) \<Rightarrow> ('d, 'e, 'x, 'a) tx \<Rightarrow> bool" where
  "yields P m \<longleftrightarrow> (\<forall>u. \<exists>a u'. m u = (Ok a, u') \<and> P a)"

named_theorems yield

lemma yields_ok [yield]: "P a \<Longrightarrow> yields P (tx_ok a)"
  by (simp add: yields_def tx_ok_def)

lemma yields_steps [yield]: "(\<And>a. P a) \<Longrightarrow> yields P (tx_ask q)" "(\<And>a. P a) \<Longrightarrow> yields P (tx_get f)" "P () \<Longrightarrow> yields P (tx_emit eff w)"
  by (simp_all add: yields_def tx_ask_def tx_get_def tx_emit_def)

lemma yields_bind: "yields Q m \<Longrightarrow> (\<And>a. Q a \<Longrightarrow> yields P (f a)) \<Longrightarrow> yields P (tx_bind m f)"
  unfolding yields_def
proof
  fix u assume m: "\<forall>u. \<exists>a u'. m u = (Ok a, u') \<and> Q a" and f: "\<And>a. Q a \<Longrightarrow> \<forall>u. \<exists>b u'. f a u = (Ok b, u') \<and> P b"
  obtain a u' where "m u = (Ok a, u')" "Q a" using m by blast
  then show "\<exists>b u'. tx_bind m f u = (Ok b, u') \<and> P b" using f by (simp add: tx_bind_def)
qed

lemma yields_match [yield]: "(\<And>e. yields P (h e)) \<Longrightarrow> (\<And>a. yields P (f a)) \<Longrightarrow> yields P (tx_match m h f)"
  unfolding yields_def
proof
  fix u assume h: "\<And>e. \<forall>u. \<exists>b u'. h e u = (Ok b, u') \<and> P b" and f: "\<And>a. \<forall>u. \<exists>b u'. f a u = (Ok b, u') \<and> P b"
  obtain r u' where "m u = (r, u')" by (cases "m u")
  then show "\<exists>b u'. tx_match m h f u = (Ok b, u') \<and> P b" using h f by (cases r) (simp_all add: tx_match_def)
qed

lemma yields_if [yield]: "(b \<Longrightarrow> yields P m) \<Longrightarrow> (\<not> b \<Longrightarrow> yields P n) \<Longrightarrow> yields P (if b then m else n)"
  by simp

lemma yields_ask [yield]: "(\<And>a. yields P (f a)) \<Longrightarrow> yields P (tx_bind (tx_ask q) f)"
  by (simp add: yields_def tx_bind_def tx_ask_def)

lemma yields_then [yield]: "yields (\<lambda>_. True) m \<Longrightarrow> yields P k \<Longrightarrow> yields P (tb_then m k)"
  by (rule yields_bind)

lemma yields_case [yield]:
  "(x = None \<Longrightarrow> yields P m) \<Longrightarrow> (\<And>a. x = Some a \<Longrightarrow> yields P (f a)) \<Longrightarrow> yields P (case x of None \<Rightarrow> m | Some a \<Rightarrow> f a)"
  by (cases x) simp_all

lemma yields_weaken: "yields P m \<Longrightarrow> (\<And>a. P a \<Longrightarrow> Q a) \<Longrightarrow> yields Q m"
  unfolding yields_def by blast

text \<open>
  Executing an action leaves the machine alone, and appends operations of its kind: a session's
  unit is started after the target and the compositor, and stock is restored for the
  operator only after the compositor was asked to stop.
\<close>

definition start_ops :: "foreground \<Rightarrow> operation list set" where
  "start_ops target = (let u = session_unit_name target; t = OpStart SESSION_TARGET; c = OpStart COMPOSITOR_UNIT in
     {[], [t False], [t True, c False], [t True, c True, OpStart u False], [t True, c True, OpStart u True]})"

fun action_ops :: "action \<Rightarrow> operation list \<Rightarrow> bool" where
  "action_ops (StartForeground target _) ops =
     (if target = FgStock then \<exists>ok captured. ops = [OpStop COMPOSITOR_UNIT ok, OpRestore 1] @ map OpCapture captured
      else ops \<in> start_ops target)"
| "action_ops (TerminateSession reason esc) ops = (ops = [] \<or> ops = [OpSweep reason esc] \<or> (\<exists>u ok. ops = [OpStop u ok, OpSweep reason esc]))"
| "action_ops ReleaseDisplay ops = (ops = [OpRelease])"
| "action_ops (RestoreStock k _) ops = (\<exists>captured. ops = OpRestore k # map OpCapture captured)"
| "action_ops (CaptureDiagnostics reason) ops = (ops = [OpCapture (stop_description reason)])"
| "action_ops (Halt d) ops = (ops = [OpCapture (diagnosis_summary d)])"

lemma ours [simp]: "is_ours (session_unit_name f)" "is_ours SESSION_TARGET" "is_ours COMPOSITOR_UNIT"
  by (cases f; simp add: is_ours_def SESSION_TARGET_def COMPOSITOR_UNIT_def)+

lemma yields_unit [yield]:
  "(\<And>ok. is_ours u \<Longrightarrow> P (ok, note_op (OpStart u ok) s)) \<Longrightarrow> (\<not> is_ours u \<Longrightarrow> P (False, s)) \<Longrightarrow> yields P (unit_start env u s)"
  "(\<And>ok. is_ours u \<Longrightarrow> P (ok, note_op (OpStop u ok) s)) \<Longrightarrow> (\<not> is_ours u \<Longrightarrow> P (False, s)) \<Longrightarrow> yields P (unit_stop env u s)"
  by (auto simp: unit_start_def unit_stop_def intro!: yield)

definition did :: "host \<Rightarrow> (operation list \<Rightarrow> bool) \<Rightarrow> host \<Rightarrow> bool" where
  "did s P s' \<longleftrightarrow> sv_machine s' = sv_machine s \<and> (\<exists>ops. sv_ops s' = sv_ops s @ ops \<and> P ops)"

lemma yields_restore: "yields (did s (\<lambda>ops. \<exists>captured. ops = OpRestore k # map OpCapture captured)) (do_restore env k s)"
  unfolding do_restore_def
  by (intro yield) (auto simp: did_def queue_def note_op_def intro: exI [of _ "[]"] exI [of _ "[x]" for x])

lemma yields_start_then:
  "is_ours u \<Longrightarrow> (\<And>ok. yields P (f (ok, note_op (OpStart u ok) s))) \<Longrightarrow> yields P (tx_bind (unit_start env u s) f)"
  by (rule yields_bind [OF yields_unit(1) [where P = "\<lambda>r. \<exists>ok. r = (ok, note_op (OpStart u ok) s)"]]) auto

lemma yields_start_session: "target \<noteq> FgStock \<Longrightarrow> yields (did s (\<lambda>ops. ops \<in> start_ops target)) (start_session env target s)"
  unfolding start_session_def Let_def
  by (intro yield yields_start_then ours; (rule yields_start_then [OF ours(2)])?)
    (auto simp: did_def refused_def queue_def note_op_def start_ops_def Let_def intro!: yield yields_start_then)

lemma yields_execute:
  "yields (\<lambda>(s', out). did s (action_ops a) s' \<and> out = (case a of Halt d \<Rightarrow> Some (Halted d) | _ \<Rightarrow> None)) (execute env a s)"
proof (cases a)
  case (StartForeground target deadline)
  show ?thesis
  proof (cases "target = FgStock")
    case True
    have "yields (did s (action_ops a)) (start_foreground env target s)"
      unfolding start_foreground_def if_P [OF True]
      by (rule yields_bind [OF yields_unit(2) [where P = "\<lambda>(ok, s'). did s (\<lambda>ops. \<exists>ok. ops = [OpStop COMPOSITOR_UNIT ok]) s'"]])
        (auto simp: did_def note_op_def StartForeground True intro!: yields_weaken [OF yields_restore], blast)
    then show ?thesis by (auto simp: StartForeground intro!: yields_bind yield)
  next
    case False
    then have "action_ops a = (\<lambda>ops. ops \<in> start_ops target)" by (simp add: StartForeground fun_eq_iff)
    with False have "yields (did s (action_ops a)) (start_foreground env target s)"
      using yields_start_session [OF False] by (simp add: start_foreground_def)
    then show ?thesis by (auto simp: StartForeground intro!: yields_bind yield)
  qed
next
  case (TerminateSession reason esc)
  have "yields (did s (action_ops a)) (terminate_session env reason esc s)"
    unfolding terminate_session_def
    by (intro yield yields_bind [OF yields_unit(2) [where P = "\<lambda>(ok, s'). did s (\<lambda>ops. ops = [] \<or> (\<exists>u ok. ops = [OpStop u ok])) s'"]])
      (auto simp: did_def note_op_def TerminateSession intro!: yield)
  then show ?thesis by (auto simp: TerminateSession intro!: yields_bind yield)
next
  case ReleaseDisplay
  have "yields (\<lambda>_. True) (clear_stale_locks te)" for te
    unfolding clear_stale_locks_def best_effort_def by (intro yield) simp_all
  then have "yields (\<lambda>s'. s' = note_op OpRelease s) (release_display env s)"
    unfolding release_display_def by (intro yield) simp_all
  then show ?thesis by (auto simp: ReleaseDisplay did_def note_op_def intro!: yields_bind yield)
next
  case (RestoreStock k deadline)
  have "action_ops a = (\<lambda>ops. \<exists>captured. ops = OpRestore k # map OpCapture captured)" by (simp add: RestoreStock fun_eq_iff)
  then have "yields (did s (action_ops a)) (do_restore env k s)" using yields_restore by simp
  then show ?thesis by (auto simp: RestoreStock intro!: yields_bind yield)
qed (auto simp: did_def note_op_def intro!: yield)

section \<open>The loop is the machine\<close>

text \<open>Only a halt stops the loop from inside, it comes alone, and it leaves the machine failed.\<close>

lemma only_halt:
  assumes "handle m e now = (m', acts)" and "Halt d \<in> set acts"
  shows "acts = [Halt d] \<and> m_state m' = Failed \<and> m_diagnosis m' = Some d"
  using assms
  by (cases e) (auto simp: handle_def begin_switch_def observe_def settle_def stock_running_def session_exited_def enter_recovery_def
      progress_stalled_def display_host_lost_def restore_failed_def halt_def tick_def Let_def split: if_splits option.splits prod.splits)

text \<open>
  From one state of the host to another: the machine ran on some observations, and the
  operations are those of its actions, in order.
\<close>

definition follows :: "host \<Rightarrow> host \<Rightarrow> bool" where
  "follows s s' \<longleftrightarrow> (\<exists>ts acts blocks. run hstep (sv_machine s) ts = (sv_machine s', acts)
     \<and> list_all2 action_ops acts blocks \<and> sv_ops s' = sv_ops s @ concat blocks)"

lemma follows_refl: "sv_machine s' = sv_machine s \<Longrightarrow> sv_ops s' = sv_ops s \<Longrightarrow> follows s s'"
  unfolding follows_def by (rule exI [of _ "[]"]) simp

lemma follows_trans: "follows a b \<Longrightarrow> follows b c \<Longrightarrow> follows a c"
proof -
  assume "follows a b" "follows b c"
  then obtain ts acts bs us acts' bs' where "run hstep (sv_machine a) ts = (sv_machine b, acts)" "list_all2 action_ops acts bs"
    "sv_ops b = sv_ops a @ concat bs" "run hstep (sv_machine b) us = (sv_machine c, acts')" "list_all2 action_ops acts' bs'"
    "sv_ops c = sv_ops b @ concat bs'" unfolding follows_def by blast
  moreover from this have "run hstep (sv_machine a) (ts @ us) = (sv_machine c, acts @ acts')"
    by (intro prod_eqI) (simp_all add: fst_run_append snd_run_append)
  ultimately show ?thesis unfolding follows_def
    by (intro exI [of _ "ts @ us"] exI [of _ "acts @ acts'"] exI [of _ "bs @ bs'"]) (simp add: list_all2_appendI)
qed

definition did_all :: "host \<Rightarrow> action list \<Rightarrow> host \<Rightarrow> bool" where
  "did_all s acts s' \<longleftrightarrow> sv_machine s' = sv_machine s \<and> (\<exists>blocks. list_all2 action_ops acts blocks \<and> sv_ops s' = sv_ops s @ concat blocks)"

lemma did_all_Cons: "did s (action_ops a) s1 \<Longrightarrow> did_all s1 as s2 \<Longrightarrow> did_all s (a # as) s2"
  unfolding did_def did_all_def by (metis append_assoc concat.simps(2) list_all2_Cons)

lemma status_kept [simp]: "sv_machine (write_status s) = sv_machine s" "sv_ops (write_status s) = sv_ops s"
  by (simp_all add: write_status_def)

lemma follows_status [simp]: "follows s (write_status s') = follows s s'"
  by (simp add: follows_def)

lemma yields_execute_all:
  "(\<forall>d. Halt d \<notin> set acts) \<or> acts = [Halt d0] \<Longrightarrow>
   yields (\<lambda>(s', out). did_all s acts s' \<and> out = (if acts = [Halt d0] then Some (Halted d0) else None)) (execute_all env acts s)"
proof (induction acts arbitrary: s)
  case Nil
  show ?case by (auto simp: did_all_def intro!: yield)
next
  case (Cons a as)
  have tail: "(\<forall>d. Halt d \<notin> set as) \<or> as = [Halt d0]" and one: "a = Halt d0 \<Longrightarrow> as = []" using Cons.prems by auto
  show ?case
  proof (cases "a = Halt d0")
    case True
    then show ?thesis using one
      by (auto simp: yields_def tx_bind_def tx_ok_def did_all_def note_op_def intro!: exI [of _ "[[OpCapture (diagnosis_summary d0)]]"])
  next
    case False
    then have out: "(case a of Halt d \<Rightarrow> Some (Halted d) | _ \<Rightarrow> None) = None" and ne: "as \<noteq> [Halt d0]" using Cons.prems by (auto split: action.split)
    show ?thesis
      using False by (auto simp: out ne intro!: yields_bind [OF yields_execute [of s a env]] yields_weaken [OF Cons.IH [OF tail]] did_all_Cons)
  qed
qed

definition ended :: "host \<times> outcome option \<Rightarrow> bool" where
  "ended r \<longleftrightarrow> (case snd r of None \<Rightarrow> True
     | Some StoppedAtStock \<Rightarrow> m_state (sv_machine (fst r)) = Stock
     | Some (Halted d) \<Rightarrow> m_state (sv_machine (fst r)) = Failed \<and> m_diagnosis (sv_machine (fst r)) = Some d)"

lemma yields_handle_all: "yields (\<lambda>(s', out). follows s s' \<and> ended (s', out) \<and> out \<noteq> Some StoppedAtStock) (handle_all env es s)"
proof (induction es arbitrary: s)
  case Nil
  show ?case by (auto simp: ended_def intro!: yield follows_refl)
next
  case (Cons e es)
  have step: "yields (\<lambda>(s', out). follows s s' \<and> ended (s', out) \<and> out \<noteq> Some StoppedAtStock)
      (tx_bind (execute_all env acts (write_status (s\<lparr>sv_machine := m\<rparr>))) (\<lambda>(s, out). case out of
         Some r \<Rightarrow> tx_ok (s, Some r) | None \<Rightarrow> handle_all env es s))"
    if h: "handle (sv_machine s) e now = (m, acts)" for now m acts
  proof -
    have f: "follows s s1" if "did_all (write_status (s\<lparr>sv_machine := m\<rparr>)) acts s1" for s1
    proof -
      have "run hstep (sv_machine s) [(e, now)] = (m, acts)" using h by (simp add: run.simps hstep_def)
      with that show ?thesis unfolding follows_def did_all_def by auto
    qed
    show ?thesis
    proof (cases "\<exists>d. Halt d \<in> set acts")
      case True
      then obtain d where d: "acts = [Halt d]" "m_state m = Failed" "m_diagnosis m = Some d" using only_halt [OF h] by blast
      show ?thesis
        by (rule yields_bind [OF yields_execute_all [of acts d]])
          (use d(2,3) in \<open>auto simp: d(1) ended_def did_all_def intro!: yield f [unfolded d(1)]\<close>)
    next
      case False
      then have ne: "acts \<noteq> [Halt d]" for d by auto
      show ?thesis
        by (rule yields_bind [OF yields_execute_all [of acts undefined]])
          (use False ne in \<open>auto intro!: yields_weaken [OF Cons.IH] intro: follows_trans [OF f]\<close>)
    qed
  qed
  show ?case
    unfolding handle_all.simps
  proof (rule yields_ask, goal_cases)
    case (1 now)
    obtain m acts where h: "handle (sv_machine s) e now = (m, acts)" by (cases "handle (sv_machine s) e now")
    then show ?case using step [OF h] by (simp only: h Let_def prod.case)
  qed
qed

lemma yields_observe: "yields (\<lambda>_. True) (observe_session env s)" "yields (\<lambda>_. True) (observe_stock env s)"
proof -
  show "yields (\<lambda>_. True) (observe_session env s)"
    unfolding observe_session_def by (intro yield) simp_all
  have "yields (\<lambda>_. True) (stock_active env)"
    unfolding stock_active_def by (intro yield) simp_all
  then show "yields (\<lambda>_. True) (observe_stock env s)"
    unfolding observe_stock_def by (auto intro!: yields_bind yield)
qed

lemma yields_collect: "yields (\<lambda>(es, s'). follows s s') (collect env s)"
  unfolding collect_def
  by (rule yields_ask, rule yields_bind [OF yields_observe(1)], simp only: split_def, rule yields_bind [OF yields_observe(2)],
      rule yields_ok, simp add: follows_refl)

lemma yields_pass: "yields (\<lambda>(s', out). follows s s' \<and> ended (s', out)) (pass env s)"
  unfolding pass_def
  by (rule yields_bind [OF yields_collect [of s]], clarify, rule yields_bind [OF yields_handle_all], clarify, rule yields_case)
    (auto simp: ended_def intro!: yield intro: follows_trans follows_refl split: outcome.splits)

lemma yields_passes: "yields (\<lambda>(s', out). follows s s' \<and> ended (s', out)) (passes n env s)"
proof (induction n arbitrary: s)
  case 0
  show ?case by (auto simp: ended_def intro!: yield follows_refl)
next
  case (Suc n)
  show ?case
    by (auto intro!: yields_bind [OF yields_pass [of s env]] yields_case yield yields_weaken [OF Suc] intro: follows_trans)
qed

lemma climb_keeps [simp]: "sv_machine (climb ce s) = sv_machine s" "sv_ops (climb ce s) = sv_ops s"
  by (auto simp: climb_def stall_def claim_def Let_def split: option.split sum.split)

lemma supervise_yields:
  "yields (\<lambda>(s', out). (\<exists>ts acts blocks. run hstep (new_machine b p) ts = (sv_machine s', acts)
     \<and> list_all2 action_ops acts blocks \<and> sv_ops s' = concat blocks) \<and> ended (s', out)) (supervise env ce n b p)"
  unfolding supervise_def
  by (rule yields_weaken [OF yields_passes]) (auto simp: follows_def new_host_def)

lemma supervise_result:
  assumes "supervise env ce n b p u = (Ok (s', out), u')"
  shows "\<exists>ts acts blocks. run hstep (new_machine b p) ts = (sv_machine s', acts) \<and> list_all2 action_ops acts blocks \<and> sv_ops s' = concat blocks"
  using supervise_yields [of b p env ce n, unfolded yields_def, rule_format, of u] assms by auto

text \<open>
  C8. Whatever the units, the files and the clocks answer, the loop always comes to the end of its
  passes or of its run; the machine it holds is the state machine of Supervisor after some
  observations; its operations are those of the machine's actions, in their order; and it
  ends at stock only in the state Stock, and halted only with the machine failed for the
  diagnosis it reports.
\<close>

theorem supervisor_runs_the_machine:
  "\<exists>s' out u'. supervise env ce n b p u = (Ok (s', out), u') \<and> ended (s', out)
     \<and> (\<exists>ts acts blocks. run hstep (new_machine b p) ts = (sv_machine s', acts)
         \<and> list_all2 action_ops acts blocks \<and> sv_ops s' = concat blocks)"
  using supervise_yields [of b p env ce n] unfolding yields_def by (force split: prod.splits)

section \<open>The order of the units\<close>

text \<open>Every start of a unit has behind it, at once, what that unit needs.\<close>

definition starts_ordered :: "operation list \<Rightarrow> bool" where
  "starts_ordered ops \<longleftrightarrow> (\<forall>xs u ok ys. ops = xs @ OpStart u ok # ys \<longrightarrow> is_ours u \<and>
     (u = SESSION_TARGET \<or> (\<exists>ws. if u = COMPOSITOR_UNIT then xs = ws @ [OpStart SESSION_TARGET True]
        else xs = ws @ [OpStart SESSION_TARGET True, OpStart COMPOSITOR_UNIT True])))"

lemma starts_append: "starts_ordered xs \<Longrightarrow> starts_ordered ys \<Longrightarrow> starts_ordered (xs @ ys)"
  unfolding starts_ordered_def
proof (intro allI impI, goal_cases)
  case (1 as u ok bs)
  from 1(3) consider (l) cs where "xs = as @ OpStart u ok # cs" | (r) cs where "as = xs @ cs" "ys = cs @ OpStart u ok # bs"
    by (auto simp: append_eq_append_conv2 Cons_eq_append_conv append_eq_Cons_conv)
  then show ?case
  proof cases
    case l
    with 1(1) show ?thesis by blast
  next
    case r
    with 1(2) have "is_ours u \<and> (u = SESSION_TARGET \<or> (\<exists>ws. if u = COMPOSITOR_UNIT then cs = ws @ [OpStart SESSION_TARGET True]
        else cs = ws @ [OpStart SESSION_TARGET True, OpStart COMPOSITOR_UNIT True]))" by blast
    with r show ?thesis by (metis append_assoc)
  qed
qed

lemma no_starts: "(\<And>u ok. OpStart u ok \<notin> set ops) \<Longrightarrow> starts_ordered ops"
  unfolding starts_ordered_def by (metis in_set_conv_decomp)

lemma starts_snoc:
  assumes "starts_ordered xs" and "is_ours u" and "u = SESSION_TARGET \<or> (\<exists>ws. if u = COMPOSITOR_UNIT
      then xs = ws @ [OpStart SESSION_TARGET True] else xs = ws @ [OpStart SESSION_TARGET True, OpStart COMPOSITOR_UNIT True])"
  shows "starts_ordered (xs @ [OpStart u ok])"
  unfolding starts_ordered_def
proof (intro allI impI, goal_cases)
  case (1 as v ok' bs)
  show ?case
  proof (cases bs rule: rev_cases)
    case Nil
    with 1 have eq: "as = xs" "v = u" by auto
    show ?thesis unfolding eq using assms(2,3) by (rule conjI)
  next
    case (snoc cs c)
    with 1 have "xs = as @ OpStart v ok' # cs" by auto
    with assms(1) show ?thesis unfolding starts_ordered_def by blast
  qed
qed

lemma action_starts: "action_ops a ops \<Longrightarrow> starts_ordered ops"
proof (cases a)
  case (StartForeground target deadline)
  assume ops: "action_ops a ops"
  let ?t = "OpStart SESSION_TARGET" and ?c = "OpStart COMPOSITOR_UNIT" and ?u = "session_unit_name target"
  show ?thesis
  proof (cases "target = FgStock")
    case True
    then show ?thesis using ops by (auto simp: StartForeground intro!: no_starts)
  next
    case False
    have differ: "?u \<noteq> COMPOSITOR_UNIT" "COMPOSITOR_UNIT \<noteq> SESSION_TARGET"
      using False by (cases target; simp add: COMPOSITOR_UNIT_def SESSION_TARGET_def)+
    have 1: "starts_ordered [?t ok]" for ok using starts_snoc [OF no_starts [of "[]"] ours(2)] by simp
    have 2: "starts_ordered [?t True, ?c ok]" for ok using starts_snoc [OF 1 ours(3)] by simp
    have 3: "starts_ordered [?t True, ?c True, OpStart ?u ok]" for ok
      using starts_snoc [OF 2 [of True] ours(1), of target ok] differ by simp
    have "ops \<in> start_ops target" using ops False by (simp add: StartForeground)
    with 1 2 3 show ?thesis by (auto simp: start_ops_def Let_def intro: no_starts)
  qed
qed (auto intro!: no_starts)

lemma blocks_ordered: "list_all2 action_ops acts blocks \<Longrightarrow> starts_ordered (concat blocks)"
  by (induction rule: list_all2_induct) (auto intro: no_starts starts_append action_starts)

text \<open>
  Units are started in the order the panel needs: the compositor right after the session
  target was started, which took stock down, and an app right after both; a start that systemd
  refused is followed by none of the others; and no unit but Paperclip's own is touched.
\<close>

theorem units_start_in_order:
  assumes "supervise env ce n b p u = (Ok (s', out), u')"
  shows "starts_ordered (sv_ops s')"
proof -
  obtain acts blocks where "list_all2 action_ops acts blocks" "sv_ops s' = concat blocks"
    using supervise_result [OF assms] by blast
  then show ?thesis by (simp add: blocks_ordered)
qed

section \<open>Back to stock\<close>

text \<open>A program that returns, with what it returns and the tablet it leaves.\<close>

definition wins :: "(tablet \<Rightarrow> bool) \<Rightarrow> (tablet, tablet_event, 'x, 'a) tx \<Rightarrow> ('a \<Rightarrow> tablet \<Rightarrow> bool) \<Rightarrow> bool" where
  "wins P m Q \<longleftrightarrow> (\<forall>u. P (tx_disk u) \<longrightarrow> (\<exists>a u'. m u = (Ok a, u') \<and> Q a (tx_disk u')))"

lemma wins_bind: "wins P m Q \<Longrightarrow> (\<And>a. wins (Q a) (f a) R) \<Longrightarrow> wins P (tx_bind m f) R"
  unfolding wins_def
proof (intro allI impI, goal_cases)
  case (1 u)
  then obtain a u' where "m u = (Ok a, u')" "Q a (tx_disk u')" by blast
  with 1(2) show ?case by (simp add: tx_bind_def)
qed

lemma wins_ok: "(\<And>d. P d \<Longrightarrow> Q a d) \<Longrightarrow> wins P (tx_ok a) Q"
  by (simp add: wins_def tx_ok_def)

lemma wins_ask: "(\<And>a. wins P (f a) Q) \<Longrightarrow> wins P (tx_bind (tx_ask q) f) Q"
  by (simp add: wins_def tx_bind_def tx_ask_def)

lemma wins_pure: "(p \<Longrightarrow> wins P m Q) \<Longrightarrow> wins (\<lambda>d. p \<and> P d) m Q"
  by (simp add: wins_def)

lemma wins_conseq: "wins P' m Q' \<Longrightarrow> (\<And>d. P d \<Longrightarrow> P' d) \<Longrightarrow> (\<And>a d. Q' a d \<Longrightarrow> Q a d) \<Longrightarrow> wins P m Q"
  unfolding wins_def by blast

text \<open>Systemd and the file system do what they are documented to do, and the panel is free.\<close>

definition obliging :: "host_env \<Rightarrow> bool" where
  "obliging env \<longleftrightarrow> working (su_tablet env) \<and> (\<forall>n. \<not> text_contains (su_journal env n) ATOMIC_COMMIT_FAILURE)"

definition rested :: "tablet \<Rightarrow> bool" where
  "rested d \<longleftrightarrow> tb_active d \<and> \<not> awake d"

lemma wins_restore:
  assumes "obliging env"
  shows "wins (\<lambda>_. True) (do_restore env k s) (\<lambda>s' d. s' = queue [StockRunning, DisplayReleased] (note_op (OpRestore k) s) \<and> rested d)"
  unfolding do_restore_def
proof (rule wins_ask)
  fix wall
  have w: "\<exists>r u'. restore_recovery (su_tablet env) (su_journal env) (wall_secs wall) u = (Ok r, u') \<and> rested (tx_disk u')" for u
    using recovery_works [of "su_tablet env" "su_journal env" "wall_secs wall" u] assms by (auto simp: obliging_def rested_def)
  show "wins (\<lambda>_. True) (tx_match (restore_recovery (su_tablet env) (su_journal env) (wall_secs wall))
       (\<lambda>e. tx_ok (queue [RestoreFailed (error_text e)]
          (note_op (OpCapture (''restore attempt '' @ show_nat k @ '': '' @ error_text e)) (note_op (OpRestore k) s))))
       (\<lambda>_. tx_ok (queue [StockRunning, DisplayReleased] (note_op (OpRestore k) s))))
     (\<lambda>s' d. s' = queue [StockRunning, DisplayReleased] (note_op (OpRestore k) s) \<and> rested d)"
    unfolding wins_def
  proof (intro allI impI)
    fix u :: "(tablet, tablet_event) tx_state"
    obtain r u' where "restore_recovery (su_tablet env) (su_journal env) (wall_secs wall) u = (Ok r, u')" "rested (tx_disk u')"
      using w by blast
    then show "\<exists>a u'. tx_match (restore_recovery (su_tablet env) (su_journal env) (wall_secs wall))
         (\<lambda>e. tx_ok (queue [RestoreFailed (error_text e)]
            (note_op (OpCapture (''restore attempt '' @ show_nat k @ '': '' @ error_text e)) (note_op (OpRestore k) s))))
         (\<lambda>_. tx_ok (queue [StockRunning, DisplayReleased] (note_op (OpRestore k) s))) u = (Ok a, u')
       \<and> a = queue [StockRunning, DisplayReleased] (note_op (OpRestore k) s) \<and> rested (tx_disk u')"
      by (simp add: tx_match_def tx_ok_def)
  qed
qed

text \<open>What the loop holds of the host but for its notes.\<close>

definition as_before :: "host \<Rightarrow> host \<Rightarrow> bool" where
  "as_before s s' \<longleftrightarrow> sv_machine s' = sv_machine s \<and> sv_queued s' = sv_queued s \<and> sv_unit s' = sv_unit s"

lemma wins_terminate: "wins (\<lambda>_. True) (terminate_session env reason esc s) (\<lambda>s' _. as_before s s')"
  by (auto simp: wins_def terminate_session_def unit_stop_def as_before_def note_op_def tx_run split: option.split)

lemma wins_release: "wins (\<lambda>_. True) (release_display env s) (\<lambda>s' _. as_before s s')"
  unfolding wins_def
proof (intro allI impI)
  fix u :: "(tablet, tablet_event) tx_state"
  obtain u' where "clear_stale_locks (su_tablet env) u = (Ok (), u')" using clear_log [of "su_tablet env" u] by blast
  then show "\<exists>s' u'. release_display env s u = (Ok s', u') \<and> as_before s s'"
    by (simp add: release_display_def as_before_def note_op_def tx_bind_def tx_ok_def)
qed

lemma wins_handle:
  assumes "\<And>now. \<exists>m acts. handle (sv_machine s) e now = (m, acts) \<and>
     wins P (execute_all env acts (write_status (s\<lparr>sv_machine := m\<rparr>))) (\<lambda>(s', out) d. out = None \<and> Q s' d)"
    and "\<And>s'. wins (Q s') (handle_all env es s') R"
  shows "wins P (handle_all env (e # es) s) R"
  unfolding handle_all.simps
proof (rule wins_ask, goal_cases)
  case (1 now)
  obtain m acts where h: "handle (sv_machine s) e now = (m, acts)"
    and w: "wins P (execute_all env acts (write_status (s\<lparr>sv_machine := m\<rparr>))) (\<lambda>(s', out) d. out = None \<and> Q s' d)"
    using assms(1) by blast
  show ?case
    unfolding h Let_def prod.case
  proof (rule wins_bind [OF w], clarify)
    fix s' :: host and out :: "outcome option"
    show "wins (\<lambda>d. out = None \<and> Q s' d) (case out of None \<Rightarrow> handle_all env es s' | Some r \<Rightarrow> tx_ok (s', Some r)) R"
      using assms(2) [of s'] by (intro wins_pure) simp
  qed
qed

text \<open>An event to which the machine answers with no action.\<close>

lemma wins_silent:
  assumes "\<And>now. handle (sv_machine s) e now = (m, [])" and "wins P (handle_all env es (write_status (s\<lparr>sv_machine := m\<rparr>))) R"
  shows "wins P (handle_all env (e # es) s) R"
  unfolding handle_all.simps assms(1) Let_def prod.case execute_all.simps
  by (rule wins_ask, rule wins_bind [where Q = "\<lambda>(s', out) d. s' = write_status (s\<lparr>sv_machine := m\<rparr>) \<and> out = None \<and> P d"], rule wins_ok, simp,
      clarify) (auto intro!: wins_pure assms(2))

lemma wins_none: "(\<And>d. P d \<Longrightarrow> R (s, None) d) \<Longrightarrow> wins P (handle_all env [] s) R"
  by (simp add: wins_ok)

lemma wins_action:
  assumes "execute env a s = tx_bind m (\<lambda>s. tx_ok (s, None))" and "wins P m Q" and "\<And>s'. wins (Q s') (execute_all env as s') R"
  shows "wins P (execute_all env (a # as) s) R"
  unfolding execute_all.simps assms(1)
proof (rule wins_bind [OF wins_bind [OF assms(2)]])
  show "wins (Q s') (tx_ok (s', None)) (\<lambda>(s', out) d. out = None \<and> Q s' d)" for s'
    by (rule wins_ok) simp
  fix r :: "host \<times> outcome option"
  show "wins (case r of (s', out) \<Rightarrow> \<lambda>d. out = None \<and> Q s' d) (case r of (s, out) \<Rightarrow> case out of
     Some r \<Rightarrow> tx_ok (write_status s, Some r) | None \<Rightarrow> execute_all env as s) R"
    by (cases r) (auto intro!: wins_pure assms(3))
qed

text \<open>The actions of entering recovery end with stock running and two observations queued.\<close>

lemma wins_recovery_actions:
  assumes "obliging env"
  shows "wins (\<lambda>_. True) (execute_all env ([CaptureDiagnostics why, TerminateSession why esc, ReleaseDisplay, RestoreStock k deadline]
      @ (if again then [CaptureDiagnostics why'] else [])) s)
    (\<lambda>(s', out) d. out = None \<and> sv_machine s' = sv_machine s \<and> sv_queued s' = sv_queued s @ [StockRunning, DisplayReleased]
       \<and> sv_unit s' = sv_unit s \<and> rested d)"
proof -
  let ?R = "\<lambda>(s', out) d. out = None \<and> sv_machine s' = sv_machine s \<and> sv_queued s' = sv_queued s @ [StockRunning, DisplayReleased]
       \<and> sv_unit s' = sv_unit s \<and> rested d"
  let ?tail = "if again then [CaptureDiagnostics why'] else []"
  have last: "wins (\<lambda>d. rested d) (execute_all env ?tail s') ?R"
    if "sv_machine s' = sv_machine s" "sv_queued s' = sv_queued s @ [StockRunning, DisplayReleased]" "sv_unit s' = sv_unit s" for s'
    using that by (auto simp: wins_def tx_bind_def tx_ok_def note_op_def)
  have restore: "wins (\<lambda>_. True) (execute_all env (RestoreStock k deadline # ?tail) s1) ?R" if "as_before s s1" for s1
    by (rule wins_action [OF execute.simps(4) wins_restore [OF assms]], rule wins_pure, rule last)
      (use that in \<open>simp_all add: as_before_def queue_def note_op_def\<close>)
  have release: "wins (\<lambda>_. True) (execute_all env (ReleaseDisplay # RestoreStock k deadline # ?tail) s1) ?R" if "as_before s s1" for s1
  proof (rule wins_action [OF execute.simps(3) wins_release])
    fix s' show "wins (\<lambda>_. as_before s1 s') (execute_all env (RestoreStock k deadline # ?tail) s') ?R"
      using that wins_pure [OF restore, of "as_before s1 s'" s'] by (simp add: as_before_def)
  qed
  have sweep: "wins (\<lambda>_. True) (execute_all env (TerminateSession why esc # ReleaseDisplay # RestoreStock k deadline # ?tail) s1) ?R"
    if "as_before s s1" for s1
  proof (rule wins_action [OF execute.simps(2) wins_terminate])
    fix s' show "wins (\<lambda>_. as_before s1 s') (execute_all env (ReleaseDisplay # RestoreStock k deadline # ?tail) s') ?R"
      using that wins_pure [OF release, of "as_before s1 s'" s'] by (simp add: as_before_def)
  qed
  have "execute_all env ([CaptureDiagnostics why, TerminateSession why esc, ReleaseDisplay, RestoreStock k deadline]
      @ (if again then [CaptureDiagnostics why'] else [])) s
    = execute_all env (TerminateSession why esc # ReleaseDisplay # RestoreStock k deadline # (if again then [CaptureDiagnostics why'] else []))
        (note_op (OpCapture (stop_description why)) s)"
    by (simp add: tx_bind_def tx_ok_def fun_eq_iff)
  then show ?thesis using sweep [of "note_op (OpCapture (stop_description why)) s"] by (simp add: as_before_def note_op_def)
qed

text \<open>Nobody asks anything of the supervisor, and its units are down.\<close>

definition units_down :: "host_env \<Rightarrow> bool" where
  "units_down env \<longleftrightarrow> (\<forall>n w. \<not> su_active env n w) \<and> (\<forall>n. su_command env n = None) \<and> (\<forall>n. \<not> su_stop env n)"

lemma wins_pass:
  assumes "wins P (collect env s) (\<lambda>(es, s') d. F es \<and> s' = s1 \<and> P' d)"
    and "\<And>es. F es \<Longrightarrow> wins P' (handle_all env es s1) (\<lambda>(s', out) d. out = None \<and> Q s' d)" and "\<forall>n. \<not> su_stop env n"
  shows "wins P (pass env s) (\<lambda>(s', out) d. out = None \<and> (\<exists>s2. s' = write_status s2 \<and> Q s2 d))"
proof -
  have stop: "wins (Q s2) (tx_bind (tx_ask (su_stop env)) (\<lambda>stop. tx_ok (write_status s2,
      if stop \<and> m_state (sv_machine s2) = Stock then Some StoppedAtStock else None)))
    (\<lambda>(s', out) d. out = None \<and> (\<exists>s2. s' = write_status s2 \<and> Q s2 d))" for s2
    using assms(3) by (auto simp: wins_def tx_bind_def tx_ask_def tx_ok_def)
  show ?thesis
    unfolding pass_def
    by (rule wins_bind [OF assms(1)], clarify, intro wins_pure, simp, rule wins_bind [OF assms(2)], assumption, clarify, intro wins_pure, simp, rule stop)
qed

lemma wins_passes:
  assumes "wins P (pass env s) (\<lambda>(s', out) d. out = None \<and> Q s' d)" and "\<And>s'. wins (Q s') (passes n env s') R"
  shows "wins P (passes (Suc n) env s) R"
  unfolding passes.simps
proof (rule wins_bind [OF assms(1)], clarify)
  fix s' :: host and out :: "outcome option"
  show "wins (\<lambda>d. out = None \<and> Q s' d) (case out of None \<Rightarrow> passes n env s' | Some r \<Rightarrow> tx_ok (s', Some r)) R"
    using assms(2) [of s'] by (intro wins_pure) simp
qed

section \<open>A crash\<close>

lemma tick_silent: "m_pending m = None \<Longrightarrow> m_recovery m = None \<Longrightarrow> handle m Tick now = (m, [])"
  by (simp add: handle_def tick_def)

lemma crash_handled:
  assumes "owns_display (m_state m)" and "m_pending m = None" and "exit_is_failure k" and "m_foreground m \<noteq> FgStock"
  shows "\<exists>m' deadline again. handle m (SessionExited (m_foreground m) k) now = (m', [CaptureDiagnostics Crashed,
      TerminateSession Crashed (budget_escalation (m_budget m)), ReleaseDisplay, RestoreStock 1 deadline] @ (if again then [CaptureDiagnostics Crashed] else []))
    \<and> m_state m' = Recovering \<and> m_pending m' = None"
proof -
  have st: "m_state m \<noteq> Failed" "m_state m \<noteq> Recovering" using assms(1) by (cases "m_state m"; simp)+
  obtain kept n where l: "ledger_record (m_ledger m) now (p_failure_window (m_policy m)) = (kept, n)" by (meson surj_pair)
  let ?e = "SessionExited (m_foreground m) k"
  show ?thesis
    by (rule exI [of _ "fst (handle m ?e now)"], rule exI [of _ "now + b_restore (m_budget m)"],
        rule exI [of _ "p_session_failures (m_policy m) \<le> n"])
      (use st assms l in \<open>simp add: handle_def session_exited_def enter_recovery_def Let_def\<close>)
qed

lemma collect_down:
  assumes "units_down env" and "sv_unit s = Some w" and "owns_display (m_state (sv_machine s))"
    and "\<forall>n. exit_is_failure (exit_kind_of (su_property env n))" and "sv_queued s = []"
  shows "wins (\<lambda>_. True) (collect env s) (\<lambda>(es, s') d. (\<exists>k. exit_is_failure k \<and> es = [Tick, SessionExited (m_foreground (sv_machine s)) k])
     \<and> s' = s\<lparr>sv_queued := []\<rparr> \<and> True)"
proof -
  have "m_state (sv_machine s) \<noteq> Switching" using assms(3) by (cases "m_state (sv_machine s)") simp_all
  with assms show ?thesis
    by (auto simp: wins_def collect_def observe_session_def observe_stock_def units_down_def take_command_def owner_def tx_run)
qed

lemma collect_recovering:
  assumes "units_down env" and "m_state (sv_machine s) = Recovering"
  shows "wins rested (collect env s) (\<lambda>(es, s') d. es = sv_queued s @ [Tick] \<and> s' = s\<lparr>sv_queued := []\<rparr> \<and> rested d)"
  using assms
  by (auto simp: wins_def collect_def observe_session_def observe_stock_def units_down_def take_command_def tx_run split: option.split)

lemma recovering_pass:
  assumes "units_down env" and "m_state (sv_machine s) = Recovering" and "m_pending (sv_machine s) = None" and "sv_queued s = [StockRunning, DisplayReleased]"
  shows "wins rested (passes 1 env s) (\<lambda>(s', out) d. out = None \<and> m_state (sv_machine s') = Stock \<and> sv_queued s' = [] \<and> rested d)"
proof -
  let ?s = "s\<lparr>sv_queued := []\<rparr>" and ?Q = "\<lambda>s' d. m_state (sv_machine s') = Stock \<and> sv_queued s' = [] \<and> rested d"
  define m where "m = (sv_machine s)\<lparr>m_recovery := None, m_stopping := None, m_pending := None, m_state := Stock, m_foreground := FgStock\<rparr>"
  have m: "m_state m = Stock" "m_pending m = None" "m_recovery m = None" "\<And>now. handle (sv_machine s) StockRunning now = (m, [])"
    using assms(2) by (simp_all add: m_def handle_def stock_running_def)
  have rel: "handle m DisplayReleased now = (m, [])" for now using m by (simp add: handle_def observe_def)
  have handled: "wins rested (handle_all env [StockRunning, DisplayReleased, Tick] ?s) (\<lambda>(s', out) d. out = None \<and> ?Q s' d)"
    by (rule wins_silent, simp, rule m(4), rule wins_silent, simp, rule rel, rule wins_silent, simp, rule tick_silent, rule m(2), rule m(3), rule wins_none)
      (simp add: m write_status_def)
  have c: "wins rested (collect env s) (\<lambda>(es, s') d. es = [StockRunning, DisplayReleased, Tick] \<and> s' = ?s \<and> rested d)"
    using collect_recovering [OF assms(1,2)] assms(4) by simp
  have "wins rested (pass env s) (\<lambda>(s', out) d. out = None \<and> (\<exists>s2. s' = write_status s2 \<and> ?Q s2 d))"
    by (rule wins_pass [OF c]) (use handled assms(1) in \<open>simp_all add: units_down_def\<close>)
  then have p: "wins rested (pass env s) (\<lambda>(s', out) d. out = None \<and> ?Q s' d)"
    by (rule wins_conseq) (auto simp: write_status_def)
  have "wins rested (passes (Suc 0) env s) (\<lambda>(s', out) d. out = None \<and> ?Q s' d)"
    by (rule wins_passes [OF p]) (simp add: wins_ok)
  then show ?thesis by simp
qed

lemma crash_wins:
  assumes "obliging env" and "units_down env" and "\<forall>n. exit_is_failure (exit_kind_of (su_property env n))"
    and "owns_display (m_state (sv_machine s))" and "m_foreground (sv_machine s) \<noteq> FgStock"
    and "m_pending (sv_machine s) = None" and "m_recovery (sv_machine s) = None" and "sv_unit s = Some w" and "sv_queued s = []"
  shows "wins (\<lambda>_. True) (passes (Suc 1) env s) (\<lambda>(s', out) d. out = None \<and> m_state (sv_machine s') = Stock \<and> sv_queued s' = [] \<and> rested d)"
proof -
  let ?s = "s\<lparr>sv_queued := []\<rparr>"
  let ?Q = "\<lambda>s' d. m_state (sv_machine s') = Recovering \<and> m_pending (sv_machine s') = None \<and> sv_queued s' = [StockRunning, DisplayReleased] \<and> rested d"
  have handled: "wins (\<lambda>_. True) (handle_all env [Tick, SessionExited (m_foreground (sv_machine s)) k] ?s) (\<lambda>(s', out) d. out = None \<and> ?Q s' d)"
    if k: "exit_is_failure k" for k
  proof (rule wins_silent)
    show "handle (sv_machine ?s) Tick now = (sv_machine s, [])" for now using tick_silent [OF assms(6,7)] by simp
    let ?t = "write_status (?s\<lparr>sv_machine := sv_machine s\<rparr>)"
    show "wins (\<lambda>_. True) (handle_all env [SessionExited (m_foreground (sv_machine s)) k] ?t) (\<lambda>(s', out) d. out = None \<and> ?Q s' d)"
    proof (rule wins_handle [where Q = ?Q])
      fix now
      obtain m' deadline again where h: "handle (sv_machine s) (SessionExited (m_foreground (sv_machine s)) k) now = (m', [CaptureDiagnostics Crashed,
          TerminateSession Crashed (budget_escalation (m_budget (sv_machine s))), ReleaseDisplay, RestoreStock 1 deadline] @ (if again then [CaptureDiagnostics Crashed] else []))"
        and m': "m_state m' = Recovering" "m_pending m' = None"
        using crash_handled [OF assms(4,6) k assms(5)] by blast
      show "\<exists>m acts. handle (sv_machine ?t) (SessionExited (m_foreground (sv_machine s)) k) now = (m, acts) \<and>
         wins (\<lambda>_. True) (execute_all env acts (write_status (?t\<lparr>sv_machine := m\<rparr>))) (\<lambda>(s', out) d. out = None \<and> ?Q s' d)"
        by (rule exI [of _ m'], rule exI, rule conjI, simp, rule h, rule wins_conseq [OF wins_recovery_actions [OF assms(1)]])
          (use m' in \<open>auto simp: write_status_def\<close>)
    next
      show "wins (?Q s') (handle_all env [] s') (\<lambda>(s', out) d. out = None \<and> ?Q s' d)" for s'
        by (rule wins_none) simp
    qed
  qed
  have "wins (\<lambda>_. True) (pass env s) (\<lambda>(s', out) d. out = None \<and> (\<exists>s2. s' = write_status s2 \<and> ?Q s2 d))"
    by (rule wins_pass [OF collect_down [OF assms(2,8,4,3,9)]]) (use handled assms(2) in \<open>auto simp: units_down_def\<close>)
  then have p: "wins (\<lambda>_. True) (pass env s) (\<lambda>(s', out) d. out = None \<and> ?Q s' d)"
    by (rule wins_conseq) (auto simp: write_status_def)
  show ?thesis
  proof (rule wins_passes [OF p])
    fix s'
    show "wins (?Q s') (passes 1 env s') (\<lambda>(s', out) d. out = None \<and> m_state (sv_machine s') = Stock \<and> sv_queued s' = [] \<and> rested d)"
      by (intro wins_pure recovering_pass assms(2))
  qed
qed

text \<open>
  C9. A session that crashed gives the display back: whatever the tablet's state, two passes later
  the machine is at stock, stock runs, and the tablet can sleep.
\<close>

theorem crash_returns_to_stock:
  assumes "obliging env" and "units_down env" and "\<forall>n. exit_is_failure (exit_kind_of (su_property env n))"
    and "owns_display (m_state (sv_machine s))" and "m_foreground (sv_machine s) \<noteq> FgStock"
    and "m_pending (sv_machine s) = None" and "m_recovery (sv_machine s) = None" and "sv_unit s = Some w" and "sv_queued s = []"
  shows "\<exists>s' u'. passes 2 env s u = (Ok (s', None), u') \<and> m_state (sv_machine s') = Stock \<and> tb_active (tx_disk u') \<and> \<not> awake (tx_disk u')"
  using crash_wins [OF assms, unfolded wins_def, rule_format, of u] by (auto simp: rested_def numeral_2_eq_2)

text \<open>A host with Home on the panel, and an environment in which its unit is gone.\<close>

definition home_machine :: machine where
  "home_machine = (new_machine default_budget default_policy)\<lparr>m_state := Home, m_foreground := FgHome\<rparr>"

definition home_host :: host where
  "home_host = (new_host default_budget default_policy)\<lparr>sv_machine := home_machine, sv_unit := Some (session_unit_name FgHome)\<rparr>"

definition crash_env :: host_env where
  "crash_env = \<lparr>su_tablet = calm_env, su_journal = \<lambda>_. ''started'', su_active = \<lambda>_ _. False, su_accepts = \<lambda>_ _. True,
     su_property = \<lambda>_ _. None, su_command = \<lambda>_. None, su_compositor = \<lambda>_. None, su_witness = \<lambda>_. None, su_stop = \<lambda>_. False,
     su_wall = \<lambda>_. 0, su_clock = \<lambda>_. 0\<rparr>"

theorem crash_returns_to_stock_witness:
  "\<exists>s' u'. passes 2 crash_env home_host (tx_start held_tablet) = (Ok (s', None), u') \<and> m_state (sv_machine s') = Stock
     \<and> tb_active (tx_disk u') \<and> \<not> awake (tx_disk u')"
proof -
  have "\<not> text_contains ''started'' ATOMIC_COMMIT_FAILURE"
    by (simp add: text_contains_def ATOMIC_COMMIT_FAILURE_def atMost_Suc)
  then have "obliging crash_env" by (simp add: obliging_def crash_env_def working_def calm_env_def)
  moreover have "units_down crash_env" by (simp add: units_down_def crash_env_def)
  moreover have "\<forall>n. exit_is_failure (exit_kind_of (su_property crash_env n))" by (simp add: crash_env_def exit_kind_of_def)
  ultimately show ?thesis
    by (rule crash_returns_to_stock) (simp_all add: home_host_def home_machine_def new_host_def new_machine_def)
qed

theorem units_start_in_order_witness:
  "\<exists>s' out u'. supervise crash_env \<lparr>ce_command = None, ce_probe = None, ce_path = [], ce_home = Ok 183, ce_machine = 183\<rparr> 3
       default_budget default_policy (tx_start held_tablet) = (Ok (s', out), u') \<and> starts_ordered (sv_ops s')"
proof -
  let ?e = "\<lparr>ce_command = None, ce_probe = None, ce_path = [], ce_home = Ok 183, ce_machine = 183\<rparr>"
  obtain s' out u' where "supervise crash_env ?e 3 default_budget default_policy (tx_start held_tablet) = (Ok (s', out), u')"
    using supervise_yields [of default_budget default_policy crash_env ?e 3] unfolding yields_def by fast
  with units_start_in_order show ?thesis by blast
qed

section \<open>Refusals and given-up restores\<close>

text \<open>
  When the shared record shows that the start budget is spent, a request for Home or for an app
  changes nothing of the tablet and operates no unit: the session is reported as failed.
\<close>

theorem spent_budget_takes_nothing:
  assumes "\<forall>n. te_reads (su_tablet env) n" and "START_BUDGET \<le> recent_in now (tb_starts (tx_disk u))"
    and "\<forall>n. wall_secs (su_wall env n) = now" and "target \<noteq> FgStock"
  shows "\<exists>s' u'. start_foreground env target s u = (Ok s', u') \<and> tx_disk u' = tx_disk u \<and> tx_log u' = tx_log u \<and> sv_ops s' = sv_ops s
    \<and> sv_queued s' = sv_queued s @ [SessionExited target ExitError] \<and> sv_machine s' = sv_machine s"
  using assms
  by (simp add: start_foreground_def start_session_def stock_step_def allows_session_def recent_def readable_def refused_def queue_def tx_run)

definition spent_tablet :: tablet where
  "spent_tablet = running_tablet\<lparr>tb_starts := Some (write_lines (map show_nat [0, 0, 0]))\<rparr>"

theorem spent_budget_takes_nothing_witness:
  "\<exists>s' u'. start_foreground crash_env FgHome home_host (tx_start spent_tablet) = (Ok s', u') \<and> tx_disk u' = spent_tablet
     \<and> sv_queued s' = [SessionExited FgHome ExitError]"
proof -
  have "recent_in 0 (tb_starts spent_tablet) = 3"
    using stamps_written [of "[0, 0, 0]"] by (simp add: spent_tablet_def recent_in_def within_window_def START_LIMIT_WINDOW_def)
  then show ?thesis
    using spent_budget_takes_nothing [of crash_env 0 "tx_start spent_tablet" FgHome home_host]
    by (auto simp: crash_env_def calm_env_def wall_secs_def as_secs_def START_BUDGET_def tx_start_def home_host_def new_host_def)
qed

text \<open>
  With more than one restore attempt allowed, a restore that fails once during a switch to stock
  and then succeeds leaves the first attempt's recovery in the machine: the state is Stock and
  stock runs, and when that recovery's deadline passes the supervisor halts, saying that stock
  could not be restored.
\<close>

definition two_attempts :: failure_policy where
  "two_attempts = default_policy\<lparr>p_restore_attempts := 2\<rparr>"

definition second_try :: "(event \<times> instant) list" where
  "second_try = [(SwitchRequested FgHome, 0), (ProcessReady FgHome, 1), (DisplayOwned FgHome, 2), (SwitchRequested FgStock, 3),
     (RestoreFailed ''busy'', 4), (StockRunning, 5), (DisplayReleased, 6)]"

theorem restored_stock_is_given_up:
  "m_state (fst (run hstep (new_machine default_budget two_attempts) second_try)) = Stock
   \<and> m_state (fst (run hstep (new_machine default_budget two_attempts) (second_try @ [(Tick, 4 + from_secs 30)]))) = Failed"
  by (simp add: second_try_def two_attempts_def hstep_def handle_def new_machine_def begin_switch_def default_budget_def default_policy_def
      may_relaunch_def new_pending_def observe_def settle_def pending_arrived_def stock_running_def restore_failed_def tick_def halt_def
      budget_escalation_def from_secs_def Let_def)

end
