(* ===== verification/StatusFile.thy ===== *)
theory StatusFile
  imports RuntimeSafe PlatformUpdate Boot
begin

text \<open>
  The status file between the two programs that share it: the supervisor writes it
  (\<open>write_status\<close> of \<open>platform/host/src/linux/runtime.rs\<close>), and the updater judges a new release
  by what it reads there (\<open>observe\<close> of \<open>platform/updater/src/linux.rs\<close>). Reading a field is the
  same code as the boot launcher's \<open>status_field\<close>.
\<close>

definition observe_status :: "bool \<Rightarrow> string option \<Rightarrow> observation \<times> protocol_version option" where
  "observe_status alive file = (case file of
     None \<Rightarrow> (\<lparr>ob_alive = alive, ob_reached = None, ob_note = []\<rparr>, None)
   | Some status \<Rightarrow>
       (\<lparr>ob_alive = alive,
          ob_reached = Option.bind (status_field status ''ready'') (\<lambda>v. case rung_from_str v of Inl _ \<Rightarrow> None | Inr r \<Rightarrow> Some r),
          ob_note = unwrap_or_default (status_field status ''ready_note'')\<rparr>,
        Option.bind (status_field status ''protocol'') (\<lambda>v. case version_parse v of Inl _ \<Rightarrow> None | Inr p \<Rightarrow> Some p)))"

lemma plain_field: "plain_line v \<Longrightarrow> newline \<notin> set n \<Longrightarrow> plain_line (n @ CHR ''='' # v)"
proof -
  assume p: "plain_line v" and n: "newline \<notin> set n"
  have "butlast v \<noteq> v" if "v \<noteq> []"
    using that by (metis append_butlast_last_id append_self_conv list.distinct(1))
  with p have "last v \<noteq> CHR 0x0D" if "v \<noteq> []"
    using that by (auto simp: plain_line_def strip_cr_def)
  with p n show "plain_line (n @ CHR ''='' # v)" by (auto simp: plain_line_def strip_cr_def)
qed

lemma plain_rung: "plain_line (rung_label r)" "trim (rung_label r) = rung_label r"
  by (cases r; simp add: plain_line_def strip_cr_def trim_def trim_start_def is_space_def)+

lemma plain_state: "plain_line (state_name st)" "plain_line (bool_text b)" "plain_line []"
  by (cases st; cases b; simp add: plain_line_def strip_cr_def bool_text_def)+

lemma current_text: "plain_line (version_text CURRENT)" "trim (version_text CURRENT) = version_text CURRENT"
  by code_simp+

text \<open>What a field of the file is, its name being free of \<open>=\<close> and of spaces at its ends.\<close>

definition field_line :: "string \<Rightarrow> string \<Rightarrow> string" where
  "field_line n v = n @ CHR ''='' # v"

definition good_name :: "string \<Rightarrow> bool" where
  "good_name n \<longleftrightarrow> CHR ''='' \<notin> set n \<and> trim n = n \<and> newline \<notin> set n"

lemma field_of_lines:
  "list_all good_name (map fst fs) \<Longrightarrow>
   find_map (\<lambda>line. case split_once CHR ''='' line of None \<Rightarrow> None | Some (name, v) \<Rightarrow> if trim name = key then Some (trim v) else None)
     (map (\<lambda>(n, v). field_line n v) fs) = map_option trim (map_of fs key)"
  by (induction fs) (auto simp: good_name_def field_line_def split_once_append)

definition status_fields :: "host \<Rightarrow> (string \<times> string) list" where
  "status_fields s =
     [(''state'', state_name (m_state (sv_machine s))), (''foreground'', fg_label (m_foreground (sv_machine s))),
      (''may_relaunch'', bool_text (may_relaunch (sv_machine s))),
      (''diagnosis'', case m_diagnosis (sv_machine s) of None \<Rightarrow> [] | Some d \<Rightarrow> diagnosis_summary d),
      (''ready'', rung_label (highest (sv_ladder s))), (''ready_note'', sv_note s), (''protocol'', version_text CURRENT)]"

lemma status_lines_fields: "status_lines s = map (\<lambda>(n, v). field_line n v) (status_fields s)"
  by (simp add: status_lines_def status_fields_def field_line_def)

lemma names_good: "list_all good_name (map fst (status_fields s))"
  by (simp add: status_fields_def good_name_def trim_def trim_start_def is_space_def)

lemma written_field:
  assumes "plain_line (fg_label (m_foreground (sv_machine s)))" and "plain_line (sv_note s)"
    and "case m_diagnosis (sv_machine s) of None \<Rightarrow> True | Some d \<Rightarrow> plain_line (diagnosis_summary d)"
  shows "status_field (sv_status (write_status s)) key = map_option trim (map_of (status_fields s) key)"
proof -
  have "list_all (\<lambda>(n, v). plain_line v) (status_fields s)"
    using assms by (auto simp: status_fields_def plain_rung plain_state current_text(1) split: option.splits)
  then have "\<forall>l\<in>set (status_lines s). plain_line l"
    using names_good [of s] by (auto simp: status_lines_fields field_line_def list_all_iff good_name_def intro!: plain_field)
  then show ?thesis
    unfolding status_field_def write_status_def
    by (simp add: lines_written status_lines_fields field_of_lines [OF names_good])
qed

text \<open>
  C10. What the updater reads is what the supervisor has climbed: from the status file as the
  supervisor writes it, the updater gets the highest rung, the note, and the version of the
  protocol, whatever state the session is in.
\<close>

theorem updater_reads_what_was_climbed:
  assumes "plain_line (fg_label (m_foreground (sv_machine s)))" and "plain_line (sv_note s)"
    and "case m_diagnosis (sv_machine s) of None \<Rightarrow> True | Some d \<Rightarrow> plain_line (diagnosis_summary d)"
  shows "observe_status alive (Some (sv_status (write_status s))) =
    (\<lparr>ob_alive = alive, ob_reached = Some (highest (sv_ladder s)), ob_note = trim (sv_note s)\<rparr>, Some CURRENT)"
proof -
  have "version_parse (version_text CURRENT) = Ok CURRENT" by (rule version_round_trip) (simp_all add: CURRENT_def)
  then show ?thesis
    by (simp add: observe_status_def written_field [OF assms] status_fields_def plain_rung rung_from_label current_text(2))
qed

theorem updater_reads_what_was_climbed_witness:
  "observe_status True (Some (sv_status (climb \<lparr>ce_command = None, ce_probe = Some ''no panel'', ce_path = [], ce_home = Ok 183, ce_machine = 183\<rparr>
     (new_host default_budget default_policy)))) =
   (\<lparr>ob_alive = True, ob_reached = Some ProtocolRung, ob_note = ''device-adapter: facilities probe: no panel''\<rparr>, Some CURRENT)"
proof -
  let ?s = "(new_host default_budget default_policy)\<lparr>sv_ladder := \<lparr>l_reached = ProtocolRung\<rparr>,
    sv_note := ''device-adapter: facilities probe: no panel''\<rparr>"
  have "climb \<lparr>ce_command = None, ce_probe = Some ''no panel'', ce_path = [], ce_home = Ok 183, ce_machine = 183\<rparr> (new_host default_budget default_policy)
    = write_status ?s"
    by (simp add: climb_def claim_def stall_def write_status_def new_host_def ladder_new_def reached_def less_rung_def status_lines_def)
  moreover have "plain_line (sv_note ?s)" "trim (sv_note ?s) = sv_note ?s" "plain_line (fg_label (m_foreground (sv_machine ?s)))"
    by (simp_all add: plain_line_def strip_cr_def trim_def trim_start_def is_space_def new_host_def new_machine_def)
  ultimately show ?thesis
    using updater_reads_what_was_climbed [of ?s True] by (simp add: new_host_def new_machine_def highest_def)
qed

end
