(* ===== verification/FileTree.thy ===== *)
theory FileTree
  imports Transaction Paths
begin

text \<open>
  A file system as the calls of \<open>std::fs\<close> see it: nodes at real locations, links that lead to
  one, and the calls the archive code makes. A program is a program of Transaction over the
  tree, so it can be killed at every call that changes something. A link node holds the place
  where following it ends. Nobody else writes to the tree while a program runs.
\<close>

section \<open>The tree\<close>

type_synonym loc = "string list"

datatype node = DirNode | FileNode (content: "u8 list") (runs: bool) | LinkNode loc

type_synonym file_tree = "(loc \<times> node) list"

definition node_at :: "file_tree \<Rightarrow> loc \<Rightarrow> node option" where
  "node_at t p = (if p = [] then Some DirNode else map_of t p)"

text \<open>Where a path leads when every component is followed, and when the last one is not.\<close>

fun locate :: "file_tree \<Rightarrow> loc \<Rightarrow> string list \<Rightarrow> loc" where
  "locate t p [] = p"
| "locate t p (c # cs) = (if c = [] \<or> c = ''.'' then locate t p cs
     else if c = ''..'' then locate t (butlast p) cs
     else case node_at t (p @ [c]) of Some (LinkNode q) \<Rightarrow> locate t q cs | _ \<Rightarrow> locate t (p @ [c]) cs)"

definition place :: "file_tree \<Rightarrow> string list \<Rightarrow> loc" where
  "place t path = (if path = [] \<or> last path \<in> {[], ''.'', ''..''} then locate t [] path
     else locate t [] (butlast path) @ [last path])"

datatype tree_write = MakeDir loc | MakeFile loc | AppendTo loc "u8 list" | MakeExecutable loc

fun append_node :: "u8 list \<Rightarrow> node \<Rightarrow> node" where
  "append_node bs (FileNode cs x) = FileNode (cs @ bs) x"
| "append_node bs n = n"

fun run_node :: "node \<Rightarrow> node" where
  "run_node (FileNode cs _) = FileNode cs True"
| "run_node n = n"

definition change :: "loc \<Rightarrow> (node \<Rightarrow> node) \<Rightarrow> file_tree \<Rightarrow> file_tree" where
  "change p f t = map (\<lambda>(q, n). (q, if q = p then f n else n)) t"

fun put_tree :: "file_tree \<Rightarrow> tree_write \<Rightarrow> file_tree" where
  "put_tree t (MakeDir p) = (p, DirNode) # t"
| "put_tree t (MakeFile p) = (p, FileNode [] False) # t"
| "put_tree t (AppendTo p bs) = change p (append_node bs) t"
| "put_tree t (MakeExecutable p) = change p run_node t"

section \<open>The calls\<close>

type_synonym ('x, 'a) tree_tx = "(file_tree, tree_write, 'x, 'a) tx"

datatype io_kind = AlreadyExists | NotFound | OtherIo

text \<open>Why there is nothing: a file on the way is an error of its own (\<open>ENOTDIR\<close>).\<close>

definition absence :: "file_tree \<Rightarrow> loc \<Rightarrow> io_kind" where
  "absence t p = (if list_ex (\<lambda>k. case node_at t (take k p) of Some (FileNode _ _) \<Rightarrow> True | _ \<Rightarrow> False) [0..<length p]
     then OtherIo else NotFound)"

definition lookup :: "file_tree \<Rightarrow> loc \<Rightarrow> (io_kind, node) result" where
  "lookup t p = ok_or (absence t p) (node_at t p)"

text \<open>What a call that makes a new node asks first.\<close>

definition vacant :: "file_tree \<Rightarrow> loc \<Rightarrow> (io_kind, unit) result" where
  "vacant t p = (if node_at t p \<noteq> None then Err AlreadyExists
     else if node_at t (butlast p) \<noteq> Some DirNode then Err (absence t p) else Ok ())"

definition mkdir_at :: "(nat \<Rightarrow> io_answer) \<Rightarrow> string list \<Rightarrow> (io_kind, unit) tree_tx" where
  "mkdir_at io path = tx_bind (tx_get (\<lambda>t. (place t path, vacant t (place t path)))) (\<lambda>(p, v).
     tx_bind (tx_lift v) (\<lambda>_. tx_io put_tree io OtherIo (MakeDir p)))"

text \<open>\<open>create_new\<close>; the handle is the location.\<close>

definition create_new :: "(nat \<Rightarrow> io_answer) \<Rightarrow> string list \<Rightarrow> (io_kind, loc) tree_tx" where
  "create_new io path = tx_bind (tx_get (\<lambda>t. (place t path, vacant t (place t path)))) (\<lambda>(p, v).
     tx_bind (tx_lift v) (\<lambda>_. tx_bind (tx_io put_tree io OtherIo (MakeFile p)) (\<lambda>_. tx_ok p)))"

text \<open>\<open>symlink_metadata\<close> and \<open>metadata\<close>; a failed question is an I/O error.\<close>

definition stat_link :: "(nat \<Rightarrow> io_answer) \<Rightarrow> string list \<Rightarrow> (io_kind, node) tree_tx" where
  "stat_link io path = tx_bind (tx_probe io OtherIo) (\<lambda>_. tx_bind (tx_get (\<lambda>t. lookup t (place t path))) tx_lift)"

definition stat_follow :: "(nat \<Rightarrow> io_answer) \<Rightarrow> string list \<Rightarrow> (io_kind, node) tree_tx" where
  "stat_follow io path = tx_bind (tx_probe io OtherIo) (\<lambda>_. tx_bind (tx_get (\<lambda>t. lookup t (locate t [] path))) tx_lift)"

definition tx_map_err :: "('x \<Rightarrow> 'y) \<Rightarrow> ('d, 'e, 'x, 'a) tx \<Rightarrow> ('d, 'e, 'y, 'a) tx" where
  "tx_map_err f m = tx_match m (\<lambda>e. tx_err (f e)) tx_ok"

text \<open>What is in a directory.\<close>

definition children :: "file_tree \<Rightarrow> loc \<Rightarrow> (loc \<times> node) list" where
  "children t p = filter (\<lambda>(q, _). q \<noteq> [] \<and> butlast q = p) t"

text \<open>\<open>io::copy\<close> writes what it has in its buffer of eight kilobytes.\<close>

definition COPY_BUFFER :: nat where "COPY_BUFFER = 8192"

fun chunks :: "nat \<Rightarrow> 'a list \<Rightarrow> 'a list list" where
  "chunks n xs = (if n = 0 \<or> xs = [] then [] else take n xs # chunks n (drop n xs))"

declare chunks.simps [simp del]

lemma concat_chunks: "0 < n \<Longrightarrow> concat (chunks n xs) = xs"
  by (induction n xs rule: chunks.induct) (subst chunks.simps, simp)

fun append_all :: "(nat \<Rightarrow> io_answer) \<Rightarrow> loc \<Rightarrow> u8 list list \<Rightarrow> (io_kind, unit) tree_tx" where
  "append_all io p [] = tx_ok ()"
| "append_all io p (b # bs) = tx_bind (tx_io put_tree io OtherIo (AppendTo p b)) (\<lambda>_. append_all io p bs)"

section \<open>Lookups\<close>

lemma map_of_change: "map_of (change p f t) q = map_option (if q = p then f else id) (map_of t q)"
  unfolding change_def by (induction t) (auto simp: map_option.id)

lemma change_append: "change p f (xs @ ys) = change p f xs @ change p f ys"
  by (simp add: change_def)

lemma change_absent: "p \<notin> fst ` set t \<Longrightarrow> change p f t = t"
  unfolding change_def by (induction t) auto

lemma fst_change [simp]: "map fst (change p f t) = map fst t"
  by (induction t) (auto simp: change_def)

text \<open>Directories and files on the way, no links.\<close>

definition solid :: "file_tree \<Rightarrow> loc \<Rightarrow> bool" where
  "solid t p \<longleftrightarrow> list_all plain_component p \<and> (\<forall>k\<le>length p. case node_at t (take k p) of Some (LinkNode _) \<Rightarrow> False | _ \<Rightarrow> True)"

lemma locate_solid: "solid t (p @ cs) \<Longrightarrow> locate t p cs = p @ cs"
proof (induction cs arbitrary: p)
  case (Cons c cs)
  from Cons.prems have c: "plain_component c" by (simp add: solid_def)
  have "case node_at t (p @ [c]) of Some (LinkNode _) \<Rightarrow> False | _ \<Rightarrow> True"
    using Cons.prems unfolding solid_def by (auto dest!: spec [of _ "Suc (length p)"])
  moreover have "locate t (p @ [c]) cs = p @ c # cs" using Cons.IH [of "p @ [c]"] Cons.prems by simp
  ultimately show ?case using c by (auto simp: plain_component_def split: option.splits node.splits)
qed simp

lemma solid_butlast: "solid t p \<Longrightarrow> solid t (butlast p)"
proof (cases "p = []")
  case False
  assume s: "solid t p"
  have "take k (butlast p) = take k p" if "k \<le> length (butlast p)" for k
    using that False by (intro take_butlast) (cases p, auto split: if_splits)
  with s show ?thesis by (auto simp: solid_def list_all_iff dest: in_set_butlastD)
qed simp

lemma place_solid: "solid t p \<Longrightarrow> place t p = p"
  using locate_solid [of t "[]" p] locate_solid [of t "[]" "butlast p"] solid_butlast [of t p]
  by (auto simp: place_def)

end
