(* ===== verification/PackageManifest.thy ===== *)
theory PackageManifest
  imports FileTree Protocol
begin

text \<open>
  The manifest of an app package (\<open>platform/packages/src/manifest.rs\<close>), what its payload must
  hold, and the capabilities an install grants (\<open>capability.rs\<close>). TOML and SemVer are the
  functions of \<open>manifest_lib\<close>; a text is a list of bytes, a name a list of code points.
\<close>

section \<open>The manifest\<close>

definition MANIFEST_FILE_NAME :: string where "MANIFEST_FILE_NAME = ''paper.toml''"
definition MAX_MANIFEST_BYTES :: nat where "MAX_MANIFEST_BYTES = 64 * 1024"
definition MAX_ASSETS :: nat where "MAX_ASSETS = 512"

record 'v manifest =
  mf_id :: app_id
  mf_name :: chars
  mf_version :: 'v
  mf_protocol :: protocol_version
  mf_entrypoint :: string
  mf_assets :: "string list"

text \<open>The tables as they are read; the reserved keys are read only to be refused.\<close>

record raw_app =
  ra_id :: string
  ra_name :: chars
  ra_version :: string
  ra_protocol :: string
  ra_entrypoint :: string
  ra_assets :: "string list"
  ra_capabilities :: bool
  ra_permissions :: bool
  ra_grants :: bool

record raw_manifest =
  rm_app :: raw_app
  rm_capabilities :: bool
  rm_permissions :: bool
  rm_grants :: bool

datatype manifest_error =
    MfSyntax string
  | MfSchema string
  | SelfGrantedCapabilities string
  | MfAppId string id_error
  | MfDisplayName chars name_error
  | MfVersion string string
  | MfEntrypoint string path_error
  | MfAsset nat string path_error
  | DuplicateAsset string
  | MfProtocol string version_error
  | TooManyAssets nat nat
  | MfTooLarge "string list" nat nat
  | UnsupportedProtocol protocol_version protocol_version
  | MfRead "string list" io_kind

record ('t, 'v) manifest_lib =
  ml_toml :: "string \<Rightarrow> (string, 't) result"
  ml_schema :: "'t \<Rightarrow> (string, raw_manifest) result"
  ml_semver :: "string \<Rightarrow> (string, 'v) result"

text \<open>The first reserved key that is present.\<close>

definition claimed :: "(bool \<times> string) list \<Rightarrow> (manifest_error, unit) result" where
  "claimed keys = (case find fst keys of Some (_, key) \<Rightarrow> Err (SelfGrantedCapabilities key) | None \<Rightarrow> Ok ())"

fun parse_assets :: "nat \<Rightarrow> string list \<Rightarrow> string list \<Rightarrow> (manifest_error, string list) result" where
  "parse_assets i seen [] = Ok seen"
| "parse_assets i seen (d # ds) = and_then (map_err (MfAsset i d) (relative_path_parse d)) (\<lambda>a.
     if a \<in> set seen then Err (DuplicateAsset d) else parse_assets (Suc i) (seen @ [a]) ds)"

definition manifest_parse :: "('t, 'v) manifest_lib \<Rightarrow> string \<Rightarrow> (manifest_error, 'v manifest) result" where
  "manifest_parse L t = (if MAX_MANIFEST_BYTES < length t then Err (MfTooLarge [MANIFEST_FILE_NAME] (length t) MAX_MANIFEST_BYTES) else
     and_then (map_err MfSyntax (ml_toml L t)) (\<lambda>table.
     and_then (map_err MfSchema (ml_schema L table)) (\<lambda>raw.
     and_then (claimed [(rm_capabilities raw, ''capabilities''), (rm_permissions raw, ''permissions''), (rm_grants raw, ''grants'')]) (\<lambda>_.
     let app = rm_app raw in
     and_then (claimed [(ra_capabilities app, ''app.capabilities''), (ra_permissions app, ''app.permissions''), (ra_grants app, ''app.grants'')]) (\<lambda>_.
     and_then (map_err (MfAppId (ra_id app)) (app_id_parse (ra_id app))) (\<lambda>id.
     and_then (map_err (MfDisplayName (ra_name app)) (display_name_parse (ra_name app))) (\<lambda>name.
     and_then (map_err (MfVersion (ra_version app)) (ml_semver L (ra_version app))) (\<lambda>version.
     and_then (map_err (MfProtocol (ra_protocol app)) (version_parse (ra_protocol app))) (\<lambda>protocol.
     and_then (map_err (MfEntrypoint (ra_entrypoint app)) (relative_path_parse (ra_entrypoint app))) (\<lambda>entrypoint.
     if MAX_ASSETS < length (ra_assets app) then Err (TooManyAssets (length (ra_assets app)) MAX_ASSETS) else
     and_then (parse_assets 0 [] (ra_assets app)) (\<lambda>assets.
     Ok \<lparr>mf_id = id, mf_name = name, mf_version = version, mf_protocol = protocol, mf_entrypoint = entrypoint, mf_assets = assets\<rparr>)))))))))))"

definition manifest_runnable :: "'v manifest \<Rightarrow> (manifest_error, unit) result" where
  "manifest_runnable m = (if can_run CURRENT (mf_protocol m) then Ok ()
     else Err (UnsupportedProtocol (mf_protocol m) CURRENT))"

text \<open>Reading it from a directory; a directory in its place has a small size and cannot be read.\<close>

definition read_package :: "('t, 'v) manifest_lib \<Rightarrow> (nat \<Rightarrow> io_answer) \<Rightarrow> string list \<Rightarrow> (manifest_error, 'v manifest) tree_tx" where
  "read_package L io dir = (let path = path_push dir MANIFEST_FILE_NAME in
     tx_bind (tx_map_err (MfRead path) (stat_follow io path)) (\<lambda>n. case n of
       FileNode bs _ \<Rightarrow> if MAX_MANIFEST_BYTES < length bs then tx_err (MfTooLarge path (length bs) MAX_MANIFEST_BYTES)
         else tx_bind (tx_probe io (MfRead path OtherIo)) (\<lambda>_. case from_utf8 bs of
           None \<Rightarrow> tx_err (MfRead path OtherIo)
         | Some t \<Rightarrow> tx_lift (manifest_parse L t))
     | _ \<Rightarrow> tx_err (MfRead path OtherIo)))"

section \<open>The payload\<close>

datatype payload_error =
    MissingEntrypoint string
  | EntrypointNotAFile string
  | SymlinkedPath string string
  | MissingAsset string
  | PayloadIo "string list" io_kind

fun refuse_walk :: "(nat \<Rightarrow> io_answer) \<Rightarrow> string \<Rightarrow> string list \<Rightarrow> string list \<Rightarrow> (payload_error, unit) tree_tx" where
  "refuse_walk io path walked [] = tx_ok ()"
| "refuse_walk io path walked (c # cs) = tx_match (stat_link io (path_push walked c))
     (\<lambda>e. if e = NotFound then tx_ok () else tx_err (PayloadIo (path_push walked c) e))
     (\<lambda>n. case n of LinkNode _ \<Rightarrow> tx_err (SymlinkedPath path c) | _ \<Rightarrow> refuse_walk io path (path_push walked c) cs)"

definition refuse_links :: "(nat \<Rightarrow> io_answer) \<Rightarrow> string list \<Rightarrow> string \<Rightarrow> (payload_error, unit) tree_tx" where
  "refuse_links io dir path = refuse_walk io path dir (path_components path)"

definition check_entrypoint :: "(nat \<Rightarrow> io_answer) \<Rightarrow> string list \<Rightarrow> string \<Rightarrow> (payload_error, unit) tree_tx" where
  "check_entrypoint io dir p = tx_bind (refuse_links io dir p) (\<lambda>_.
     tx_match (stat_link io (resolve_within p dir))
       (\<lambda>e. tx_err (if e = NotFound then MissingEntrypoint p else PayloadIo (resolve_within p dir) e))
       (\<lambda>n. case n of FileNode _ _ \<Rightarrow> tx_ok () | _ \<Rightarrow> tx_err (EntrypointNotAFile p)))"

fun check_assets :: "(nat \<Rightarrow> io_answer) \<Rightarrow> string list \<Rightarrow> string list \<Rightarrow> (payload_error, unit) tree_tx" where
  "check_assets io dir [] = tx_ok ()"
| "check_assets io dir (a # as) = tx_bind (refuse_links io dir a) (\<lambda>_.
     tx_match (stat_link io (resolve_within a dir))
       (\<lambda>e. tx_err (if e = NotFound then MissingAsset a else PayloadIo (resolve_within a dir) e))
       (\<lambda>_. check_assets io dir as))"

definition validate_payload :: "(nat \<Rightarrow> io_answer) \<Rightarrow> string list \<Rightarrow> 'v manifest \<Rightarrow> (payload_error, unit) tree_tx" where
  "validate_payload io dir m = tx_bind (check_entrypoint io dir (mf_entrypoint m)) (\<lambda>_. check_assets io dir (mf_assets m))"

section \<open>What an accepted manifest and payload are\<close>

lemma claimed_Ok [simp]: "claimed keys = Ok u \<longleftrightarrow> list_all (\<lambda>k. \<not> fst k) keys"
  unfolding claimed_def by (induction keys) (auto split: option.splits)

lemma parse_assets_Ok:
  "parse_assets i seen ds = Ok as \<Longrightarrow> as = seen @ ds \<and> (\<forall>d\<in>set ds. relative_path_parse d = Ok d)
     \<and> (distinct seen \<longrightarrow> distinct as)"
proof (induction ds arbitrary: i seen)
  case (Cons d ds)
  from Cons.prems obtain a where a: "relative_path_parse d = Ok a" "a \<notin> set seen" "parse_assets (Suc i) (seen @ [a]) ds = Ok as"
    by (auto simp: and_then_Ok_iff split: if_splits)
  with Cons.IH [OF a(3)] parsed_components(1) [OF a(1)] show ?case by auto
qed auto

text \<open>An accepted manifest claims no capability and declares safe, distinct paths.\<close>

lemma accepted_manifest:
  assumes "manifest_parse L t = Ok m"
  shows "\<exists>table raw. ml_toml L t = Ok table \<and> ml_schema L table = Ok raw
      \<and> \<not> rm_capabilities raw \<and> \<not> rm_permissions raw \<and> \<not> rm_grants raw
      \<and> \<not> ra_capabilities (rm_app raw) \<and> \<not> ra_permissions (rm_app raw) \<and> \<not> ra_grants (rm_app raw)"
    and "app_id_parse (mf_id m) = Ok (mf_id m)"
    and "relative_path_parse (mf_entrypoint m) = Ok (mf_entrypoint m)"
    and "\<forall>a\<in>set (mf_assets m). relative_path_parse a = Ok a"
    and "distinct (mf_assets m)" and "length (mf_assets m) \<le> MAX_ASSETS"
proof -
  from assms obtain table raw where r: "ml_toml L t = Ok table" "ml_schema L table = Ok raw"
    "\<not> rm_capabilities raw" "\<not> rm_permissions raw" "\<not> rm_grants raw"
    "\<not> ra_capabilities (rm_app raw)" "\<not> ra_permissions (rm_app raw)" "\<not> ra_grants (rm_app raw)"
    "app_id_parse (ra_id (rm_app raw)) = Ok (mf_id m)"
    "relative_path_parse (ra_entrypoint (rm_app raw)) = Ok (mf_entrypoint m)"
    "parse_assets 0 [] (ra_assets (rm_app raw)) = Ok (mf_assets m)" "length (ra_assets (rm_app raw)) \<le> MAX_ASSETS"
    by (auto simp: manifest_parse_def and_then_Ok_iff Let_def split: if_splits)
  then show "\<exists>table raw. ml_toml L t = Ok table \<and> ml_schema L table = Ok raw
      \<and> \<not> rm_capabilities raw \<and> \<not> rm_permissions raw \<and> \<not> rm_grants raw
      \<and> \<not> ra_capabilities (rm_app raw) \<and> \<not> ra_permissions (rm_app raw) \<and> \<not> ra_grants (rm_app raw)" by blast
  from r(9) show "app_id_parse (mf_id m) = Ok (mf_id m)"
    by (auto simp: app_id_parse_def Let_def split: if_splits option.splits)
  from r(10) parsed_components(1) [OF r(10)] show "relative_path_parse (mf_entrypoint m) = Ok (mf_entrypoint m)" by simp
  from parse_assets_Ok [OF r(11)] r(12) show "\<forall>a\<in>set (mf_assets m). relative_path_parse a = Ok a"
    "distinct (mf_assets m)" "length (mf_assets m) \<le> MAX_ASSETS" by auto
qed

section \<open>Capabilities\<close>

datatype capability = Storage | Network | Sharing | Packages

definition ALL_CAPABILITIES :: "capability list" where
  "ALL_CAPABILITIES = [Storage, Network, Sharing, Packages]"

fun capability_name :: "capability \<Rightarrow> string" where
  "capability_name Storage = ''storage''"
| "capability_name Network = ''network''"
| "capability_name Sharing = ''sharing''"
| "capability_name Packages = ''packages''"

type_synonym install_policy = "(app_id \<times> capability list) list"

definition deny_all :: install_policy where "deny_all = []"

definition granted_to :: "install_policy \<Rightarrow> app_id \<Rightarrow> capability list" where
  "granted_to p a = (case map_of p a of Some cs \<Rightarrow> cs | None \<Rightarrow> [])"

definition allow :: "app_id \<Rightarrow> capability \<Rightarrow> install_policy \<Rightarrow> install_policy" where
  "allow a c p = (a, List.insert c (granted_to p a)) # filter (\<lambda>e. fst e \<noteq> a) p"

text \<open>A grant reads the manifest's id and nothing else of it; it iterates in the order of the names above.\<close>

definition grant :: "install_policy \<Rightarrow> 'v manifest \<Rightarrow> capability list" where
  "grant p m = filter (\<lambda>c. c \<in> set (granted_to p (mf_id m))) ALL_CAPABILITIES"

lemma granted_allow: "set (granted_to (allow a c p) b) = (if a = b then insert c (set (granted_to p b)) else set (granted_to p b))"
proof (cases "a = b")
  case True
  then show ?thesis by (simp add: allow_def granted_to_def)
next
  case False
  then have "map_of (filter (\<lambda>e. fst e \<noteq> a) p) b = map_of p b" by (induction p) auto
  with False show ?thesis by (simp add: allow_def granted_to_def)
qed

lemma granted_by_policy: "set (granted_to (foldr (\<lambda>(a, c). allow a c) as deny_all) b) = {c. (b, c) \<in> set as}"
proof (induction as)
  case Nil
  show ?case by (simp add: deny_all_def granted_to_def)
next
  case (Cons x as)
  then show ?case by (cases x) (auto simp: granted_allow)
qed

text \<open>What an app holds was allowed to its id by the host, whatever its manifest says.\<close>

lemma held_was_allowed: "set (grant (foldr (\<lambda>(a, c). allow a c) as deny_all) m) = {c. (mf_id m, c) \<in> set as}"
proof -
  have "c \<in> set ALL_CAPABILITIES" for c by (cases c) (simp_all add: ALL_CAPABILITIES_def)
  then show ?thesis by (auto simp: grant_def granted_by_policy)
qed

end
