(* ===== verification/Archive.thy ===== *)
theory Archive
  imports PackageManifest "HOL-Library.List_Lexorder" "HOL-Library.Char_ord"
begin

text \<open>
  Package archives (\<open>platform/packages/src/archive.rs\<close>) and the two readers that bound what is
  read (\<open>LimitedReader\<close> there, \<open>MeasuredReader\<close> of \<open>digest.rs\<close>). The decoder of gzip and the
  reader of tar are arguments: what the decoder answers to each read, and the entries the tar
  reader makes of the bytes that reach it. Names in errors are kept as the bytes of the archive.
\<close>

section \<open>Limits\<close>

definition RESERVED_PREFIX :: string where "RESERVED_PREFIX = ''.paperclip-''"

abbreviation u64_max :: nat where "u64_max \<equiv> 18446744073709551615"

record archive_limits =
  al_compressed :: nat
  al_uncompressed :: nat
  al_file :: nat
  al_entries :: nat

definition DEFAULT_LIMITS :: archive_limits where
  "DEFAULT_LIMITS = \<lparr>al_compressed = 64 * 1024 * 1024, al_uncompressed = 192 * 1024 * 1024,
     al_file = 128 * 1024 * 1024, al_entries = 4096\<rparr>"

section \<open>The bounded readers\<close>

text \<open>
  An answer of the reader inside is the bytes it gave to a request for at most so many, or an
  error. The sum that is compared with the limit saturates, so neither it nor the count wraps.
\<close>

record reader =
  rd_read :: nat
  rd_limit :: nat

datatype 'x read_error = OverLimit nat | InnerError 'x

definition room :: "reader \<Rightarrow> nat" where
  "room r = min u64_max (rd_limit r + 1) - rd_read r"

definition bounded_read :: "reader \<Rightarrow> nat \<Rightarrow> (nat \<Rightarrow> ('x, u8 list) result) \<Rightarrow> ('x read_error, u8 list) result \<times> reader" where
  "bounded_read r buf inner = (if rd_limit r < rd_read r then (Err (OverLimit (rd_limit r)), r)
     else case inner (min buf (room r)) of
       Inl e \<Rightarrow> (Err (InnerError e), r)
     | Inr bs \<Rightarrow> let r' = r\<lparr>rd_read := rd_read r + length bs\<rparr> in
         if rd_limit r' < rd_read r' then (Err (OverLimit (rd_limit r')), r') else (Ok bs, r'))"

text \<open>The measured reader feeds what it hands on to a hash.\<close>

record 'h measured =
  ms_reader :: reader
  ms_hasher :: 'h

definition measured_read :: "('h \<Rightarrow> u8 list \<Rightarrow> 'h) \<Rightarrow> 'h measured \<Rightarrow> nat \<Rightarrow> (nat \<Rightarrow> ('x, u8 list) result)
    \<Rightarrow> ('x read_error, u8 list) result \<times> 'h measured" where
  "measured_read update m buf inner = (case bounded_read (ms_reader m) buf inner of
     (Inl e, r) \<Rightarrow> (Err e, m\<lparr>ms_reader := r\<rparr>)
   | (Inr bs, r) \<Rightarrow> (Ok bs, m\<lparr>ms_reader := r, ms_hasher := update (ms_hasher m) bs\<rparr>))"

text \<open>A conversation with a reader: the requests, and what the reader inside answers to each.\<close>

type_synonym 'x asks = "(nat \<times> (nat \<Rightarrow> ('x, u8 list) result)) list"

fun read_all :: "reader \<Rightarrow> 'x asks \<Rightarrow> u8 list \<times> reader" where
  "read_all r [] = ([], r)"
| "read_all r ((buf, inner) # asks) = (case bounded_read r buf inner of
     (Inl _, r') \<Rightarrow> read_all r' asks
   | (Inr bs, r') \<Rightarrow> (let (rest, r'') = read_all r' asks in (bs @ rest, r'')))"

fun measure_all :: "('h \<Rightarrow> u8 list \<Rightarrow> 'h) \<Rightarrow> 'h measured \<Rightarrow> 'x asks \<Rightarrow> u8 list \<times> 'h measured" where
  "measure_all update m [] = ([], m)"
| "measure_all update m ((buf, inner) # asks) = (case measured_read update m buf inner of
     (Inl _, m') \<Rightarrow> measure_all update m' asks
   | (Inr bs, m') \<Rightarrow> (let (rest, m'') = measure_all update m' asks in (bs @ rest, m'')))"

section \<open>Entries\<close>

datatype entry_kind = Regular | Directory | Symlink | HardLink | CharDevice | BlockDevice | Fifo | OtherEntry

record tar_entry =
  te_kind :: entry_kind
  te_path :: "u8 list option"
  te_size :: "nat option"
  te_data :: "u8 list"
  te_broken :: bool

text \<open>An entry the tar reader could not make is \<open>None\<close>.\<close>

type_synonym tar_item = "tar_entry option"

datatype archive_error =
    DestinationNotEmpty "string list"
  | Malformed
  | ForbiddenEntry string string
  | UnsafeEntry string path_error
  | ReservedName string string
  | TooManyEntries nat
  | FileTooLarge string nat nat
  | Truncated string nat nat
  | NoManifest
  | ArManifest manifest_error
  | ArPayload payload_error
  | DeclaredDirectory string
  | ArIo "string list" io_kind

fun describe :: "entry_kind \<Rightarrow> string" where
  "describe Symlink = ''a symbolic link''"
| "describe HardLink = ''a hard link''"
| "describe CharDevice = ''a character device''"
| "describe BlockDevice = ''a block device''"
| "describe Fifo = ''a FIFO''"
| "describe _ = ''an entry type packages may not contain''"

definition displayed :: "u8 list \<Rightarrow> string" where
  "displayed raw = map byte_char raw"

definition reject_reserved :: "string \<Rightarrow> (archive_error, unit) result" where
  "reject_reserved p = (case find (\<lambda>c. strip_prefix RESERVED_PREFIX c \<noteq> None) (path_components p) of
     Some c \<Rightarrow> Err (ReservedName p c) | None \<Rightarrow> Ok ())"

definition strip_slash :: "string \<Rightarrow> string" where
  "strip_slash s = (if s \<noteq> [] \<and> last s = CHR ''/'' then butlast s else s)"

definition entry_name :: "u8 list \<Rightarrow> entry_kind \<Rightarrow> (archive_error, string) result" where
  "entry_name raw kind = and_then (ok_or (UnsafeEntry (displayed raw) NotPosix) (from_utf8 raw)) (\<lambda>t.
     and_then (map_err (UnsafeEntry (displayed raw)) (relative_path_parse (if kind = Directory then strip_slash t else t))) (\<lambda>p.
     and_then (reject_reserved p) (\<lambda>_. Ok p)))"

section \<open>Writing\<close>

type_synonym 'a archive_tx = "(archive_error, 'a) tree_tx"

definition create_directory :: "(nat \<Rightarrow> io_answer) \<Rightarrow> string list \<Rightarrow> unit archive_tx" where
  "create_directory io path = tx_match (mkdir_at io path)
     (\<lambda>e. if e = AlreadyExists then tx_ok () else tx_err (ArIo path e)) tx_ok"

fun make_steps :: "(nat \<Rightarrow> io_answer) \<Rightarrow> string list \<Rightarrow> string list \<Rightarrow> unit archive_tx" where
  "make_steps io walked [] = tx_ok ()"
| "make_steps io walked (c # cs) = tx_bind (create_directory io (path_push walked c)) (\<lambda>_. make_steps io (path_push walked c) cs)"

text \<open>\<open>Path::strip_prefix\<close>, or the empty path.\<close>

definition below :: "string list \<Rightarrow> string list \<Rightarrow> string list" where
  "below dir path = (if take (length dir) path = dir then drop (length dir) path else [])"

definition create_directories :: "(nat \<Rightarrow> io_answer) \<Rightarrow> string list \<Rightarrow> string list \<Rightarrow> unit archive_tx" where
  "create_directories io dir path = make_steps io dir (below dir path)"

text \<open>The content is read until the declared size or the end, or until reading fails.\<close>

definition write_file :: "(nat \<Rightarrow> io_answer) \<Rightarrow> tar_entry \<Rightarrow> string list \<Rightarrow> string \<Rightarrow> nat \<Rightarrow> unit archive_tx" where
  "write_file io e dest name sz = (let path = resolve_within name dest; bytes = take sz (te_data e) in
     tx_bind (create_directories io dest (butlast path)) (\<lambda>_.
     tx_bind (tx_map_err (ArIo path) (create_new io path)) (\<lambda>p.
     tx_bind (tx_map_err (ArIo path) (append_all io p (chunks COPY_BUFFER bytes))) (\<lambda>_.
     if length bytes < sz \<and> te_broken e then tx_err (ArIo path OtherIo)
     else if length bytes \<noteq> sz then tx_err (Truncated name sz (length bytes))
     else tx_ok ()))))"

definition ensure_empty_directory :: "(nat \<Rightarrow> io_answer) \<Rightarrow> string list \<Rightarrow> unit archive_tx" where
  "ensure_empty_directory io path = tx_bind (tx_probe io (ArIo path OtherIo)) (\<lambda>_.
     tx_bind (tx_get (\<lambda>t. (node_at t (locate t [] path), children t (locate t [] path)))) (\<lambda>(n, inside).
       if n \<noteq> Some DirNode then tx_err (ArIo path OtherIo)
       else if inside \<noteq> [] then tx_err (DestinationNotEmpty path) else tx_ok ()))"

section \<open>Extraction\<close>

record extracted =
  ex_files :: nat
  ex_bytes :: nat
  ex_names :: "string list"

definition ex_none :: extracted where
  "ex_none = \<lparr>ex_files = 0, ex_bytes = 0, ex_names = []\<rparr>"

definition contains_name :: "extracted \<Rightarrow> string \<Rightarrow> bool" where
  "contains_name x n = List.member (ex_names x) n"

text \<open>One entry, by its kind.\<close>

definition extract_entry :: "(nat \<Rightarrow> io_answer) \<Rightarrow> archive_limits \<Rightarrow> string list \<Rightarrow> tar_entry \<Rightarrow> u8 list \<Rightarrow> string \<Rightarrow> extracted
    \<Rightarrow> extracted archive_tx" where
  "extract_entry io lims dest e raw name x = (case te_kind e of
     Directory \<Rightarrow> tx_bind (create_directory io (resolve_within name dest)) (\<lambda>_. tx_ok x)
   | Regular \<Rightarrow> tx_bind (tx_lift (ok_or Malformed (te_size e))) (\<lambda>sz.
       if al_file lims < sz then tx_err (FileTooLarge name sz (al_file lims))
       else tx_bind (write_file io e dest name sz) (\<lambda>_.
         tx_ok \<lparr>ex_files = ex_files x + 1, ex_bytes = ex_bytes x + sz, ex_names = ex_names x @ [name]\<rparr>))
   | other \<Rightarrow> tx_err (ForbiddenEntry (displayed raw) (describe other)))"

fun extract_items :: "(nat \<Rightarrow> io_answer) \<Rightarrow> archive_limits \<Rightarrow> string list \<Rightarrow> nat \<Rightarrow> extracted \<Rightarrow> tar_item list \<Rightarrow> extracted archive_tx" where
  "extract_items io lims dest n x [] = tx_ok x"
| "extract_items io lims dest n x (None # items) = tx_err Malformed"
| "extract_items io lims dest n x (Some e # items) = (if al_entries lims < Suc n then tx_err (TooManyEntries (al_entries lims))
     else tx_bind (tx_lift (ok_or Malformed (te_path e))) (\<lambda>raw.
       tx_bind (tx_lift (entry_name raw (te_kind e))) (\<lambda>name.
       tx_bind (extract_entry io lims dest e raw name x) (\<lambda>x'. extract_items io lims dest (Suc n) x' items))))"

text \<open>
  What is outside: whether calls succeed, the requests that reach the decoder and its answers,
  and what the tar reader makes of the bytes it gets.
\<close>

record ('t, 'v) extract_env =
  xe_io :: "nat \<Rightarrow> io_answer"
  xe_decoder :: "unit asks"
  xe_untar :: "u8 list \<Rightarrow> tar_item list"
  xe_lib :: "('t, 'v) manifest_lib"

definition unpacked :: "('t, 'v) extract_env \<Rightarrow> archive_limits \<Rightarrow> u8 list" where
  "unpacked env lims = fst (read_all \<lparr>rd_read = 0, rd_limit = al_uncompressed lims\<rparr> (xe_decoder env))"

definition archive_items :: "('t, 'v) extract_env \<Rightarrow> archive_limits \<Rightarrow> tar_item list" where
  "archive_items env lims = xe_untar env (unpacked env lims)"

definition extract_tree :: "('t, 'v) extract_env \<Rightarrow> archive_limits \<Rightarrow> string list \<Rightarrow> extracted archive_tx" where
  "extract_tree env lims dest = tx_bind (ensure_empty_directory (xe_io env) dest) (\<lambda>_.
     extract_items (xe_io env) lims dest 0 ex_none (archive_items env lims))"

text \<open>\<open>set_permissions\<close> follows links.\<close>

definition set_executable :: "(nat \<Rightarrow> io_answer) \<Rightarrow> string list \<Rightarrow> unit archive_tx" where
  "set_executable io path = tx_bind (tx_get (\<lambda>t. (locate t [] path, node_at t (locate t [] path)))) (\<lambda>(p, n).
     if n = None then tx_err (ArIo path NotFound) else tx_io put_tree io (ArIo path OtherIo) (MakeExecutable p))"

definition extract_package :: "('t, 'v) extract_env \<Rightarrow> archive_limits \<Rightarrow> string list \<Rightarrow> ('v manifest \<times> nat \<times> nat) archive_tx" where
  "extract_package env lims dest = tx_bind (extract_tree env lims dest) (\<lambda>x.
     if \<not> contains_name x MANIFEST_FILE_NAME then tx_err NoManifest
     else tx_bind (tx_map_err ArManifest (read_package (xe_lib env) (xe_io env) dest)) (\<lambda>m.
       tx_bind (tx_map_err ArPayload (validate_payload (xe_io env) dest m)) (\<lambda>_.
       tx_bind (set_executable (xe_io env) (resolve_within (mf_entrypoint m) dest)) (\<lambda>_.
       tx_ok (m, ex_files x, ex_bytes x)))))"

section \<open>Building\<close>

text \<open>What the tar builder is given: a name, a header and the content.\<close>

record member =
  mb_name :: string
  mb_mode :: nat
  mb_size :: nat
  mb_content :: "u8 list"

definition append_member :: "(nat \<Rightarrow> io_answer) \<Rightarrow> string list \<Rightarrow> string \<Rightarrow> bool \<Rightarrow> member archive_tx" where
  "append_member io source name executable = (let path = resolve_within name source in
     tx_bind (tx_map_err (ArIo path) (stat_link io path)) (\<lambda>n. case n of
       DirNode \<Rightarrow> tx_err (DeclaredDirectory name)
     | LinkNode _ \<Rightarrow> tx_err (ForbiddenEntry name ''something that is not a regular file'')
     | FileNode bs _ \<Rightarrow> tx_bind (tx_probe io (ArIo path OtherIo)) (\<lambda>_.
         tx_ok \<lparr>mb_name = name, mb_mode = (if executable then 0x1ED else 0x1A4), mb_size = length bs, mb_content = bs\<rparr>)))"

fun append_members :: "(nat \<Rightarrow> io_answer) \<Rightarrow> string list \<Rightarrow> string \<Rightarrow> string list \<Rightarrow> member list \<Rightarrow> member list archive_tx" where
  "append_members io source entrypoint [] ms = tx_ok ms"
| "append_members io source entrypoint (p # ps) ms = tx_bind (tx_lift (reject_reserved p)) (\<lambda>_.
     tx_bind (append_member io source p (p = entrypoint)) (\<lambda>m. append_members io source entrypoint ps (ms @ [m])))"

text \<open>The declared paths, each once and in the order of their bytes.\<close>

definition declared_paths :: "'v manifest \<Rightarrow> string list" where
  "declared_paths m = sort (remdups (mf_entrypoint m # mf_assets m))"

record 'v built =
  bt_manifest :: "'v manifest"
  bt_members :: "member list"
  bt_files :: nat
  bt_bytes :: nat

definition build :: "('t, 'v) manifest_lib \<Rightarrow> (nat \<Rightarrow> io_answer) \<Rightarrow> string list \<Rightarrow> 'v built archive_tx" where
  "build L io source = tx_bind (tx_map_err ArManifest (read_package L io source)) (\<lambda>m.
     tx_bind (tx_map_err ArPayload (validate_payload io source m)) (\<lambda>_.
     tx_bind (append_member io source MANIFEST_FILE_NAME False) (\<lambda>first.
     tx_bind (append_members io source (mf_entrypoint m) (declared_paths m) [first]) (\<lambda>ms.
     tx_ok \<lparr>bt_manifest = m, bt_members = ms, bt_files = length ms, bt_bytes = sum_list (map mb_size ms)\<rparr>))))"

text \<open>The entry a tar reader makes of a member.\<close>

definition entry_of :: "member \<Rightarrow> tar_item" where
  "entry_of m = Some \<lparr>te_kind = Regular, te_path = Some (bytes_of (mb_name m)), te_size = Some (mb_size m),
     te_data = mb_content m, te_broken = False\<rparr>"

end
