(* ===== verification/ArchiveSafe.thy ===== *)
theory ArchiveSafe
  imports Archive
begin

text \<open>
  What unpacking an archive may do to a file system, at every point at which it can be killed:
  nothing outside the destination changes, and inside there are only directories and files at
  plain, unreserved paths. On success the files are those of the archive. The two readers
  never hand on more than their limit.
\<close>

section \<open>The readers\<close>

lemma bounded_read_cases:
  assumes "bounded_read r buf inner = (res, r')"
  shows "rd_limit r' = rd_limit r"
    and "case res of Inl _ \<Rightarrow> True | Inr bs \<Rightarrow> rd_read r' = rd_read r + length bs \<and> rd_read r' \<le> rd_limit r
        \<and> inner (min buf (room r)) = Inr bs"
    and "rd_read r \<le> rd_read r'" and "rd_limit r < rd_read r \<Longrightarrow> res = Err (OverLimit (rd_limit r))"
  using assms by (auto simp: bounded_read_def Let_def split: if_splits sum.splits)

lemma read_all_stopped: "rd_limit r < rd_read r \<Longrightarrow> fst (read_all r asks) = []"
  by (induction r asks rule: read_all.induct) (auto simp: bounded_read_def)

lemma read_all_bound: "rd_read r \<le> rd_limit r \<Longrightarrow> length (fst (read_all r asks)) \<le> rd_limit r - rd_read r"
proof (induction r asks rule: read_all.induct)
  case (2 r buf inner asks)
  obtain res r' where b: "bounded_read r buf inner = (res, r')" by (cases "bounded_read r buf inner")
  note c = bounded_read_cases [OF b]
  show ?case
  proof (cases res)
    case (Inl e)
    show ?thesis
    proof (cases "rd_read r' \<le> rd_limit r'")
      case True
      with 2 b Inl c(1,3) show ?thesis by fastforce
    next
      case False
      then show ?thesis using read_all_stopped [of r' asks] b Inl by simp
    qed
  next
    case (Inr bs)
    with c have "rd_read r' \<le> rd_limit r'" "rd_read r' = rd_read r + length bs" by auto
    with 2(2) [OF b [symmetric] Inr] Inr b c(1) show ?thesis by (auto simp: split_def Let_def)
  qed
qed simp

text \<open>With a reader inside that keeps to what it is asked for, the count stays a \<open>u64\<close>.\<close>

definition keeps_to_request :: "'x asks \<Rightarrow> bool" where
  "keeps_to_request asks \<longleftrightarrow> (\<forall>(buf, inner)\<in>set asks. \<forall>k bs. inner k = Ok bs \<longrightarrow> length bs \<le> k)"

lemma count_does_not_wrap:
  "keeps_to_request asks \<Longrightarrow> rd_read r \<le> min u64_max (rd_limit r + 1) \<Longrightarrow>
     rd_read (snd (read_all r asks)) \<le> min u64_max (rd_limit r + 1)"
proof (induction r asks rule: read_all.induct)
  case (2 r buf inner asks)
  obtain res r' where b: "bounded_read r buf inner = (res, r')" by (cases "bounded_read r buf inner")
  have len: "length bs \<le> room r" if "inner (min buf (room r)) = Ok bs" for bs
    using 2(3) that unfolding keeps_to_request_def by (auto dest!: spec [of _ "min buf (room r)"])
  then have r': "rd_read r' \<le> min u64_max (rd_limit r + 1)" "rd_limit r' = rd_limit r"
    using b 2(4) by (auto simp: bounded_read_def room_def Let_def split: if_splits sum.splits)
  have "keeps_to_request asks" using 2(3) by (simp add: keeps_to_request_def)
  with 2(1,2) b r' show ?case by (cases res) (auto simp: split_def Let_def)
qed simp

text \<open>What was hashed is what was handed on.\<close>

lemma measured_is_delivered:
  assumes "\<And>h. update h [] = h" and "\<And>h xs ys. update h (xs @ ys) = update (update h xs) ys"
  shows "ms_hasher (snd (measure_all update m asks)) = update (ms_hasher m) (fst (measure_all update m asks))
    \<and> fst (measure_all update m asks) = fst (read_all (ms_reader m) asks)"
proof (induction asks arbitrary: m)
  case (Cons ask asks)
  obtain buf inner where ask: "ask = (buf, inner)" by (cases ask)
  obtain res r' where b: "bounded_read (ms_reader m) buf inner = (res, r')" by (cases "bounded_read (ms_reader m) buf inner")
  show ?case
  proof (cases res)
    case (Inl e)
    with b ask Cons.IH [of "m\<lparr>ms_reader := r'\<rparr>"] show ?thesis by (simp add: measured_read_def split_def)
  next
    case (Inr bs)
    with b ask Cons.IH [of "m\<lparr>ms_reader := r', ms_hasher := update (ms_hasher m) bs\<rparr>"] show ?thesis
      by (simp add: measured_read_def split_def Let_def assms(2))
  qed
qed (simp add: assms)

section \<open>What is below a directory\<close>

definition unreserved :: "string \<Rightarrow> bool" where
  "unreserved c \<longleftrightarrow> strip_prefix RESERVED_PREFIX c = None"

abbreviation inside :: "loc \<Rightarrow> loc \<Rightarrow> bool" where
  "inside dest p \<equiv> \<exists>ns. ns \<noteq> [] \<and> p = dest @ ns"

definition real_dir :: "file_tree \<Rightarrow> loc \<Rightarrow> bool" where
  "real_dir t dest \<longleftrightarrow> list_all plain_component dest \<and> (\<forall>k\<le>length dest. node_at t (take k dest) = Some DirNode)"

text \<open>Every node is in a directory.\<close>

definition rooted :: "file_tree \<Rightarrow> bool" where
  "rooted t \<longleftrightarrow> (\<forall>p\<in>fst ` set t. p \<noteq> [] \<and> node_at t (butlast p) = Some DirNode)"

definition bare :: "file_tree \<Rightarrow> loc \<Rightarrow> bool" where
  "bare t dest \<longleftrightarrow> (\<forall>p\<in>fst ` set t. \<not> inside dest p)"

lemma empty_is_bare:
  assumes "rooted t" and "children t dest = []"
  shows "bare t dest"
proof -
  have "dest @ ns \<notin> fst ` set t" if "ns \<noteq> []" for ns
    using that
  proof (induction ns rule: rev_induct)
    case (snoc c ns)
    show ?case
    proof
      assume m: "dest @ ns @ [c] \<in> fst ` set t"
      then have b: "node_at t (dest @ ns) = Some DirNode"
        using assms(1) unfolding rooted_def by (metis append_assoc butlast_snoc)
      show False
      proof (cases "ns = []")
        case True
        with m assms(2) show False by (fastforce simp: children_def filter_empty_conv)
      next
        case False
        with b have "dest @ ns \<in> fst ` set t" by (auto simp: node_at_def dest: map_of_SomeD intro: image_eqI [rotated])
        with snoc.IH False show False by simp
      qed
    qed
  qed simp
  then show ?thesis unfolding bare_def by blast
qed

text \<open>A tree that has grown below a directory, and the files it got, the last one first.\<close>

definition grown :: "loc \<Rightarrow> file_tree \<Rightarrow> bool" where
  "grown dest new \<longleftrightarrow> distinct (map fst new) \<and> (\<forall>(p, n)\<in>set new. (\<forall>q. n \<noteq> LinkNode q)
     \<and> (\<exists>ns. ns \<noteq> [] \<and> p = dest @ ns \<and> list_all plain_component ns \<and> list_all unreserved ns))"

fun files_of :: "file_tree \<Rightarrow> (loc \<times> u8 list \<times> bool) list" where
  "files_of [] = []"
| "files_of ((p, FileNode bs x) # t) = (p, bs, x) # files_of t"
| "files_of ((p, _) # t) = files_of t"

definition holds :: "file_tree \<Rightarrow> loc \<Rightarrow> (loc \<times> u8 list \<times> bool) list \<Rightarrow> file_tree \<Rightarrow> bool" where
  "holds t0 dest F t \<longleftrightarrow> (\<exists>new. t = new @ t0 \<and> grown dest new \<and> files_of new = F)"

definition ours :: "file_tree \<Rightarrow> loc \<Rightarrow> file_tree \<Rightarrow> bool" where
  "ours t0 dest t \<longleftrightarrow> (\<exists>F. holds t0 dest F t)"

definition good_path :: "loc \<Rightarrow> loc \<Rightarrow> bool" where
  "good_path dest p \<longleftrightarrow> (\<exists>ns. ns \<noteq> [] \<and> p = dest @ ns \<and> list_all plain_component ns \<and> list_all unreserved ns)"

lemma holds_refl: "holds t dest [] t"
  by (auto simp: holds_def grown_def)

lemma holds_ours [intro]: "holds t0 dest F t \<Longrightarrow> ours t0 dest t"
  by (auto simp: ours_def)

lemma node_at_ours:
  assumes "real_dir t0 dest" and "bare t0 dest" and "ours t0 dest t"
  shows "\<not> inside dest p \<Longrightarrow> node_at t p = node_at t0 p"
    and "node_at t p = Some (LinkNode q) \<Longrightarrow> \<not> inside dest p"
proof -
  obtain new where n: "t = new @ t0" "grown dest new" using assms(3) by (auto simp: ours_def holds_def)
  then have new: "\<And>p n. (p, n) \<in> set new \<Longrightarrow> inside dest p \<and> (\<forall>q. n \<noteq> LinkNode q)" by (auto simp: grown_def)
  show "\<not> inside dest p \<Longrightarrow> node_at t p = node_at t0 p"
    using n(1) new by (auto simp: node_at_def map_add_def dest!: map_of_SomeD split: option.splits)
  show "\<not> inside dest p" if "node_at t p = Some (LinkNode q)"
  proof -
    from that n(1) have "map_of new p = Some (LinkNode q) \<or> map_of t0 p = Some (LinkNode q)"
      by (auto simp: node_at_def map_add_Some_iff split: if_splits)
    then show ?thesis
    proof
      assume "map_of new p = Some (LinkNode q)"
      with new show ?thesis by (auto dest!: map_of_SomeD)
    next
      assume "map_of t0 p = Some (LinkNode q)"
      with assms(2) show ?thesis by (force simp: bare_def dest!: map_of_SomeD)
    qed
  qed
qed

lemma solid_ours:
  assumes r: "real_dir t0 dest" and b: "bare t0 dest" and o: "ours t0 dest t" and ns: "list_all plain_component ns"
  shows "solid t (dest @ ns)"
  unfolding solid_def
proof (intro conjI allI impI)
  show "list_all plain_component (dest @ ns)" using r ns by (simp add: real_dir_def)
  fix k assume k: "k \<le> length (dest @ ns)"
  show "case node_at t (take k (dest @ ns)) of Some (LinkNode _) \<Rightarrow> False | _ \<Rightarrow> True"
  proof (cases "k \<le> length dest")
    case True
    then have "\<not> inside dest (take k (dest @ ns))" by (auto dest!: arg_cong [of _ _ length])
    then have "node_at t (take k (dest @ ns)) = node_at t0 (take k dest)"
      using node_at_ours(1) [OF r b o] True by simp
    with r True show ?thesis by (simp add: real_dir_def)
  next
    case False
    with k have "inside dest (take k (dest @ ns))" by auto
    then show ?thesis using node_at_ours(2) [OF r b o] by (auto split: option.splits node.splits)
  qed
qed

section \<open>Every call keeps to the destination\<close>

definition base :: "file_tree \<Rightarrow> loc \<Rightarrow> bool" where
  "base t dest \<longleftrightarrow> real_dir t dest \<and> bare t dest"

lemma place_ours: "base t0 dest \<Longrightarrow> ours t0 dest t \<Longrightarrow> good_path dest p \<Longrightarrow> place t p = p"
  using place_solid solid_ours by (metis base_def good_path_def)

lemma locate_ours: "base t0 dest \<Longrightarrow> ours t0 dest t \<Longrightarrow> good_path dest p \<Longrightarrow> locate t [] p = p"
  using solid_ours locate_solid [of t "[]"] by (metis append_Nil base_def good_path_def)

lemma grown_Cons: "grown dest ((p, n) # new) \<longleftrightarrow> p \<notin> fst ` set new \<and> (\<forall>q. n \<noteq> LinkNode q) \<and> good_path dest p \<and> grown dest new"
  by (auto simp: grown_def good_path_def)

lemma vacant_new: "good_path dest p \<Longrightarrow> node_at (new @ t0) p = None \<Longrightarrow> p \<notin> fst ` set new"
  by (auto simp: node_at_def good_path_def map_add_None map_of_eq_None_iff split: if_splits)

lemma holds_mkdir:
  assumes "holds t0 dest F t" and "good_path dest p" and "node_at t p = None"
  shows "holds t0 dest F (put_tree t (MakeDir p))"
proof -
  obtain new where "t = new @ t0" "grown dest new" "files_of new = F" using assms(1) by (auto simp: holds_def)
  with assms(2,3) vacant_new [OF assms(2), of new t0] show ?thesis
    by (auto simp: holds_def grown_Cons intro!: exI [of _ "(p, DirNode) # new"])
qed

lemma holds_create:
  assumes "holds t0 dest F t" and "good_path dest p" and "node_at t p = None"
  shows "holds t0 dest ((p, [], False) # F) (put_tree t (MakeFile p))"
proof -
  obtain new where "t = new @ t0" "grown dest new" "files_of new = F" using assms(1) by (auto simp: holds_def)
  with assms(2,3) vacant_new [OF assms(2), of new t0] show ?thesis
    by (auto simp: holds_def grown_Cons intro!: exI [of _ "(p, FileNode [] False) # new"])
qed

definition keeps_kind :: "(node \<Rightarrow> node) \<Rightarrow> (u8 list \<Rightarrow> u8 list) \<Rightarrow> (bool \<Rightarrow> bool) \<Rightarrow> bool" where
  "keeps_kind f g h \<longleftrightarrow> (\<forall>bs x. f (FileNode bs x) = FileNode (g bs) (h x)) \<and> f DirNode = DirNode \<and> (\<forall>q. f (LinkNode q) = LinkNode q)"

lemma files_of_change:
  "keeps_kind f g h \<Longrightarrow> files_of (change p f new) = map (\<lambda>(q, bs, x). if q = p then (q, g bs, h x) else (q, bs, x)) (files_of new)"
  by (induction new rule: files_of.induct) (auto simp: change_def keeps_kind_def)

lemma grown_change:
  assumes "keeps_kind f g h" and "grown dest new"
  shows "grown dest (change p f new)"
proof -
  have "f n = LinkNode q \<longleftrightarrow> n = LinkNode q" for n q using assms(1) by (cases n) (auto simp: keeps_kind_def)
  then have "(\<forall>q. (if r = p then f n else n) \<noteq> LinkNode q) = (\<forall>q. n \<noteq> LinkNode q)" for r n by simp
  with assms(2) show ?thesis unfolding grown_def fst_change by (simp add: change_def case_prod_unfold)
qed

lemma holds_change:
  assumes "keeps_kind f g h" and "base t0 dest" and "good_path dest p" and "holds t0 dest F t"
  shows "holds t0 dest (map (\<lambda>(q, bs, x). if q = p then (q, g bs, h x) else (q, bs, x)) F) (change p f t)"
proof -
  obtain new where n: "t = new @ t0" "grown dest new" "files_of new = F" using assms(4) by (auto simp: holds_def)
  have "p \<notin> fst ` set t0" using assms(2,3) unfolding base_def bare_def good_path_def by blast
  then have "change p f t = change p f new @ t0" by (simp add: n(1) change_append change_absent)
  with grown_change [OF assms(1) n(2)] files_of_change [OF assms(1)] n(3) show ?thesis by (auto simp: holds_def)
qed

lemma kinds_append: "keeps_kind (append_node bs) (\<lambda>cs. cs @ bs) (\<lambda>x. x)" and kinds_run: "keeps_kind run_node (\<lambda>cs. cs) (\<lambda>_. True)"
  by (simp_all add: keeps_kind_def)

lemma files_of_distinct: "distinct (map fst new) \<Longrightarrow> distinct (map fst (files_of new))"
proof -
  have "fst ` set (files_of t) \<subseteq> fst ` set t" for t by (induction t rule: files_of.induct) auto
  then show "distinct (map fst new) \<Longrightarrow> distinct (map fst (files_of new))"
    by (induction new rule: files_of.induct) auto
qed

lemma holds_distinct: "holds t0 dest F t \<Longrightarrow> distinct (map fst F)"
  using files_of_distinct by (auto simp: holds_def grown_def)

lemma holds_append:
  assumes "base t0 dest" and "good_path dest p" and "holds t0 dest ((p, cs, x) # F) t"
  shows "holds t0 dest ((p, cs @ bs, x) # F) (put_tree t (AppendTo p bs))"
proof -
  have "map (\<lambda>(q, ds, y). if q = p then (q, ds @ bs, y) else (q, ds, y)) F = F"
    using holds_distinct [OF assms(3)] by (intro map_idI) force
  with holds_change [OF kinds_append assms, of bs] show ?thesis by simp
qed

section \<open>Programs\<close>

lemma mkdir_holds:
  assumes "base t0 dest" and "good_path dest p"
  shows "triple put_tree (ours t0 dest) (holds t0 dest F) (mkdir_at io p) (\<lambda>_. holds t0 dest F) (holds t0 dest F)"
  unfolding mkdir_at_def
proof (rule triple_bind)
  show "triple put_tree (ours t0 dest) (holds t0 dest F) (tx_get (\<lambda>t. (place t p, vacant t (place t p))))
      (\<lambda>(q, v) d. holds t0 dest F d \<and> q = p \<and> (v = Ok () \<longrightarrow> node_at d p = None)) (holds t0 dest F)"
    using place_ours [OF assms(1) holds_ours assms(2)] by (auto intro!: triple_get simp: vacant_def split: if_splits)
next
  fix a :: "loc \<times> (io_kind, unit) result"
  obtain q v where a: "a = (q, v)" by (cases a)
  show "triple put_tree (ours t0 dest) ((\<lambda>(q, v) d. holds t0 dest F d \<and> q = p \<and> (v = Ok () \<longrightarrow> node_at d p = None)) a)
      (case a of (q, v) \<Rightarrow> tx_bind (tx_lift v) (\<lambda>_. tx_io put_tree io OtherIo (MakeDir q))) (\<lambda>_. holds t0 dest F) (holds t0 dest F)"
    unfolding a prod.case
    by (rule triple_bind [where Q = "\<lambda>_ d. holds t0 dest F d \<and> q = p \<and> node_at d p = None"])
      (auto intro!: triple_lift triple_io intro: holds_mkdir [OF _ assms(2)] simp del: put_tree.simps)
qed

lemma create_holds:
  assumes "base t0 dest" and "good_path dest p"
  shows "triple put_tree (ours t0 dest) (holds t0 dest F) (create_new io p)
      (\<lambda>q d. q = p \<and> holds t0 dest ((p, [], False) # F) d) (ours t0 dest)"
  unfolding create_new_def
proof (rule triple_bind)
  show "triple put_tree (ours t0 dest) (holds t0 dest F) (tx_get (\<lambda>t. (place t p, vacant t (place t p))))
      (\<lambda>(q, v) d. holds t0 dest F d \<and> q = p \<and> (v = Ok () \<longrightarrow> node_at d p = None)) (ours t0 dest)"
    using place_ours [OF assms(1) holds_ours assms(2)] by (auto intro!: triple_get simp: vacant_def split: if_splits)
next
  fix a :: "loc \<times> (io_kind, unit) result"
  obtain q v where a: "a = (q, v)" by (cases a)
  have new: "holds t0 dest F d \<Longrightarrow> node_at d p = None \<Longrightarrow> holds t0 dest ((p, [], False) # F) (put_tree d (MakeFile p))" for d
    by (rule holds_create [OF _ assms(2)])
  show "triple put_tree (ours t0 dest) ((\<lambda>(q, v) d. holds t0 dest F d \<and> q = p \<and> (v = Ok () \<longrightarrow> node_at d p = None)) a)
      (case a of (q, v) \<Rightarrow> tx_bind (tx_lift v) (\<lambda>_. tx_bind (tx_io put_tree io OtherIo (MakeFile q)) (\<lambda>_. tx_ok q)))
      (\<lambda>q d. q = p \<and> holds t0 dest ((p, [], False) # F) d) (ours t0 dest)"
    unfolding a prod.case
    by (rule triple_bind [where Q = "\<lambda>_ d. holds t0 dest F d \<and> q = p \<and> node_at d p = None"],
        force intro!: triple_lift,
        rule triple_bind [where Q = "\<lambda>_ d. q = p \<and> holds t0 dest ((p, [], False) # F) d"])
      (auto intro!: triple_ok triple_io intro: new holds_ours [OF new] simp del: put_tree.simps)
qed

lemma append_holds:
  assumes "base t0 dest" and "good_path dest p"
  shows "triple put_tree (ours t0 dest) (holds t0 dest ((p, cs, x) # F)) (append_all io p bss)
      (\<lambda>_. holds t0 dest ((p, cs @ concat bss, x) # F)) (ours t0 dest)"
proof (induction bss arbitrary: cs)
  case Nil
  show ?case by (auto intro!: triple_ok)
next
  case (Cons bs bss)
  show ?case unfolding append_all.simps
    by (rule triple_bind [where Q = "\<lambda>_. holds t0 dest ((p, cs @ bs, x) # F)"])
      (use Cons [of "cs @ bs"] in \<open>auto intro!: triple_io intro: holds_append [OF assms] simp del: put_tree.simps\<close>)
qed

lemma bind_lift: "tx_bind (tx_lift (Ok a)) f = f a"
  by (simp add: tx_bind_def tx_lift_def fun_eq_iff)

lemma bind_run: "m u = (Ok a, u') \<Longrightarrow> tx_bind m f u = f a u'"
  by (simp add: tx_bind_def)

lemma map_err_run: "m u = (Ok a, u') \<Longrightarrow> tx_map_err f m u = (Ok a, u')"
  by (simp add: tx_map_err_def tx_match_def tx_ok_def)

lemma map_err_triple: "triple eff C P m Q R \<Longrightarrow> (\<And>d. R d \<Longrightarrow> C d) \<Longrightarrow> (\<And>a d. Q a d \<Longrightarrow> C d) \<Longrightarrow> triple eff C P (tx_map_err f m) Q R"
  unfolding tx_map_err_def by (erule triple_match) (auto intro!: triple_err triple_ok)

lemma directory_holds:
  assumes "base t0 dest" and "good_path dest p"
  shows "triple put_tree (ours t0 dest) (holds t0 dest F) (create_directory io p) (\<lambda>_. holds t0 dest F) (ours t0 dest)"
  unfolding create_directory_def
  by (rule triple_match [OF mkdir_holds [OF assms]]) (auto intro!: triple_ok triple_err)

lemma steps_hold:
  assumes "base t0 dest"
  shows "list_all plain_component (pre @ cs) \<Longrightarrow> list_all unreserved (pre @ cs) \<Longrightarrow>
    triple put_tree (ours t0 dest) (holds t0 dest F) (make_steps io (dest @ pre) cs) (\<lambda>_. holds t0 dest F) (ours t0 dest)"
proof (induction cs arbitrary: pre)
  case Nil
  show ?case by (auto intro!: triple_ok)
next
  case (Cons c cs)
  then have "path_push (dest @ pre) c = dest @ pre @ [c]" and "good_path dest (dest @ pre @ [c])"
    by (auto simp: push_plain good_path_def)
  with Cons.IH [of "pre @ [c]"] Cons.prems directory_holds [OF assms, of "dest @ pre @ [c]" F io] show ?case
    by (auto intro: triple_bind)
qed

lemma named:
  assumes "entry_name raw kind = Ok name"
  shows "resolve_within name dest = dest @ path_components name" and "path_components name \<noteq> []"
    and "list_all plain_component (path_components name)" and "list_all unreserved (path_components name)"
    and "good_path dest (resolve_within name dest)" and "relative_path_parse name = Ok name"
proof -
  obtain s where p: "relative_path_parse s = Ok name" and r: "reject_reserved name = Ok ()"
    using assms by (auto simp: entry_name_def and_then_Ok_iff)
  show i: "resolve_within name dest = dest @ path_components name" by (rule parsed_path_inside(2) [OF p])
  show n: "path_components name \<noteq> []" by (rule parsed_components(2) [OF p])
  show pl: "list_all plain_component (path_components name)" using parsed_components(3) [OF p] by (auto simp: list_all_iff)
  show u: "list_all unreserved (path_components name)" using r
    by (auto simp: reject_reserved_def list_all_iff unreserved_def find_None_iff split: option.splits)
  from i n pl u show "good_path dest (resolve_within name dest)" by (auto simp: good_path_def)
  show "relative_path_parse name = Ok name" using p parsed_components(1) [OF p] by simp
qed

lemma below_dest [simp]: "below dest (dest @ ns) = ns"
  by (simp add: below_def)

lemma file_holds:
  assumes b: "base t0 dest" and n: "entry_name raw kind = Ok name"
  shows "triple put_tree (ours t0 dest) (holds t0 dest F) (write_file io e dest name sz)
    (\<lambda>_ d. holds t0 dest ((dest @ path_components name, take sz (te_data e), False) # F) d \<and> length (take sz (te_data e)) = sz)
    (ours t0 dest)"
proof -
  let ?p = "dest @ path_components name" and ?bs = "take sz (te_data e)"
  note nm = named [OF n]
  have good: "good_path dest ?p" using nm(1,5) by simp
  have bl: "butlast ?p = dest @ butlast (path_components name)" using nm(2) by (simp add: butlast_append)
  have "list_all plain_component (butlast (path_components name))" "list_all unreserved (butlast (path_components name))"
    using nm(3,4) by (auto simp: list_all_iff dest: in_set_butlastD)
  then have steps: "triple put_tree (ours t0 dest) (holds t0 dest F) (create_directories io dest (butlast ?p)) (\<lambda>_. holds t0 dest F) (ours t0 dest)"
    unfolding create_directories_def bl below_dest using steps_hold [OF b, of "[]"] by simp
  have app: "triple put_tree (ours t0 dest) (\<lambda>d. q = ?p \<and> holds t0 dest ((?p, [], False) # F) d)
      (tx_map_err (ArIo ?p) (append_all io q (chunks COPY_BUFFER ?bs))) (\<lambda>_. holds t0 dest ((?p, ?bs, False) # F)) (ours t0 dest)" for q
    using append_holds [OF b good, of "[]" False F io "chunks COPY_BUFFER ?bs"]
    by (cases "q = ?p") (auto intro!: map_err_triple triple_pure_left intro: triple_nothing simp: concat_chunks COPY_BUFFER_def)
  have "triple put_tree (ours t0 dest) (holds t0 dest F)
     (tx_bind (create_directories io dest (butlast ?p)) (\<lambda>_.
      tx_bind (tx_map_err (ArIo ?p) (create_new io ?p)) (\<lambda>q.
      tx_bind (tx_map_err (ArIo ?p) (append_all io q (chunks COPY_BUFFER ?bs))) (\<lambda>_.
      if length ?bs < sz \<and> te_broken e then tx_err (ArIo ?p OtherIo)
      else if length ?bs \<noteq> sz then tx_err (Truncated name sz (length ?bs)) else tx_ok ()))))
    (\<lambda>_ d. holds t0 dest ((?p, ?bs, False) # F) d \<and> length ?bs = sz) (ours t0 dest)"
    by (rule triple_bind [OF steps], rule triple_bind, rule map_err_triple [OF create_holds [OF b good]],
        force, force, rule triple_bind [OF app])
      (intro triple_if triple_err triple_ok; auto)
  then show ?thesis by (simp add: write_file_def Let_def nm(1))
qed

section \<open>What an archive asks for\<close>

text \<open>The files an archive names, and whether every entry is one that is unpacked.\<close>

fun wanted :: "tar_item list \<Rightarrow> (string \<times> u8 list) list" where
  "wanted [] = []"
| "wanted (None # items) = wanted items"
| "wanted (Some e # items) = (case (te_kind e, te_size e, Option.bind (te_path e) (\<lambda>raw. ok_of (entry_name raw (te_kind e)))) of
     (Regular, Some sz, Some name) \<Rightarrow> (name, take sz (te_data e)) # wanted items
   | _ \<Rightarrow> wanted items)"

definition acceptable :: "archive_limits \<Rightarrow> tar_item \<Rightarrow> bool" where
  "acceptable lims i = (case i of None \<Rightarrow> False | Some e \<Rightarrow>
     (case Option.bind (te_path e) (\<lambda>raw. ok_of (entry_name raw (te_kind e))) of None \<Rightarrow> False | Some _ \<Rightarrow>
       te_kind e = Directory \<or> te_kind e = Regular \<and> (case te_size e of None \<Rightarrow> False | Some sz \<Rightarrow>
         sz \<le> al_file lims \<and> sz \<le> length (te_data e))))"

definition as_files :: "loc \<Rightarrow> (string \<times> u8 list) list \<Rightarrow> (loc \<times> u8 list \<times> bool) list" where
  "as_files dest ws = rev (map (\<lambda>(n, bs). (dest @ path_components n, bs, False)) ws)"

definition add_wanted :: "(string \<times> u8 list) list \<Rightarrow> extracted \<Rightarrow> extracted" where
  "add_wanted ws x = \<lparr>ex_files = ex_files x + length ws, ex_bytes = ex_bytes x + sum_list (map (length \<circ> snd) ws),
     ex_names = ex_names x @ map fst ws\<rparr>"

lemma add_wanted_Nil [simp]: "add_wanted [] x = x"
  by (simp add: add_wanted_def)

lemma as_files_simps [simp]: "as_files dest [] = []"
  "as_files dest ((n, bs) # ws) = as_files dest ws @ [(dest @ path_components n, bs, False)]"
  by (simp_all add: as_files_def)

lemma entry_holds:
  assumes b: "base t0 dest" and r: "te_path e = Some raw" and n: "entry_name raw (te_kind e) = Ok name"
  shows "triple put_tree (ours t0 dest) (holds t0 dest F) (extract_entry io lims dest e raw name x)
    (\<lambda>x' d. holds t0 dest (as_files dest (wanted [Some e]) @ F) d \<and> x' = add_wanted (wanted [Some e]) x \<and> acceptable lims (Some e))
    (ours t0 dest)"
proof -
  have nm: "Option.bind (te_path e) (\<lambda>raw. ok_of (entry_name raw (te_kind e))) = Some name" by (simp add: r n ok_of_def)
  consider "te_kind e = Directory" | "te_kind e = Regular" | "te_kind e \<noteq> Directory" "te_kind e \<noteq> Regular" by blast
  then show ?thesis
  proof cases
    case 1
    then have w: "wanted [Some e] = []" "acceptable lims (Some e)" using nm by (simp_all add: acceptable_def)
    show ?thesis unfolding extract_entry_def w(1) using 1 w(2)
      by (auto intro!: triple_bind [OF directory_holds [OF b named(5) [OF n]]] triple_ok)
  next
    case 2
    show ?thesis
    proof (cases "te_size e")
      case None
      with 2 show ?thesis by (auto simp: extract_entry_def intro!: triple_bind [where Q = "\<lambda>_ _. False"] triple_lift triple_nothing)
    next
      case (Some sz)
      with 2 nm have w: "wanted [Some e] = [(name, take sz (te_data e))]" by simp
      have acc: "acceptable lims (Some e)" if "sz \<le> al_file lims" "length (take sz (te_data e)) = sz"
        using that 2 nm Some by (auto simp: acceptable_def)
      have "triple put_tree (ours t0 dest) (holds t0 dest F)
         (if al_file lims < sz then tx_err (FileTooLarge name sz (al_file lims))
          else tx_bind (write_file io e dest name sz) (\<lambda>_. tx_ok \<lparr>ex_files = ex_files x + 1, ex_bytes = ex_bytes x + sz, ex_names = ex_names x @ [name]\<rparr>))
        (\<lambda>x' d. holds t0 dest (as_files dest (wanted [Some e]) @ F) d \<and> x' = add_wanted (wanted [Some e]) x \<and> acceptable lims (Some e))
        (ours t0 dest)"
        unfolding w
        by (intro triple_if triple_err triple_bind [OF file_holds [OF b n]] triple_ok)
          (auto simp: acc add_wanted_def)
      moreover have "extract_entry io lims dest e raw name x = (if al_file lims < sz then tx_err (FileTooLarge name sz (al_file lims))
          else tx_bind (write_file io e dest name sz) (\<lambda>_. tx_ok \<lparr>ex_files = ex_files x + 1, ex_bytes = ex_bytes x + sz, ex_names = ex_names x @ [name]\<rparr>))"
        by (simp add: extract_entry_def 2 Some bind_lift)
      ultimately show ?thesis by (simp only:)
    qed
  next
    case 3
    then show ?thesis by (cases "te_kind e") (auto simp: extract_entry_def intro!: triple_err)
  qed
qed

lemma wanted_Cons: "wanted (i # items) = wanted [i] @ wanted items"
  by (cases i) (auto split: option.splits entry_kind.splits)

lemma add_wanted_append: "add_wanted (vs @ ws) x = add_wanted ws (add_wanted vs x)"
  by (simp add: add_wanted_def)

lemma as_files_append: "as_files dest (vs @ ws) = as_files dest ws @ as_files dest vs"
  by (simp add: as_files_def)

lemma items_hold:
  assumes b: "base t0 dest"
  shows "triple put_tree (ours t0 dest) (holds t0 dest F) (extract_items io lims dest n x items)
    (\<lambda>x' d. holds t0 dest (as_files dest (wanted items) @ F) d \<and> x' = add_wanted (wanted items) x \<and> list_all (acceptable lims) items
      \<and> (items = [] \<or> n + length items \<le> al_entries lims))
    (ours t0 dest)"
proof (induction items arbitrary: n x F)
  case Nil
  show ?case by (auto intro!: triple_ok)
next
  case (Cons i items)
  show ?case
  proof (cases i)
    case None
    then show ?thesis by (auto intro!: triple_err)
  next
    case (Some e)
    show ?thesis
    proof (cases "\<exists>raw name. te_path e = Some raw \<and> entry_name raw (te_kind e) = Ok name")
      case False
      have "triple put_tree (ours t0 dest) (holds t0 dest F) (tx_lift (ok_or Malformed (te_path e)))
          (\<lambda>raw d. te_path e = Some raw \<and> holds t0 dest F d) (ours t0 dest)" by (auto intro!: triple_lift)
      moreover have "triple put_tree (ours t0 dest) (\<lambda>d. te_path e = Some raw \<and> holds t0 dest F d)
          (tx_lift (entry_name raw (te_kind e))) (\<lambda>_ _. False) (ours t0 dest)" for raw
        using False by (auto intro!: triple_lift)
      ultimately show ?thesis unfolding Some extract_items.simps
        by (intro triple_if triple_bind [where Q = "\<lambda>raw d. te_path e = Some raw \<and> holds t0 dest F d"]
            triple_bind [where Q = "\<lambda>_ _. False"] triple_nothing triple_err) auto
    next
      case True
      then obtain raw name where r: "te_path e = Some raw" "entry_name raw (te_kind e) = Ok name" by blast
      let ?w = "wanted [Some e]"
      have rest: "triple put_tree (ours t0 dest)
          (\<lambda>d. holds t0 dest (as_files dest ?w @ F) d \<and> x' = add_wanted ?w x \<and> acceptable lims (Some e))
          (extract_items io lims dest (Suc n) x' items)
          (\<lambda>x'' d. (holds t0 dest (as_files dest (wanted items) @ as_files dest ?w @ F) d \<and> x'' = add_wanted (wanted items) (add_wanted ?w x)
            \<and> list_all (acceptable lims) items \<and> (items = [] \<or> Suc n + length items \<le> al_entries lims)) \<and> acceptable lims (Some e))
          (ours t0 dest)" for x'
        using Cons.IH [of "as_files dest ?w @ F" "Suc n" "add_wanted ?w x"]
        by (cases "x' = add_wanted ?w x \<and> acceptable lims (Some e)") (auto intro: triple_nothing elim: triple_conseq)
      have "triple put_tree (ours t0 dest) (holds t0 dest F)
          (tx_bind (extract_entry io lims dest e raw name x) (\<lambda>x'. extract_items io lims dest (Suc n) x' items))
          (\<lambda>x'' d. (holds t0 dest (as_files dest (wanted items) @ as_files dest ?w @ F) d \<and> x'' = add_wanted (wanted items) (add_wanted ?w x)
            \<and> list_all (acceptable lims) items \<and> (items = [] \<or> Suc n + length items \<le> al_entries lims)) \<and> acceptable lims (Some e))
          (ours t0 dest)"
        by (rule triple_bind [OF entry_holds [OF b r] rest])
      moreover have "extract_items io lims dest n x (Some e # items) = (if al_entries lims < Suc n then tx_err (TooManyEntries (al_entries lims))
          else tx_bind (extract_entry io lims dest e raw name x) (\<lambda>x'. extract_items io lims dest (Suc n) x' items))"
        by (simp add: r bind_lift)
      ultimately show ?thesis unfolding Some wanted_Cons [of "Some e" items] as_files_append add_wanted_append append_assoc
        by (auto intro!: triple_err elim!: triple_conseq simp del: wanted.simps)
    qed
  qed
qed

lemma ensure_empty_holds:
  assumes "rooted t0" and "real_dir t0 dest" and C: "C t0"
  shows "triple put_tree C (\<lambda>d. d = t0) (ensure_empty_directory io dest) (\<lambda>_ d. d = t0 \<and> base t0 dest) (\<lambda>d. d = t0)"
proof -
  have dest: "take (length dest) dest = dest" by simp
  have "solid t0 dest" using assms(2) by (auto simp: real_dir_def solid_def)
  then have l: "locate t0 [] dest = dest" using locate_solid [of t0 "[]" dest] by simp
  show ?thesis unfolding ensure_empty_directory_def
    by (rule triple_bind [where Q = "\<lambda>_ d. d = t0"], use C in \<open>blast intro: triple_probe\<close>,
        rule triple_bind [where Q = "\<lambda>a d. d = t0 \<and> snd a = children t0 dest"])
      (use C l assms empty_is_bare in \<open>auto intro!: triple_get triple_ok triple_err simp: base_def\<close>)
qed

lemma unempty_untouched:
  assumes "rooted t0" and "real_dir t0 dest" and "\<not> base t0 dest"
  shows "triple put_tree (\<lambda>d. d = t0) (\<lambda>d. d = t0) (extract_package env lims dest) (\<lambda>_ _. False) (\<lambda>d. d = t0)"
proof -
  have "triple put_tree (\<lambda>d. d = t0) (\<lambda>d. d = t0) (ensure_empty_directory io dest) (\<lambda>_ _. False) (\<lambda>d. d = t0)" for io
    using ensure_empty_holds [OF assms(1,2), of "\<lambda>d. d = t0" io] assms(3) by simp
  then show ?thesis unfolding extract_package_def extract_tree_def
    by (intro triple_bind [where Q = "\<lambda>_ _. False"] triple_nothing) auto
qed

lemma tree_holds:
  assumes "rooted t0" and "real_dir t0 dest"
  shows "triple put_tree (ours t0 dest) (\<lambda>d. d = t0) (extract_tree env lims dest)
    (\<lambda>x d. base t0 dest \<and> holds t0 dest (as_files dest (wanted (archive_items env lims))) d \<and> x = add_wanted (wanted (archive_items env lims)) ex_none
      \<and> list_all (acceptable lims) (archive_items env lims) \<and> length (archive_items env lims) \<le> al_entries lims)
    (ours t0 dest)"
proof -
  have "triple put_tree (ours t0 dest) (\<lambda>d. d = t0 \<and> base t0 dest) (extract_items (xe_io env) lims dest 0 ex_none (archive_items env lims))
    (\<lambda>x d. base t0 dest \<and> holds t0 dest (as_files dest (wanted (archive_items env lims))) d \<and> x = add_wanted (wanted (archive_items env lims)) ex_none
      \<and> list_all (acceptable lims) (archive_items env lims) \<and> length (archive_items env lims) \<le> al_entries lims) (ours t0 dest)"
  proof (cases "base t0 dest")
    case True
    show ?thesis using items_hold [OF True, of "[]" "xe_io env" lims 0 ex_none "archive_items env lims"] True
      by (elim triple_conseq) (auto simp: holds_refl)
  qed (auto intro: triple_nothing)
  moreover have o: "ours t0 dest t0" using holds_refl by blast
  have "triple put_tree (ours t0 dest) (\<lambda>d. d = t0) (ensure_empty_directory (xe_io env) dest) (\<lambda>_ d. d = t0 \<and> base t0 dest) (ours t0 dest)"
    by (rule triple_conseq [OF ensure_empty_holds [where C = "ours t0 dest", OF assms o]]) (use o in auto)
  ultimately show ?thesis unfolding extract_tree_def by (auto intro: triple_bind)
qed

section \<open>The package\<close>

lemma files_of_iff: "(p, bs, x) \<in> set (files_of t) \<longleftrightarrow> (p, FileNode bs x) \<in> set t"
  by (induction t rule: files_of.induct) auto

text \<open>The files below the destination are those of the assertion.\<close>

lemma holds_node:
  assumes "base t0 dest" and "holds t0 dest F d" and "inside dest p"
  shows "node_at d p = Some (FileNode bs x) \<longleftrightarrow> (p, bs, x) \<in> set F"
    and "(p, bs, x) \<in> set F \<Longrightarrow> good_path dest p"
proof -
  obtain new where n: "d = new @ t0" "grown dest new" "files_of new = F" using assms(2) by (auto simp: holds_def)
  have "p \<notin> fst ` set t0" using assms(1,3) unfolding base_def bare_def by blast
  moreover have "p \<noteq> []" using assms(3) by auto
  ultimately have "node_at d p = map_of new p"
    by (auto simp: node_at_def n(1) map_add_def map_of_eq_None_iff [THEN iffD2] split: option.splits)
  moreover have "distinct (map fst new)" using n(2) by (simp add: grown_def)
  ultimately show "node_at d p = Some (FileNode bs x) \<longleftrightarrow> (p, bs, x) \<in> set F"
    by (simp add: map_of_eq_Some_iff files_of_iff flip: n(3))
  show "(p, bs, x) \<in> set F \<Longrightarrow> good_path dest p"
    using n(2) by (auto simp: files_of_iff grown_def good_path_def simp flip: n(3))
qed

lemma stat_link_holds:
  assumes "base t0 dest" and "list_all plain_component ns"
  shows "triple put_tree (ours t0 dest) (holds t0 dest F) (stat_link io (dest @ ns))
    (\<lambda>n d. holds t0 dest F d \<and> node_at d (dest @ ns) = Some n) (holds t0 dest F)"
proof -
  have "place d (dest @ ns) = dest @ ns" if "holds t0 dest F d" for d
    using assms that solid_ours [OF _ _ holds_ours] by (intro place_solid) (auto simp: base_def)
  then show ?thesis unfolding stat_link_def
    by (intro triple_bind [where Q = "\<lambda>_. holds t0 dest F"] triple_probe
        triple_bind [where Q = "\<lambda>a d. holds t0 dest F d \<and> (\<forall>n. a = Ok n \<longrightarrow> node_at d (dest @ ns) = Some n)"])
      (auto intro!: triple_get triple_lift simp: lookup_def)
qed

lemma stat_follow_holds:
  assumes "base t0 dest" and "list_all plain_component ns"
  shows "triple put_tree (ours t0 dest) (holds t0 dest F) (stat_follow io (dest @ ns))
    (\<lambda>n d. holds t0 dest F d \<and> node_at d (dest @ ns) = Some n) (holds t0 dest F)"
proof -
  have "locate d [] (dest @ ns) = dest @ ns" if "holds t0 dest F d" for d
    using assms that solid_ours [OF _ _ holds_ours] locate_solid [of d "[]"] by (auto simp: base_def)
  then show ?thesis unfolding stat_follow_def
    by (intro triple_bind [where Q = "\<lambda>_. holds t0 dest F"] triple_probe
        triple_bind [where Q = "\<lambda>a d. holds t0 dest F d \<and> (\<forall>n. a = Ok n \<longrightarrow> node_at d (dest @ ns) = Some n)"])
      (auto intro!: triple_get triple_lift simp: lookup_def)
qed

lemma manifest_plain: "plain_component MANIFEST_FILE_NAME"
  by (simp add: plain_component_def MANIFEST_FILE_NAME_def)

definition described :: "('t, 'v) manifest_lib \<Rightarrow> u8 list \<Rightarrow> 'v manifest \<Rightarrow> bool" where
  "described L bs m \<longleftrightarrow> (\<exists>t. from_utf8 bs = Some t \<and> manifest_parse L t = Ok m)"

lemma read_package_holds:
  assumes b: "base t0 dest"
  shows "triple put_tree (ours t0 dest) (holds t0 dest F) (read_package L io dest)
    (\<lambda>m d. holds t0 dest F d \<and> (\<exists>bs x. (dest @ [MANIFEST_FILE_NAME], bs, x) \<in> set F \<and> described L bs m)) (ours t0 dest)"
proof -
  let ?p = "dest @ [MANIFEST_FILE_NAME]"
  have path: "path_push dest MANIFEST_FILE_NAME = ?p" by (rule push_plain [OF manifest_plain])
  have n: "node_at d ?p = Some (FileNode bs x) \<longleftrightarrow> (?p, bs, x) \<in> set F" if "holds t0 dest F d" for d bs x
    using holds_node(1) [OF b that] by blast
  show ?thesis unfolding read_package_def Let_def path
  proof (rule triple_bind [where Q = "\<lambda>n d. holds t0 dest F d \<and> node_at d ?p = Some n"])
    show "triple put_tree (ours t0 dest) (holds t0 dest F) (tx_map_err (MfRead ?p) (stat_follow io ?p))
        (\<lambda>n d. holds t0 dest F d \<and> node_at d ?p = Some n) (ours t0 dest)"
      using stat_follow_holds [OF b, of "[MANIFEST_FILE_NAME]" F io] manifest_plain
      by (intro map_err_triple) (auto elim: triple_conseq)
  next
    fix a
    show "triple put_tree (ours t0 dest) (\<lambda>d. holds t0 dest F d \<and> node_at d ?p = Some a)
        (case a of FileNode bs _ \<Rightarrow> if MAX_MANIFEST_BYTES < length bs then tx_err (MfTooLarge ?p (length bs) MAX_MANIFEST_BYTES)
           else tx_bind (tx_probe io (MfRead ?p OtherIo)) (\<lambda>_. case from_utf8 bs of None \<Rightarrow> tx_err (MfRead ?p OtherIo)
             | Some t \<Rightarrow> tx_lift (manifest_parse L t)) | _ \<Rightarrow> tx_err (MfRead ?p OtherIo))
        (\<lambda>m d. holds t0 dest F d \<and> (\<exists>bs x. (?p, bs, x) \<in> set F \<and> described L bs m)) (ours t0 dest)"
    proof (cases a)
      case (FileNode bs x)
      have "triple put_tree (ours t0 dest) (\<lambda>d. holds t0 dest F d \<and> node_at d ?p = Some (FileNode bs x))
        (case from_utf8 bs of None \<Rightarrow> tx_err (MfRead ?p OtherIo) | Some t \<Rightarrow> tx_lift (manifest_parse L t))
        (\<lambda>m d. holds t0 dest F d \<and> (\<exists>bs x. (?p, bs, x) \<in> set F \<and> described L bs m)) (ours t0 dest)"
        by (cases "from_utf8 bs") (auto intro!: triple_err triple_lift simp: n described_def, blast)
      then show ?thesis unfolding FileNode node.case
        by (intro triple_if triple_err triple_bind [OF triple_probe]) auto
    qed (auto intro!: triple_err)
  qed
qed

lemma refuse_walk_holds:
  assumes b: "base t0 dest"
  shows "list_all plain_component (pre @ cs) \<Longrightarrow> triple put_tree (ours t0 dest) (holds t0 dest F)
    (refuse_walk io path (dest @ pre) cs) (\<lambda>_. holds t0 dest F) (ours t0 dest)"
proof (induction cs arbitrary: pre)
  case Nil
  show ?case by (auto intro!: triple_ok)
next
  case (Cons c cs)
  then have push: "path_push (dest @ pre) c = dest @ pre @ [c]" by (simp add: push_plain)
  have st: "triple put_tree (ours t0 dest) (holds t0 dest F) (stat_link io (dest @ pre @ [c])) (\<lambda>_. holds t0 dest F) (holds t0 dest F)"
    using stat_link_holds [OF b, of "pre @ [c]" F io] Cons.prems by (auto elim: triple_conseq)
  have ih: "triple put_tree (ours t0 dest) (holds t0 dest F) (refuse_walk io path (dest @ pre @ [c]) cs) (\<lambda>_. holds t0 dest F) (ours t0 dest)"
    using Cons.IH [of "pre @ [c]"] Cons.prems by simp
  show ?case unfolding refuse_walk.simps push
    by (rule triple_match [OF st]) (auto intro!: triple_ok triple_err ih split: node.split)
qed

text \<open>An accepted payload has its entrypoint.\<close>

lemma payload_holds:
  assumes b: "base t0 dest" and e: "relative_path_parse (mf_entrypoint m) = Ok (mf_entrypoint m)"
    and a: "\<forall>a\<in>set (mf_assets m). relative_path_parse a = Ok a"
  shows "triple put_tree (ours t0 dest) (holds t0 dest F) (validate_payload io dest m)
    (\<lambda>_ d. holds t0 dest F d \<and> (\<exists>bs x. (dest @ path_components (mf_entrypoint m), bs, x) \<in> set F)) (ours t0 dest)"
proof -
  have ok: "triple put_tree (ours t0 dest) (holds t0 dest F) (refuse_links io dest p) (\<lambda>_. holds t0 dest F) (ours t0 dest)"
    "resolve_within p dest = dest @ path_components p" "list_all plain_component (path_components p)"
    if "relative_path_parse p = Ok p" for p
    using refuse_walk_holds [OF b, of "[]" "path_components p" F io p] parsed_components(3) [OF that] parsed_path_inside(2) [OF that]
    by (simp_all add: refuse_links_def list_all_iff)
  let ?Q = "\<lambda>_ d. holds t0 dest F d \<and> (\<exists>bs x. (dest @ path_components (mf_entrypoint m), bs, x) \<in> set F)"
  have entry: "triple put_tree (ours t0 dest) (holds t0 dest F) (check_entrypoint io dest (mf_entrypoint m)) ?Q (ours t0 dest)"
  proof -
    have n: "\<exists>bs x. (dest @ path_components (mf_entrypoint m), bs, x) \<in> set F"
      if "holds t0 dest F d" "node_at d (dest @ path_components (mf_entrypoint m)) = Some (FileNode bs x)" for d bs x
      using holds_node(1) [OF b that(1)] that(2) parsed_components(2) [OF e] by blast
    show ?thesis unfolding check_entrypoint_def ok(2) [OF e]
      by (rule triple_bind [OF ok(1) [OF e]], rule triple_match [OF stat_link_holds [OF b ok(3) [OF e]]])
        (auto intro!: triple_err triple_ok split: node.split dest: n)
  qed
  have assets: "triple put_tree (ours t0 dest) (holds t0 dest F) (check_assets io dest as) (\<lambda>_. holds t0 dest F) (ours t0 dest)"
    if "\<forall>a\<in>set as. relative_path_parse a = Ok a" for as
    using that
  proof (induction as)
    case Nil
    show ?case by (auto intro!: triple_ok)
  next
    case (Cons a as)
    then have p: "relative_path_parse a = Ok a" and ih: "triple put_tree (ours t0 dest) (holds t0 dest F) (check_assets io dest as) (\<lambda>_. holds t0 dest F) (ours t0 dest)"
      by auto
    show ?case unfolding check_assets.simps ok(2) [OF p]
      by (rule triple_bind [OF ok(1) [OF p]], rule triple_match [OF stat_link_holds [OF b ok(3) [OF p]]])
        (auto intro!: triple_err triple_conseq [OF ih])
  qed
  show ?thesis unfolding validate_payload_def
    by (rule triple_bind [OF entry]) (use assets [OF a] in \<open>cases "\<exists>bs x. (dest @ path_components (mf_entrypoint m), bs, x) \<in> set F"\<close>,
      auto elim: triple_conseq intro: triple_nothing)
qed

lemma executable_holds:
  assumes b: "base t0 dest" and p: "path_components e \<noteq> []" and f: "(dest @ path_components e, cs, x) \<in> set F"
  shows "triple put_tree (ours t0 dest) (holds t0 dest F) (set_executable io (dest @ path_components e))
    (\<lambda>_. holds t0 dest (map (\<lambda>(q, bs, x). (q, bs, x \<or> q = dest @ path_components e)) F)) (ours t0 dest)"
proof -
  let ?p = "dest @ path_components e"
  have F: "map (\<lambda>(q, bs, x). if q = ?p then (q, bs, True) else (q, bs, x)) F = map (\<lambda>(q, bs, x). (q, bs, x \<or> q = ?p)) F" by auto
  have good: "good_path dest ?p" if "holds t0 dest F d" for d
    using holds_node(2) [OF b that _ f] p by blast
  then have l: "locate d [] ?p = ?p" if "holds t0 dest F d" for d
    using locate_ours [OF b holds_ours [OF that]] that by blast
  have put: "holds t0 dest (map (\<lambda>(q, bs, x). (q, bs, x \<or> q = ?p)) F) (put_tree d (MakeExecutable ?p))" if "holds t0 dest F d" for d
    using holds_change [OF kinds_run b good [OF that] that] by (simp add: F)
  show ?thesis unfolding set_executable_def
    by (rule triple_bind [where Q = "\<lambda>a d. holds t0 dest F d \<and> fst a = ?p"])
      (auto intro!: triple_get triple_err triple_io split: prod.split intro: put holds_ours [OF put] simp: l simp del: put_tree.simps)
qed

definition finished :: "loc \<Rightarrow> string \<Rightarrow> (string \<times> u8 list) list \<Rightarrow> (loc \<times> u8 list \<times> bool) list" where
  "finished dest e ws = map (\<lambda>(q, bs, x). (q, bs, x \<or> q = dest @ path_components e)) (as_files dest ws)"

lemma package_holds:
  fixes env :: "('t, 'v) extract_env"
  assumes t: "rooted t0" "real_dir t0 dest"
  shows "triple put_tree (ours t0 dest) (\<lambda>d. d = t0) (extract_package env lims dest)
    (\<lambda>(m, n, k) d. base t0 dest \<and> holds t0 dest (finished dest (mf_entrypoint m) (wanted (archive_items env lims))) d
      \<and> list_all (acceptable lims) (archive_items env lims) \<and> length (archive_items env lims) \<le> al_entries lims
      \<and> n = length (wanted (archive_items env lims)) \<and> k = sum_list (map (length \<circ> snd) (wanted (archive_items env lims)))
      \<and> (\<exists>bs x. (dest @ [MANIFEST_FILE_NAME], bs, x) \<in> set (as_files dest (wanted (archive_items env lims))) \<and> described (xe_lib env) bs m)
      \<and> (\<exists>bs x. (dest @ path_components (mf_entrypoint m), bs, x) \<in> set (as_files dest (wanted (archive_items env lims)))))
    (ours t0 dest)"
    (is "triple _ _ _ _ ?Post _")
proof -
  let ?F = "as_files dest (wanted (archive_items env lims))" and ?x = "add_wanted (wanted (archive_items env lims)) ex_none"
  let ?ok = "list_all (acceptable lims) (archive_items env lims) \<and> length (archive_items env lims) \<le> al_entries lims"
  have rest: "triple put_tree (ours t0 dest) (holds t0 dest ?F)
     (tx_bind (tx_map_err ArManifest (read_package (xe_lib env) (xe_io env) dest)) (\<lambda>m.
       tx_bind (tx_map_err ArPayload (validate_payload (xe_io env) dest m)) (\<lambda>_.
       tx_bind (set_executable (xe_io env) (resolve_within (mf_entrypoint m) dest)) (\<lambda>_.
       tx_ok (m, ex_files ?x, ex_bytes ?x))))) ?Post (ours t0 dest)" if b: "base t0 dest" and ok: ?ok
  proof (rule triple_bind)
    show "triple put_tree (ours t0 dest) (holds t0 dest ?F) (tx_map_err ArManifest (read_package (xe_lib env) (xe_io env) dest))
        (\<lambda>m d. holds t0 dest ?F d \<and> (\<exists>bs x. (dest @ [MANIFEST_FILE_NAME], bs, x) \<in> set ?F \<and> described (xe_lib env) bs m)) (ours t0 dest)"
      by (rule map_err_triple [OF read_package_holds [OF b]]) auto
  next
    fix m :: "'v manifest"
    show "triple put_tree (ours t0 dest)
        (\<lambda>d. holds t0 dest ?F d \<and> (\<exists>bs x. (dest @ [MANIFEST_FILE_NAME], bs, x) \<in> set ?F \<and> described (xe_lib env) bs m))
        (tx_bind (tx_map_err ArPayload (validate_payload (xe_io env) dest m)) (\<lambda>_.
          tx_bind (set_executable (xe_io env) (resolve_within (mf_entrypoint m) dest)) (\<lambda>_.
          tx_ok (m, ex_files ?x, ex_bytes ?x)))) ?Post (ours t0 dest)"
    proof (rule triple_pure)
      assume d: "\<exists>bs x. (dest @ [MANIFEST_FILE_NAME], bs, x) \<in> set ?F \<and> described (xe_lib env) bs m"
      then obtain s where s: "manifest_parse (xe_lib env) s = Ok m" by (auto simp: described_def)
      note e = accepted_manifest(3) [OF s]
      show "triple put_tree (ours t0 dest) (holds t0 dest ?F)
          (tx_bind (tx_map_err ArPayload (validate_payload (xe_io env) dest m)) (\<lambda>_.
            tx_bind (set_executable (xe_io env) (resolve_within (mf_entrypoint m) dest)) (\<lambda>_.
            tx_ok (m, ex_files ?x, ex_bytes ?x)))) ?Post (ours t0 dest)"
      proof (rule triple_bind)
        show "triple put_tree (ours t0 dest) (holds t0 dest ?F) (tx_map_err ArPayload (validate_payload (xe_io env) dest m))
          (\<lambda>_ d. holds t0 dest ?F d \<and> (\<exists>bs x. (dest @ path_components (mf_entrypoint m), bs, x) \<in> set ?F)) (ours t0 dest)"
          by (rule map_err_triple [OF payload_holds [OF b e accepted_manifest(4) [OF s]]]) auto
      next
        fix u
        show "triple put_tree (ours t0 dest)
            (\<lambda>d. holds t0 dest ?F d \<and> (\<exists>bs x. (dest @ path_components (mf_entrypoint m), bs, x) \<in> set ?F))
            (tx_bind (set_executable (xe_io env) (resolve_within (mf_entrypoint m) dest)) (\<lambda>_. tx_ok (m, ex_files ?x, ex_bytes ?x)))
            ?Post (ours t0 dest)"
        proof (rule triple_pure)
          assume f: "\<exists>bs x. (dest @ path_components (mf_entrypoint m), bs, x) \<in> set ?F"
          then obtain bs x where "(dest @ path_components (mf_entrypoint m), bs, x) \<in> set ?F" by blast
          note ex = executable_holds [OF b parsed_components(2) [OF e] this]
          show "triple put_tree (ours t0 dest) (holds t0 dest ?F)
            (tx_bind (set_executable (xe_io env) (resolve_within (mf_entrypoint m) dest)) (\<lambda>_. tx_ok (m, ex_files ?x, ex_bytes ?x)))
            ?Post (ours t0 dest)"
            unfolding parsed_path_inside(2) [OF e]
            by (rule triple_bind [OF ex]) (use b ok d f in \<open>auto intro!: triple_ok simp: finished_def add_wanted_def ex_none_def\<close>)
        qed
      qed
    qed
  qed
  show ?thesis unfolding extract_package_def
  proof (rule triple_bind [OF tree_holds [OF t]])
    fix x
    show "triple put_tree (ours t0 dest) (\<lambda>d. base t0 dest \<and> holds t0 dest ?F d \<and> x = ?x \<and> ?ok)
      (if \<not> contains_name x MANIFEST_FILE_NAME then tx_err NoManifest
       else tx_bind (tx_map_err ArManifest (read_package (xe_lib env) (xe_io env) dest)) (\<lambda>m.
         tx_bind (tx_map_err ArPayload (validate_payload (xe_io env) dest m)) (\<lambda>_.
         tx_bind (set_executable (xe_io env) (resolve_within (mf_entrypoint m) dest)) (\<lambda>_.
         tx_ok (m, ex_files x, ex_bytes x))))) ?Post (ours t0 dest)"
    proof (cases "base t0 dest \<and> x = ?x \<and> ?ok")
      case True
      with rest show ?thesis by (intro triple_if triple_err) (auto elim!: triple_conseq)
    qed (auto intro: triple_nothing)
  qed
qed

section \<open>The properties\<close>

text \<open>
  C34. Wherever unpacking a package stops, nothing outside the destination has changed, nothing
  that was there before has, and what is new inside is a directory or a file, never a link,
  at a path of plain components none of which is reserved to the installer.
\<close>

theorem extraction_stays_inside:
  assumes "rooted t" and "real_dir t dest" and "d \<in> cuts put_tree (extract_package env lims dest) t"
  shows "(\<forall>p. \<not> inside dest p \<or> node_at t p \<noteq> None \<longrightarrow> node_at d p = node_at t p)
    \<and> (\<forall>p n. node_at d p = Some n \<and> node_at t p = None \<longrightarrow> good_path dest p \<and> (\<forall>q. n \<noteq> LinkNode q))"
proof (cases "base t dest")
  case True
  then have o: "ours t dest d" using triple_cuts [OF package_holds [OF assms(1,2)] refl assms(3)] by simp
  then obtain new where n: "d = new @ t" "grown dest new" by (auto simp: ours_def holds_def)
  note at = node_at_ours [OF _ _ o]
  have "\<not> inside dest p" if "node_at t p \<noteq> None" for p
  proof
    assume i: "inside dest p"
    with that have "p \<in> fst ` set t" by (force simp: node_at_def dest!: map_of_SomeD)
    with i True show False unfolding base_def bare_def by blast
  qed
  with at(1) True have same: "node_at d p = node_at t p" if "\<not> inside dest p \<or> node_at t p \<noteq> None" for p
    using that by (auto simp: base_def)
  have "good_path dest p \<and> (\<forall>q. n \<noteq> LinkNode q)" if "node_at d p = Some n" "node_at t p = None" for p n
    using that n by (auto simp: node_at_def map_add_Some_iff grown_def good_path_def split: if_splits dest!: map_of_SomeD)
  with same show ?thesis by blast
next
  case False
  then have "d = t" using triple_cuts [OF unempty_untouched [OF assms(1,2)]] assms(3) by blast
  then show ?thesis by auto
qed

text \<open>
  C35. A package that is unpacked is its archive: every entry was a file or a directory within
  the limits, the files below the destination are exactly those the archive names, with its
  bytes, and only the entrypoint of the manifest among them is executable.
\<close>

theorem extracted_files_are_the_archives:
  assumes "rooted t" and "real_dir t dest" and "extract_package env lims dest (tx_start t) = (Ok (m, files, bytes), u)"
  shows "list_all (acceptable lims) (archive_items env lims) \<and> length (archive_items env lims) \<le> al_entries lims
    \<and> files = length (wanted (archive_items env lims))
    \<and> bytes = sum_list (map (length \<circ> snd) (wanted (archive_items env lims)))
    \<and> (\<exists>bs. (MANIFEST_FILE_NAME, bs) \<in> set (wanted (archive_items env lims)) \<and> described (xe_lib env) bs m)
    \<and> (\<forall>ns bs x. ns \<noteq> [] \<longrightarrow> (node_at (tx_disk u) (dest @ ns) = Some (FileNode bs x) \<longleftrightarrow>
        (\<exists>name. (name, bs) \<in> set (wanted (archive_items env lims)) \<and> path_components name = ns
          \<and> x = (ns = path_components (mf_entrypoint m)))))"
proof -
  let ?ws = "wanted (archive_items env lims)"
  have post: "base t dest" "holds t dest (finished dest (mf_entrypoint m) ?ws) (tx_disk u)"
    "list_all (acceptable lims) (archive_items env lims)" "length (archive_items env lims) \<le> al_entries lims"
    "files = length ?ws" "bytes = sum_list (map (length \<circ> snd) ?ws)"
    "\<exists>bs x. (dest @ [MANIFEST_FILE_NAME], bs, x) \<in> set (as_files dest ?ws) \<and> described (xe_lib env) bs m"
    using triple_result [OF package_holds [OF assms(1,2)] _ assms(3)] by (auto simp: tx_start_def)
  have fin: "(dest @ ns, bs, x) \<in> set (finished dest (mf_entrypoint m) ?ws) \<longleftrightarrow>
      (\<exists>name. (name, bs) \<in> set ?ws \<and> path_components name = ns \<and> x = (ns = path_components (mf_entrypoint m)))" for ns bs x
    by (auto simp: finished_def as_files_def image_iff Bex_def)
  have "name = MANIFEST_FILE_NAME" if "[MANIFEST_FILE_NAME] = path_components name" for name
    using that [symmetric] join_split [of "CHR ''/''" name] by (simp add: path_components_def)
  with post(7) have "\<exists>bs. (MANIFEST_FILE_NAME, bs) \<in> set ?ws \<and> described (xe_lib env) bs m"
    by (auto simp: as_files_def)
  with post holds_node(1) [OF post(1,2)] fin show ?thesis by auto
qed

section \<open>Bounds\<close>

fun makes :: "tree_write \<Rightarrow> nat" where
  "makes (MakeDir _) = 1"
| "makes (MakeFile _) = 1"
| "makes _ = 0"

fun appends :: "tree_write \<Rightarrow> nat" where
  "appends (AppendTo _ bs) = length bs"
| "appends _ = 0"

lemma costs_map_err [cost]: "costs w k m \<Longrightarrow> costs w k (tx_map_err f m)"
  using costs_match_plus [of w k m 0] unfolding tx_map_err_def by (metis add_0_right costs_still(1,2))

lemma costs_prod [cost]: "(\<And>a b. costs w k (f a b)) \<Longrightarrow> costs w k (case x of (a, b) \<Rightarrow> f a b)"
  by (cases x) simp

lemma costs_first: "costs w k m \<Longrightarrow> (\<And>a. costs w 0 (f a)) \<Longrightarrow> costs w k (tx_bind m f)"
  using costs_bind_plus [of w k m 0 f] by simp

lemma costs_mkdir: "(\<And>p. w (MakeDir p) \<le> k) \<Longrightarrow> costs w k (mkdir_at io path)"
  unfolding mkdir_at_def by (intro cost)

lemma costs_create: "(\<And>p. w (MakeFile p) \<le> k) \<Longrightarrow> costs w k (create_new io path)"
  unfolding create_new_def by (intro cost costs_first)

lemma costs_directory: "(\<And>p. w (MakeDir p) \<le> k) \<Longrightarrow> costs w k (create_directory io path)"
proof -
  assume "\<And>p. w (MakeDir p) \<le> k"
  then have "costs w (k + 0) (create_directory io path)"
    unfolding create_directory_def by (intro costs_match_plus costs_mkdir costs_if costs_still)
  then show ?thesis by simp
qed

lemma costs_steps: "(\<And>p. w (MakeDir p) \<le> k) \<Longrightarrow> costs w (length cs * k) (make_steps io walked cs)"
proof (induction cs arbitrary: walked)
  case (Cons c cs)
  have "costs w (k + length cs * k) (make_steps io walked (c # cs))"
    unfolding make_steps.simps by (intro costs_bind_plus costs_directory Cons)
  then show ?case by simp
qed (simp add: costs_still)

lemma costs_append: "(\<And>p b. w (AppendTo p b) \<le> g b) \<Longrightarrow> costs w (sum_list (map g bs)) (append_all io p bs)"
proof (induction bs)
  case (Cons b bs)
  have "costs w (g b + sum_list (map g bs)) (append_all io p (b # bs))"
    unfolding append_all.simps by (intro costs_bind_plus costs_io Cons)
  then show ?case by simp
qed (simp add: costs_still)

lemma costs_write:
  assumes "\<And>p. w (MakeDir p) \<le> k" and "\<And>p. w (MakeFile p) \<le> k" and "\<And>p b. w (AppendTo p b) \<le> g b"
    and n: "entry_name raw kind = Ok name"
  shows "costs w (length (path_components name) * k + sum_list (map g (chunks COPY_BUFFER (take sz (te_data e))))) (write_file io e dest name sz)"
proof -
  obtain c cs where c: "path_components name = cs @ [c]" using named(2) [OF n] by (metis rev_exhaust)
  have "costs w (length cs * k + (k + sum_list (map g (chunks COPY_BUFFER (take sz (te_data e)))))) (write_file io e dest name sz)"
    unfolding write_file_def Let_def named(1) [OF n] c
    by (intro costs_bind_plus costs_first costs_map_err costs_create assms costs_append costs_if costs_still)
      (simp_all add: create_directories_def butlast_append costs_steps assms(1))
  then show ?thesis by (simp add: c algebra_simps)
qed

lemma join_bound: "\<forall>q\<in>set ps. q \<noteq> [] \<Longrightarrow> 2 * length ps \<le> length (join_with d ps) + 1"
proof (induction d ps rule: join_with.induct)
  case (2 d p)
  then show ?case by (cases p) auto
next
  case (3 d p q ps)
  then show ?case by (cases p) auto
qed simp

lemma components_bound: "relative_path_parse s = Ok p \<Longrightarrow> length (path_components p) \<le> 256"
proof -
  assume p: "relative_path_parse s = Ok p"
  have "\<forall>q\<in>set (path_components p). q \<noteq> []" using parsed_components(3) [OF p] by (auto simp: plain_component_def)
  from join_bound [OF this, of "CHR ''/''"] have "2 * length (path_components p) \<le> length p + 1"
    by (simp add: path_components_def join_split)
  moreover have "length p \<le> 512" using p by (auto simp: relative_path_parse_def MAX_PATH_LEN_def split: if_splits option.splits)
  ultimately show ?thesis by linarith
qed

lemma costs_entry:
  assumes "\<And>p. w (MakeDir p) \<le> k" and "\<And>p. w (MakeFile p) \<le> k" and "\<And>p b. w (AppendTo p b) \<le> g b"
    and n: "entry_name raw kind = Ok name" and c: "\<And>sz. 256 * k + sum_list (map g (chunks COPY_BUFFER (take sz (te_data e)))) \<le> c"
  shows "costs w c (extract_entry io lims dest e raw name x)"
proof -
  have len: "length (path_components name) \<le> 256" by (rule components_bound [OF named(6) [OF n]])
  have k: "k \<le> c" using c [of 0] by (auto simp: chunks.simps)
  have "costs w c (write_file io e dest name sz)" for sz
    by (rule costs_more [OF costs_write [OF assms(1,2,3) n]]) (use c [of sz] len in \<open>meson add_le_mono1 le_trans mult_le_mono1\<close>)
  moreover have "costs w c (create_directory io p)" for p by (rule costs_directory) (use assms(1) k le_trans in blast)
  ultimately have "costs w c (if al_file lims < sz then tx_err (FileTooLarge name sz (al_file lims))
      else tx_bind (write_file io e dest name sz) (\<lambda>_. tx_ok \<lparr>ex_files = ex_files x + 1, ex_bytes = ex_bytes x + sz, ex_names = ex_names x @ [name]\<rparr>))"
    and "costs w c (tx_bind (create_directory io p) (\<lambda>_. tx_ok x))" for sz p
    by (auto intro!: costs_first costs_still)
  then show ?thesis unfolding extract_entry_def
    by (cases "te_kind e") (auto intro!: costs_bind [OF costs_still(3)] costs_still)
qed

lemma costs_items:
  assumes "\<And>p. w (MakeDir p) \<le> k" and "\<And>p. w (MakeFile p) \<le> k" and "\<And>p b. w (AppendTo p b) \<le> g b"
    and c: "\<And>e sz. sum_list (map g (chunks COPY_BUFFER (take sz (te_data e)))) \<le> h e"
  shows "costs w (256 * k * (al_entries lims - n) + sum_list (map (case_option 0 h) items)) (extract_items io lims dest n x items)"
proof (induction items arbitrary: n x)
  case (Cons i items)
  show ?case
  proof (cases i)
    case (Some e)
    show ?thesis
    proof (cases "al_entries lims < Suc n")
      case False
      have entry: "costs w ((256 * k + h e) + (256 * k * (al_entries lims - Suc n) + sum_list (map (case_option 0 h) items)))
          (tx_bind (extract_entry io lims dest e raw name x) (\<lambda>x'. extract_items io lims dest (Suc n) x' items))"
        if "entry_name raw (te_kind e) = Ok name" for raw name
        by (rule costs_bind_plus [OF costs_entry [OF assms(1,2,3) that] Cons.IH]) (simp add: c)
      have "256 * k * (al_entries lims - n) = 256 * k + 256 * k * (al_entries lims - Suc n)"
      proof -
        have "al_entries lims - n = Suc (al_entries lims - Suc n)" using False by linarith
        then show ?thesis by (simp only: mult_Suc_right)
      qed
      then have sum: "256 * k * (al_entries lims - n) + sum_list (map (case_option 0 h) (Some e # items))
          = (256 * k + h e) + (256 * k * (al_entries lims - Suc n) + sum_list (map (case_option 0 h) items))" by simp
      show ?thesis unfolding Some extract_items.simps sum
      proof (rule costs_if)
        show "costs w (256 * k + h e + (256 * k * (al_entries lims - Suc n) + sum_list (map (case_option 0 h) items)))
          (tx_bind (tx_lift (ok_or Malformed (te_path e))) (\<lambda>raw. tx_bind (tx_lift (entry_name raw (te_kind e))) (\<lambda>name.
            tx_bind (extract_entry io lims dest e raw name x) (\<lambda>x'. extract_items io lims dest (Suc n) x' items))))"
        proof (rule costs_bind [OF costs_still(3)])
          fix raw
          show "costs w (256 * k + h e + (256 * k * (al_entries lims - Suc n) + sum_list (map (case_option 0 h) items)))
            (tx_bind (tx_lift (entry_name raw (te_kind e))) (\<lambda>name.
              tx_bind (extract_entry io lims dest e raw name x) (\<lambda>x'. extract_items io lims dest (Suc n) x' items)))"
          proof (cases "entry_name raw (te_kind e)")
            case (Inl err)
            then show ?thesis by (auto simp: costs_def tx_bind_def tx_lift_def)
          next
            case (Inr name)
            with entry [OF Inr] show ?thesis by (simp only: bind_lift)
          qed
        qed
      qed (rule costs_still)
    qed (simp add: Some costs_still)
  qed (simp add: costs_still)
qed (simp add: costs_still)

lemma costs_node [cost]:
  "(\<And>bs x. costs w k (f bs x)) \<Longrightarrow> costs w k g \<Longrightarrow> (\<And>q. costs w k (h q)) \<Longrightarrow>
     costs w k (case n of FileNode bs x \<Rightarrow> f bs x | DirNode \<Rightarrow> g | LinkNode q \<Rightarrow> h q)"
  by (cases n) simp_all

lemma costs_stat [cost]: "costs w 0 (stat_link io p)" "costs w 0 (stat_follow io p)"
  unfolding stat_link_def stat_follow_def by (intro cost)+

lemma costs_read [cost]: "costs w 0 (read_package L io dest)"
  unfolding read_package_def Let_def by (intro cost)

lemma costs_refuse [cost]: "costs w 0 (refuse_links io dest p)"
proof -
  have "costs w 0 (refuse_walk io p walked cs)" for walked cs
    by (induction cs arbitrary: walked) (auto intro!: cost)
  then show ?thesis by (simp add: refuse_links_def)
qed

lemma costs_validate [cost]: "costs w 0 (validate_payload io dest m)"
proof -
  have "costs w 0 (check_assets io dest as)" for as
    by (induction as) (auto intro!: cost)
  then show ?thesis unfolding validate_payload_def check_entrypoint_def by (intro cost)
qed

lemma costs_package:
  assumes "\<And>n x. costs w k (extract_items (xe_io env) lims dest n x (archive_items env lims))" and "\<And>p. w (MakeExecutable p) = 0"
  shows "costs w k (extract_package env lims dest)"
proof -
  have "costs w 0 (set_executable (xe_io env) p)" for p
    unfolding set_executable_def by (intro cost) (simp add: assms)
  then have tail: "costs w 0 (if \<not> contains_name x MANIFEST_FILE_NAME then tx_err NoManifest
     else tx_bind (tx_map_err ArManifest (read_package (xe_lib env) (xe_io env) dest)) (\<lambda>m.
       tx_bind (tx_map_err ArPayload (validate_payload (xe_io env) dest m)) (\<lambda>_.
       tx_bind (set_executable (xe_io env) (resolve_within (mf_entrypoint m) dest)) (\<lambda>_.
       tx_ok (m, ex_files x, ex_bytes x)))))" for x
    by (intro cost)
  have "costs w 0 (ensure_empty_directory (xe_io env) dest)"
    unfolding ensure_empty_directory_def by (intro cost)
  then show ?thesis unfolding extract_package_def extract_tree_def
    by (intro costs_first [OF costs_bind tail] assms)
qed

text \<open>
  C36. However hostile an archive, unpacking it makes at most 256 files and directories for each
  entry it may have, and writes no more bytes than the limit on what it expands to, if
  the contents of the entries a tar reader makes are parts of the bytes it was given.
\<close>

theorem unpacking_is_bounded:
  assumes "\<And>bs. sum_list (map (case_option 0 (length \<circ> te_data)) (xe_untar env bs)) \<le> length bs"
  shows "sum_list (map makes (tx_log (snd (extract_package env lims dest (tx_start t))))) \<le> 256 * al_entries lims
    \<and> sum_list (map appends (tx_log (snd (extract_package env lims dest (tx_start t))))) \<le> al_uncompressed lims"
proof
  have zero: "sum_list (map (case_option 0 (\<lambda>_. 0)) items) = (0 :: nat)" for items :: "tar_item list"
    by (induction items) (auto split: option.splits)
  have "costs makes (256 * al_entries lims) (extract_items (xe_io env) lims dest n x (archive_items env lims))" for n x
    by (rule costs_more [OF costs_items [where k = 1 and g = "\<lambda>_. 0" and h = "\<lambda>_. 0"]]) (simp_all only: zero, simp_all)
  then show "sum_list (map makes (tx_log (snd (extract_package env lims dest (tx_start t))))) \<le> 256 * al_entries lims"
    by (intro costs_start costs_package) simp_all
next
  have len: "sum_list (map length (chunks n xs)) = length xs" if "0 < n" for n and xs :: "u8 list"
    using arg_cong [OF concat_chunks [OF that, of xs], of length] by (simp add: length_concat)
  have "sum_list (map (case_option 0 (length \<circ> te_data)) (archive_items env lims)) \<le> length (unpacked env lims)"
    unfolding archive_items_def by (rule assms)
  also have "\<dots> \<le> al_uncompressed lims"
    using read_all_bound [of "\<lparr>rd_read = 0, rd_limit = al_uncompressed lims\<rparr>" "xe_decoder env"] by (simp add: unpacked_def)
  finally have "costs appends (al_uncompressed lims) (extract_items (xe_io env) lims dest n x (archive_items env lims))" for n x
    by (intro costs_more [OF costs_items [where k = 0 and g = length and h = "length \<circ> te_data"]])
      (auto simp: len COPY_BUFFER_def)
  then show "sum_list (map appends (tx_log (snd (extract_package env lims dest (tx_start t))))) \<le> al_uncompressed lims"
    by (intro costs_start costs_package) simp_all
qed

section \<open>An example\<close>

definition example_raw :: raw_manifest where
  "example_raw = \<lparr>rm_app = \<lparr>ra_id = ''dev.app'', ra_name = [65], ra_version = ''1'', ra_protocol = ''1.0'', ra_entrypoint = ''bin/app'',
     ra_assets = [], ra_capabilities = False, ra_permissions = False, ra_grants = False\<rparr>,
     rm_capabilities = False, rm_permissions = False, rm_grants = False\<rparr>"

definition example_entry :: "string \<Rightarrow> u8 list \<Rightarrow> tar_item" where
  "example_entry n bs = Some \<lparr>te_kind = Regular, te_path = Some (bytes_of n), te_size = Some (length bs), te_data = bs, te_broken = False\<rparr>"

definition example_extract :: "(unit, unit) extract_env" where
  "example_extract = \<lparr>xe_io = \<lambda>_. IoOk, xe_decoder = [(8, \<lambda>k. Ok (take k [1, 2, 3]))],
     xe_untar = \<lambda>bs. if length bs < 2 then [] else [example_entry ''paper.toml'' [120], example_entry ''bin/app'' [7]],
     xe_lib = \<lparr>ml_toml = \<lambda>_. Ok (), ml_schema = \<lambda>_. Ok example_raw, ml_semver = \<lambda>_. Ok ()\<rparr>\<rparr>"

definition example_disk :: file_tree where
  "example_disk = [([''d''], DirNode)]"

definition example_limits :: archive_limits where
  "example_limits = \<lparr>al_compressed = 100, al_uncompressed = 100, al_file = 10, al_entries = 5\<rparr>"

definition example_package :: "unit manifest" where
  "example_package = \<lparr>mf_id = ''dev.app'', mf_name = [65], mf_version = (), mf_protocol = \<lparr>major = 1, minor = 0\<rparr>,
     mf_entrypoint = ''bin/app'', mf_assets = []\<rparr>"

definition example_state :: "bool \<Rightarrow> tree_write list \<Rightarrow> nat \<Rightarrow> (file_tree, tree_write) tx_state" where
  "example_state x L n = \<lparr>tx_disk = [([''d'', ''bin'', ''app''], FileNode [7] x), ([''d'', ''bin''], DirNode),
     ([''d'', ''paper.toml''], FileNode [120] False), ([''d''], DirNode)], tx_log = L, tx_asked = n\<rparr>"

definition example_log :: "tree_write list" where
  "example_log = [MakeFile [''d'', ''paper.toml''], AppendTo [''d'', ''paper.toml''] [120], MakeDir [''d'', ''bin''],
     MakeFile [''d'', ''bin'', ''app''], AppendTo [''d'', ''bin'', ''app''] [7]]"

lemma example_archive_items:
  "archive_items example_extract example_limits = [example_entry ''paper.toml'' [120], example_entry ''bin/app'' [7]]"
  by (simp add: archive_items_def unpacked_def example_extract_def bounded_read_def room_def example_limits_def)

lemma example_tree:
  "extract_tree example_extract example_limits [''d''] (tx_start example_disk)
     = (Ok \<lparr>ex_files = 2, ex_bytes = 2, ex_names = [''paper.toml'', ''bin/app'']\<rparr>, example_state False example_log 6)"
  unfolding extract_tree_def example_archive_items by code_simp

lemma example_manifest: "manifest_parse (xe_lib example_extract) ''x'' = Ok example_package"
proof -
  have "app_id_parse ''dev.app'' = Ok ''dev.app''" "display_name_parse [65] = Ok [65]" "relative_path_parse ''bin/app'' = Ok ''bin/app''"
    "''1.0'' = version_text \<lparr>major = 1, minor = 0\<rparr>" by code_simp+
  then show ?thesis using version_round_trip [of "\<lparr>major = 1, minor = 0\<rparr>"]
    by (simp add: manifest_parse_def example_extract_def example_raw_def claimed_def example_package_def MAX_MANIFEST_BYTES_def MAX_ASSETS_def)
qed

lemma example_read:
  "read_package (xe_lib example_extract) (\<lambda>_. IoOk) [''d''] (example_state False L 6) = (Ok example_package, example_state False L 8)"
proof -
  have "stat_follow (\<lambda>_. IoOk) [''d'', ''paper.toml''] (example_state False L 6) = (Ok (FileNode [120] False), example_state False L 7)"
    and "path_push [''d''] ''paper.toml'' = [''d'', ''paper.toml'']" and "from_utf8 [120] = Some ''x''" by code_simp+
  then show ?thesis
    by (simp add: read_package_def Let_def tx_map_err_def tx_bind_def tx_match_def tx_ok_def MANIFEST_FILE_NAME_def
        MAX_MANIFEST_BYTES_def tx_probe_def tx_ask_def tx_lift_def example_manifest) (simp add: example_state_def)
qed

lemma example_extraction:
  "extract_package example_extract example_limits [''d''] (tx_start example_disk)
     = (Ok (example_package, 2, 2), example_state True (example_log @ [MakeExecutable [''d'', ''bin'', ''app'']]) 12)"
proof -
  have "tx_bind (tx_map_err ArPayload (validate_payload (\<lambda>_. IoOk) [''d''] example_package)) (\<lambda>_.
      tx_bind (set_executable (\<lambda>_. IoOk) (resolve_within (mf_entrypoint example_package) [''d''])) (\<lambda>_.
      tx_ok (example_package, 2 :: nat, 2 :: nat))) (example_state False example_log 8)
     = (Ok (example_package, 2, 2), example_state True (example_log @ [MakeExecutable [''d'', ''bin'', ''app'']]) 12)" by code_simp
  moreover have "contains_name \<lparr>ex_files = 2, ex_bytes = 2, ex_names = [''paper.toml'', ''bin/app'']\<rparr> MANIFEST_FILE_NAME" by code_simp
  moreover have "xe_io example_extract = (\<lambda>_. IoOk)" by (simp add: example_extract_def)
  ultimately show ?thesis
    by (simp add: extract_package_def bind_run [where m = "extract_tree example_extract example_limits [''d'']", OF example_tree]
        bind_run [where m = "tx_map_err ArManifest (read_package (xe_lib example_extract) (\<lambda>_. IoOk) [''d''])",
          OF map_err_run [where m = "read_package (xe_lib example_extract) (\<lambda>_. IoOk) [''d'']", OF example_read]])
qed

lemma example_here: "rooted example_disk" "real_dir example_disk [''d'']"
proof -
  show "rooted example_disk" by code_simp
  have "take k [''d''] = [] \<or> take k [''d''] = [''d'']" for k by (cases k) simp_all
  moreover have "node_at example_disk [] = Some DirNode" "node_at example_disk [''d''] = Some DirNode" "plain_component ''d''" by code_simp+
  ultimately show "real_dir example_disk [''d'']" unfolding real_dir_def by (metis list.pred_inject)
qed

theorem extraction_stays_inside_witness:
  "node_at (tx_disk (example_state True [] 0)) [''d'', ''bin'', ''app''] = Some (FileNode [7] True)
    \<and> good_path [''d''] [''d'', ''bin'', ''app'']"
proof -
  let ?d = "tx_disk (example_state True [] 0)"
  have d: "apply_writes put_tree example_disk (example_log @ [MakeExecutable [''d'', ''bin'', ''app'']]) = ?d" by code_simp
  have "?d \<in> cuts put_tree (extract_package example_extract example_limits [''d'']) example_disk"
    unfolding cuts_def example_extraction using crash_points_end [of put_tree example_disk "example_log @ [MakeExecutable [''d'', ''bin'', ''app'']]"] d
    by (simp add: example_state_def)
  note inside = extraction_stays_inside [OF example_here this]
  have "node_at ?d [''d'', ''bin'', ''app''] = Some (FileNode [7] True)" "node_at example_disk [''d'', ''bin'', ''app''] = None" by code_simp+
  with inside show ?thesis by blast
qed

theorem extracted_files_are_the_archives_witness:
  "(MANIFEST_FILE_NAME, [120]) \<in> set (wanted (archive_items example_extract example_limits))
    \<and> node_at (tx_disk (example_state True [] 0)) [''d'', ''bin'', ''app''] = Some (FileNode [7] True)"
proof -
  note files = extracted_files_are_the_archives [OF example_here example_extraction,
      THEN conjunct2, THEN conjunct2, THEN conjunct2, THEN conjunct2, THEN conjunct2, rule_format, of "[''bin'', ''app'']" "[7]" True]
  have w: "wanted (archive_items example_extract example_limits) = [(''paper.toml'', [120]), (''bin/app'', [7])]"
    unfolding example_archive_items by code_simp
  have "(''bin/app'', [7]) \<in> set (wanted (archive_items example_extract example_limits))" by (simp add: w)
  moreover have "path_components ''bin/app'' = [''bin'', ''app'']" "path_components (mf_entrypoint example_package) = [''bin'', ''app'']" by code_simp+
  ultimately have "node_at (tx_disk (example_state True (example_log @ [MakeExecutable [''d'', ''bin'', ''app'']]) 12)) ([''d''] @ [''bin'', ''app''])
      = Some (FileNode [7] True)" by (intro files [THEN iffD2] exI [of _ "''bin/app''"]) simp_all
  moreover have "tx_disk (example_state True (example_log @ [MakeExecutable [''d'', ''bin'', ''app'']]) 12)
      = tx_disk (example_state True [] 0)" by (simp add: example_state_def)
  ultimately show ?thesis using w by (simp add: MANIFEST_FILE_NAME_def)
qed

theorem unpacking_is_bounded_witness:
  "sum_list (map makes (tx_log (snd (extract_package example_extract example_limits [''d''] (tx_start example_disk))))) = 3
    \<and> 3 \<le> 256 * al_entries example_limits"
proof -
  have "sum_list (map (case_option 0 (length \<circ> te_data)) (xe_untar example_extract bs)) \<le> length bs" for bs
    by (simp add: example_extract_def example_entry_def)
  note bound = unpacking_is_bounded [OF this, of example_limits "[''d'']" example_disk]
  have "sum_list (map makes (tx_log (snd (extract_package example_extract example_limits [''d''] (tx_start example_disk))))) = 3"
    unfolding example_extraction by (simp add: example_state_def example_log_def)
  with bound show ?thesis by linarith
qed

end
