(* ===== verification/Spec2Isabelle.thy ===== *)
theory Spec2Isabelle
  imports Supervisor Readiness Boot SudokuPuzzle AppSession Codec Compositor PlatformRecovery PackageAtomic ChessPlay Delivery Processes StatusFile ArchiveSafe
begin

text \<open>
  A verification library for paperclip, an application environment for a tablet: a boot
  launcher brings up a supervisor, which hands the display to Home and to apps and back to
  the stock software; apps draw through a compositor and talk to it over a framed protocol;
  a platform updater and an app installer change what is on disk; a catalogue says what may
  be installed. Every definition is translated from the Rust sources under \<open>src/\<close>; crates that
  are not there (TOML, SemVer, tar, SHA-256, Ed25519, the chess rules) and what the kernel
  and systemd answer are arguments of the definitions that use them.

  \<^bold>\<open>The theories and the code\<close>

  \<^item> Prelude: results (\<open>Ok\<close> and \<open>Err\<close> of a sum), durations in nanoseconds with saturating
    arithmetic, decimal numbers, \<open>split\<close>/\<open>join\<close>/\<open>trim\<close> on texts, folding a machine over
    events, and what is on disk when a prefix of the durable writes has happened.
  \<^item> Float32: IEEE single precision for the damage rectangles (rounding to nearest even).
  \<^item> Supervisor: \<open>platform/host/src/state.rs\<close>, the display state machine. A state is the
    record \<open>machine\<close>, an event gives the new machine and its list of actions.
  \<^item> Readiness: \<open>platform/host/src/readiness.rs\<close> and \<open>progress.rs\<close>, the ladder a starting
    platform climbs and the progress witness of a running app.
  \<^item> Boot: \<open>platform/boot/src\<close> (counter, marker, policy, launcher) with the autostart
    commands of \<open>tools/paperctl/src/device.rs\<close>.
  \<^item> SudokuTypes, SudokuRng, SudokuSolve, SudokuPuzzle: \<open>apps/sudoku-rules/src\<close>.
  \<^item> ChessTypes, ChessGame, ChessPlay: \<open>apps/chess-rules/src\<close> over the chess crate, which is
    the record \<open>chess_lib\<close> of its functions.
  \<^item> Protocol, AppSession, Codec: \<open>platform/protocol/src\<close>, the messages, the host side of a
    conversation, and the length-prefixed frames over any fragmentation of the stream.
  \<^item> Surface, Compositor: \<open>platform/compositor/src\<close> (\<open>surface.rs\<close>, \<open>pool.rs\<close>, \<open>wire.rs\<close>, \<open>server.rs\<close>).
  \<^item> Transaction: programs over a disk that may lose power at every durable write. A program
    asks the environment numbered questions, appends its writes to a log, and a triple says
    what holds at every cut, when it returns and when it fails.
  \<^item> PlatformUpdate, PlatformRecovery: \<open>platform/updater/src\<close> in that language.
  \<^item> PackageInstall, PackageRecovery, PackageAtomic: \<open>platform/packages/src/install.rs\<close> and
    \<open>store.rs\<close> in that language.
  \<^item> Canonical, Signing, Paths, Catalog, CatalogTrust, Delivery: \<open>digest.rs\<close>, \<open>signing.rs\<close>,
    \<open>release.rs\<close>, \<open>catalog.rs\<close>, \<open>id.rs\<close> of \<open>platform/packages/src\<close> and \<open>path.rs\<close> of the
    protocol, up to a release delivered from the publisher's key to the store of a device.
  \<^item> FileTree, PackageManifest, Archive, ArchiveSafe: \<open>archive.rs\<close>, \<open>manifest.rs\<close>, \<open>capability.rs\<close>
    and the readers of \<open>digest.rs\<close> of \<open>platform/packages/src\<close>. FileTree has the calls of the
    file system that they make (create, read, stat, permissions) on a tree with directories, files and
    links, where each call can fail or be the last one.
  \<^item> Stock, Takeover, TakeoverSafe, StartBudget: \<open>stock.rs\<close>, \<open>session.rs\<close>, \<open>takeover.rs\<close> and
    \<open>hold.rs\<close> of \<open>platform/device/src\<close>. The tablet is the record \<open>tablet\<close> (is stock up, the
    record of starts, systemd's counter, the wakelocks, the vendor's registry and what each start
    of stock found in it, the guardian), and its operations are programs of Transaction that can
    be killed at every write.
  \<^item> Recovery, Processes, Runtime, RuntimeSafe, StatusFile: \<open>platform/host/src/linux\<close>
    (\<open>recovery.rs\<close>, \<open>process.rs\<close>, \<open>runtime.rs\<close>) and the reader of the status file in
    \<open>platform/updater/src/linux.rs\<close>.

  \<^bold>\<open>How the parts meet\<close>

  \<^item> The loop of Runtime feeds the machine of Supervisor with what it observes (events) and
    executes the machine's actions on the tablet of Stock; a restore is the program of Recovery.
    RuntimeSafe shows that the loop is a refinement of the machine, and reads the machine's
    theorems back as facts about the tablet.
  \<^item> The ladder and the progress watch of Readiness are held by the loop. The ladder's rung is
    written to the status file, which the watch of PlatformUpdate polls (StatusFile).
  \<^item> The messages of Protocol are framed by Codec, answered by AppSession on the side of one
    connection, and by Compositor, whose buffers are the surfaces of Surface.
  \<^item> PlatformUpdate, PackageInstall, Catalog and Stock all are programs over Transaction's disk;
    the same triples and the same rule for power cuts carry their safety theorems.
  \<^item> Delivery composes Signing, Catalog and PackageInstall.

  \<^bold>\<open>What the lemmas show\<close>

  \<^item> Taking over the display: at every moment at which a session can be killed stock runs or a
    guardian is armed, but for a stop that failed after it took effect and for the last step of a
    release that failed; no start trips the limiter over any history of sessions, guardians,
    recoveries and supervisors; the record of starts stays in its bound; a session that reports
    success leaves stock running, started on the registry as it was; the recovery brings stock back.
  \<^item> The supervisor: nothing is reported on the panel that was not observed, a failed machine is
    at rest until an operator retries, silence halts it, the states it reaches are consistent (the
    one leftover, a recovery outside \<open>Recovering\<close>, is described where it is), a
    crash is followed by stock within two passes, the boot launcher gives up after three launches.
  \<^item> Processes: emptying a tree ends after one SIGTERM and one SIGKILL pass and signals no
    process that is protected.
  \<^item> Apps: puzzles have one solution and the solver counts solutions; moves keep the rules;
    chess games are their histories, end, and survive saving.
  \<^item> Protocol and compositor: frames survive fragmentation, a conversation answers one frame at
    a time, a client in the background takes the panel from nobody, a locked screen is dark.
  \<^item> Updates and installs: power cuts anywhere, also in the recoveries, leave the old or the new
    state, recovery ends, rollbacks undo each other; in a sound store a marker means the whole
    signed archive, at every write, except in the one release that a pruning install is removing.
  \<^item> Archives: wherever unpacking stops, only plain files and directories below the destination
    were made; they are those the archive names, and their number and bytes are bounded.
  \<^item> Trust: what verifies was published under its domain, accepted indexes never go back, paths
    stay in their directory, and a delivered release carries the publisher's digest: a fresh one
    is the whole of that archive, one that was there already is so as far as its marker was true.

  The contracts that several components share are the locales of Prelude (a machine that keeps an
  invariant and is limited to allowed actions, a machine with a level that never falls), of
  Canonical (a text form that is the only one of its value) and of Compositor (what serving a
  client may change); each is interpreted on the machines of the code.

  \<^bold>\<open>Bounds, fuel and widths\<close>

  \<^item> The solver's recursion has fuel \<open>search_fuel\<close> = 82, one more than the cells of a grid; each
    level fills a cell, so it is never used up (the lemmas on \<open>fill\<close> show a result for every grid).
  \<^item> The launcher's watch for Home ends within 91 polls, its timeout over its interval and one more;
    \<open>watch_fuel\<close> of the updater is the same quotient of its deadline and its interval.
  \<^item> Waiting for a free panel and for the vendor's registry poll 50 and 60 times, as the loops of
    \<open>takeover.rs\<close> do.
  \<^item> The sweep's loop is a \<open>partial_function\<close>, shown to return always.
  \<^item> The supervisor's loop runs for a number of passes, which every theorem quantifies over.
  \<^item> Sequence numbers, lengths, coordinates and the generator's state are words of the width of
    the code, with its checked, saturating or wrapping operations; durations are natural numbers of
    nanoseconds with the saturation of the code.
  \<^item> Texts are lists of bytes (\<open>string\<close>); white space is that of ASCII, in which the files and
    messages that are trimmed here are written.

  \<^bold>\<open>Choices of the tablet's model\<close>

  \<^item> The limiter's counter never falls by itself, only by \<open>reset-failed\<close>. systemd lets starts leave
    its window, so it refuses no more than the model does, and what never trips here never trips there.
  \<^item> Recovery does not consult the budget, as in the code, so the record may pass its limit there;
    \<open>reset-failed\<close> comes before each of its starts.
  \<^item> The wait for an active unit is one question: between the start and the answer nothing of the
    model changes the unit, so the polls of the code that come before the deciding one change nothing.

  \<^item> Whatever starts the unit, the stock software may then rewrite the vendor's registry, as may the
    presenter of a session while it runs. Between the look that finds the registry clear and the
    start nobody writes it: the presenter has ended. systemd's own restarts of a stock that
    crashes are not modelled; the health check refuses a unit that has used them up.

  \<^bold>\<open>Not modelled\<close>

  \<^item> Pixels: glyphs, layouts and drawing of the apps, of the SDK and of the compositor, the waveform
    engine behind its FFI. Their values are colours and coordinates without a contract in the code.
  \<^item> The publishing side (generating keys and signing documents), command line front
    ends, development tools, diagnostics and logging.
  \<^item> Descriptor passing, memory maps, epoll, threads and the calls of \<open>systemctl\<close>: what they
    answer is an argument of the model.
  \<^item> Crates that are not under \<open>src/\<close>: TOML, SemVer, JSON, hashes, signatures, tar, gzip and the
    chess library are parameters; the theorems that need something of them name it as a hypothesis.
\<close>

end
